(* ===== verification/Js_Base.thy ===== *)
theory Js_Base
  imports Complex_Main "HOL-Library.Sublist"
begin

text \<open>
  The part of JavaScript the front end under \<^verbatim>\<open>src/public/\<close> relies on: numbers with
  \<^verbatim>\<open>NaN\<close> and the infinities, dynamically typed values, truthiness, \<^verbatim>\<open>String()\<close>,
  the string methods (\<^verbatim>\<open>slice\<close>, \<^verbatim>\<open>indexOf\<close>, \<^verbatim>\<open>split\<close>, \<^verbatim>\<open>trim\<close>,
  case mapping), \<^verbatim>\<open>parseInt(_, 16)\<close>, \<^verbatim>\<open>parseFloat\<close>, property access, and
  objects as insertion-ordered association lists.

  Conventions.  A finite number is the exact rational it denotes: rounding of IEEE doubles
  is not modelled, \<^verbatim>\<open>NaN\<close> and the infinities are.  A string is a list of 8-bit
  code units; case mapping is the ASCII one.
\<close>

named_theorems js_simps \<open>evaluation rules of the JavaScript library functions\<close>

section \<open>Numbers\<close>

datatype jsnum = NaN | PInf | NInf | Fin rat

fun num_less :: "jsnum \<Rightarrow> jsnum \<Rightarrow> bool" where
  "num_less (Fin a) (Fin b) = (a < b)"
| "num_less NInf (Fin _) = True"
| "num_less NInf PInf = True"
| "num_less (Fin _) PInf = True"
| "num_less _ _ = False"

fun num_eq :: "jsnum \<Rightarrow> jsnum \<Rightarrow> bool" where
  "num_eq NaN _ = False"
| "num_eq a b = (a = b)"

definition num_le :: "jsnum \<Rightarrow> jsnum \<Rightarrow> bool" where
  "num_le a b = (num_less a b \<or> num_eq a b)"

fun num_is_nan :: "jsnum \<Rightarrow> bool" where
  "num_is_nan NaN = True"
| "num_is_nan _ = False"

definition num_min :: "jsnum \<Rightarrow> jsnum \<Rightarrow> jsnum" where
  "num_min a b = (if num_is_nan a \<or> num_is_nan b then NaN else if num_less b a then b else a)"

definition num_max :: "jsnum \<Rightarrow> jsnum \<Rightarrow> jsnum" where
  "num_max a b = (if num_is_nan a \<or> num_is_nan b then NaN else if num_less a b then b else a)"

lemma num_le_Fin [simp]: "num_le (Fin a) (Fin b) = (a \<le> b)"
  by (auto simp: num_le_def)

lemma num_less_irrefl [simp]: "\<not> num_less a a"
  by (cases a) auto

lemma num_less_trans: "num_less a b \<Longrightarrow> num_less b c \<Longrightarrow> num_less a c"
  by (cases a; cases b; cases c) auto

lemma num_less_nanD: "num_less a b \<Longrightarrow> \<not> num_is_nan a \<and> \<not> num_is_nan b"
  by (cases a; cases b) auto

lemma num_less_total:
  "\<not> num_is_nan a \<Longrightarrow> \<not> num_is_nan b \<Longrightarrow> num_less a b \<or> a = b \<or> num_less b a"
  by (cases a; cases b) auto

lemma num_le_min_max:
  assumes "\<not> num_is_nan a" "\<not> num_is_nan b"
  shows "num_le (num_min a b) x \<and> num_le x (num_max a b) \<longleftrightarrow>
         (num_le a x \<and> num_le x b) \<or> (num_le b x \<and> num_le x a)"
  using assms
  by (cases a; cases b; cases x) (auto simp: num_min_def num_max_def num_le_def)

section \<open>Characters and strings\<close>

abbreviation code :: "char \<Rightarrow> nat" where
  "code c \<equiv> of_char c"

definition is_digit :: "char \<Rightarrow> bool" where
  "is_digit c = (48 \<le> code c \<and> code c \<le> 57)"

definition is_upper :: "char \<Rightarrow> bool" where
  "is_upper c = (65 \<le> code c \<and> code c \<le> 90)"

definition is_lower :: "char \<Rightarrow> bool" where
  "is_lower c = (97 \<le> code c \<and> code c \<le> 122)"

definition is_alpha :: "char \<Rightarrow> bool" where
  "is_alpha c = (is_upper c \<or> is_lower c)"

definition is_hex :: "char \<Rightarrow> bool" where
  "is_hex c = (is_digit c \<or> (65 \<le> code c \<and> code c \<le> 70) \<or> (97 \<le> code c \<and> code c \<le> 102))"

text \<open>White space of \<^verbatim>\<open>trim\<close> and of \<^verbatim>\<open>\s\<close> among the 8-bit code units.\<close>

definition is_ws :: "char \<Rightarrow> bool" where
  "is_ws c = ((9 \<le> code c \<and> code c \<le> 13) \<or> code c = 32 \<or> code c = 160)"

definition lower_char :: "char \<Rightarrow> char" where
  "lower_char c = (if is_upper c then char_of (code c + 32) else c)"

definition upper_char :: "char \<Rightarrow> char" where
  "upper_char c = (if is_lower c then char_of (code c - 32) else c)"

definition toLowerCase :: "string \<Rightarrow> string" where
  "toLowerCase s = map lower_char s"

definition toUpperCase :: "string \<Rightarrow> string" where
  "toUpperCase s = map upper_char s"

definition trim :: "string \<Rightarrow> string" where
  "trim s = rev (dropWhile is_ws (rev (dropWhile is_ws s)))"

lemmas char_class_defs = is_digit_def is_upper_def is_lower_def is_alpha_def is_hex_def is_ws_def

lemma code_char_of: "n < 256 \<Longrightarrow> code (char_of n) = n"
  by (simp add: of_char_of)

lemma char_eq_code: "c = d \<longleftrightarrow> code c = code d"
  by simp

lemma lower_char_idem [simp]: "lower_char (lower_char c) = lower_char c"
  by (auto simp: lower_char_def is_upper_def of_char_of)

lemma toLowerCase_idem [simp]: "toLowerCase (toLowerCase s) = toLowerCase s"
  by (simp add: toLowerCase_def)

lemma length_toLowerCase [simp]: "length (toLowerCase s) = length s"
  by (simp add: toLowerCase_def)

lemma length_toUpperCase [simp]: "length (toUpperCase s) = length s"
  by (simp add: toUpperCase_def)

lemma toLowerCase_append [simp]: "toLowerCase (s @ t) = toLowerCase s @ toLowerCase t"
  by (simp add: toLowerCase_def)

lemma toLowerCase_take: "toLowerCase (take n s) = take n (toLowerCase s)"
  by (simp add: toLowerCase_def take_map)

lemma is_hex_lower [simp]: "is_hex (lower_char c) = is_hex c"
  by (auto simp: lower_char_def is_hex_def is_digit_def is_upper_def of_char_of)

lemma trim_no_ws: "s \<noteq> [] \<Longrightarrow> \<not> is_ws (hd s) \<Longrightarrow> \<not> is_ws (last s) \<Longrightarrow> trim s = s"
  by (simp add: trim_def dropWhile_eq_self_iff [THEN iffD2] hd_rev)

text \<open>\<^verbatim>\<open>s.startsWith(p)\<close>, \<^verbatim>\<open>s.endsWith(p)\<close>, \<^verbatim>\<open>s.indexOf(p)\<close>.\<close>

definition starts_with :: "string \<Rightarrow> string \<Rightarrow> bool" where
  "starts_with p s = (take (length p) s = p)"

fun index_of :: "string \<Rightarrow> string \<Rightarrow> nat option" where
  "index_of p [] = (if p = [] then Some 0 else None)"
| "index_of p (c # s) =
     (if starts_with p (c # s) then Some 0 else map_option Suc (index_of p s))"

lemma starts_with_prefix: "starts_with p s \<longleftrightarrow> prefix p s"
  by (metis append_eq_conv_conj prefix_def starts_with_def)

lemma starts_with_Nil [simp]: "starts_with [] s"
  by (simp add: starts_with_def)

lemma index_of_0: "index_of p s = Some 0 \<longleftrightarrow> starts_with p s"
  by (cases s) (auto simp: starts_with_def)

lemma index_of_Some_split:
  "index_of p s = Some n \<Longrightarrow> s = take n s @ p @ drop (n + length p) s"
proof (induction s arbitrary: n)
  case Nil
  then show ?case by (auto split: if_splits)
next
  case (Cons c s)
  show ?case
  proof (cases "starts_with p (c # s)")
    case True
    with Cons.prems have "n = 0" by simp
    with True show ?thesis
      by (metis append_Nil append_take_drop_id plus_nat.add_0 starts_with_def take0)
  next
    case False
    with Cons obtain m where "index_of p s = Some m" and "n = Suc m" by auto
    with Cons.IH show ?thesis by force
  qed
qed

lemma index_of_None_iff: "index_of p s = None \<longleftrightarrow> \<not> sublist p s"
proof (induction s)
  case Nil
  then show ?case by simp
next
  case (Cons c s)
  then show ?case by (auto simp: sublist_Cons_right starts_with_prefix)
qed

lemma index_of_bound: "index_of p s = Some n \<Longrightarrow> n + length p \<le> length s"
proof (induction s arbitrary: n)
  case Nil
  then show ?case by (auto split: if_splits)
next
  case (Cons c s)
  then show ?case
    by (auto simp: starts_with_prefix split: if_splits dest: prefix_length_le)
qed

text \<open>\<^verbatim>\<open>s.split(c)\<close> for a one-character separator, and \<^verbatim>\<open>xs.join(sep)\<close>.\<close>

fun split_on :: "char \<Rightarrow> string \<Rightarrow> string list" where
  "split_on c [] = [[]]"
| "split_on c (x # s) =
     (if x = c then [] # split_on c s
      else (case split_on c s of [] \<Rightarrow> [[x]] | w # ws \<Rightarrow> (x # w) # ws))"

fun join :: "string \<Rightarrow> string list \<Rightarrow> string" where
  "join sep [] = []"
| "join sep [w] = w"
| "join sep (w # v # ws) = w @ sep @ join sep (v # ws)"

lemma split_on_not_Nil [simp]: "split_on c s \<noteq> []"
  by (cases s) (auto split: list.split)

lemma split_on_no_sep: "c \<notin> set s \<Longrightarrow> split_on c s = [s]"
  by (induction s) auto

lemma split_on_append_sep:
  "c \<notin> set w \<Longrightarrow> split_on c (w @ c # s) = w # split_on c s"
  by (induction w) auto

lemma split_join:
  "ws \<noteq> [] \<Longrightarrow> \<forall>w\<in>set ws. c \<notin> set w \<Longrightarrow> split_on c (join [c] ws) = ws"
proof (induction "[c]" ws rule: join.induct)
  case (3 w v ws)
  then show ?case by (simp add: split_on_append_sep)
qed (auto simp: split_on_no_sep)

lemma join_split: "join [c] (split_on c s) = s"
proof (induction s)
  case (Cons x s)
  obtain w ws where w: "split_on c s = w # ws" by (cases "split_on c s") auto
  with Cons show ?case by (cases ws) auto
qed simp

section \<open>Digits, \<^verbatim>\<open>parseInt\<close> and \<^verbatim>\<open>parseFloat\<close>\<close>

definition digit_val :: "char \<Rightarrow> nat" where
  "digit_val c = code c - 48"

definition hex_val :: "char \<Rightarrow> nat" where
  "hex_val c = (if is_digit c then code c - 48
                else if code c \<le> 70 then code c - 55 else code c - 87)"

definition digit_char :: "nat \<Rightarrow> char" where
  "digit_char d = char_of (d + 48)"

text \<open>A hexadecimal digit as \<^verbatim>\<open>n.toString(16)\<close> prints it (lower case).\<close>

definition hex_char :: "nat \<Rightarrow> char" where
  "hex_char d = (if d < 10 then char_of (d + 48) else char_of (d + 87))"

definition dec_value :: "string \<Rightarrow> nat" where
  "dec_value s = foldl (\<lambda>n c. 10 * n + digit_val c) 0 s"

definition hex_value :: "string \<Rightarrow> nat" where
  "hex_value s = foldl (\<lambda>n c. 16 * n + hex_val c) 0 s"

lemma hex_literals:
  "is_hex CHR ''0''" "is_hex CHR ''1''" "is_hex CHR ''2''" "is_hex CHR ''3''" "is_hex CHR ''4''" "is_hex CHR ''5''" "is_hex CHR ''6''" "is_hex CHR ''7''" "is_hex CHR ''8''" "is_hex CHR ''9''" "is_hex CHR ''a''" "is_hex CHR ''b''" "is_hex CHR ''c''" "is_hex CHR ''d''" "is_hex CHR ''e''" "is_hex CHR ''f''" "is_hex CHR ''A''" "is_hex CHR ''B''" "is_hex CHR ''C''" "is_hex CHR ''D''" "is_hex CHR ''E''" "is_hex CHR ''F''"
  by (simp_all add: is_hex_def is_digit_def)

lemma hex_val_less: "is_hex c \<Longrightarrow> hex_val c < 16"
  by (auto simp: hex_val_def is_hex_def is_digit_def)

lemma hex_val_char [simp]: "d < 16 \<Longrightarrow> hex_val (hex_char d) = d"
  by (auto simp: hex_val_def hex_char_def is_digit_def of_char_of)

lemma is_hex_char [simp]: "d < 16 \<Longrightarrow> is_hex (hex_char d)"
  by (auto simp: is_hex_def hex_char_def is_digit_def of_char_of)

lemma hex_char_val: "is_hex c \<Longrightarrow> hex_char (hex_val c) = lower_char c"
  by (auto simp: hex_char_def hex_val_def is_hex_def is_digit_def lower_char_def is_upper_def
           char_eq_code of_char_of simp del: of_char_eq_iff)

lemma hex_val_lower [simp]: "is_hex c \<Longrightarrow> hex_val (lower_char c) = hex_val c"
  by (auto simp: hex_val_def is_hex_def is_digit_def lower_char_def is_upper_def of_char_of)

lemma is_digit_char [simp]: "d < 10 \<Longrightarrow> is_digit (digit_char d)"
  by (simp add: is_digit_def digit_char_def of_char_of)

lemma digit_val_char [simp]: "d < 10 \<Longrightarrow> digit_val (digit_char d) = d"
  by (simp add: digit_val_def digit_char_def of_char_of)

lemma digit_char_inj: "a < 10 \<Longrightarrow> b < 10 \<Longrightarrow> digit_char a = digit_char b \<longleftrightarrow> a = b"
  by (metis digit_val_char)

text \<open>
  \<^verbatim>\<open>parseInt(s, 16)\<close>: leading white space, an optional sign, an optional \<^verbatim>\<open>0x\<close>,
  then the longest run of hexadecimal digits; \<open>None\<close> is \<^verbatim>\<open>NaN\<close>.
\<close>

definition strip_0x :: "string \<Rightarrow> string" where
  "strip_0x s = (case s of
      c # d # r \<Rightarrow> if c = CHR ''0'' \<and> (d = CHR ''x'' \<or> d = CHR ''X'') then r else s
    | _ \<Rightarrow> s)"

definition parse_sign :: "string \<Rightarrow> bool \<times> string" where
  "parse_sign s = (case s of
      c # r \<Rightarrow> if c = CHR ''-'' then (True, r) else if c = CHR ''+'' then (False, r) else (False, s)
    | [] \<Rightarrow> (False, []))"

definition parseInt16 :: "string \<Rightarrow> int option" where
  "parseInt16 s =
     (let (neg, r) = parse_sign (dropWhile is_ws s);
          ds = takeWhile is_hex (strip_0x r)
      in if ds = [] then None
         else Some (if neg then - int (hex_value ds) else int (hex_value ds)))"

text \<open>
  \<^verbatim>\<open>parseFloat(s)\<close>: leading white space, an optional sign, \<^verbatim>\<open>Infinity\<close> or a
  decimal literal (the longest prefix that is one).
\<close>

definition dec_rat :: "string \<Rightarrow> string \<Rightarrow> rat" where
  "dec_rat ip fp = rat_of_nat (dec_value (ip @ fp)) / 10 ^ length fp"

definition parse_exp :: "string \<Rightarrow> int" where
  "parse_exp s = (case s of
      c # r \<Rightarrow>
        if c = CHR ''e'' \<or> c = CHR ''E'' then
          (let (neg, r') = parse_sign r; ds = takeWhile is_digit r'
           in if neg then - int (dec_value ds) else int (dec_value ds))
        else 0
    | [] \<Rightarrow> 0)"

definition scale10 :: "rat \<Rightarrow> int \<Rightarrow> rat" where
  "scale10 q e = (if e < 0 then q / 10 ^ nat (- e) else q * 10 ^ nat e)"

definition parseFloat :: "string \<Rightarrow> jsnum" where
  "parseFloat s =
     (let (neg, r) = parse_sign (dropWhile is_ws s) in
      if starts_with ''Infinity'' r then (if neg then NInf else PInf) else
      (let ip = takeWhile is_digit r;
           r1 = dropWhile is_digit r;
           fp = (case r1 of c # r2 \<Rightarrow> if c = CHR ''.'' then takeWhile is_digit r2 else [] | [] \<Rightarrow> []);
           r3 = (case r1 of c # r2 \<Rightarrow> if c = CHR ''.'' then dropWhile is_digit r2 else r1 | [] \<Rightarrow> [])
       in if ip = [] \<and> fp = [] then NaN
          else (let q = scale10 (dec_rat ip fp) (parse_exp r3)
                in Fin (if neg then - q else q))))"

section \<open>Printing numbers\<close>

fun nat_to_dec :: "nat \<Rightarrow> string" where
  "nat_to_dec n = (if n < 10 then [digit_char n] else nat_to_dec (n div 10) @ [digit_char (n mod 10)])"

declare nat_to_dec.simps [simp del]

fun frac_digits :: "nat \<Rightarrow> rat \<Rightarrow> string" where
  "frac_digits 0 f = []"
| "frac_digits (Suc k) f =
     (if f = 0 then []
      else digit_char (nat \<lfloor>f * 10\<rfloor>) # frac_digits k (f * 10 - of_int \<lfloor>f * 10\<rfloor>))"

text \<open>
  \<^verbatim>\<open>String(x)\<close> for a number: plain decimal notation, up to 17 fractional digits (the
  exponent notation JavaScript uses below \<open>10\<^sup>-\<^sup>6\<close> and from \<open>10\<^sup>2\<^sup>1\<close> is not modelled).
\<close>

definition rat_to_string :: "rat \<Rightarrow> string" where
  "rat_to_string q =
     (let a = \<bar>q\<bar>; ip = nat \<lfloor>a\<rfloor>; fp = frac_digits 17 (a - of_int \<lfloor>a\<rfloor>)
      in (if q < 0 then ''-'' else []) @ nat_to_dec ip @ (if fp = [] then [] else ''.'' @ fp))"

fun num_to_string :: "jsnum \<Rightarrow> string" where
  "num_to_string NaN = ''NaN''"
| "num_to_string PInf = ''Infinity''"
| "num_to_string NInf = ''-Infinity''"
| "num_to_string (Fin q) = rat_to_string q"

lemma nat_to_dec_not_Nil [simp]: "nat_to_dec n \<noteq> []"
  by (subst nat_to_dec.simps) simp

lemma nat_to_dec_digits: "c \<in> set (nat_to_dec n) \<Longrightarrow> is_digit c"
proof (induction n rule: nat_to_dec.induct)
  case (1 n)
  then show ?case
    by (cases "n < 10") (auto simp: nat_to_dec.simps [of n])
qed

lemma dec_value_snoc: "dec_value (s @ [c]) = 10 * dec_value s + digit_val c"
  by (simp add: dec_value_def)

lemma dec_value_nat_to_dec [simp]: "dec_value (nat_to_dec n) = n"
proof (induction n rule: nat_to_dec.induct)
  case (1 n)
  show ?case
  proof (cases "n < 10")
    case True
    then show ?thesis by (simp add: nat_to_dec.simps [of n] dec_value_def)
  next
    case False
    with 1 show ?thesis by (simp add: nat_to_dec.simps [of n] dec_value_snoc)
  qed
qed

lemma nat_to_dec_inj: "nat_to_dec m = nat_to_dec n \<longleftrightarrow> m = n"
  by (metis dec_value_nat_to_dec)

section \<open>Values\<close>

datatype jsval =
    JUndef
  | JNull
  | JBool bool
  | JNum jsnum
  | JStr string
  | JArr "jsval list"
  | JObj "(string \<times> jsval) list"
  | JFun string

fun truthy :: "jsval \<Rightarrow> bool" where
  "truthy JUndef = False"
| "truthy JNull = False"
| "truthy (JBool b) = b"
| "truthy (JNum n) = (n \<noteq> NaN \<and> n \<noteq> Fin 0)"
| "truthy (JStr s) = (s \<noteq> [])"
| "truthy (JArr _) = True"
| "truthy (JObj _) = True"
| "truthy (JFun _) = True"

fun nullish :: "jsval \<Rightarrow> bool" where
  "nullish JUndef = True"
| "nullish JNull = True"
| "nullish _ = False"

text \<open>\<^verbatim>\<open>a || b\<close>.\<close>

definition js_or :: "jsval \<Rightarrow> jsval \<Rightarrow> jsval" where
  "js_or a b = (if truthy a then a else b)"

text \<open>\<^verbatim>\<open>String(v)\<close>; the elements of an array are joined by commas, null ones as the empty string.\<close>

fun js_String :: "jsval \<Rightarrow> string" where
  "js_String JUndef = ''undefined''"
| "js_String JNull = ''null''"
| "js_String (JBool b) = (if b then ''true'' else ''false'')"
| "js_String (JNum n) = num_to_string n"
| "js_String (JStr s) = s"
| "js_String (JArr vs) = join '','' (map (\<lambda>v. if nullish v then [] else js_String v) vs)"
| "js_String (JObj _) = ''[object Object]''"
| "js_String (JFun f) = ''function '' @ f @ ''() { [native code] }''"

fun is_num :: "jsval \<Rightarrow> bool" where
  "is_num (JNum _) = True"
| "is_num _ = False"

fun is_str :: "jsval \<Rightarrow> bool" where
  "is_str (JStr _) = True"
| "is_str _ = False"

fun is_arr :: "jsval \<Rightarrow> bool" where
  "is_arr (JArr _) = True"
| "is_arr _ = False"

fun is_bool :: "jsval \<Rightarrow> bool" where
  "is_bool (JBool _) = True"
| "is_bool _ = False"

text \<open>\<^verbatim>\<open>typeof v === 'object'\<close>.\<close>

fun is_object :: "jsval \<Rightarrow> bool" where
  "is_object JNull = True"
| "is_object (JArr _) = True"
| "is_object (JObj _) = True"
| "is_object _ = False"

text \<open>The numeric value of \<^verbatim>\<open>typeof v === 'number' ? v : parseFloat(v)\<close>.\<close>

fun as_float :: "jsval \<Rightarrow> jsnum" where
  "as_float (JNum n) = n"
| "as_float v = parseFloat (js_String v)"

text \<open>\<^verbatim>\<open>a === b\<close> on primitive values (objects are compared by identity and never equal here).\<close>

fun strict_eq :: "jsval \<Rightarrow> jsval \<Rightarrow> bool" where
  "strict_eq JUndef JUndef = True"
| "strict_eq JNull JNull = True"
| "strict_eq (JBool a) (JBool b) = (a = b)"
| "strict_eq (JNum a) (JNum b) = num_eq a b"
| "strict_eq (JStr a) (JStr b) = (a = b)"
| "strict_eq _ _ = False"

section \<open>Objects and property access\<close>

text \<open>
  An object is an association list in insertion order: assigning to a present key keeps its
  place, a new key goes to the end, \<^verbatim>\<open>delete\<close> removes it.
\<close>

type_synonym 'v obj = "(string \<times> 'v) list"

fun obj_set :: "'v obj \<Rightarrow> string \<Rightarrow> 'v \<Rightarrow> 'v obj" where
  "obj_set [] k v = [(k, v)]"
| "obj_set ((k', v') # o') k v = (if k' = k then (k, v) # o' else (k', v') # obj_set o' k v)"

definition obj_del :: "'v obj \<Rightarrow> string \<Rightarrow> 'v obj" where
  "obj_del ob k = filter (\<lambda>kv. fst kv \<noteq> k) ob"

abbreviation obj_get :: "'v obj \<Rightarrow> string \<Rightarrow> 'v option" where
  "obj_get ob k \<equiv> map_of ob k"

abbreviation obj_keys :: "'v obj \<Rightarrow> string list" where
  "obj_keys ob \<equiv> map fst ob"

definition obj_wf :: "'v obj \<Rightarrow> bool" where
  "obj_wf ob = distinct (obj_keys ob)"

lemma obj_get_set: "obj_get (obj_set ob k v) = (obj_get ob)(k \<mapsto> v)"
  by (induction ob k v rule: obj_set.induct) (auto simp: fun_eq_iff)

lemma obj_get_del: "obj_get (obj_del ob k) = (obj_get ob)(k := None)"
  by (induction ob) (auto simp: obj_del_def fun_eq_iff)

lemma set_keys_obj_set [simp]: "fst ` set (obj_set ob k v) = insert k (fst ` set ob)"
  by (induction ob k v rule: obj_set.induct) auto

lemma obj_keys_set:
  "obj_keys (obj_set ob k v) = (if k \<in> fst ` set ob then obj_keys ob else obj_keys ob @ [k])"
  by (induction ob k v rule: obj_set.induct) auto

lemma obj_wf_set [simp, intro]: "obj_wf ob \<Longrightarrow> obj_wf (obj_set ob k v)"
  unfolding obj_wf_def by (subst obj_keys_set) auto

lemma obj_wf_del [simp, intro]: "obj_wf ob \<Longrightarrow> obj_wf (obj_del ob k)"
  unfolding obj_wf_def obj_del_def by (rule distinct_map_filter)

lemma obj_wf_Nil [simp]: "obj_wf []"
  by (simp add: obj_wf_def)

text \<open>
  The contract of a keyed store, and the operations every client of one relies on: a write is
  read back, leaves other keys alone, and a removal really removes.
\<close>

locale key_store =
  fixes empty :: 's
    and get :: "'s \<Rightarrow> string \<Rightarrow> 'v option"
    and put :: "'s \<Rightarrow> string \<Rightarrow> 'v \<Rightarrow> 's"
    and del :: "'s \<Rightarrow> string \<Rightarrow> 's"
    and ok :: "'s \<Rightarrow> bool"
  assumes get_empty: "get empty k = None"
    and get_put: "ok s \<Longrightarrow> get (put s k v) k' = (if k' = k then Some v else get s k')"
    and get_del: "ok s \<Longrightarrow> get (del s k) k' = (if k' = k then None else get s k')"
    and ok_empty: "ok empty"
    and ok_put: "ok s \<Longrightarrow> ok (put s k v)"
    and ok_del: "ok s \<Longrightarrow> ok (del s k)"
begin

lemma ok_puts: "ok s \<Longrightarrow> ok (foldl (\<lambda>s (k, v). put s k v) s kvs)"
  by (induction kvs arbitrary: s) (auto intro: ok_put)

lemma get_puts:
  "ok s \<Longrightarrow> get (foldl (\<lambda>s (k, v). put s k v) s kvs) k =
     (case map_of (rev kvs) k of Some v \<Rightarrow> Some v | None \<Rightarrow> get s k)"
proof (induction kvs arbitrary: s)
  case (Cons kv kvs)
  obtain a b where kv: "kv = (a, b)" by (cases kv)
  from Cons.prems have "ok (put s a b)" by (rule ok_put)
  from Cons.IH [OF this] Cons.prems show ?case
    by (auto simp: kv get_put map_add_def split: option.splits)
qed simp

lemma put_del_id: "ok s \<Longrightarrow> get s k = None \<Longrightarrow> get (del (put s k v) k) k' = get s k'"
  by (simp add: get_del get_put ok_put)

end

interpretation jsobj: key_store "[]" obj_get obj_set obj_del obj_wf
  by unfold_locales (auto simp: obj_get_set obj_get_del)

text \<open>The names every object inherits from \<^verbatim>\<open>Object.prototype\<close>.\<close>

definition object_proto :: "string list" where
  "object_proto =
     [''constructor'', ''hasOwnProperty'', ''isPrototypeOf'', ''propertyIsEnumerable'',
      ''toLocaleString'', ''toString'', ''valueOf'', ''__defineGetter__'', ''__defineSetter__'',
      ''__lookupGetter__'', ''__lookupSetter__'', ''__proto__'']"

text \<open>
  \<^verbatim>\<open>TABLE[k]\<close> for an object literal used as a lookup table: an own entry, else an inherited
  member (a truthy function or object), else \<^verbatim>\<open>undefined\<close>.
\<close>

definition table_get :: "jsval obj \<Rightarrow> string \<Rightarrow> jsval" where
  "table_get t k = (case obj_get t k of Some v \<Rightarrow> v
                    | None \<Rightarrow> if k \<in> set object_proto then JFun k else JUndef)"

definition nat_of_index :: "string \<Rightarrow> nat option" where
  "nat_of_index s = (if s \<noteq> [] \<and> list_all is_digit s \<and> nat_to_dec (dec_value s) = s
                     then Some (dec_value s) else None)"

text \<open>
  \<^verbatim>\<open>v[k]\<close>: \<open>None\<close> is the \<^verbatim>\<open>TypeError\<close> of a property access on null or undefined.
  Methods of the built-in prototypes other than \<^verbatim>\<open>Object\<close>'s are not listed: reading one
  as a value gives \<^verbatim>\<open>undefined\<close> here.
\<close>

fun js_get :: "jsval \<Rightarrow> string \<Rightarrow> jsval option" where
  "js_get JUndef k = None"
| "js_get JNull k = None"
| "js_get (JObj ob) k = Some (table_get ob k)"
| "js_get (JArr vs) k =
     Some (if k = ''length'' then JNum (Fin (of_nat (length vs)))
           else case nat_of_index k of
                  Some i \<Rightarrow> if i < length vs then vs ! i else JUndef
                | None \<Rightarrow> table_get [] k)"
| "js_get (JStr s) k =
     Some (if k = ''length'' then JNum (Fin (of_nat (length s)))
           else case nat_of_index k of
                  Some i \<Rightarrow> if i < length s then JStr [s ! i] else JUndef
                | None \<Rightarrow> table_get [] k)"
| "js_get (JBool b) k = Some (table_get [] k)"
| "js_get (JNum n) k = Some (table_get [] k)"
| "js_get (JFun f) k = Some (table_get [] k)"

text \<open>A property of a value known to be an object: missing is \<^verbatim>\<open>undefined\<close>.\<close>

definition js_prop :: "jsval \<Rightarrow> string \<Rightarrow> jsval" where
  "js_prop v k = (case js_get v k of Some w \<Rightarrow> w | None \<Rightarrow> JUndef)"

lemma table_get_own: "obj_get t k = Some v \<Longrightarrow> table_get t k = v"
  by (simp add: table_get_def)

lemma table_get_absent:
  "obj_get t k = None \<Longrightarrow> k \<notin> set object_proto \<Longrightarrow> table_get t k = JUndef"
  by (simp add: table_get_def)

end
