(* ===== verification/Js_Json.thy ===== *)
theory Js_Json
  imports Js_Base
begin

text \<open>
  \<^verbatim>\<open>JSON.parse\<close> and \<^verbatim>\<open>JSON.stringify\<close>, which the front end uses for the packet
  fields (\<^verbatim>\<open>path_json\<close>, \<^verbatim>\<open>decoded_json\<close>) and for everything it keeps in
  \<^verbatim>\<open>localStorage\<close>.  The parser is a recursive descent over the text with fuel; its fuel
  is the length of the text, which \<open>json_parse_text\<close> shows to be enough on every text
  that \<^verbatim>\<open>JSON.stringify\<close> prints.  Escapes above \<^verbatim>\<open>\u00FF\<close> are outside the string model
  and are rejected.
\<close>

section \<open>Printing\<close>

fun json_escape :: "char \<Rightarrow> string" where
  "json_escape c =
     (if c = CHR 0x22 then [CHR 0x5C, CHR 0x22]
      else if c = CHR 0x5C then [CHR 0x5C, CHR 0x5C]
      else if c = CHR 0x08 then [CHR 0x5C, CHR ''b'']
      else if c = CHR 0x0C then [CHR 0x5C, CHR ''f'']
      else if c = CHR 0x0A then [CHR 0x5C, CHR ''n'']
      else if c = CHR 0x0D then [CHR 0x5C, CHR ''r'']
      else if c = CHR 0x09 then [CHR 0x5C, CHR ''t'']
      else if code c < 32 then
        [CHR 0x5C, CHR ''u'', CHR ''0'', CHR ''0'', hex_char (code c div 16), hex_char (code c mod 16)]
      else [c])"

definition json_quote :: "string \<Rightarrow> string" where
  "json_quote s = CHR 0x22 # concat (map json_escape s) @ [CHR 0x22]"

fun json_omit :: "jsval \<Rightarrow> bool" where
  "json_omit JUndef = True"
| "json_omit (JFun _) = True"
| "json_omit _ = False"

text \<open>
  The text of a value inside a document: \<^verbatim>\<open>undefined\<close>, functions and the non-finite numbers
  print as \<^verbatim>\<open>null\<close> (members with such a value are left out of objects).
\<close>

fun json_text :: "jsval \<Rightarrow> string" where
  "json_text JUndef = ''null''"
| "json_text (JFun _) = ''null''"
| "json_text JNull = ''null''"
| "json_text (JBool b) = (if b then ''true'' else ''false'')"
| "json_text (JNum n) = (case n of Fin q \<Rightarrow> rat_to_string q | _ \<Rightarrow> ''null'')"
| "json_text (JStr s) = json_quote s"
| "json_text (JArr vs) = ''['' @ join '','' (map json_text vs) @ '']''"
| "json_text (JObj ob) =
     ''{'' @ join '','' (map (\<lambda>(k, v). json_quote k @ CHR '':'' # json_text v)
                            (filter (\<lambda>(k, v). \<not> json_omit v) ob)) @ ''}''"

text \<open>\<^verbatim>\<open>JSON.stringify(v)\<close>: \<open>None\<close> is the result \<^verbatim>\<open>undefined\<close>.\<close>

definition json_stringify :: "jsval \<Rightarrow> string option" where
  "json_stringify v = (if json_omit v then None else Some (json_text v))"

section \<open>Parsing\<close>

definition json_ws :: "char \<Rightarrow> bool" where
  "json_ws c = (code c = 32 \<or> code c = 9 \<or> code c = 10 \<or> code c = 13)"

abbreviation skip_ws :: "string \<Rightarrow> string" where
  "skip_ws \<equiv> dropWhile json_ws"

definition unescape_char :: "char \<Rightarrow> char option" where
  "unescape_char c =
     (if c = CHR 0x22 \<or> c = CHR 0x5C \<or> c = CHR ''/'' then Some c
      else if c = CHR ''b'' then Some (CHR 0x08)
      else if c = CHR ''f'' then Some (CHR 0x0C)
      else if c = CHR ''n'' then Some (CHR 0x0A)
      else if c = CHR ''r'' then Some (CHR 0x0D)
      else if c = CHR ''t'' then Some (CHR 0x09)
      else None)"

definition hex4 :: "char \<Rightarrow> char \<Rightarrow> char \<Rightarrow> char \<Rightarrow> char option" where
  "hex4 a b c d =
     (if is_hex a \<and> is_hex b \<and> is_hex c \<and> is_hex d \<and> hex_value [a, b, c, d] < 256
      then Some (char_of (hex_value [a, b, c, d])) else None)"

text \<open>The body of a string literal after its opening quote.\<close>

fun json_str :: "string \<Rightarrow> (string \<times> string) option" where
  "json_str [] = None"
| "json_str (c # s) =
     (if c = CHR 0x22 then Some ([], s)
      else if c = CHR 0x5C then
        (case s of
           [] \<Rightarrow> None
         | e # s1 \<Rightarrow>
             (if e = CHR ''u'' then
                (case s1 of
                   h1 # h2 # h3 # h4 # s2 \<Rightarrow>
                     (case hex4 h1 h2 h3 h4 of
                        None \<Rightarrow> None
                      | Some x \<Rightarrow> map_option (\<lambda>(t, r). (x # t, r)) (json_str s2))
                 | _ \<Rightarrow> None)
              else (case unescape_char e of
                      None \<Rightarrow> None
                    | Some x \<Rightarrow> map_option (\<lambda>(t, r). (x # t, r)) (json_str s1))))
      else if code c < 32 then None
      else map_option (\<lambda>(t, r). (c # t, r)) (json_str s))"

text \<open>A number literal: the longest prefix of number characters, which must have the JSON shape.\<close>

definition json_num_char :: "char \<Rightarrow> bool" where
  "json_num_char c = (is_digit c \<or> c = CHR ''-'' \<or> c = CHR ''+'' \<or> c = CHR ''.''
                      \<or> c = CHR ''e'' \<or> c = CHR ''E'')"

definition json_int_part :: "string \<Rightarrow> bool" where
  "json_int_part s = (s \<noteq> [] \<and> list_all is_digit s \<and> (hd s = CHR ''0'' \<longrightarrow> s = ''0''))"

definition json_exp_part :: "string \<Rightarrow> bool" where
  "json_exp_part s = (case s of
      [] \<Rightarrow> True
    | c # r \<Rightarrow> (c = CHR ''e'' \<or> c = CHR ''E'') \<and>
              (let ds = snd (parse_sign r) in ds \<noteq> [] \<and> list_all is_digit ds))"

definition json_num_shape :: "string \<Rightarrow> bool" where
  "json_num_shape s =
     (let u = (case s of c # r \<Rightarrow> if c = CHR ''-'' then r else s | [] \<Rightarrow> []);
          ip = takeWhile is_digit u; r = dropWhile is_digit u
      in json_int_part ip \<and>
         (case r of
            [] \<Rightarrow> True
          | c # r1 \<Rightarrow>
              if c = CHR ''.'' then takeWhile is_digit r1 \<noteq> [] \<and> json_exp_part (dropWhile is_digit r1)
              else json_exp_part r))"

definition json_num :: "string \<Rightarrow> (jsval \<times> string) option" where
  "json_num s =
     (let t = takeWhile json_num_char s
      in if json_num_shape t then Some (JNum (parseFloat t), dropWhile json_num_char s) else None)"

fun json_val :: "nat \<Rightarrow> string \<Rightarrow> (jsval \<times> string) option"
and json_elems :: "nat \<Rightarrow> string \<Rightarrow> (jsval list \<times> string) option"
and json_members :: "nat \<Rightarrow> string \<Rightarrow> ((string \<times> jsval) list \<times> string) option" where
  "json_val 0 s = None"
| "json_val (Suc n) s =
     (case skip_ws s of
        [] \<Rightarrow> None
      | c # r \<Rightarrow>
          if c = CHR 0x22 then map_option (\<lambda>(t, r'). (JStr t, r')) (json_str r)
          else if c = CHR ''['' then
            (case skip_ws r of
               [] \<Rightarrow> None
             | d # r1 \<Rightarrow> if d = CHR '']'' then Some (JArr [], r1)
                        else map_option (\<lambda>(vs, r'). (JArr vs, r')) (json_elems n r))
          else if c = CHR ''{'' then
            (case skip_ws r of
               [] \<Rightarrow> None
             | d # r1 \<Rightarrow> if d = CHR ''}'' then Some (JObj [], r1)
                        else map_option (\<lambda>(ms, r'). (JObj (foldl (\<lambda>ob (k, v). obj_set ob k v) [] ms), r'))
                               (json_members n r))
          else if starts_with ''true'' (c # r) then Some (JBool True, drop 4 (c # r))
          else if starts_with ''false'' (c # r) then Some (JBool False, drop 5 (c # r))
          else if starts_with ''null'' (c # r) then Some (JNull, drop 4 (c # r))
          else json_num (c # r))"
| "json_elems 0 s = None"
| "json_elems (Suc n) s =
     (case json_val n s of
        None \<Rightarrow> None
      | Some (v, r) \<Rightarrow>
          (case skip_ws r of
             [] \<Rightarrow> None
           | c # r1 \<Rightarrow>
               if c = CHR '']'' then Some ([v], r1)
               else if c = CHR '','' then map_option (\<lambda>(vs, r'). (v # vs, r')) (json_elems n r1)
               else None))"
| "json_members 0 s = None"
| "json_members (Suc n) s =
     (case skip_ws s of
        [] \<Rightarrow> None
      | q # s1 \<Rightarrow>
          if q \<noteq> CHR 0x22 then None
          else (case json_str s1 of
                  None \<Rightarrow> None
                | Some (k, s2) \<Rightarrow>
                    (case skip_ws s2 of
                       [] \<Rightarrow> None
                     | col # s3 \<Rightarrow>
                         if col \<noteq> CHR '':'' then None
                         else (case json_val n s3 of
                                 None \<Rightarrow> None
                               | Some (v, r) \<Rightarrow>
                                   (case skip_ws r of
                                      [] \<Rightarrow> None
                                    | c # r1 \<Rightarrow>
                                        if c = CHR ''}'' then Some ([(k, v)], r1)
                                        else if c = CHR '','' then
                                          map_option (\<lambda>(ms, r'). ((k, v) # ms, r')) (json_members n r1)
                                        else None)))))"

text \<open>\<^verbatim>\<open>JSON.parse(s)\<close>: \<open>None\<close> is the \<^verbatim>\<open>SyntaxError\<close> it throws.\<close>

definition json_parse :: "string \<Rightarrow> jsval option" where
  "json_parse s =
     (case json_val (Suc (length s)) s of
        None \<Rightarrow> None
      | Some (v, r) \<Rightarrow> if skip_ws r = [] then Some v else None)"

section \<open>Round trip\<close>

text \<open>Numbers with at most 17 decimal places.\<close>

definition dec_num :: "rat \<Rightarrow> bool" where
  "dec_num q = (q * 10 ^ 17 \<in> \<int>)"

lemma dec_num_of_int [simp]: "dec_num (of_int i)"
  unfolding dec_num_def by (intro Ints_mult Ints_power) auto

lemma dec_num_of_nat [simp]: "dec_num (of_nat n)"
  using dec_num_of_int [of "int n"] by simp

text \<open>Values that survive a round trip: numbers with finitely many places, no undefined or function, distinct keys.\<close>

fun json_ok :: "jsval \<Rightarrow> bool" where
  "json_ok JNull = True"
| "json_ok (JBool _) = True"
| "json_ok (JNum n) = (case n of Fin q \<Rightarrow> dec_num q | _ \<Rightarrow> False)"
| "json_ok (JStr _) = True"
| "json_ok (JArr vs) = (\<forall>v\<in>set vs. json_ok v)"
| "json_ok (JObj ob) = (distinct (map fst ob) \<and> (\<forall>kv\<in>set ob. json_ok (snd kv)))"
| "json_ok _ = False"


lemma hex4_escape:
  "code c < 32 \<Longrightarrow> hex4 (CHR ''0'') (CHR ''0'') (hex_char (code c div 16)) (hex_char (code c mod 16)) = Some c"
  by (simp add: hex4_def hex_value_def hex_val_def [of "CHR ''0''"] is_hex_def [of "CHR ''0''"]
      is_digit_def [of "CHR ''0''"])

lemma json_str_escape: "json_str (json_escape c @ s) = map_option (\<lambda>(t, r). (c # t, r)) (json_str s)"
  by (auto simp: unescape_char_def hex4_escape)

lemma json_str_quote:
  "json_str (concat (map json_escape s) @ CHR 0x22 # r) = Some (s, r)"
  by (induction s) (simp_all add: json_str_escape del: json_escape.simps)

definition num_ends :: "string \<Rightarrow> bool" where
  "num_ends r = (case r of [] \<Rightarrow> True | c # _ \<Rightarrow> \<not> json_num_char c)"

lemma takeWhile_num_ends: "num_ends r \<Longrightarrow> list_all json_num_char s \<Longrightarrow> takeWhile json_num_char (s @ r) = s"
  by (induction s) (auto simp: num_ends_def split: list.splits)
lemma dropWhile_num_ends: "num_ends r \<Longrightarrow> list_all json_num_char s \<Longrightarrow> dropWhile json_num_char (s @ r) = r"
  by (induction s) (auto simp: num_ends_def split: list.splits)

lemma frac_digits_0 [simp]: "frac_digits n 0 = []"
  by (cases n) auto
lemma rat_to_string_int: "rat_to_string (of_int i) = (if i < 0 then ''-'' else []) @ nat_to_dec (nat \<bar>i\<bar>)"
proof -
  have a: "\<lfloor>\<bar>rat_of_int i\<bar>\<rfloor> = \<bar>i\<bar>" by (metis floor_of_int of_int_abs)
  have b: "\<bar>rat_of_int i\<bar> - of_int \<lfloor>\<bar>rat_of_int i\<bar>\<rfloor> = 0" unfolding a by simp
  show ?thesis unfolding rat_to_string_def Let_def b unfolding a by simp
qed

lemma nat_to_dec_hd0: "hd (nat_to_dec n) = CHR ''0'' \<Longrightarrow> nat_to_dec n = ''0''"
proof (induction n rule: nat_to_dec.induct)
  case (1 n)
  show ?case
  proof (cases "n < 10")
    case True
    with 1 show ?thesis by (simp add: nat_to_dec.simps [of n])
  next
    case False
    with 1 have "nat_to_dec (n div 10) = ''0''"
      by (simp add: nat_to_dec.simps [of n])
    then have "dec_value (nat_to_dec (n div 10)) = dec_value ''0''" by (rule arg_cong)
    then have "n div 10 = dec_value ''0''" by (simp only: dec_value_nat_to_dec)
    then have "n div 10 = 0" by (simp add: dec_value_def digit_val_def)
    with False show ?thesis by simp
  qed
qed

lemma nat_to_dec_all_digits: "list_all is_digit (nat_to_dec n)"
  by (auto simp: list_all_iff dest: nat_to_dec_digits)

lemma takeWhile_nat_to_dec [simp]: "takeWhile is_digit (nat_to_dec n) = nat_to_dec n"
  by (simp add: takeWhile_eq_all_conv nat_to_dec_digits)
lemma dropWhile_nat_to_dec [simp]: "dropWhile is_digit (nat_to_dec n) = []"
  by (simp add: dropWhile_eq_Nil_conv nat_to_dec_digits)

lemma json_int_part_dec: "json_int_part (nat_to_dec n)"
  by (simp add: json_int_part_def nat_to_dec_all_digits nat_to_dec_hd0)

lemma hd_digit: obtains c r where "nat_to_dec n = c # r" "is_digit c"
  by (metis list.exhaust list.set_intros(1) nat_to_dec_digits nat_to_dec_not_Nil)

lemma digit_facts: "is_digit c \<Longrightarrow> c \<noteq> CHR ''-'' \<and> c \<noteq> CHR ''+'' \<and> c \<noteq> CHR ''I'' \<and> \<not> is_ws c \<and> \<not> json_ws c
  \<and> c \<noteq> CHR ''t'' \<and> c \<noteq> CHR ''f'' \<and> c \<noteq> CHR ''n'' \<and> c \<noteq> CHR ''['' \<and> c \<noteq> CHR ''{'' \<and> c \<noteq> CHR 0x22 \<and> c \<noteq> CHR '']'' \<and> c \<noteq> CHR ''}''"
  by (auto simp: is_digit_def is_ws_def json_ws_def)

lemma parseFloat_digits:
  assumes "ds \<noteq> []" "list_all is_digit ds"
  shows "parseFloat ds = Fin (of_nat (dec_value ds))"
    and "parseFloat (CHR ''-'' # ds) = Fin (- of_nat (dec_value ds))"
proof -
  obtain c r where c: "ds = c # r" "is_digit c" using assms by (cases ds) auto
  note d = digit_facts [OF c(2)]
  have t: "takeWhile is_digit ds = ds" "dropWhile is_digit ds = []" "dropWhile is_ws ds = ds"
    using assms c d by (auto simp: takeWhile_eq_all_conv dropWhile_eq_Nil_conv list_all_iff)
  have s: "parse_sign ds = (False, ds)" "\<not> starts_with ''Infinity'' ds"
    using c d by (auto simp: parse_sign_def starts_with_def)
  have w: "dropWhile is_ws (CHR ''-'' # ds) = CHR ''-'' # ds" by (simp add: is_ws_def)
  show "parseFloat ds = Fin (of_nat (dec_value ds))"
    unfolding parseFloat_def t(3) s(1)
    using s(2) t(1,2) c(1) by (simp add: dec_rat_def parse_exp_def scale10_def)
  show "parseFloat (CHR ''-'' # ds) = Fin (- of_nat (dec_value ds))"
    unfolding parseFloat_def w
    using s(2) t(1,2) c(1) by (simp add: parse_sign_def dec_rat_def parse_exp_def scale10_def)
qed

lemma parseFloat_int: "parseFloat (rat_to_string (of_int i)) = Fin (of_int i)"
  using parseFloat_digits [OF nat_to_dec_not_Nil nat_to_dec_all_digits]
  by (auto simp: rat_to_string_int abs_if)

lemma dec_value_app: "dec_value (s @ t) = dec_value s * 10 ^ length t + dec_value t"
proof (induction t rule: rev_induct)
  case (snoc c t)
  have "dec_value (s @ t @ [c]) = 10 * dec_value (s @ t) + digit_val c" using dec_value_snoc [of "s @ t" c] by simp
  with snoc show ?case by (simp add: dec_value_snoc algebra_simps)
qed (simp add: dec_value_def)

lemma frac_step:
  fixes f :: rat
  assumes "0 \<le> f" "f < 1"
  shows "nat \<lfloor>f * 10\<rfloor> < 10" "0 \<le> f * 10 - of_int \<lfloor>f * 10\<rfloor>" "f * 10 - of_int \<lfloor>f * 10\<rfloor> < 1"
proof -
  have "\<lfloor>f * 10\<rfloor> < 10" using assms by (simp add: floor_less_iff)
  then show "nat \<lfloor>f * 10\<rfloor> < 10" using assms(1) by (simp add: nat_less_iff)
  show "0 \<le> f * 10 - of_int \<lfloor>f * 10\<rfloor>" "f * 10 - of_int \<lfloor>f * 10\<rfloor> < 1" by (simp_all, linarith)
qed

lemma frac_digits_digits: "0 \<le> f \<Longrightarrow> f < 1 \<Longrightarrow> list_all is_digit (frac_digits k f)"
proof (induction k f rule: frac_digits.induct)
  case (2 k f)
  then show ?case using frac_step [of f] by simp
qed simp

lemma frac_digits_value:
  "0 \<le> f \<Longrightarrow> f < 1 \<Longrightarrow> f * 10 ^ k \<in> \<int> \<Longrightarrow>
   (of_nat (dec_value (frac_digits k f)) :: rat) / 10 ^ length (frac_digits k f) = f"
proof (induction k f rule: frac_digits.induct)
  case (1 f)
  then obtain i where "f = of_int i" by (auto elim: Ints_cases)
  with 1 have "f = 0" by auto
  then show ?case by (simp add: dec_value_def)
next
  case (2 k f)
  show ?case
  proof (cases "f = 0")
    case True
    then show ?thesis by (simp add: dec_value_def)
  next
    case False
    let ?g = "f * 10 - of_int \<lfloor>f * 10\<rfloor>" and ?r = "frac_digits k (f * 10 - of_int \<lfloor>f * 10\<rfloor>)"
    note st = frac_step [OF "2.prems"(1,2)]
    have "?g * 10 ^ k = f * 10 ^ Suc k - of_int (\<lfloor>f * 10\<rfloor> * 10 ^ k)" by (simp add: algebra_simps)
    then have "?g * 10 ^ k \<in> \<int>" using "2.prems"(3) by (metis Ints_diff Ints_of_int)
    from "2.IH" [OF False st(2,3) this] have IH: "(of_nat (dec_value ?r) :: rat) / 10 ^ length ?r = ?g" .
    have fl: "0 \<le> \<lfloor>f * 10\<rfloor>" using "2.prems"(1) by simp
    have "dec_value (digit_char (nat \<lfloor>f * 10\<rfloor>) # ?r) = nat \<lfloor>f * 10\<rfloor> * 10 ^ length ?r + dec_value ?r"
      using dec_value_app [of "[digit_char (nat \<lfloor>f * 10\<rfloor>)]" ?r] st(1) by (simp add: dec_value_def)
    then have "(of_nat (dec_value (digit_char (nat \<lfloor>f * 10\<rfloor>) # ?r)) :: rat) / 10 ^ Suc (length ?r) =
        (of_int \<lfloor>f * 10\<rfloor> + of_nat (dec_value ?r) / 10 ^ length ?r) / 10"
      using fl by (simp add: field_simps)
    also have "\<dots> = f" unfolding IH by simp
    finally show ?thesis using False by simp
  qed
qed

text \<open>The text of a number that is not negative.\<close>

definition dec_text :: "string \<Rightarrow> string \<Rightarrow> string" where
  "dec_text ip fp = ip @ (if fp = [] then [] else CHR ''.'' # fp)"

lemma rat_to_string_dec:
  assumes "dec_num q"
  obtains n fp where "rat_to_string q = (if q < 0 then ''-'' else []) @ dec_text (nat_to_dec n) fp"
    "list_all is_digit fp" "dec_rat (nat_to_dec n) fp = \<bar>q\<bar>"
proof -
  let ?f = "\<bar>q\<bar> - of_int \<lfloor>\<bar>q\<bar>\<rfloor>"
  let ?n = "nat \<lfloor>\<bar>q\<bar>\<rfloor>" and ?fp = "frac_digits 17 ?f"
  have f: "0 \<le> ?f" "?f < 1" by (simp_all, linarith)
  have "?f * 10 ^ 17 \<in> \<int>"
  proof -
    have "\<bar>q\<bar> * 10 ^ 17 = \<bar>q * 10 ^ 17\<bar>" by (simp add: abs_mult)
    then have "\<bar>q\<bar> * 10 ^ 17 \<in> \<int>" using assms by (simp add: dec_num_def)
    moreover have "of_int \<lfloor>\<bar>q\<bar>\<rfloor> * (10 ^ 17 :: rat) \<in> \<int>" by (intro Ints_mult Ints_power) auto
    ultimately show ?thesis unfolding left_diff_distrib by (rule Ints_diff)
  qed
  from frac_digits_value [OF f this]
  have v: "(of_nat (dec_value ?fp) :: rat) / 10 ^ length ?fp = ?f" .
  have "dec_rat (nat_to_dec ?n) ?fp = of_nat ?n + of_nat (dec_value ?fp) / 10 ^ length ?fp"
    unfolding dec_rat_def dec_value_app by (simp add: field_simps)
  also have "\<dots> = \<bar>q\<bar>" unfolding v by (simp add: of_nat_nat)
  finally have "dec_rat (nat_to_dec ?n) ?fp = \<bar>q\<bar>" .
  then show thesis
    by (rule that [rotated 2]) (simp_all add: rat_to_string_def Let_def dec_text_def frac_digits_digits [OF f])
qed

lemma digits_split:
  assumes "ip \<noteq> []" "list_all is_digit ip" "list_all is_digit fp"
  shows "takeWhile is_digit (dec_text ip fp) = ip"
    "dropWhile is_digit (dec_text ip fp) = (if fp = [] then [] else CHR ''.'' # fp)"
    "takeWhile is_digit fp = fp" "dropWhile is_digit fp = []"
  using assms by (auto simp: dec_text_def takeWhile_append dropWhile_append list_all_iff is_digit_def takeWhile_eq_all_conv
      dropWhile_eq_Nil_conv)

lemma dec_text_hd:
  assumes "ip \<noteq> []" "list_all is_digit ip"
  obtains c r where "dec_text ip fp = c # r" "is_digit c"
  using assms by (cases ip) (auto simp: dec_text_def)

lemma parseFloat_dec:
  assumes ip: "ip \<noteq> []" "list_all is_digit ip" and fp: "list_all is_digit fp"
  shows "parseFloat (dec_text ip fp) = Fin (dec_rat ip fp)"
    and "parseFloat (CHR ''-'' # dec_text ip fp) = Fin (- dec_rat ip fp)"
proof -
  let ?t = "dec_text ip fp"
  obtain c r where c: "?t = c # r" "is_digit c" by (rule dec_text_hd [OF ip])
  note d = digit_facts [OF c(2)]
  note t = digits_split [OF ip fp]
  have s: "dropWhile is_ws ?t = ?t" "parse_sign ?t = (False, ?t)" "\<not> starts_with ''Infinity'' ?t"
    using c d by (auto simp: parse_sign_def starts_with_def)
  have w: "dropWhile is_ws (CHR ''-'' # ?t) = CHR ''-'' # ?t" by (simp add: is_ws_def)
  have body: "(let ipp = takeWhile is_digit ?t; r1 = dropWhile is_digit ?t;
           fpp = (case r1 of c # r2 \<Rightarrow> if c = CHR ''.'' then takeWhile is_digit r2 else [] | [] \<Rightarrow> []);
           r3 = (case r1 of c # r2 \<Rightarrow> if c = CHR ''.'' then dropWhile is_digit r2 else r1 | [] \<Rightarrow> [])
       in if ipp = [] \<and> fpp = [] then NaN
          else (let q = scale10 (dec_rat ipp fpp) (parse_exp r3) in Fin (if neg then - q else q))) =
       Fin (if neg then - dec_rat ip fp else dec_rat ip fp)" for neg
    unfolding t(1,2) Let_def using ip(1) by (simp add: t(3,4) parse_exp_def scale10_def)
  show "parseFloat ?t = Fin (dec_rat ip fp)"
    unfolding parseFloat_def s(1,2) using s(3) body [of False] by simp
  show "parseFloat (CHR ''-'' # ?t) = Fin (- dec_rat ip fp)"
    unfolding parseFloat_def w using s(3) body [of True] by (simp add: parse_sign_def)
qed

lemma json_num_shape_dec:
  assumes "json_int_part ip" "list_all is_digit fp"
  shows "json_num_shape (dec_text ip fp)" and "json_num_shape (CHR ''-'' # dec_text ip fp)"
proof -
  have ip: "ip \<noteq> []" "list_all is_digit ip" using assms(1) by (auto simp: json_int_part_def)
  let ?t = "dec_text ip fp"
  obtain c r where c: "?t = c # r" "is_digit c" by (rule dec_text_hd [OF ip])
  note t = digits_split [OF ip assms(2)]
  have m: "(case ?t of c # r \<Rightarrow> if c = CHR ''-'' then r else ?t | [] \<Rightarrow> []) = ?t"
    using c digit_facts [OF c(2)] by simp
  show "json_num_shape ?t"
    unfolding json_num_shape_def m Let_def t(1,2) using assms(1) by (simp add: t(3,4) json_exp_part_def)
  show "json_num_shape (CHR ''-'' # ?t)"
    unfolding json_num_shape_def list.case if_True refl Let_def
    using assms(1) by (simp add: t json_exp_part_def)
qed

lemma dec_text_chars: "list_all is_digit ip \<Longrightarrow> list_all is_digit fp \<Longrightarrow> list_all json_num_char (dec_text ip fp)"
  by (auto simp: dec_text_def json_num_char_def list_all_iff)

lemma parseFloat_text: "dec_num q \<Longrightarrow> parseFloat (rat_to_string q) = Fin q"
proof -
  assume "dec_num q"
  then obtain n fp where t: "rat_to_string q = (if q < 0 then ''-'' else []) @ dec_text (nat_to_dec n) fp"
    and fp: "list_all is_digit fp" and v: "dec_rat (nat_to_dec n) fp = \<bar>q\<bar>" by (rule rat_to_string_dec)
  show ?thesis using parseFloat_dec [OF nat_to_dec_not_Nil nat_to_dec_all_digits fp, of n] v by (simp add: t)
qed

lemma json_num_dec:
  assumes "dec_num q" "num_ends r"
  shows "json_num (rat_to_string q @ r) = Some (JNum (Fin q), r)"
proof -
  obtain n fp where t: "rat_to_string q = (if q < 0 then ''-'' else []) @ dec_text (nat_to_dec n) fp"
    and fp: "list_all is_digit fp" and v: "dec_rat (nat_to_dec n) fp = \<bar>q\<bar>" by (rule rat_to_string_dec [OF assms(1)])
  note ch = dec_text_chars [OF nat_to_dec_all_digits fp, of n]
  have "list_all json_num_char (rat_to_string q)" using ch by (simp add: t json_num_char_def)
  moreover have "json_num_shape (rat_to_string q)"
    using json_num_shape_dec [OF json_int_part_dec fp, of n] by (simp add: t)
  moreover have "parseFloat (rat_to_string q) = Fin q" using assms(1) by (rule parseFloat_text)
  ultimately show ?thesis
    using assms(2) by (simp add: json_num_def takeWhile_num_ends dropWhile_num_ends)
qed

lemma rat_to_string_hd: obtains c r where "rat_to_string q = c # r" "is_digit c \<or> c = CHR ''-''"
  unfolding rat_to_string_def Let_def
  by (cases "q < 0") (auto intro: hd_digit [of "nat \<lfloor>\<bar>q\<bar>\<rfloor>"])

lemma skip_ws_cons: "\<not> json_ws c \<Longrightarrow> skip_ws (c # r) = c # r" by simp

lemma json_val_num:
  assumes "dec_num q" "num_ends r"
  shows "json_val (Suc n) (rat_to_string q @ r) = Some (JNum (Fin q), r)"
proof -
  obtain c s where c: "rat_to_string q = c # s" "is_digit c \<or> c = CHR ''-''" by (rule rat_to_string_hd)
  then have "\<not> json_ws c" "c \<noteq> CHR 0x22" "c \<noteq> CHR ''[''" "c \<noteq> CHR ''{''" "c \<noteq> CHR ''t''" "c \<noteq> CHR ''f''" "c \<noteq> CHR ''n''"
    by (auto simp: is_digit_def json_ws_def)
  then show ?thesis using json_num_dec [OF assms] by (simp add: c(1) starts_with_def)
qed

lemma json_text_not_Nil [simp]: "json_ok v \<Longrightarrow> json_text v \<noteq> []"
  by (cases v) (auto simp: json_quote_def rat_to_string_def Let_def split: jsnum.splits)

text \<open>No text starts with white space or with a closing bracket.\<close>

lemma json_text_hd:
  assumes "json_ok v"
  shows "\<exists>c r. json_text v = c # r \<and> \<not> json_ws c \<and> c \<noteq> CHR '']'' \<and> c \<noteq> CHR ''}''"
proof (cases v)
  case (JNum n)
  with assms obtain q where "n = Fin q" by (auto split: jsnum.splits)
  moreover obtain c r where "rat_to_string q = c # r" "is_digit c \<or> c = CHR ''-''" by (rule rat_to_string_hd)
  ultimately show ?thesis using JNum by (auto simp: is_digit_def json_ws_def)
qed (use assms in \<open>auto simp: json_quote_def json_ws_def\<close>)

lemma num_ends_Cons [simp]: "num_ends (c # r) = (\<not> json_num_char c)"
  by (simp add: num_ends_def)

lemma json_quote_len: "2 \<le> length (json_quote s)" by (simp add: json_quote_def)

lemma json_elems_text:
  assumes "vs \<noteq> []"
    and "\<And>v m r. v \<in> set vs \<Longrightarrow> length (json_text v) \<le> m \<Longrightarrow> num_ends r \<Longrightarrow> json_val m (json_text v @ r) = Some (v, r)"
    and "length (join '','' (map json_text vs)) < n"
  shows "json_elems n (join '','' (map json_text vs) @ CHR '']'' # r) = Some (vs, r)"
  using assms
proof (induction vs arbitrary: n)
  case (Cons v vs)
  obtain m where n: "n = Suc m" using Cons.prems(3) by (cases n) auto
  have nc: "num_ends (CHR '','' # x)" "num_ends (CHR '']'' # x)" for x by (simp_all add: json_num_char_def is_digit_def)
  have w: "\<not> json_ws (CHR '']'')" "\<not> json_ws (CHR '','')" by (simp_all add: json_ws_def)
  show ?case
  proof (cases vs)
    case Nil
    with Cons.prems n nc w show ?thesis by simp
  next
    case (Cons u us)
    have "json_elems m (join '','' (map json_text vs) @ CHR '']'' # r) = Some (vs, r)"
      by (rule Cons.IH) (use Cons.prems Cons n in auto)
    moreover have "json_val m (json_text v @ CHR '','' # x) = Some (v, CHR '','' # x)" for x
      by (rule Cons.prems(2)) (use Cons.prems(3) Cons n nc in auto)
    ultimately show ?thesis using n w Cons by simp
  qed
qed simp

lemma json_members_text:
  assumes "ob \<noteq> []"
    and "\<And>k v m r. (k, v) \<in> set ob \<Longrightarrow> length (json_text v) \<le> m \<Longrightarrow> num_ends r \<Longrightarrow> json_val m (json_text v @ r) = Some (v, r)"
    and "length (join '','' (map (\<lambda>(k, v). json_quote k @ CHR '':'' # json_text v) ob)) < n"
  shows "json_members n (join '','' (map (\<lambda>(k, v). json_quote k @ CHR '':'' # json_text v) ob) @ CHR ''}'' # r) = Some (ob, r)"
  using assms
proof (induction ob arbitrary: n)
  case (Cons kv ob)
  obtain k v where kv: "kv = (k, v)" by (cases kv)
  obtain m where n: "n = Suc m" using Cons.prems(3) by (cases n) auto
  have nc: "num_ends (CHR '','' # x)" "num_ends (CHR ''}'' # x)" for x by (simp_all add: json_num_char_def is_digit_def)
  have w: "\<not> json_ws (CHR ''}'')" "\<not> json_ws (CHR '','')" "\<not> json_ws (CHR '':'')" "\<not> json_ws (CHR 0x22)" by (simp_all add: json_ws_def)
  note q = json_quote_def json_str_quote
  show ?case
  proof (cases ob)
    case Nil
    with Cons.prems n nc w show ?thesis by (simp add: kv q)
  next
    case (Cons u us)
    have "json_members m (join '','' (map (\<lambda>(k, v). json_quote k @ CHR '':'' # json_text v) ob) @ CHR ''}'' # r) = Some (ob, r)"
      by (rule Cons.IH) (use Cons.prems Cons n in auto)
    moreover have "json_val m (json_text v @ CHR '','' # x) = Some (v, CHR '','' # x)" for x
      by (rule Cons.prems(2)) (use Cons.prems(3) Cons n nc kv in auto)
    ultimately show ?thesis using n w Cons by (simp add: kv q)
  qed
qed simp

lemma json_ok_not_omit: "json_ok v \<Longrightarrow> \<not> json_omit v"
  by (cases v) auto

lemma foldl_obj_set_distinct:
  "distinct (map fst (acc @ ob)) \<Longrightarrow> foldl (\<lambda>ob (k, v). obj_set ob k v) acc ob = acc @ ob"
proof (induction ob arbitrary: acc)
  case (Cons kv ob)
  obtain k v where kv: "kv = (k, v)" by (cases kv)
  from Cons.prems have "k \<notin> fst ` set acc" by (auto simp: kv)
  then have "obj_set acc k v = acc @ [(k, v)]"
    by (induction acc k v rule: obj_set.induct) auto
  with Cons.IH [of "acc @ [(k, v)]"] Cons.prems show ?case by (simp add: kv)
qed simp

lemma filter_json_ok: "\<forall>kv\<in>set ob. json_ok (snd kv) \<Longrightarrow> filter (\<lambda>(k, v). \<not> json_omit v) ob = ob"
  by (auto simp: filter_id_conv json_ok_not_omit)

lemma json_val_text:
  "json_ok v \<Longrightarrow> length (json_text v) \<le> n \<Longrightarrow> num_ends r \<Longrightarrow> json_val n (json_text v @ r) = Some (v, r)"
proof (induction v arbitrary: n r)
  case (JNum x)
  then obtain q where "x = Fin q" "dec_num q" by (auto split: jsnum.splits)
  with JNum json_val_num [of q r] show ?case
    by (cases n) (auto simp: rat_to_string_def Let_def)
next
  case (JArr vs)
  then obtain m where n: "n = Suc m" by (cases n) auto
  show ?case
  proof (cases vs)
    case Nil
    then show ?thesis using n by (simp add: json_ws_def starts_with_def)
  next
    case (Cons u us)
    have e: "json_elems m (join '','' (map json_text vs) @ CHR '']'' # r) = Some (vs, r)"
      by (rule json_elems_text) (use JArr Cons n in auto)
    have "json_ok u" using JArr.prems Cons by simp
    from json_text_hd [OF this] obtain c s
      where "json_text u = c # s" "\<not> json_ws c" "c \<noteq> CHR '']''" by blast
    moreover have "\<exists>t. join '','' (map json_text vs) = json_text u @ t"
      using Cons by (cases us) auto
    ultimately have "\<exists>t. skip_ws (join '','' (map json_text vs) @ CHR '']'' # r) = c # t" by auto
    with e n \<open>c \<noteq> CHR '']''\<close> show ?thesis by (auto simp: json_ws_def)
  qed
next
  case (JObj ob)
  then obtain m where n: "n = Suc m" by (cases n) auto
  have f: "filter (\<lambda>(k, v). \<not> json_omit v) ob = ob"
    by (rule filter_json_ok) (use JObj.prems in auto)
  show ?case
  proof (cases ob)
    case Nil
    then show ?thesis using n by (simp add: json_ws_def starts_with_def)
  next
    case (Cons u us)
    let ?t = "join '','' (map (\<lambda>(k, v). json_quote k @ CHR '':'' # json_text v) ob)"
    have IH: "json_val k (json_text v @ r') = Some (v, r')"
      if "(a, v) \<in> set ob" "length (json_text v) \<le> k" "num_ends r'" for a v k r'
      by (rule JObj.IH [OF that(1)]) (use that JObj.prems in auto)
    have e: "json_members m (?t @ CHR ''}'' # r) = Some (ob, r)"
      by (rule json_members_text) (use IH JObj.prems Cons n f in \<open>auto simp del: join.simps\<close>)
    have "\<exists>s. ?t = CHR 0x22 # s"
      using Cons by (cases u; cases us) (auto simp: json_quote_def)
    then have "\<exists>s. skip_ws (?t @ CHR ''}'' # r) = CHR 0x22 # s" by (auto simp: json_ws_def)
    with e n f JObj.prems(1) foldl_obj_set_distinct [of "[]" ob] show ?thesis
      by (auto simp: json_ws_def)
  qed
next
  case (JStr s)
  then show ?case by (cases n) (auto simp: json_quote_def json_str_quote json_ws_def)
next
  case (JBool b)
  then show ?case by (cases n; cases b) (auto simp: json_ws_def starts_with_def)
next
  case JNull
  then show ?case by (cases n) (auto simp: json_ws_def starts_with_def)
qed auto

lemma json_parse_text: "json_ok v \<Longrightarrow> json_parse (json_text v) = Some v"
  using json_val_text [of v "Suc (length (json_text v))" "[]"]
  by (simp add: json_parse_def num_ends_def)

section \<open>The codec contract\<close>

text \<open>
  What a client of an encoder and decoder pair relies on.  It is interpreted for JSON here and
  for the other text encodings of the front end in their theories.
\<close>

locale codec =
  fixes encode :: "'a \<Rightarrow> string"
    and decode :: "string \<Rightarrow> 'a option"
    and ok :: "'a \<Rightarrow> bool"
  assumes decode_encode: "ok v \<Longrightarrow> decode (encode v) = Some v"
begin

lemma encode_eq_iff: "ok v \<Longrightarrow> ok w \<Longrightarrow> encode v = encode w \<longleftrightarrow> v = w"
  by (metis decode_encode option.inject)

lemma decode_cases:
  "ok v \<Longrightarrow> (case decode (encode v) of None \<Rightarrow> a | Some x \<Rightarrow> f x) = f v"
  by (simp add: decode_encode)

end

interpretation json: codec json_text json_parse json_ok
  by unfold_locales (rule json_parse_text)

text \<open>
  A setting kept in \<^verbatim>\<open>localStorage\<close> (an object from key to text): what is saved is loaded
  back, and only the entry under the setting's key is touched.
\<close>

locale persisted =
  fixes key :: string
    and load :: "string obj \<Rightarrow> 'a"
    and save :: "'a \<Rightarrow> string obj \<Rightarrow> string obj"
    and ok :: "'a \<Rightarrow> bool"
  assumes load_save: "ok v \<Longrightarrow> load (save v ls) = v"
    and save_other: "k \<noteq> key \<Longrightarrow> obj_get (save v ls) k = obj_get ls k"
    and load_cong: "obj_get ls key = obj_get ls' key \<Longrightarrow> load ls = load ls'"
begin

lemma load_save_twice: "ok w \<Longrightarrow> load (save w (save v ls)) = w"
  by (rule load_save)

lemma load_set_other: "k \<noteq> key \<Longrightarrow> load (obj_set ls k t) = load ls"
  by (rule load_cong) (simp add: obj_get_set)

lemma load_del_other: "k \<noteq> key \<Longrightarrow> load (obj_del ls k) = load ls"
  by (rule load_cong) (simp add: obj_get_del)

lemma load_saved_elsewhere: "(\<And>k. k \<noteq> key' \<Longrightarrow> obj_get ls' k = obj_get ls k) \<Longrightarrow> key' \<noteq> key \<Longrightarrow> load ls' = load ls"
  by (rule load_cong) simp

end

end
