(* ===== verification/Packet_Filter_Lex.thy ===== *)
theory Packet_Filter_Lex
  imports Js_Json
begin

text \<open>
  The lexer of the packet filter language (\<^verbatim>\<open>lex\<close> in \<^verbatim>\<open>src/public/packet-filter.js\<close>).
  The index \<open>i\<close> of the source is carried along with the rest of the input, because the error
  messages report positions.  One iteration of the source's \<^verbatim>\<open>while\<close> loop is
  \<open>lex_step\<close>; \<open>lex_from\<close> is the loop, which terminates because every iteration consumes input.
\<close>

section \<open>Tokens and tables\<close>

datatype token =
    FIELD string
  | OP string
  | STRING string
  | NUMBER jsnum
  | BOOL bool
  | DURATION jsnum string
  | AND
  | OR
  | NOT
  | LPAREN
  | RPAREN
  | COMMA

datatype lex_error =
    Unterminated nat
  | HexUnquoted
  | InvalidUnit string nat
  | UnexpectedChar char nat

definition OP_WORDS :: "jsval obj" where
  "OP_WORDS = map (\<lambda>w. (w, JBool True))
     [''contains'', ''starts_with'', ''ends_with'', ''after'', ''before'', ''between'', ''in'']"

definition DURATION_UNITS :: "jsval obj" where
  "DURATION_UNITS = [(''s'', JNum (Fin 1)), (''m'', JNum (Fin 60)), (''h'', JNum (Fin 3600)),
                     (''d'', JNum (Fin 86400)), (''w'', JNum (Fin 604800))]"

section \<open>One iteration of the loop\<close>

definition word_start :: "char \<Rightarrow> bool" where
  "word_start c = (is_alpha c \<or> c = CHR ''_'')"

definition word_char :: "char \<Rightarrow> bool" where
  "word_char c = (is_alpha c \<or> is_digit c \<or> c = CHR ''_'' \<or> c = CHR ''.'')"

text \<open>
  The inner loop of a quoted string, from after the opening quote: the raw contents (a backslash
  protects the next character and stays in the value) and what follows the closing quote.
\<close>

fun scan_quoted :: "string \<Rightarrow> (string \<times> string) option" where
  "scan_quoted [] = None"
| "scan_quoted (c # s) =
     (if c = CHR 0x22 then Some ([], s)
      else if c = CHR 0x5C then
        (case s of
           [] \<Rightarrow> None
         | d # s' \<Rightarrow> map_option (\<lambda>(t, r). (c # d # t, r)) (scan_quoted s'))
      else map_option (\<lambda>(t, r). (c # t, r)) (scan_quoted s))"

text \<open>A minus sign starts a number only at the start of the input or after these tokens.\<close>

fun neg_allowed :: "token \<Rightarrow> bool" where
  "neg_allowed (OP _) = True"
| "neg_allowed AND = True"
| "neg_allowed OR = True"
| "neg_allowed NOT = True"
| "neg_allowed LPAREN = True"
| "neg_allowed _ = False"

definition number_here :: "string \<Rightarrow> token list \<Rightarrow> bool" where
  "number_here s tokens = (case s of
      [] \<Rightarrow> False
    | c # r \<Rightarrow> is_digit c \<or>
              (c = CHR ''-'' \<and> r \<noteq> [] \<and> is_digit (hd r) \<and>
               (tokens = [] \<or> neg_allowed (last tokens))))"

text \<open>The characters of a number literal: sign, digits, and a point with further digits.\<close>

definition scan_number :: "string \<Rightarrow> string \<times> string" where
  "scan_number s =
     (let sign = (if s \<noteq> [] \<and> hd s = CHR ''-'' then ''-'' else []);
          r = drop (length sign) s;
          ip = takeWhile is_digit r;
          r1 = dropWhile is_digit r
      in case r1 of
           [] \<Rightarrow> (sign @ ip, [])
         | c # r2 \<Rightarrow> if c = CHR ''.''
                    then (sign @ ip @ [c] @ takeWhile is_digit r2, dropWhile is_digit r2)
                    else (sign @ ip, r1))"

fun num_times :: "jsnum \<Rightarrow> jsval \<Rightarrow> jsnum" where
  "num_times (Fin a) (JNum (Fin b)) = Fin (a * b)"
| "num_times _ _ = NaN"

text \<open>
  A number with letters behind it is a duration; a unit that is not in the table (own or
  inherited) is an error, which is reported differently when the whole run is a hexadecimal string.
\<close>

definition lex_number :: "nat \<Rightarrow> string \<Rightarrow> token list \<Rightarrow> lex_error + nat \<times> string \<times> token list" where
  "lex_number i s tokens =
     (let (numStr, r) = scan_number s; i' = i + length numStr in
      if r \<noteq> [] \<and> is_alpha (hd r) then
        (let unit = takeWhile is_alpha r; r' = dropWhile is_alpha r; u = table_get DURATION_UNITS unit in
         if \<not> truthy u then
           (let full = numStr @ unit @ takeWhile is_hex r' in
            if list_all is_hex full \<and> 4 \<le> length full then Inl HexUnquoted
            else Inl (InvalidUnit unit i'))
         else Inr (i' + length unit, r',
                   tokens @ [DURATION (num_times (parseFloat numStr) u) (numStr @ unit)]))
      else Inr (i', r, tokens @ [NUMBER (parseFloat numStr)]))"

definition lex_word :: "nat \<Rightarrow> string \<Rightarrow> token list \<Rightarrow> nat \<times> string \<times> token list" where
  "lex_word i s tokens =
     (let word = takeWhile word_char s;
          tok = (if word = ''true'' \<or> word = ''false'' then BOOL (word = ''true'')
                 else if truthy (table_get OP_WORDS word) then OP word
                 else FIELD word)
      in (i + length word, dropWhile word_char s, tokens @ [tok]))"

definition lex_step :: "nat \<Rightarrow> char \<Rightarrow> string \<Rightarrow> token list \<Rightarrow> lex_error + nat \<times> string \<times> token list" where
  "lex_step i c r tokens =
     (let two = take 2 (c # r) in
      if c = CHR '' '' \<or> c = CHR 0x09 then Inr (i + 1, r, tokens)
      else if two = ''&&'' then Inr (i + 2, drop 1 r, tokens @ [AND])
      else if two = ''||'' then Inr (i + 2, drop 1 r, tokens @ [OR])
      else if two = ''=='' \<or> two = ''!='' \<or> two = ''>='' \<or> two = ''<='' then
        Inr (i + 2, drop 1 r, tokens @ [OP two])
      else if c = CHR ''>'' \<or> c = CHR ''<'' then Inr (i + 1, r, tokens @ [OP [c]])
      else if c = CHR ''!'' then Inr (i + 1, r, tokens @ [NOT])
      else if c = CHR ''('' then Inr (i + 1, r, tokens @ [LPAREN])
      else if c = CHR '')'' then Inr (i + 1, r, tokens @ [RPAREN])
      else if c = CHR '','' then Inr (i + 1, r, tokens @ [COMMA])
      else if c = CHR 0x22 then
        (case scan_quoted r of
           None \<Rightarrow> Inl (Unterminated i)
         | Some (t, r') \<Rightarrow> Inr (i + length t + 2, r', tokens @ [STRING t]))
      else if number_here (c # r) tokens then lex_number i (c # r) tokens
      else if word_start c then Inr (lex_word i (c # r) tokens)
      else Inl (UnexpectedChar c i))"

lemma scan_quoted_length: "scan_quoted s = Some (t, r) \<Longrightarrow> length s = length t + 1 + length r"
proof (induction s arbitrary: t r rule: scan_quoted.induct)
  case (2 c s)
  then show ?case by (fastforce split: if_splits list.splits)
qed simp

lemma dropWhile_shorter: "s \<noteq> [] \<Longrightarrow> P (hd s) \<Longrightarrow> length (dropWhile P s) < length s"
  by (cases s) (auto simp: le_imp_less_Suc length_dropWhile_le)

lemma takeWhile_append_eq: "dropWhile P xs = ys \<Longrightarrow> takeWhile P xs @ ys = xs"
  by auto

lemma scan_number_append: "scan_number s = (n, r) \<Longrightarrow> n @ r = s"
  by (cases s) (auto simp: scan_number_def Let_def takeWhile_append_eq split: list.splits if_splits)

lemma scan_number_nonempty: "number_here s tokens \<Longrightarrow> scan_number s = (n, r) \<Longrightarrow> n \<noteq> []"
  by (auto simp: number_here_def scan_number_def Let_def split: list.splits if_splits)

text \<open>
  An iteration either fails at a position inside the input or moves forward by exactly the
  characters it takes off the input.
\<close>

fun error_pos :: "lex_error \<Rightarrow> nat option" where
  "error_pos (Unterminated i) = Some i"
| "error_pos HexUnquoted = None"
| "error_pos (InvalidUnit _ i) = Some i"
| "error_pos (UnexpectedChar _ i) = Some i"

lemma lex_number_step:
  assumes "number_here s tokens"
  shows "case lex_number i s tokens of
           Inl e \<Rightarrow> (\<forall>p. error_pos e = Some p \<longrightarrow> i \<le> p \<and> p < i + length s)
         | Inr (i', s', _) \<Rightarrow> length s' < length s \<and> i' + length s' = i + length s"
proof -
  obtain n r where nr: "scan_number s = (n, r)" by (cases "scan_number s")
  have app: "s = n @ r" using scan_number_append [OF nr] by simp
  have ne: "n \<noteq> []" by (rule scan_number_nonempty [OF assms nr])
  have l: "length (takeWhile is_alpha r) + length (dropWhile is_alpha r) = length r"
    by (metis length_append takeWhile_dropWhile_id)
  have "0 < length n" using ne by simp
  then have "length (dropWhile is_alpha r) < length n + length r" using l by linarith
  moreover have "0 < length r" if "r \<noteq> []" using that by simp
  ultimately show ?thesis
    unfolding lex_number_def nr using l ne by (auto simp: Let_def app)
qed

lemma lex_word_step:
  assumes "word_start c" "lex_word i (c # r) tokens = (i', s', tokens')"
  shows "length s' < length (c # r) \<and> i' + length s' = i + length (c # r)"
proof -
  have w: "word_char c" using assms(1) by (auto simp: word_start_def word_char_def)
  have "length (takeWhile word_char r) + length (dropWhile word_char r) = length r"
    by (metis length_append takeWhile_dropWhile_id)
  with assms(2) w show ?thesis by (auto simp: lex_word_def Let_def)
qed

definition step_ok :: "nat \<Rightarrow> nat \<Rightarrow> lex_error + nat \<times> string \<times> token list \<Rightarrow> bool" where
  "step_ok i n x = (case x of
      Inl e \<Rightarrow> (\<forall>p. error_pos e = Some p \<longrightarrow> i \<le> p \<and> p < i + n)
    | Inr (i', s', _) \<Rightarrow> length s' < n \<and> i' + length s' = i + n)"

lemma lex_number_ok: "number_here s tokens \<Longrightarrow> step_ok i (length s) (lex_number i s tokens)"
  unfolding step_ok_def by (rule lex_number_step)

lemma lex_word_ok: "word_start c \<Longrightarrow> step_ok i (Suc (length r)) (Inr (lex_word i (c # r) tokens))"
  using lex_word_step [of c i r tokens] by (auto simp: step_ok_def split: prod.splits)

lemma lex_quoted_ok:
  "step_ok i (Suc (length r)) (case scan_quoted r of
      None \<Rightarrow> Inl (Unterminated i)
    | Some (t, r') \<Rightarrow> Inr (i + length t + 2, r', tokens @ [STRING t]))"
  by (auto simp: step_ok_def dest: scan_quoted_length split: option.splits)

lemma step_ok_one: "step_ok i (Suc (length r)) (Inr (i + 1, r, t))"
  by (simp add: step_ok_def)

lemma step_ok_two: "take 2 (c # r) = [a, b] \<Longrightarrow> step_ok i (Suc (length r)) (Inr (i + 2, drop 1 r, t))"
  by (cases r) (auto simp: step_ok_def)

lemma step_ok_if:
  "(b \<Longrightarrow> step_ok i n x) \<Longrightarrow> (\<not> b \<Longrightarrow> step_ok i n y) \<Longrightarrow> step_ok i n (if b then x else y)"
  by simp

lemma lex_step_ok: "step_ok i (Suc (length r)) (lex_step i c r tokens)"
proof -
  define two where "two = take 2 (c # r)"
  have two: "step_ok i (Suc (length r)) (Inr (i + 2, drop 1 r, t))" if "two = [a, b]" for a b t
    using that unfolding two_def by (rule step_ok_two)
  have num: "step_ok i (Suc (length r)) (lex_number i (c # r) tokens)" if "number_here (c # r) tokens"
    using lex_number_ok [OF that] by simp
  have err: "step_ok i (Suc (length r)) (Inl (UnexpectedChar c i))"
    by (simp add: step_ok_def)
  show ?thesis
    unfolding lex_step_def Let_def two_def [symmetric]
    by (intro step_ok_if; (elim disjE)?; (rule step_ok_one lex_quoted_ok err
        | erule two | erule lex_word_ok | erule num))
qed

lemma lex_step_shorter: "lex_step i c r tokens = Inr (i', s', t) \<Longrightarrow> length s' < Suc (length r)"
  using lex_step_ok [of i r c tokens] by (simp add: step_ok_def)

section \<open>The loop\<close>

function lex_from :: "nat \<Rightarrow> string \<Rightarrow> token list \<Rightarrow> lex_error + token list" where
  "lex_from i [] tokens = Inr tokens"
| "lex_from i (c # r) tokens =
     (case lex_step i c r tokens of
        Inl e \<Rightarrow> Inl e
      | Inr (i', s', tokens') \<Rightarrow> lex_from i' s' tokens')"
  by pat_completeness auto
termination
  by (relation "measure (\<lambda>(i, s, t). length s)") (auto dest: lex_step_shorter)

definition lex :: "string \<Rightarrow> lex_error + token list" where
  "lex input = lex_from 0 input []"

lemma lex_from_error_pos:
  "lex_from i s tokens = Inl e \<Longrightarrow> error_pos e = Some p \<Longrightarrow> i \<le> p \<and> p < i + length s"
proof (induction i s tokens rule: lex_from.induct)
  case (2 i c r tokens)
  show ?case
  proof (cases "lex_step i c r tokens")
    case (Inl e')
    with 2 lex_step_ok [of i r c tokens] show ?thesis by (auto simp: step_ok_def)
  next
    case (Inr x)
    obtain i' s' t' where x: "x = (i', s', t')" by (cases x)
    from Inr x lex_step_ok [of i r c tokens]
    have "length s' \<le> length r" "i' + length s' = i + Suc (length r)" by (auto simp: step_ok_def)
    moreover from 2 Inr x have "i' \<le> p \<and> p < i' + length s'" by auto
    ultimately show ?thesis by auto
  qed
qed simp

lemma lex_error_pos: "lex s = Inl e \<Longrightarrow> error_pos e = Some p \<Longrightarrow> p < length s"
  unfolding lex_def by (drule (1) lex_from_error_pos) simp

section \<open>Printing tokens and reading them back\<close>

text \<open>
  A printer for tokens, separated by blanks, and the tokens it can print: field names, the
  operators, strings without quotes or backslashes, integers (a negative one only where the lexer
  accepts a sign) and durations.  Reading back what was printed gives the tokens.
\<close>

fun show_token :: "token \<Rightarrow> string" where
  "show_token (FIELD w) = w"
| "show_token (OP w) = w"
| "show_token (STRING t) = CHR 0x22 # t @ [CHR 0x22]"
| "show_token (NUMBER n) = num_to_string n"
| "show_token (BOOL b) = (if b then ''true'' else ''false'')"
| "show_token (DURATION v raw) = raw"
| "show_token AND = ''&&''"
| "show_token OR = ''||''"
| "show_token NOT = ''!''"
| "show_token LPAREN = ''(''"
| "show_token RPAREN = '')''"
| "show_token COMMA = '',''"

definition field_name :: "string \<Rightarrow> bool" where
  "field_name w = (w \<noteq> [] \<and> word_start (hd w) \<and> list_all word_char w \<and>
     w \<noteq> ''true'' \<and> w \<noteq> ''false'' \<and> \<not> truthy (table_get OP_WORDS w))"

definition plain_text :: "string \<Rightarrow> bool" where
  "plain_text t = (CHR 0x22 \<notin> set t \<and> CHR 0x5C \<notin> set t)"

definition symbol_ops :: "string list" where
  "symbol_ops = [''=='', ''!='', ''>='', ''<='', ''>'', ''<'']"

fun token_ok :: "token list \<Rightarrow> token \<Rightarrow> bool" where
  "token_ok before (FIELD w) = field_name w"
| "token_ok before (OP w) = (w \<in> set symbol_ops \<or> w \<in> set (obj_keys OP_WORDS))"
| "token_ok before (STRING t) = plain_text t"
| "token_ok before (NUMBER n) =
     (\<exists>z. n = Fin (of_int z) \<and> (0 \<le> z \<or> before = [] \<or> neg_allowed (last before)))"
| "token_ok before (DURATION v raw) =
     (\<exists>k u m. raw = nat_to_dec k @ u \<and> obj_get DURATION_UNITS u = Some (JNum (Fin m))
        \<and> v = Fin (of_nat k * m))"
| "token_ok before _ = True"

fun tokens_ok :: "token list \<Rightarrow> token list \<Rightarrow> bool" where
  "tokens_ok before [] = True"
| "tokens_ok before (t # ts) = (token_ok before t \<and> tokens_ok (before @ [t]) ts)"

definition show_tokens :: "token list \<Rightarrow> string" where
  "show_tokens ts = concat (map (\<lambda>t. show_token t @ '' '') ts)"

lemma takeWhile_stop: "list_all P s \<Longrightarrow> \<not> P c \<Longrightarrow> takeWhile P (s @ c # r) = s"
  by (induction s) auto

lemma dropWhile_stop: "list_all P s \<Longrightarrow> \<not> P c \<Longrightarrow> dropWhile P (s @ c # r) = c # r"
  by (induction s) auto

lemma scan_quoted_plain: "plain_text t \<Longrightarrow> scan_quoted (t @ CHR 0x22 # r) = Some (t, r)"
  by (induction t) (auto simp: plain_text_def)

lemma lex_word_show:
  assumes "w \<noteq> []" "list_all word_char w"
  shows "lex_word i (w @ CHR '' '' # s) toks =
    (i + length w, CHR '' '' # s, toks @
      [if w = ''true'' \<or> w = ''false'' then BOOL (w = ''true'')
       else if truthy (table_get OP_WORDS w) then OP w else FIELD w])"
proof -
  have "\<not> word_char (CHR '' '')" by (simp add: word_char_def char_class_defs)
  with assms show ?thesis by (simp add: lex_word_def takeWhile_stop dropWhile_stop Let_def)
qed

lemma lex_step_word:
  assumes "word_start c"
  shows "lex_step i c r toks = Inr (lex_word i (c # r) toks)"
proof -
  have c: "code c = 95 \<or> (65 \<le> code c \<and> code c \<le> 90) \<or> (97 \<le> code c \<and> code c \<le> 122)"
    using assms by (auto simp: word_start_def char_class_defs)
  have ne: "c \<noteq> CHR '' ''" "c \<noteq> CHR 0x09" "c \<noteq> CHR ''&''" "c \<noteq> CHR ''|''" "c \<noteq> CHR ''=''" "c \<noteq> CHR ''!''"
     "c \<noteq> CHR ''>''" "c \<noteq> CHR ''<''" "c \<noteq> CHR ''(''" "c \<noteq> CHR '')''" "c \<noteq> CHR '',''" "c \<noteq> CHR 0x22" "c \<noteq> CHR ''-''" "\<not> is_digit c"
    using c by (auto simp: is_digit_def)
  have "\<not> number_here (c # r) toks" using ne by (simp add: number_here_def)
  with ne assms show ?thesis by (simp add: lex_step_def Let_def)
qed

lemma scan_number_digits:
  assumes "list_all is_digit ds" "\<not> is_digit c" "c \<noteq> CHR ''.''"
  shows "scan_number (ds @ c # r) = (if ds = [] \<and> c = CHR ''-'' then scan_number (c # r) else (ds, c # r))"
proof (cases ds)
  case (Cons d ds')
  then have "d \<noteq> CHR ''-''" using assms by (auto simp: is_digit_def)
  with Cons assms show ?thesis
    by (simp add: scan_number_def Let_def takeWhile_stop dropWhile_stop)
qed (use assms in \<open>auto simp: scan_number_def Let_def\<close>)
lemma scan_number_neg:
  assumes "list_all is_digit ds" "\<not> is_digit c" "c \<noteq> CHR ''.''"
  shows "scan_number (CHR ''-'' # ds @ c # r) = (CHR ''-'' # ds, c # r)"
  using assms by (simp add: scan_number_def Let_def takeWhile_stop dropWhile_stop)

lemma lex_step_number:
  assumes "number_here (c # r) toks"
  shows "lex_step i c r toks = lex_number i (c # r) toks"
proof -
  have "is_digit c \<or> c = CHR ''-''" using assms by (auto simp: number_here_def)
  then have c: "code c = 45 \<or> (48 \<le> code c \<and> code c \<le> 57)" by (auto simp: is_digit_def)
  have "c \<noteq> CHR '' ''" "c \<noteq> CHR 0x09" "c \<noteq> CHR ''&''" "c \<noteq> CHR ''|''" "c \<noteq> CHR ''=''" "c \<noteq> CHR ''!''"
     "c \<noteq> CHR ''>''" "c \<noteq> CHR ''<''" "c \<noteq> CHR ''(''" "c \<noteq> CHR '')''" "c \<noteq> CHR '',''" "c \<noteq> CHR 0x22"
    using c by auto
  with assms show ?thesis by (simp add: lex_step_def Let_def)
qed

lemma space_facts: "\<not> is_digit (CHR '' '')" "\<not> is_alpha (CHR '' '')" "(CHR '' '') \<noteq> CHR ''.''"
  by (simp_all add: char_class_defs)

lemma lex_number_plain:
  assumes "scan_number s = (n, CHR '' '' # r)"
  shows "lex_number i s toks = Inr (i + length n, CHR '' '' # r, toks @ [NUMBER (parseFloat n)])"
  by (simp add: lex_number_def assms space_facts)

lemma units_alpha: "obj_get DURATION_UNITS u = Some v \<Longrightarrow> u \<noteq> [] \<and> list_all is_alpha u \<and> truthy v"
  by (auto simp: DURATION_UNITS_def char_class_defs split: if_splits)

lemma lex_number_duration:
  assumes "scan_number s = (n, u @ CHR '' '' # r)" "obj_get DURATION_UNITS u = Some (JNum (Fin m))" "parseFloat n = Fin q"
  shows "lex_number i s toks = Inr (i + length (n @ u), CHR '' '' # r, toks @ [DURATION (Fin (q * m)) (n @ u)])"
proof -
  have u: "u \<noteq> []" "list_all is_alpha u" "truthy (JNum (Fin m))" using units_alpha [OF assms(2)] by auto
  then have "is_alpha (hd (u @ CHR '' '' # r))" by (cases u) auto
  with u show ?thesis
    by (simp add: lex_number_def assms table_get_own [OF assms(2)] takeWhile_stop dropWhile_stop space_facts Let_def)
qed

definition reads_back :: "token list \<Rightarrow> token \<Rightarrow> bool" where
  "reads_back toks t = (\<forall>i s. \<exists>c r. show_token t @ CHR '' '' # s = c # r \<and>
     lex_step i c r toks = Inr (i + length (show_token t), CHR '' '' # s, toks @ [t]))"

lemma reads_back_word:
  assumes "show_token t = w" "w \<noteq> []" "word_start (hd w)" "list_all word_char w"
    and "t = (if w = ''true'' \<or> w = ''false'' then BOOL (w = ''true'')
       else if truthy (table_get OP_WORDS w) then OP w else FIELD w)"
  shows "reads_back toks t"
proof -
  obtain c w' where w: "w = c # w'" using assms(2) by (cases w) auto
  show ?thesis unfolding reads_back_def
  proof (intro allI exI conjI)
    fix i s
    show "show_token t @ CHR '' '' # s = c # w' @ CHR '' '' # s" using assms(1) w by simp
    have "word_start c" using assms(3) w by simp
    from lex_step_word [OF this] lex_word_show [OF assms(2,4), of i s toks]
    show "lex_step i c (w' @ CHR '' '' # s) toks = Inr (i + length (show_token t), CHR '' '' # s, toks @ [t])"
      using assms(1,5) w by simp
  qed
qed

lemma op_words_facts:
  "w \<in> set (obj_keys OP_WORDS) \<Longrightarrow> w \<noteq> [] \<and> word_start (hd w) \<and> list_all word_char w \<and>
     w \<noteq> ''true'' \<and> w \<noteq> ''false'' \<and> truthy (table_get OP_WORDS w)"
proof -
  have "list_all (\<lambda>w. w \<noteq> [] \<and> word_start (hd w) \<and> list_all word_char w \<and>
     w \<noteq> ''true'' \<and> w \<noteq> ''false'' \<and> truthy (table_get OP_WORDS w)) (obj_keys OP_WORDS)"
    by (simp add: OP_WORDS_def word_start_def word_char_def char_class_defs table_get_def)
  then show "w \<in> set (obj_keys OP_WORDS) \<Longrightarrow> ?thesis" by (subst (asm) list_all_iff) blast
qed

lemma reads_back_number:
  assumes "\<And>r. scan_number (n @ CHR '' '' # r) = (n, CHR '' '' # r)" "n \<noteq> []" 
    and "\<And>r. number_here (n @ CHR '' '' # r) toks" "show_token t = n" "t = NUMBER (parseFloat n)"
  shows "reads_back toks t"
proof -
  obtain c w' where w: "n = c # w'" using assms(2) by (cases n) auto
  have "lex_step i c (w' @ CHR '' '' # s) toks = Inr (i + length n, CHR '' '' # s, toks @ [t])" for i s
    using lex_step_number [of c "w' @ CHR '' '' # s" toks i] lex_number_plain [OF assms(1), of i s toks] assms(3) [of s] assms(5) w
    by simp
  then show ?thesis unfolding reads_back_def using assms(4) w by simp
qed

lemma number_here_digits:
  "n \<noteq> [] \<Longrightarrow> list_all is_digit n \<Longrightarrow> number_here (n @ r) toks"
  "n \<noteq> [] \<Longrightarrow> list_all is_digit n \<Longrightarrow> toks = [] \<or> neg_allowed (last toks) \<Longrightarrow> number_here (CHR ''-'' # n @ r) toks"
  by (cases n; auto simp: number_here_def)+

lemma symbol_ops_read_back: "w \<in> set symbol_ops \<Longrightarrow> reads_back toks (OP w)"
proof -
  have "list_all (\<lambda>w. reads_back toks (OP w)) symbol_ops"
    by (simp add: symbol_ops_def reads_back_def lex_step_def)
  then show "w \<in> set symbol_ops \<Longrightarrow> ?thesis" by (simp add: list_all_iff)
qed

lemma token_reads_back: "token_ok toks t \<Longrightarrow> reads_back toks t"
proof (cases t)
  case (FIELD w)
  moreover assume "token_ok toks t"
  ultimately show ?thesis
    by (intro reads_back_word [of _ w]) (auto simp: field_name_def)
next
  case (OP w)
  assume ok: "token_ok toks t"
  show ?thesis
  proof (cases "w \<in> set (obj_keys OP_WORDS)")
    case True
    from op_words_facts [OF this] show ?thesis
      by (intro reads_back_word [of _ w]) (simp_all add: OP)
  next
    case False
    with ok OP have "w \<in> set symbol_ops" by simp
    then show ?thesis unfolding OP by (rule symbol_ops_read_back)
  qed
next
  case (STRING s)
  moreover assume "token_ok toks t"
  ultimately show ?thesis
    by (auto simp: reads_back_def lex_step_def scan_quoted_plain)
next
  case (BOOL b)
  then show ?thesis
    by (intro reads_back_word [of _ "if b then ''true'' else ''false''"])
       (auto simp: word_start_def word_char_def char_class_defs)
next
  case (NUMBER n)
  assume "token_ok toks t"
  with NUMBER obtain z where z: "n = Fin (of_int z)" "0 \<le> z \<or> toks = [] \<or> neg_allowed (last toks)" by auto
  note d = nat_to_dec_all_digits [of "nat \<bar>z\<bar>"]
  have "scan_number (rat_to_string (of_int z) @ CHR '' '' # r) = (rat_to_string (of_int z), CHR '' '' # r)" for r
    using scan_number_digits [OF d, of "CHR '' ''"] scan_number_neg [OF d, of "CHR '' ''"]
    by (cases "z < 0") (simp_all add: rat_to_string_int space_facts)
  moreover have "number_here (rat_to_string (of_int z) @ CHR '' '' # r) toks" for r
  proof (cases "z < 0")
    case True
    with number_here_digits(2) [OF nat_to_dec_not_Nil d, of toks] z(2) show ?thesis
      by (simp add: rat_to_string_int)
  next
    case False
    with number_here_digits(1) [OF nat_to_dec_not_Nil d, of _ toks] show ?thesis
      by (simp add: rat_to_string_int)
  qed
  moreover have "rat_to_string (of_int z) \<noteq> []" by (simp add: rat_to_string_int)
  ultimately show ?thesis
    by (intro reads_back_number [of "rat_to_string (of_int z)"]) (simp_all add: NUMBER z(1) parseFloat_int)
next
  case (DURATION v raw)
  assume "token_ok toks t"
  with DURATION obtain k u m where k: "raw = nat_to_dec k @ u"
    "obj_get DURATION_UNITS u = Some (JNum (Fin m))" "v = Fin (of_nat k * m)" by auto
  note d = nat_to_dec_all_digits [of k]
  obtain a u' where u: "u = a # u'" "is_alpha a" using units_alpha [OF k(2)] by (cases u) auto
  then have a: "\<not> is_digit a" "a \<noteq> CHR ''.''" "a \<noteq> CHR ''-''" by (auto simp: char_class_defs)
  have sc: "scan_number (nat_to_dec k @ u @ CHR '' '' # r) = (nat_to_dec k, u @ CHR '' '' # r)" for r
    using scan_number_digits [OF d a(1,2)] a u by simp
  have pf: "parseFloat (nat_to_dec k) = Fin (of_nat k)"
    using parseFloat_digits(1) [OF nat_to_dec_not_Nil d] by simp
  obtain c w' where w: "nat_to_dec k = c # w'" by (cases "nat_to_dec k") auto
  have "number_here (nat_to_dec k @ x) toks" for x by (rule number_here_digits(1) [OF nat_to_dec_not_Nil d])
  then have "lex_step i c (w' @ u @ CHR '' '' # s) toks = lex_number i (nat_to_dec k @ u @ CHR '' '' # s) toks" for i s
    using lex_step_number by (simp add: w)
  then show ?thesis
    using lex_number_duration [OF sc k(2) pf] w k by (simp add: reads_back_def DURATION)
qed (auto simp: reads_back_def lex_step_def)

lemma lex_from_show:
  "tokens_ok toks ts \<Longrightarrow> lex_from i (show_tokens ts) toks = Inr (toks @ ts)"
proof (induction ts arbitrary: i toks)
  case (Cons t ts)
  then have "reads_back toks t" by (auto intro: token_reads_back)
  then obtain c r where cr: "show_token t @ CHR '' '' # show_tokens ts = c # r"
      "lex_step i c r toks = Inr (i + length (show_token t), CHR '' '' # show_tokens ts, toks @ [t])"
    unfolding reads_back_def by blast
  have "show_tokens (t # ts) = c # r" using cr(1) by (simp add: show_tokens_def)
  with cr(2) Cons show ?case by (simp add: lex_step_def)
qed (simp add: show_tokens_def)

lemma lex_show_tokens: "tokens_ok [] ts \<Longrightarrow> lex (show_tokens ts) = Inr ts"
  by (simp add: lex_def lex_from_show)

text \<open>
  Reading back printed tokens.  Every sequence of printable tokens, printed with blanks
  between the tokens, is read back by the lexer as the same sequence.
\<close>

theorem lex_print_roundtrip: "tokens_ok [] ts \<Longrightarrow> lex (show_tokens ts) = Inr ts"
  by (rule lex_show_tokens)

theorem lex_print_roundtrip_witness:
  "lex (show_tokens [FIELD ''snr'', OP ''>'', NUMBER (Fin (of_int (-5))), AND, FIELD ''age'', OP ''<'',
      DURATION (Fin (of_nat 2 * 3600)) (nat_to_dec 2 @ ''h'')]) =
   Inr [FIELD ''snr'', OP ''>'', NUMBER (Fin (of_int (-5))), AND, FIELD ''age'', OP ''<'',
      DURATION (Fin (of_nat 2 * 3600)) (nat_to_dec 2 @ ''h'')]"
proof (rule lex_print_roundtrip)
  have f: "field_name ''snr''" "field_name ''age''"
    by (simp_all add: field_name_def word_start_def word_char_def char_class_defs table_get_def OP_WORDS_def object_proto_def)
  have n: "token_ok b (NUMBER (Fin (of_int (-5))))" if "b \<noteq> []" "last b = OP ''>''" for b
    using that by (metis neg_allowed.simps(1) token_ok.simps(4))
  have d: "token_ok b (DURATION (Fin (of_nat 2 * 3600)) (nat_to_dec 2 @ ''h''))" for b
    unfolding token_ok.simps by (rule exI [of _ 2], rule exI [of _ "''h''"], rule exI [of _ 3600]) (simp add: DURATION_UNITS_def)
  show "tokens_ok [] [FIELD ''snr'', OP ''>'', NUMBER (Fin (of_int (-5))), AND, FIELD ''age'', OP ''<'',
      DURATION (Fin (of_nat 2 * 3600)) (nat_to_dec 2 @ ''h'')]"
    using n [of "[FIELD ''snr'', OP ''>'']"] d by (simp add: f symbol_ops_def del: token_ok.simps(4,5))
qed

text \<open>
  Positions in lexical errors.  The position an error message reports lies inside the input.
\<close>

theorem lex_error_position: "lex s = Inl e \<Longrightarrow> error_pos e = Some p \<Longrightarrow> p < length s"
  by (rule lex_error_pos)

theorem lex_error_position_witness: "(6::nat) < length ''snr > #5''"
  by (rule lex_error_position [of _ "UnexpectedChar (CHR ''#'') 6"]) code_simp+

text \<open>
  Negative numbers after a comma or a value.  A minus sign that follows a comma, a value or a
  closing parenthesis is an unexpected character, so a list like \<^verbatim>\<open>(-90, -80)\<close> and a range
  like \<^verbatim>\<open>between -100 -50\<close> cannot be written.
\<close>

theorem lex_negative_rejected:
  "\<not> neg_allowed t \<Longrightarrow> lex_from i (CHR ''-'' # r) (toks @ [t]) = Inl (UnexpectedChar (CHR ''-'') i)"
  by (simp add: lex_step_def number_here_def word_start_def char_class_defs Let_def)

theorem lex_negative_rejected_witness:
  "lex_from 14 ''-80)'' ([FIELD ''rssi'', OP ''in'', LPAREN, NUMBER (Fin (-90))] @ [COMMA]) =
     Inl (UnexpectedChar (CHR ''-'') 14)"
  by (rule lex_negative_rejected) simp

end
