(* ===== verification/Packet_Filter_Parse.thy ===== *)
theory Packet_Filter_Parse
  imports Packet_Filter_Lex
begin

text \<open>
  The recursive-descent parser of the packet filter language (\<^verbatim>\<open>parse\<close> in
  \<^verbatim>\<open>src/public/packet-filter.js\<close>).  The position into the token array is the list of
  tokens that are left.  The nested functions call each other through parentheses and negation,
  so they carry fuel; \<open>parse_tokens\<close> supplies \<open>4 * length + 3\<close>, which is shown to be enough.  The
  parameter \<open>dp\<close> stands for the host's \<^verbatim>\<open>Date.parse\<close>.
\<close>

section \<open>Syntax trees and errors\<close>

datatype pvalue =
    VStr string
  | VNum jsnum
  | VBool bool
  | VDur jsnum

datatype ast =
    Or ast ast
  | And ast ast
  | Not ast
  | Truthy string
  | Comparison string string pvalue
  | Between string pvalue pvalue
  | In string "pvalue list"

datatype parse_error =
    LexError lex_error
  | ExpectedClosing
  | UnexpectedEnd
  | ExpectedField token
  | ExpectedOperator string token
  | ExpectedOpenIn
  | EmptyIn
  | ExpectedCloseIn
  | ExpectedValue string string
  | InvalidDatetime string string string
  | UnexpectedTrailing token
  | OutOfFuel

section \<open>The parser\<close>

fun parseValue :: "string \<Rightarrow> string \<Rightarrow> token list \<Rightarrow> parse_error + pvalue \<times> token list" where
  "parseValue field op (STRING s # r) = Inr (VStr s, r)"
| "parseValue field op (NUMBER n # r) = Inr (VNum n, r)"
| "parseValue field op (BOOL b # r) = Inr (VBool b, r)"
| "parseValue field op (DURATION v raw # r) = Inr (VDur v, r)"
| "parseValue field op (FIELD w # r) = Inr (VStr w, r)"
| "parseValue field op _ = Inl (ExpectedValue field op)"

fun validateTimeValue :: "(string \<Rightarrow> jsnum) \<Rightarrow> string \<Rightarrow> string \<Rightarrow> pvalue \<Rightarrow> parse_error option" where
  "validateTimeValue dp field op (VStr v) =
     (if num_is_nan (dp v) then Some (InvalidDatetime v field op) else None)"
| "validateTimeValue dp field op _ = None"

text \<open>The loop over \<^verbatim>\<open>, value\<close> in the list of \<^verbatim>\<open>in\<close>, then the closing parenthesis.\<close>

lemma parseValue_step:
  "parseValue f p ts \<noteq> Inl OutOfFuel \<and> (parseValue f p ts = Inr (v, r) \<longrightarrow> length r < length ts)"
  by (induction f p ts rule: parseValue.induct) auto

lemma parseValue_shorter: "parseValue f p ts = Inr (v, r) \<Longrightarrow> length r < length ts"
  using parseValue_step by blast

function parseInList :: "string \<Rightarrow> pvalue list \<Rightarrow> token list \<Rightarrow> parse_error + ast \<times> token list" where
  "parseInList field vs ts =
     (if ts \<noteq> [] \<and> hd ts = COMMA then
        (case parseValue field ''in'' (tl ts) of
           Inl e \<Rightarrow> Inl e
         | Inr (v, r) \<Rightarrow> parseInList field (vs @ [v]) r)
      else if ts \<noteq> [] \<and> hd ts = RPAREN then Inr (In field vs, tl ts)
      else Inl ExpectedCloseIn)"
  by pat_completeness auto
termination
  by (relation "measure (\<lambda>(f, vs, ts). length ts)") (auto dest!: parseValue_shorter)

declare parseInList.simps [simp del]

definition parseBetween :: "(string \<Rightarrow> jsnum) \<Rightarrow> string \<Rightarrow> token list \<Rightarrow> parse_error + ast \<times> token list" where
  "parseBetween dp field ts =
     (case parseValue field ''between'' ts of
        Inl e \<Rightarrow> Inl e
      | Inr (lo, r) \<Rightarrow>
          (case parseValue field ''between'' r of
             Inl e \<Rightarrow> Inl e
           | Inr (hi, r') \<Rightarrow>
               (case validateTimeValue dp field ''between'' lo of
                  Some e \<Rightarrow> Inl e
                | None \<Rightarrow>
                    (case validateTimeValue dp field ''between'' hi of
                       Some e \<Rightarrow> Inl e
                     | None \<Rightarrow> Inr (Between field lo hi, r')))))"

definition parseIn :: "string \<Rightarrow> token list \<Rightarrow> parse_error + ast \<times> token list" where
  "parseIn field ts =
     (case ts of
        LPAREN # r \<Rightarrow>
          (if r = [] \<or> hd r = RPAREN then Inl EmptyIn
           else case parseValue field ''in'' r of
                  Inl e \<Rightarrow> Inl e
                | Inr (v, r') \<Rightarrow> parseInList field [v] r')
      | _ \<Rightarrow> Inl ExpectedOpenIn)"

definition parseOperand :: "(string \<Rightarrow> jsnum) \<Rightarrow> string \<Rightarrow> string \<Rightarrow> token list \<Rightarrow> parse_error + ast \<times> token list" where
  "parseOperand dp field op ts =
     (if op = ''between'' then parseBetween dp field ts
      else if op = ''in'' then parseIn field ts
      else case parseValue field op ts of
             Inl e \<Rightarrow> Inl e
           | Inr (v, r) \<Rightarrow>
               (case (if op = ''after'' \<or> op = ''before'' then validateTimeValue dp field op v else None) of
                  Some e \<Rightarrow> Inl e
                | None \<Rightarrow> Inr (Comparison field op v, r)))"

fun parseComparison :: "(string \<Rightarrow> jsnum) \<Rightarrow> token list \<Rightarrow> parse_error + ast \<times> token list" where
  "parseComparison dp [] = Inl UnexpectedEnd"
| "parseComparison dp (FIELD field # r) =
     (case r of
        [] \<Rightarrow> Inr (Truthy field, r)
      | AND # _ \<Rightarrow> Inr (Truthy field, r)
      | OR # _ \<Rightarrow> Inr (Truthy field, r)
      | RPAREN # _ \<Rightarrow> Inr (Truthy field, r)
      | OP op # r' \<Rightarrow> parseOperand dp field op r'
      | t # _ \<Rightarrow> Inl (ExpectedOperator field t))"
| "parseComparison dp (t # r) = Inl (ExpectedField t)"

function parseOr :: "(string \<Rightarrow> jsnum) \<Rightarrow> nat \<Rightarrow> token list \<Rightarrow> parse_error + ast \<times> token list"
  and parseOrLoop :: "(string \<Rightarrow> jsnum) \<Rightarrow> nat \<Rightarrow> ast \<Rightarrow> token list \<Rightarrow> parse_error + ast \<times> token list"
  and parseAnd :: "(string \<Rightarrow> jsnum) \<Rightarrow> nat \<Rightarrow> token list \<Rightarrow> parse_error + ast \<times> token list"
  and parseAndLoop :: "(string \<Rightarrow> jsnum) \<Rightarrow> nat \<Rightarrow> ast \<Rightarrow> token list \<Rightarrow> parse_error + ast \<times> token list"
  and parseNot :: "(string \<Rightarrow> jsnum) \<Rightarrow> nat \<Rightarrow> token list \<Rightarrow> parse_error + ast \<times> token list"
where
  "parseOr dp 0 ts = Inl OutOfFuel"
| "parseOr dp (Suc n) ts =
     (case parseAnd dp n ts of Inl e \<Rightarrow> Inl e | Inr (left, r) \<Rightarrow> parseOrLoop dp n left r)"
| "parseOrLoop dp 0 left ts = Inl OutOfFuel"
| "parseOrLoop dp (Suc n) left ts =
     (case ts of
        OR # r \<Rightarrow> (case parseAnd dp n r of
                    Inl e \<Rightarrow> Inl e
                  | Inr (right, r') \<Rightarrow> parseOrLoop dp n (Or left right) r')
      | _ \<Rightarrow> Inr (left, ts))"
| "parseAnd dp 0 ts = Inl OutOfFuel"
| "parseAnd dp (Suc n) ts =
     (case parseNot dp n ts of Inl e \<Rightarrow> Inl e | Inr (left, r) \<Rightarrow> parseAndLoop dp n left r)"
| "parseAndLoop dp 0 left ts = Inl OutOfFuel"
| "parseAndLoop dp (Suc n) left ts =
     (case ts of
        AND # r \<Rightarrow> (case parseNot dp n r of
                     Inl e \<Rightarrow> Inl e
                   | Inr (right, r') \<Rightarrow> parseAndLoop dp n (And left right) r')
      | _ \<Rightarrow> Inr (left, ts))"
| "parseNot dp 0 ts = Inl OutOfFuel"
| "parseNot dp (Suc n) ts =
     (case ts of
        NOT # r \<Rightarrow> (case parseNot dp n r of Inl e \<Rightarrow> Inl e | Inr (e, r') \<Rightarrow> Inr (Not e, r'))
      | LPAREN # r \<Rightarrow>
          (case parseOr dp n r of
             Inl e \<Rightarrow> Inl e
           | Inr (expr, r') \<Rightarrow>
               (case r' of RPAREN # r'' \<Rightarrow> Inr (expr, r'') | _ \<Rightarrow> Inl ExpectedClosing))
      | _ \<Rightarrow> parseComparison dp ts)"
  by pat_completeness auto
termination
  by size_change

definition parse_tokens :: "(string \<Rightarrow> jsnum) \<Rightarrow> token list \<Rightarrow> parse_error + ast" where
  "parse_tokens dp ts =
     (case parseOr dp (4 * length ts + 3) ts of
        Inl e \<Rightarrow> Inl e
      | Inr (a, []) \<Rightarrow> Inr a
      | Inr (a, t # _) \<Rightarrow> Inl (UnexpectedTrailing t))"

text \<open>\<open>Inr None\<close> is the result for a blank expression: no tree and no error.\<close>

definition parse :: "(string \<Rightarrow> jsnum) \<Rightarrow> string \<Rightarrow> parse_error + ast option" where
  "parse dp expression =
     (if trim expression = [] then Inr None
      else case lex expression of
             Inl e \<Rightarrow> Inl (LexError e)
           | Inr tokens \<Rightarrow> map_sum id Some (parse_tokens dp tokens))"

section \<open>The fuel is enough\<close>

lemma validateTimeValue_step: "validateTimeValue dp f p v \<noteq> Some OutOfFuel"
  by (cases v) auto

text \<open>What a sub-parser guarantees: it does not run out of fuel, and success consumes tokens.\<close>

definition consumes :: "token list \<Rightarrow> parse_error + 'a \<times> token list \<Rightarrow> bool" where
  "consumes ts x = (case x of Inl e \<Rightarrow> e \<noteq> OutOfFuel | Inr (_, r) \<Rightarrow> length r < length ts)"

lemma consumes_simps [simp]:
  "consumes ts (Inl e) \<longleftrightarrow> e \<noteq> OutOfFuel" "consumes ts (Inr (a, r)) \<longleftrightarrow> length r < length ts"
  by (simp_all add: consumes_def)

lemma consumes_bind:
  assumes "consumes ts' x" "length ts' \<le> length ts"
    and "\<And>a r. x = Inr (a, r) \<Longrightarrow> length r < length ts' \<Longrightarrow> consumes ts (k a r)"
  shows "consumes ts (case x of Inl e \<Rightarrow> Inl e | Inr (a, r) \<Rightarrow> k a r)"
  using assms by (auto simp: consumes_def [of ts' x] split: sum.splits)

lemma consumes_weaken: "consumes ts' x \<Longrightarrow> length ts' \<le> length ts \<Longrightarrow> consumes ts x"
  by (auto simp: consumes_def split: sum.splits)

lemma parseValue_consumes: "consumes ts (parseValue f p ts)"
  by (induction f p ts rule: parseValue.induct) auto

lemma parseInList_consumes: "consumes ts (parseInList f vs ts)"
proof (induction f vs ts rule: parseInList.induct)
  case (1 f vs ts)
  show ?case
  proof (cases "ts \<noteq> [] \<and> hd ts = COMMA")
    case True
    have "consumes ts (parseInList f (vs @ [v]) r)"
      if "parseValue f ''in'' (tl ts) = Inr (v, r)" "length r < length (tl ts)" for v r
      by (rule consumes_weaken [OF 1 [OF True that(1) refl]]) (use that in simp)
    then have "consumes ts (case parseValue f ''in'' (tl ts) of
        Inl e \<Rightarrow> Inl e | Inr (v, r) \<Rightarrow> parseInList f (vs @ [v]) r)"
      by (intro consumes_bind [OF parseValue_consumes]) auto
    with True show ?thesis by (simp add: parseInList.simps [of f vs ts])
  next
    case False
    then show ?thesis by (subst parseInList.simps) (cases ts, auto)
  qed
qed

lemma parseBetween_consumes: "consumes ts (parseBetween dp f ts)"
proof -
  have "consumes ts (case validateTimeValue dp f ''between'' lo of
      Some e \<Rightarrow> Inl e
    | None \<Rightarrow> (case validateTimeValue dp f ''between'' hi of
        Some e \<Rightarrow> Inl e | None \<Rightarrow> Inr (Between f lo hi, r)))" if "length r < length ts" for lo hi r
    using validateTimeValue_step [of dp f "''between''"] that by (auto split: option.splits)
  then show ?thesis unfolding parseBetween_def
    by (intro consumes_bind [OF parseValue_consumes] order.refl) auto
qed

lemma parseIn_consumes: "consumes ts (parseIn f ts)"
proof (cases "\<exists>r. ts = LPAREN # r")
  case True
  then obtain r where ts: "ts = LPAREN # r" by blast
  have "consumes ts (parseInList f [v] r')" if "length r' < length r" for v r'
    by (rule consumes_weaken [OF parseInList_consumes]) (use ts that in simp)
  then have "consumes ts (case parseValue f ''in'' r of
      Inl e \<Rightarrow> Inl e | Inr (v, r) \<Rightarrow> parseInList f [v] r)"
    by (intro consumes_bind [OF parseValue_consumes]) (auto simp: ts)
  then show ?thesis by (simp add: ts parseIn_def)
next
  case False
  then show ?thesis by (auto simp: parseIn_def split: list.splits token.splits)
qed

lemma parseOperand_consumes: "consumes ts (parseOperand dp f p ts)"
  using parseValue_consumes [of ts f p] validateTimeValue_step [of dp f p]
  by (auto simp: parseOperand_def parseBetween_consumes parseIn_consumes consumes_def [of ts "parseValue f p ts"]
      split: sum.splits option.splits if_splits)

lemma parseComparison_consumes: "consumes ts (parseComparison dp ts)"
proof (induction dp ts rule: parseComparison.induct)
  case (2 dp field r)
  have "consumes (FIELD field # OP p # r') (parseOperand dp field p r')" for p r'
    by (rule consumes_weaken [OF parseOperand_consumes]) simp
  then show ?case by (auto split: list.splits token.splits)
qed auto

lemma parseNot_comparison:
  "ts = [] \<or> hd ts \<noteq> NOT \<and> hd ts \<noteq> LPAREN \<Longrightarrow> parseNot dp (Suc n) ts = parseComparison dp ts"
  by (cases ts) (auto split: token.splits)

lemma parseOrLoop_stop: "ts = [] \<or> hd ts \<noteq> OR \<Longrightarrow> parseOrLoop dp (Suc n) a ts = Inr (a, ts)"
  by (cases ts) (auto split: token.splits)

lemma parseAndLoop_stop: "ts = [] \<or> hd ts \<noteq> AND \<Longrightarrow> parseAndLoop dp (Suc n) a ts = Inr (a, ts)"
  by (cases ts) (auto split: token.splits)

lemma parser_consumes:
  shows "4 * length ts + 3 \<le> n \<Longrightarrow> consumes ts (parseOr dp n ts)"
    and "4 * length ts + 3 \<le> n \<Longrightarrow> consumes (t # ts) (parseOrLoop dp n a ts)"
    and "4 * length ts + 2 \<le> n \<Longrightarrow> consumes ts (parseAnd dp n ts)"
    and "4 * length ts + 2 \<le> n \<Longrightarrow> consumes (t # ts) (parseAndLoop dp n a ts)"
    and "4 * length ts + 1 \<le> n \<Longrightarrow> consumes ts (parseNot dp n ts)"
proof (induction dp n ts and dp n a ts and dp n ts and dp n a ts and dp n ts arbitrary: and t and and t and
    rule: parseOr_parseOrLoop_parseAnd_parseAndLoop_parseNot.induct)
  case (2 dp n ts)
  have "consumes ts (parseOrLoop dp n l r)" if "parseAnd dp n ts = Inr (l, r)" "length r < length ts" for l r
    by (rule consumes_weaken [OF 2(2) [OF that(1) refl]]) (use 2(3) that in simp_all)
  moreover have "consumes ts (parseAnd dp n ts)" using 2(1,3) by simp
  ultimately show ?case by (simp add: consumes_bind)
next
  case (4 dp n left ts)
  show ?case
  proof (cases "\<exists>r. ts = OR # r")
    case True
    then obtain r where ts: "ts = OR # r" by blast
    have "consumes (t # ts) (parseOrLoop dp n (Or left x) r')"
      if "parseAnd dp n r = Inr (x, r')" "length r' < length r" for x r'
      by (rule consumes_weaken [OF 4(2) [OF ts refl that(1) refl]]) (use 4(3) ts that in simp_all)
    moreover have "consumes r (parseAnd dp n r)" using 4(1) [OF ts refl] 4(3) ts by simp
    ultimately show ?thesis by (auto simp: ts intro: consumes_bind)
  next
    case False
    then show ?thesis by (auto split: list.splits token.splits)
  qed
next
  case (6 dp n ts)
  have "consumes ts (parseAndLoop dp n l r)" if "parseNot dp n ts = Inr (l, r)" "length r < length ts" for l r
    by (rule consumes_weaken [OF 6(2) [OF that(1) refl]]) (use 6(3) that in simp_all)
  moreover have "consumes ts (parseNot dp n ts)" using 6(1,3) by simp
  ultimately show ?case by (simp add: consumes_bind)
next
  case (8 dp n left ts)
  show ?case
  proof (cases "\<exists>r. ts = AND # r")
    case True
    then obtain r where ts: "ts = AND # r" by blast
    have "consumes (t # ts) (parseAndLoop dp n (And left x) r')"
      if "parseNot dp n r = Inr (x, r')" "length r' < length r" for x r'
      by (rule consumes_weaken [OF 8(2) [OF ts refl that(1) refl]]) (use 8(3) ts that in simp_all)
    moreover have "consumes r (parseNot dp n r)" using 8(1) [OF ts refl] 8(3) ts by simp
    ultimately show ?thesis by (auto simp: ts intro: consumes_bind)
  next
    case False
    then show ?thesis by (auto split: list.splits token.splits)
  qed
next
  case (10 dp n ts)
  consider (neg) r where "ts = NOT # r" | (par) r where "ts = LPAREN # r"
    | (cmp) "parseNot dp (Suc n) ts = parseComparison dp ts"
    using parseNot_comparison [of ts dp n] by (cases ts) auto
  then show ?case
  proof cases
    case neg
    then have "consumes r (parseNot dp n r)" using 10(1) 10(3) by auto
    then show ?thesis using neg by (auto intro!: consumes_bind)
  next
    case par
    then have "consumes r (parseOr dp n r)" using 10(2) 10(3) by auto
    then show ?thesis using par by (auto intro!: consumes_bind split: list.splits token.splits)
  next
    case cmp
    then show ?thesis by (simp add: parseComparison_consumes del: parseNot.simps)
  qed
qed simp_all

lemma parse_tokens_total: "parse_tokens dp ts \<noteq> Inl OutOfFuel"
  using parser_consumes(1) [of ts "4 * length ts + 3" dp]
  by (auto simp: parse_tokens_def split: sum.splits list.splits)

text \<open>More fuel does not change an answer.\<close>

lemma parser_mono:
  shows "parseOr dp n ts \<noteq> Inl OutOfFuel \<Longrightarrow> n \<le> m \<Longrightarrow> parseOr dp m ts = parseOr dp n ts"
    and "parseOrLoop dp n a ts \<noteq> Inl OutOfFuel \<Longrightarrow> n \<le> m \<Longrightarrow> parseOrLoop dp m a ts = parseOrLoop dp n a ts"
    and "parseAnd dp n ts \<noteq> Inl OutOfFuel \<Longrightarrow> n \<le> m \<Longrightarrow> parseAnd dp m ts = parseAnd dp n ts"
    and "parseAndLoop dp n a ts \<noteq> Inl OutOfFuel \<Longrightarrow> n \<le> m \<Longrightarrow> parseAndLoop dp m a ts = parseAndLoop dp n a ts"
    and "parseNot dp n ts \<noteq> Inl OutOfFuel \<Longrightarrow> n \<le> m \<Longrightarrow> parseNot dp m ts = parseNot dp n ts"
proof (induction dp n ts and dp n a ts and dp n ts and dp n a ts and dp n ts arbitrary: m and m and m and m and m
    rule: parseOr_parseOrLoop_parseAnd_parseAndLoop_parseNot.induct)
  case (2 dp n ts)
  obtain k where m: "m = Suc k" "n \<le> k" using 2(4) by (cases m) auto
  have ne: "parseAnd dp n ts \<noteq> Inl OutOfFuel" using 2(3) by auto
  have eq: "parseAnd dp k ts = parseAnd dp n ts" by (rule 2(1) [OF ne m(2)])
  have "parseOrLoop dp k x r = parseOrLoop dp n x r" if "parseAnd dp n ts = Inr (x, r)" for x r
    by (rule 2(2) [OF that refl _ m(2)]) (use 2(3) that in simp)
  then show ?case by (simp add: m(1) eq split: sum.split)
next
  case (4 dp n left ts)
  obtain k where m: "m = Suc k" "n \<le> k" using 4(4) by (cases m) auto
  show ?case
  proof (cases "\<exists>r. ts = OR # r")
    case True
    then obtain r where ts: "ts = OR # r" by blast
    have ne: "parseAnd dp n r \<noteq> Inl OutOfFuel" using 4(3) ts by auto
    have eq: "parseAnd dp k r = parseAnd dp n r" by (rule 4(1) [OF ts refl ne m(2)])
    have "parseOrLoop dp k (Or left x) r' = parseOrLoop dp n (Or left x) r'" if "parseAnd dp n r = Inr (x, r')" for x r'
      by (rule 4(2) [OF ts refl that refl _ m(2)]) (use 4(3) ts that in simp)
    then show ?thesis by (simp add: ts m(1) eq split: sum.split)
  next
    case False
    then have "ts = [] \<or> hd ts \<noteq> OR" by (cases ts) auto
    then show ?thesis by (simp add: parseOrLoop_stop m(1) del: parseOrLoop.simps)
  qed
next
  case (6 dp n ts)
  obtain k where m: "m = Suc k" "n \<le> k" using 6(4) by (cases m) auto
  have ne: "parseNot dp n ts \<noteq> Inl OutOfFuel" using 6(3) by auto
  have eq: "parseNot dp k ts = parseNot dp n ts" by (rule 6(1) [OF ne m(2)])
  have "parseAndLoop dp k x r = parseAndLoop dp n x r" if "parseNot dp n ts = Inr (x, r)" for x r
    by (rule 6(2) [OF that refl _ m(2)]) (use 6(3) that in simp)
  then show ?case by (simp add: m(1) eq split: sum.split)
next
  case (8 dp n left ts)
  obtain k where m: "m = Suc k" "n \<le> k" using 8(4) by (cases m) auto
  show ?case
  proof (cases "\<exists>r. ts = AND # r")
    case True
    then obtain r where ts: "ts = AND # r" by blast
    have ne: "parseNot dp n r \<noteq> Inl OutOfFuel" using 8(3) ts by auto
    have eq: "parseNot dp k r = parseNot dp n r" by (rule 8(1) [OF ts refl ne m(2)])
    have "parseAndLoop dp k (And left x) r' = parseAndLoop dp n (And left x) r'" if "parseNot dp n r = Inr (x, r')" for x r'
      by (rule 8(2) [OF ts refl that refl _ m(2)]) (use 8(3) ts that in simp)
    then show ?thesis by (simp add: ts m(1) eq split: sum.split)
  next
    case False
    then have "ts = [] \<or> hd ts \<noteq> AND" by (cases ts) auto
    then show ?thesis by (simp add: parseAndLoop_stop m(1) del: parseAndLoop.simps)
  qed
next
  case (10 dp n ts)
  obtain k where m: "m = Suc k" "n \<le> k" using 10(4) by (cases m) auto
  consider (neg) r where "ts = NOT # r" | (par) r where "ts = LPAREN # r"
    | (cmp) "ts = [] \<or> hd ts \<noteq> NOT \<and> hd ts \<noteq> LPAREN" by (cases ts) auto
  then show ?case
  proof cases
    case neg
    have "parseNot dp n r \<noteq> Inl OutOfFuel" using 10(3) neg by auto
    from 10(1) [OF neg refl this m(2)] show ?thesis by (simp add: neg m(1))
  next
    case par
    have "parseOr dp n r \<noteq> Inl OutOfFuel" using 10(3) par by auto
    from 10(2) [OF par refl this m(2)] show ?thesis by (simp add: par m(1))
  next
    case cmp
    then show ?thesis by (simp add: parseNot_comparison m(1) del: parseNot.simps)
  qed
qed simp_all

section \<open>Printing trees and reading them back\<close>

text \<open>
  A printer with the parentheses the grammar needs: level 0 prints an operand of \<^verbatim>\<open>||\<close> on the
  left, level 1 an operand of \<^verbatim>\<open>&&\<close> on the left, level 2 an operand of negation.
\<close>

fun show_value :: "pvalue \<Rightarrow> token" where
  "show_value (VStr s) = STRING s"
| "show_value (VNum n) = NUMBER n"
| "show_value (VBool b) = BOOL b"
| "show_value (VDur v) = DURATION v (num_to_string v @ ''s'')"

fun show_values :: "pvalue list \<Rightarrow> token list" where
  "show_values [] = []"
| "show_values (v # vs) = show_value v # concat (map (\<lambda>v. [COMMA, show_value v]) vs)"

definition paren :: "bool \<Rightarrow> token list \<Rightarrow> token list" where
  "paren b ts = (if b then LPAREN # ts @ [RPAREN] else ts)"

fun print_ast :: "nat \<Rightarrow> ast \<Rightarrow> token list" where
  "print_ast l (Or a b) = paren (0 < l) (print_ast 0 a @ OR # print_ast 1 b)"
| "print_ast l (And a b) = paren (1 < l) (print_ast 1 a @ AND # print_ast 2 b)"
| "print_ast l (Not a) = NOT # print_ast 2 a"
| "print_ast l (Truthy f) = [FIELD f]"
| "print_ast l (Comparison f p v) = [FIELD f, OP p, show_value v]"
| "print_ast l (Between f lo hi) = [FIELD f, OP ''between'', show_value lo, show_value hi]"
| "print_ast l (In f vs) = FIELD f # OP ''in'' # LPAREN # show_values vs @ [RPAREN]"

text \<open>The trees the parser can produce: temporal operators compare with dates, lists are not empty.\<close>

fun time_ok :: "(string \<Rightarrow> jsnum) \<Rightarrow> pvalue \<Rightarrow> bool" where
  "time_ok dp (VStr s) = (\<not> num_is_nan (dp s))"
| "time_ok dp _ = True"

fun ast_ok :: "(string \<Rightarrow> jsnum) \<Rightarrow> ast \<Rightarrow> bool" where
  "ast_ok dp (Or a b) = (ast_ok dp a \<and> ast_ok dp b)"
| "ast_ok dp (And a b) = (ast_ok dp a \<and> ast_ok dp b)"
| "ast_ok dp (Not a) = ast_ok dp a"
| "ast_ok dp (Truthy f) = True"
| "ast_ok dp (Comparison f p v) =
     (p \<noteq> ''between'' \<and> p \<noteq> ''in'' \<and> (p = ''after'' \<or> p = ''before'' \<longrightarrow> time_ok dp v))"
| "ast_ok dp (Between f lo hi) = (time_ok dp lo \<and> time_ok dp hi)"
| "ast_ok dp (In f vs) = (vs \<noteq> [])"

lemma parseValue_show [simp]: "parseValue f p (show_value v # r) = Inr (v, r)"
  by (cases v) auto

lemma validateTimeValue_ok [simp]: "time_ok dp v \<Longrightarrow> validateTimeValue dp f p v = None"
  by (cases v) auto

lemma parseInList_show:
  "parseInList f vs (concat (map (\<lambda>v. [COMMA, show_value v]) ws) @ RPAREN # r) = Inr (In f (vs @ ws), r)"
  by (induction ws arbitrary: vs) (simp_all add: parseInList.simps)

definition ends :: "token list \<Rightarrow> bool" where
  "ends ts = (ts = [] \<or> hd ts = AND \<or> hd ts = OR \<or> hd ts = RPAREN)"

lemma show_value_not_rparen: "show_value v \<noteq> RPAREN" by (cases v) auto

lemma parseComparison_show:
  assumes "ast_ok dp a" "ends rest" "\<And>x y. a \<noteq> Or x y" "\<And>x y. a \<noteq> And x y" "\<And>x. a \<noteq> Not x"
  shows "parseComparison dp (print_ast l a @ rest) = Inr (a, rest)"
proof (cases a)
  case (Truthy f)
  with assms(2) show ?thesis by (cases rest) (auto simp: ends_def)
next
  case (Comparison f p v)
  with assms(1) show ?thesis by (simp add: parseOperand_def)
next
  case (Between f lo hi)
  with assms(1) show ?thesis by (simp add: parseOperand_def parseBetween_def)
next
  case (In f vs)
  with assms(1) obtain v ws where "vs = v # ws" by (cases vs) auto
  with In show ?thesis
    by (simp add: parseOperand_def parseIn_def parseInList_show show_value_not_rparen)
qed (use assms in auto)

text \<open>What a parser level accepts, whatever the fuel.\<close>

definition pOr where "pOr dp ts a r = (\<exists>n. parseOr dp n ts = Inr (a, r))"
definition pOrLoop where "pOrLoop dp l ts a r = (\<exists>n. parseOrLoop dp n l ts = Inr (a, r))"
definition pAnd where "pAnd dp ts a r = (\<exists>n. parseAnd dp n ts = Inr (a, r))"
definition pAndLoop where "pAndLoop dp l ts a r = (\<exists>n. parseAndLoop dp n l ts = Inr (a, r))"
definition pNot where "pNot dp ts a r = (\<exists>n. parseNot dp n ts = Inr (a, r))"

lemmas p_defs = pOr_def pOrLoop_def pAnd_def pAndLoop_def pNot_def

lemma parser_mono_Inr:
  "parseOr dp n ts = Inr x \<Longrightarrow> n \<le> m \<Longrightarrow> parseOr dp m ts = Inr x"
  "parseOrLoop dp n a ts = Inr x \<Longrightarrow> n \<le> m \<Longrightarrow> parseOrLoop dp m a ts = Inr x"
  "parseAnd dp n ts = Inr x \<Longrightarrow> n \<le> m \<Longrightarrow> parseAnd dp m ts = Inr x"
  "parseAndLoop dp n a ts = Inr x \<Longrightarrow> n \<le> m \<Longrightarrow> parseAndLoop dp m a ts = Inr x"
  "parseNot dp n ts = Inr x \<Longrightarrow> n \<le> m \<Longrightarrow> parseNot dp m ts = Inr x"
  using parser_mono [where dp = dp and n = n and m = m and ts = ts] by auto

lemma pOr_intro: "pAnd dp ts l r \<Longrightarrow> pOrLoop dp l r a r' \<Longrightarrow> pOr dp ts a r'"
  unfolding p_defs
proof (elim exE)
  fix n m assume "parseAnd dp n ts = Inr (l, r)" "parseOrLoop dp m l r = Inr (a, r')"
  then have "parseOr dp (Suc (max n m)) ts = Inr (a, r')"
    using parser_mono_Inr(3) [of dp n ts _ "max n m"] parser_mono_Inr(2) [of dp m l r _ "max n m"] by simp
  then show "\<exists>n. parseOr dp n ts = Inr (a, r')" by blast
qed

lemma pAnd_intro: "pNot dp ts l r \<Longrightarrow> pAndLoop dp l r a r' \<Longrightarrow> pAnd dp ts a r'"
  unfolding p_defs
proof (elim exE)
  fix n m assume "parseNot dp n ts = Inr (l, r)" "parseAndLoop dp m l r = Inr (a, r')"
  then have "parseAnd dp (Suc (max n m)) ts = Inr (a, r')"
    using parser_mono_Inr(5) [of dp n ts _ "max n m"] parser_mono_Inr(4) [of dp m l r _ "max n m"] by simp
  then show "\<exists>n. parseAnd dp n ts = Inr (a, r')" by blast
qed

lemma pOrLoop_stop: "ts = [] \<or> hd ts \<noteq> OR \<Longrightarrow> pOrLoop dp l ts l ts"
  unfolding p_defs using parseOrLoop_stop by blast

lemma pAndLoop_stop: "ts = [] \<or> hd ts \<noteq> AND \<Longrightarrow> pAndLoop dp l ts l ts"
  unfolding p_defs using parseAndLoop_stop by blast

lemma pOrLoop_step: "pAnd dp r x r' \<Longrightarrow> pOrLoop dp (Or l x) r' a r'' \<Longrightarrow> pOrLoop dp l (OR # r) a r''"
  unfolding p_defs
proof (elim exE)
  fix n m assume "parseAnd dp n r = Inr (x, r')" "parseOrLoop dp m (Or l x) r' = Inr (a, r'')"
  then have "parseOrLoop dp (Suc (max n m)) l (OR # r) = Inr (a, r'')"
    using parser_mono_Inr(3) [of dp n r _ "max n m"] parser_mono_Inr(2) [of dp m "Or l x" r' _ "max n m"] by simp
  then show "\<exists>n. parseOrLoop dp n l (OR # r) = Inr (a, r'')" by blast
qed

lemma pAndLoop_step: "pNot dp r x r' \<Longrightarrow> pAndLoop dp (And l x) r' a r'' \<Longrightarrow> pAndLoop dp l (AND # r) a r''"
  unfolding p_defs
proof (elim exE)
  fix n m assume "parseNot dp n r = Inr (x, r')" "parseAndLoop dp m (And l x) r' = Inr (a, r'')"
  then have "parseAndLoop dp (Suc (max n m)) l (AND # r) = Inr (a, r'')"
    using parser_mono_Inr(5) [of dp n r _ "max n m"] parser_mono_Inr(4) [of dp m "And l x" r' _ "max n m"] by simp
  then show "\<exists>n. parseAndLoop dp n l (AND # r) = Inr (a, r'')" by blast
qed

lemma pNot_not: "pNot dp r a r' \<Longrightarrow> pNot dp (NOT # r) (Not a) r'"
  unfolding p_defs by (elim exE, rule_tac x = "Suc n" in exI) simp

lemma pNot_paren: "pOr dp r a (RPAREN # r') \<Longrightarrow> pNot dp (LPAREN # r) a r'"
  unfolding p_defs by (elim exE, rule_tac x = "Suc n" in exI) simp

lemma pNot_comparison:
  "parseComparison dp ts = Inr (a, r) \<Longrightarrow> ts \<noteq> [] \<Longrightarrow> hd ts \<noteq> NOT \<Longrightarrow> hd ts \<noteq> LPAREN \<Longrightarrow> pNot dp ts a r"
  unfolding p_defs by (rule exI [of _ "Suc 0"]) (simp add: parseNot_comparison del: parseNot.simps)

text \<open>
  Each level in turn: the printed tree, followed by what may follow it, is read as far as the loop
  of that level would go on from it.
\<close>

definition reads_not where
  "reads_not dp a = (\<forall>rest. ends rest \<longrightarrow> pNot dp (print_ast 2 a @ rest) a rest)"

definition reads_and where
  "reads_and dp a = (\<forall>rest b r. ends rest \<longrightarrow> pAndLoop dp a rest b r \<longrightarrow> pAnd dp (print_ast 1 a @ rest) b r)"

definition reads_or where
  "reads_or dp a = (\<forall>rest b r. ends rest \<longrightarrow> (rest = [] \<or> hd rest \<noteq> AND) \<longrightarrow> pOrLoop dp a rest b r \<longrightarrow>
     pOr dp (print_ast 0 a @ rest) b r)"

lemma reads_and_of_not: "reads_not dp a \<Longrightarrow> print_ast 1 a = print_ast 2 a \<Longrightarrow> reads_and dp a"
  unfolding reads_not_def reads_and_def by (auto intro: pAnd_intro)

lemma reads_or_of_and: "reads_and dp a \<Longrightarrow> print_ast 0 a = print_ast 1 a \<Longrightarrow> reads_or dp a"
  unfolding reads_and_def reads_or_def by (metis pOr_intro pAndLoop_stop)

lemma reads_not_of_or:
  assumes "reads_or dp a" "print_ast 2 a = LPAREN # print_ast 0 a @ [RPAREN]"
  shows "reads_not dp a"
  unfolding reads_not_def
proof (intro allI impI)
  fix rest
  have "pOr dp (print_ast 0 a @ RPAREN # rest) a (RPAREN # rest)"
    using assms(1) by (simp add: reads_or_def ends_def pOrLoop_stop)
  then show "pNot dp (print_ast 2 a @ rest) a rest"
    by (simp add: assms(2) pNot_paren)
qed

lemma reads_atom:
  assumes "ast_ok dp a" "\<And>x y. a \<noteq> Or x y" "\<And>x y. a \<noteq> And x y" "\<And>x. a \<noteq> Not x"
  shows "reads_not dp a"
  unfolding reads_not_def
proof (intro allI impI)
  fix rest assume "ends rest"
  from parseComparison_show [OF assms(1) this assms(2-)]
  have "parseComparison dp (print_ast 2 a @ rest) = Inr (a, rest)" .
  moreover have "\<exists>f r. print_ast 2 a = FIELD f # r" using assms by (cases a) auto
  ultimately show "pNot dp (print_ast 2 a @ rest) a rest" by (auto intro: pNot_comparison)
qed

lemma reads_and_And: "reads_and dp a \<Longrightarrow> reads_not dp b \<Longrightarrow> reads_and dp (And a b)"
  unfolding reads_and_def [of dp "And a b"]
proof (intro allI impI)
  fix rest c r
  assume a: "reads_and dp a" and b: "reads_not dp b" and e: "ends rest" and l: "pAndLoop dp (And a b) rest c r"
  have "pAndLoop dp a (AND # print_ast 2 b @ rest) c r"
    by (rule pAndLoop_step [OF _ l]) (use b e in \<open>simp add: reads_not_def\<close>)
  with a show "pAnd dp (print_ast 1 (And a b) @ rest) c r" by (simp add: reads_and_def paren_def ends_def)
qed

lemma reads_or_Or: "reads_or dp a \<Longrightarrow> reads_and dp b \<Longrightarrow> reads_or dp (Or a b)"
  unfolding reads_or_def [of dp "Or a b"]
proof (intro allI impI)
  fix rest c r
  assume a: "reads_or dp a" and b: "reads_and dp b" and e: "ends rest" "rest = [] \<or> hd rest \<noteq> AND"
    and l: "pOrLoop dp (Or a b) rest c r"
  have "pOrLoop dp a (OR # print_ast 1 b @ rest) c r"
    by (rule pOrLoop_step [OF _ l]) (use b e in \<open>simp add: reads_and_def pAndLoop_stop\<close>)
  with a show "pOr dp (print_ast 0 (Or a b) @ rest) c r" by (simp add: reads_or_def paren_def ends_def)
qed

lemma reads_Not: "reads_not dp a \<Longrightarrow> reads_not dp (Not a)"
  unfolding reads_not_def by (auto intro: pNot_not)

lemma reads_levels_atom:
  "reads_not dp a \<Longrightarrow> print_ast 1 a = print_ast 2 a \<Longrightarrow> print_ast 0 a = print_ast 2 a \<Longrightarrow>
   reads_not dp a \<and> reads_and dp a \<and> reads_or dp a"
  by (simp add: reads_and_of_not reads_or_of_and)

lemma print_ast_reads: "ast_ok dp a \<Longrightarrow> reads_not dp a \<and> reads_and dp a \<and> reads_or dp a"
proof (induction a)
  case (Or a b)
  then have "reads_or dp (Or a b)" by (simp add: reads_or_Or)
  moreover from this have "reads_not dp (Or a b)" by (rule reads_not_of_or) (simp add: paren_def)
  ultimately show ?case by (simp add: reads_and_of_not paren_def)
next
  case (And a b)
  then have "reads_and dp (And a b)" by (simp add: reads_and_And)
  moreover from this have "reads_or dp (And a b)" by (rule reads_or_of_and) (simp add: paren_def)
  moreover from this have "reads_not dp (And a b)" by (rule reads_not_of_or) (simp add: paren_def)
  ultimately show ?case by simp
next
  case (Not a)
  then show ?case by (intro reads_levels_atom) (auto intro: reads_Not)
qed (intro reads_levels_atom reads_atom; simp)+

lemma parse_print_tokens: "ast_ok dp a \<Longrightarrow> parse_tokens dp (print_ast 0 a) = Inr a"
proof -
  assume "ast_ok dp a"
  then have "reads_or dp a" using print_ast_reads by blast
  then have "pOr dp (print_ast 0 a @ []) a []"
    unfolding reads_or_def by (blast intro: pOrLoop_stop ends_def [THEN iffD2])
  then obtain n where n: "parseOr dp n (print_ast 0 a) = Inr (a, [])" by (auto simp: pOr_def)
  let ?f = "4 * length (print_ast 0 a) + 3"
  have "parseOr dp ?f (print_ast 0 a) \<noteq> Inl OutOfFuel"
    using parser_consumes(1) [of "print_ast 0 a" ?f dp] by (auto simp: consumes_def)
  then have "parseOr dp (max n ?f) (print_ast 0 a) = parseOr dp ?f (print_ast 0 a)"
    by (rule parser_mono(1)) simp
  with parser_mono_Inr(1) [OF n, of "max n ?f"] show ?thesis by (simp add: parse_tokens_def)
qed

section \<open>Every tree the parser builds is well formed\<close>

definition yields :: "('a \<Rightarrow> bool) \<Rightarrow> parse_error + 'a \<times> token list \<Rightarrow> bool" where
  "yields P x = (case x of Inl _ \<Rightarrow> True | Inr (a, _) \<Rightarrow> P a)"

lemma yields_simps [simp]: "yields P (Inl e)" "yields P (Inr (a, r)) = P a"
  by (simp_all add: yields_def)

lemma yields_bind:
  assumes "yields Q x" "\<And>a r. x = Inr (a, r) \<Longrightarrow> Q a \<Longrightarrow> yields P (k a r)"
  shows "yields P (case x of Inl e \<Rightarrow> Inl e | Inr (a, r) \<Rightarrow> k a r)"
  using assms by (auto simp: yields_def [of Q] split: sum.splits)

lemma yields_any: "yields (\<lambda>_. True) x" by (auto simp: yields_def split: sum.splits)

lemma time_ok_iff: "time_ok dp v \<longleftrightarrow> validateTimeValue dp f p v = None" for f p
  by (cases v) auto

lemma parseInList_yields: "vs \<noteq> [] \<Longrightarrow> yields (ast_ok dp) (parseInList f vs ts)"
proof (induction f vs ts rule: parseInList.induct)
  case (1 f vs ts)
  then show ?case
    by (subst parseInList.simps) (auto intro!: yields_bind [OF yields_any])
qed

lemma parseOperand_yields: "yields (ast_ok dp) (parseOperand dp f p ts)"
proof -
  have "yields (ast_ok dp) (parseBetween dp f ts)" unfolding parseBetween_def
    by (intro yields_bind [OF yields_any]) (auto simp: time_ok_iff [where f = f and p = "''between''"] split: option.splits)
  moreover have "yields (ast_ok dp) (parseIn f ts)"
    unfolding parseIn_def
    by (auto intro!: yields_bind [OF yields_any] parseInList_yields split: list.splits token.splits)
  moreover have "yields (ast_ok dp) (case parseValue f p ts of
      Inl e \<Rightarrow> Inl e
    | Inr (v, r) \<Rightarrow> (case (if p = ''after'' \<or> p = ''before'' then validateTimeValue dp f p v else None) of
         Some e \<Rightarrow> Inl e | None \<Rightarrow> Inr (Comparison f p v, r)))" if "p \<noteq> ''between''" "p \<noteq> ''in''"
    by (rule yields_bind [OF yields_any]) (use that in \<open>auto simp: time_ok_iff [where f = f and p = p] split: option.splits\<close>)
  ultimately show ?thesis by (simp add: parseOperand_def)
qed

lemma parseComparison_yields: "yields (ast_ok dp) (parseComparison dp ts)"
  by (induction dp ts rule: parseComparison.induct)
     (auto simp: parseOperand_yields split: list.splits token.splits)

lemma parser_yields:
  shows "yields (ast_ok dp) (parseOr dp n ts)"
    and "ast_ok dp a \<Longrightarrow> yields (ast_ok dp) (parseOrLoop dp n a ts)"
    and "yields (ast_ok dp) (parseAnd dp n ts)"
    and "ast_ok dp a \<Longrightarrow> yields (ast_ok dp) (parseAndLoop dp n a ts)"
    and "yields (ast_ok dp) (parseNot dp n ts)"
proof (induction dp n ts and dp n a ts and dp n ts and dp n a ts and dp n ts
    rule: parseOr_parseOrLoop_parseAnd_parseAndLoop_parseNot.induct)
  case (2 dp n ts)
  show ?case unfolding parseOr.simps by (rule yields_bind [OF 2(1)]) (rule 2(2), auto)
next
  case (4 dp n left ts)
  show ?case
  proof (cases "\<exists>r. ts = OR # r")
    case True
    then obtain r where ts: "ts = OR # r" by blast
    have "yields (ast_ok dp) (case parseAnd dp n r of Inl e \<Rightarrow> Inl e | Inr (x, r') \<Rightarrow> parseOrLoop dp n (Or left x) r')"
      by (rule yields_bind [OF 4(1) [OF ts refl]]) (rule 4(2) [OF ts refl], use 4(3) in auto)
    then show ?thesis by (simp add: ts)
  next
    case False
    then have "ts = [] \<or> hd ts \<noteq> OR" by (cases ts) auto
    then show ?thesis using 4(3) by (simp add: parseOrLoop_stop del: parseOrLoop.simps)
  qed
next
  case (6 dp n ts)
  show ?case unfolding parseAnd.simps by (rule yields_bind [OF 6(1)]) (rule 6(2), auto)
next
  case (8 dp n left ts)
  show ?case
  proof (cases "\<exists>r. ts = AND # r")
    case True
    then obtain r where ts: "ts = AND # r" by blast
    have "yields (ast_ok dp) (case parseNot dp n r of Inl e \<Rightarrow> Inl e | Inr (x, r') \<Rightarrow> parseAndLoop dp n (And left x) r')"
      by (rule yields_bind [OF 8(1) [OF ts refl]]) (rule 8(2) [OF ts refl], use 8(3) in auto)
    then show ?thesis by (simp add: ts)
  next
    case False
    then have "ts = [] \<or> hd ts \<noteq> AND" by (cases ts) auto
    then show ?thesis using 8(3) by (simp add: parseAndLoop_stop del: parseAndLoop.simps)
  qed
next
  case (10 dp n ts)
  consider (neg) r where "ts = NOT # r" | (par) r where "ts = LPAREN # r"
    | (cmp) "ts = [] \<or> hd ts \<noteq> NOT \<and> hd ts \<noteq> LPAREN" by (cases ts) auto
  then show ?case
  proof cases
    case neg
    show ?thesis unfolding neg by simp (rule yields_bind [OF 10(1) [OF neg refl]], simp)
  next
    case par
    show ?thesis unfolding par
      by simp (rule yields_bind [OF 10(2) [OF par refl]], auto split: list.splits token.splits)
  next
    case cmp
    then show ?thesis by (simp add: parseNot_comparison parseComparison_yields del: parseNot.simps)
  qed
qed simp_all

lemma parse_tokens_ast_ok: "parse_tokens dp ts = Inr a \<Longrightarrow> ast_ok dp a"
  using parser_yields(1) [of dp "4 * length ts + 3" ts]
  by (auto simp: parse_tokens_def split: sum.splits list.splits)

section \<open>Trees that can be written as text\<close>

fun value_printable :: "bool \<Rightarrow> pvalue \<Rightarrow> bool" where
  "value_printable neg (VStr s) = plain_text s"
| "value_printable neg (VNum n) = (\<exists>z. n = Fin (of_int z) \<and> (neg \<or> 0 \<le> z))"
| "value_printable neg (VBool b) = True"
| "value_printable neg (VDur v) = (\<exists>k. v = Fin (of_nat k))"

fun ast_printable :: "ast \<Rightarrow> bool" where
  "ast_printable (Or a b) = (ast_printable a \<and> ast_printable b)"
| "ast_printable (And a b) = (ast_printable a \<and> ast_printable b)"
| "ast_printable (Not a) = ast_printable a"
| "ast_printable (Truthy f) = field_name f"
| "ast_printable (Comparison f p v) =
     (field_name f \<and> (p \<in> set symbol_ops \<or> p \<in> set (obj_keys OP_WORDS)) \<and> value_printable True v)"
| "ast_printable (Between f lo hi) = (field_name f \<and> value_printable True lo \<and> value_printable False hi)"
| "ast_printable (In f vs) =
     (field_name f \<and> vs \<noteq> [] \<and> value_printable True (hd vs) \<and> (\<forall>v \<in> set (tl vs). value_printable False v))"

lemma tokens_ok_append: "tokens_ok b (xs @ ys) \<longleftrightarrow> tokens_ok b xs \<and> tokens_ok (b @ xs) ys"
  by (induction xs arbitrary: b) auto

lemma value_token_ok:
  assumes "value_printable neg v" "neg \<longrightarrow> b = [] \<or> neg_allowed (last b)"
  shows "token_ok b (show_value v)"
proof (cases v)
  case (VDur x)
  with assms obtain k where x: "x = Fin (of_nat k)" by auto
  have "rat_to_string (of_nat k) = nat_to_dec k" using rat_to_string_int [of "int k"] by simp
  then show ?thesis unfolding VDur x show_value.simps token_ok.simps
    by (intro exI [of _ k] exI [of _ "''s''"] exI [of _ 1]) (simp add: DURATION_UNITS_def)
qed (use assms in auto)

lemma values_token_ok:
  "\<forall>v \<in> set vs. value_printable False v \<Longrightarrow> tokens_ok b (concat (map (\<lambda>v. [COMMA, show_value v]) vs))"
  by (induction vs arbitrary: b) (auto intro: value_token_ok)

lemma between_in_ops: "''between'' \<in> set (obj_keys OP_WORDS)" "''in'' \<in> set (obj_keys OP_WORDS)"
  by (simp_all add: OP_WORDS_def)

lemma print_ast_tokens_ok: "ast_printable a \<Longrightarrow> tokens_ok b (print_ast l a)"
proof (induction a arbitrary: b l)
  case (In f vs)
  then obtain v ws where "vs = v # ws" by (cases vs) auto
  with In show ?case using between_in_ops(2)
    by (auto simp: tokens_ok_append values_token_ok intro!: value_token_ok [of True])
next
  case (Between f lo hi)
  then show ?case using between_in_ops(1)
    by (auto intro: value_token_ok [of True] value_token_ok [of False])
next
  case (Comparison f p v)
  then show ?case by (auto intro: value_token_ok [of True])
qed (auto simp: paren_def tokens_ok_append)

lemma field_name_not_ws: "field_name f \<Longrightarrow> \<exists>c \<in> set f. \<not> is_ws c"
  by (cases f) (auto simp: field_name_def word_start_def char_class_defs intro!: exI)

lemma print_ast_has_field: "ast_printable a \<Longrightarrow> \<exists>f. field_name f \<and> FIELD f \<in> set (print_ast l a)"
  by (induction a arbitrary: l) (fastforce simp: paren_def)+

lemma trim_not_blank: "c \<in> set s \<Longrightarrow> \<not> is_ws c \<Longrightarrow> trim s \<noteq> []"
proof -
  assume "c \<in> set s" "\<not> is_ws c"
  then have "c \<in> set (dropWhile is_ws s)"
    using set_takeWhileD [of c is_ws s] set_append [of "takeWhile is_ws s" "dropWhile is_ws s"] by auto
  with \<open>\<not> is_ws c\<close> show ?thesis by (auto simp: trim_def dropWhile_eq_Nil_conv)
qed

lemma show_print_not_blank: "ast_printable a \<Longrightarrow> trim (show_tokens (print_ast l a)) \<noteq> []"
proof -
  assume "ast_printable a"
  from print_ast_has_field [OF this, of l] obtain f where f: "field_name f" "FIELD f \<in> set (print_ast l a)" by blast
  from field_name_not_ws [OF f(1)] obtain c where c: "c \<in> set f" "\<not> is_ws c" by blast
  have "c \<in> set (show_tokens (print_ast l a))" using f(2) c(1) by (fastforce simp: show_tokens_def)
  then show ?thesis using c(2) by (rule trim_not_blank)
qed

lemma parse_show_print:
  assumes "ast_ok dp a" "ast_printable a"
  shows "parse dp (show_tokens (print_ast 0 a)) = Inr (Some a)"
  using assms by (simp add: parse_def show_print_not_blank lex_show_tokens print_ast_tokens_ok parse_print_tokens)

section \<open>Properties\<close>

text \<open>
  C1: Printing and parsing.  A well-formed tree whose fields, operators and values can be written
  in the language, printed with as few parentheses as precedence allows, is parsed back to the
  same tree.
\<close>

theorem parse_print_roundtrip:
  assumes "ast_ok dp a" "ast_printable a"
  shows "parse dp (show_tokens (print_ast 0 a)) = Inr (Some a)"
  using assms by (rule parse_show_print)

definition demo_ast :: ast where
  "demo_ast = And (Or (Comparison ''snr'' ''>'' (VNum (Fin (of_int (-5))))) (Truthy ''hash''))
     (Not (And (In ''iata'' [VStr ''SJC'', VStr ''SFO'']) (Comparison ''age'' ''<'' (VDur (Fin (of_nat 60))))))"

theorem parse_print_roundtrip_witness:
  "parse (\<lambda>_. NaN) (show_tokens (print_ast 0 demo_ast)) = Inr (Some demo_ast)"
proof (rule parse_print_roundtrip)
  have f: "field_name ''snr''" "field_name ''hash''" "field_name ''iata''" "field_name ''age''"
    by (simp_all add: field_name_def word_start_def word_char_def char_class_defs table_get_def OP_WORDS_def object_proto_def)
  have n: "value_printable True (VNum (Fin (of_int (-5))))" unfolding value_printable.simps by blast
  have d: "value_printable True (VDur (Fin (of_nat 60)))" unfolding value_printable.simps by blast
  show "ast_ok (\<lambda>_. NaN) demo_ast" by (simp add: demo_ast_def)
  show "ast_printable demo_ast"
    unfolding demo_ast_def using n d
    by (simp add: f symbol_ops_def plain_text_def del: of_int_minus value_printable.simps(2,4))
qed

text \<open>
  What the parser builds.  Every tree \<^verbatim>\<open>parse\<close> returns is well formed (temporal operands
  are dates, lists of \<^verbatim>\<open>in\<close> are not empty), and printing it and parsing again gives the same
  tree, so a saved filter means the same when it is loaded again.
\<close>

theorem parse_wellformed_stable:
  "parse dp s = Inr (Some a) \<Longrightarrow> ast_ok dp a \<and> parse_tokens dp (print_ast 0 a) = Inr a"
proof -
  assume "parse dp s = Inr (Some a)"
  then obtain ts where "parse_tokens dp ts = Inr a"
    by (auto simp: parse_def split: if_splits sum.splits) (metis Inr_inject map_sum.simps sum.exhaust sum.distinct(1) option.inject)
  then have "ast_ok dp a" by (rule parse_tokens_ast_ok)
  then show ?thesis by (simp add: parse_print_tokens)
qed

theorem parse_wellformed_stable_witness:
  "ast_ok (\<lambda>_. NaN) (Or (Truthy ''a'') (And (Truthy ''b'') (Truthy ''c'')))"
proof -
  have "parse (\<lambda>_. NaN) ''a || b && c'' = Inr (Some (Or (Truthy ''a'') (And (Truthy ''b'') (Truthy ''c''))))"
    by code_simp
  from parse_wellformed_stable [OF this] show ?thesis by blast
qed

text \<open>
  C3: The parser always answers.  Whatever the expression, the fuel given to the mutually
  recursive functions is enough: \<^verbatim>\<open>parse\<close> returns a tree, no tree for a blank expression, or a
  genuine syntax error.
\<close>

theorem parse_terminates: "parse dp s \<noteq> Inl OutOfFuel"
  using parse_tokens_total [of dp] by (auto simp: parse_def split: sum.split) (metis map_sum.simps sum.exhaust sum.inject(1) sum.distinct(1) id_apply)

end
