(* ===== verification/Payload_Labels.thy ===== *)
theory Payload_Labels
  imports Js_Base
begin

text \<open>
  \<^verbatim>\<open>src/public/payload-labels.js\<close>: the canonical payload-type table, the reverse lookups
  derived from it and the alias table of the filter language.
\<close>

record label =
  enumName :: string
  short :: string
  long :: string
  enumId :: nat

definition mk_label :: "string \<Rightarrow> string \<Rightarrow> string \<Rightarrow> nat \<Rightarrow> string \<times> label" where
  "mk_label e s l i = (e, \<lparr>enumName = e, short = s, long = l, enumId = i\<rparr>)"

definition PAYLOAD_LABELS :: "label obj" where
  "PAYLOAD_LABELS =
    [mk_label ''REQ'' ''Request'' ''Encrypted data request to a remote node'' 0,
     mk_label ''RESPONSE'' ''Response'' ''Encrypted data response from a remote node'' 1,
     mk_label ''TXT_MSG'' ''Direct Msg'' ''Encrypted point-to-point text message'' 2,
     mk_label ''ACK'' ''ACK'' ''Acknowledgment of a prior message or request'' 3,
     mk_label ''ADVERT'' ''Advert'' ''Node identity and capability advertisement'' 4,
     mk_label ''GRP_TXT'' ''Channel Msg'' ''Channel-scoped group text message'' 5,
     mk_label ''GRP_DATA'' ''Group Data'' ''Channel-scoped group datagram (non-text payload)'' 6,
     mk_label ''ANON_REQ'' ''Anon Req'' ''Anonymous encrypted request via ephemeral key'' 7,
     mk_label ''PATH'' ''Path'' ''Network path discovery and return-path advertisement'' 8,
     mk_label ''TRACE'' ''Trace'' ''Per-hop route trace with SNR samples'' 9,
     mk_label ''MULTIPART'' ''Multipart'' ''Fragmented payload reassembled across multiple packets'' 10,
     mk_label ''CONTROL'' ''Control'' ''Mesh control-plane signalling (e.g. zero-hop direct)'' 11,
     mk_label ''RAW_CUSTOM'' ''Raw Custom'' ''Application-defined raw payload, no firmware envelope'' 15]"

definition ORDER :: "string list" where
  "ORDER =
    [''ADVERT'', ''GRP_TXT'', ''TXT_MSG'', ''REQ'', ''RESPONSE'', ''TRACE'', ''PATH'',
     ''ANON_REQ'', ''GRP_DATA'', ''MULTIPART'', ''CONTROL'', ''RAW_CUSTOM'', ''ACK'']"

text \<open>
  The reverse tables are objects keyed by the printed number, filled by a loop over the entries
  of the previous table.
\<close>

definition BY_ID :: "label obj" where
  "BY_ID = foldl (\<lambda>m (_, l). obj_set m (nat_to_dec (enumId l)) l) [] PAYLOAD_LABELS"

definition FW_PAYLOAD_TYPES :: "string obj" where
  "FW_PAYLOAD_TYPES = foldl (\<lambda>m (k, l). obj_set m k (enumName l)) [] BY_ID"

definition SHORT_BY_ID :: "string obj" where
  "SHORT_BY_ID = foldl (\<lambda>m (k, l). obj_set m k (short l)) [] BY_ID"

definition TYPE_ALIASES :: "string obj" where
  "TYPE_ALIASES =
    [(''request'', ''REQ''), (''response'', ''RESPONSE''), (''direct msg'', ''TXT_MSG''),
     (''dm'', ''TXT_MSG''), (''ack'', ''ACK''), (''advert'', ''ADVERT''),
     (''channel msg'', ''GRP_TXT''), (''channel'', ''GRP_TXT''), (''group data'', ''GRP_DATA''),
     (''anon req'', ''ANON_REQ''), (''path'', ''PATH''), (''trace'', ''TRACE''),
     (''multipart'', ''MULTIPART''), (''control'', ''CONTROL''), (''raw'', ''RAW_CUSTOM''),
     (''custom'', ''RAW_CUSTOM''), (''raw custom'', ''RAW_CUSTOM'')]"

definition shortById :: "nat \<Rightarrow> string option" where
  "shortById i = obj_get SHORT_BY_ID (nat_to_dec i)"

definition longById :: "nat \<Rightarrow> string" where
  "longById i = (case obj_get BY_ID (nat_to_dec i) of Some l \<Rightarrow> long l | None \<Rightarrow> [])"

definition enumNameById :: "nat \<Rightarrow> string option" where
  "enumNameById i = obj_get FW_PAYLOAD_TYPES (nat_to_dec i)"

section \<open>Facts about the tables\<close>

text \<open>The loops that fill the reverse tables, computed once.\<close>

lemma BY_ID_eq: "BY_ID = map (\<lambda>(k, l). (nat_to_dec (enumId l), l)) PAYLOAD_LABELS"
  by (simp add: BY_ID_def PAYLOAD_LABELS_def mk_label_def nat_to_dec_inj)

lemma FW_PAYLOAD_TYPES_eq:
  "FW_PAYLOAD_TYPES = map (\<lambda>(k, l). (nat_to_dec (enumId l), enumName l)) PAYLOAD_LABELS"
  by (simp add: FW_PAYLOAD_TYPES_def BY_ID_eq PAYLOAD_LABELS_def mk_label_def nat_to_dec_inj)

lemma SHORT_BY_ID_eq:
  "SHORT_BY_ID = map (\<lambda>(k, l). (nat_to_dec (enumId l), short l)) PAYLOAD_LABELS"
  by (simp add: SHORT_BY_ID_def BY_ID_eq PAYLOAD_LABELS_def mk_label_def nat_to_dec_inj)

lemma enumNameById_eq:
  "enumNameById i = map_of (map (\<lambda>(k, l). (enumId l, enumName l)) PAYLOAD_LABELS) i"
  by (simp add: enumNameById_def FW_PAYLOAD_TYPES_eq PAYLOAD_LABELS_def mk_label_def nat_to_dec_inj)

lemma shortById_eq:
  "shortById i = map_of (map (\<lambda>(k, l). (enumId l, short l)) PAYLOAD_LABELS) i"
  by (simp add: shortById_def SHORT_BY_ID_eq PAYLOAD_LABELS_def mk_label_def nat_to_dec_inj)

lemma longById_eq:
  "longById i =
     (case map_of (map (\<lambda>(k, l). (enumId l, l)) PAYLOAD_LABELS) i of Some l \<Rightarrow> long l | None \<Rightarrow> [])"
  by (simp add: longById_def BY_ID_eq PAYLOAD_LABELS_def mk_label_def nat_to_dec_inj)

text \<open>
  The tables are mutually consistent: every entry's id leads back to its enum name and to its
  short and long labels, the legend order lists every enum, and every short label of the
  table is (in lower case) an alias that resolves to its own enum.
\<close>

lemma lower_short_labels:
  "map (\<lambda>(e, l). (e, toLowerCase (short l))) PAYLOAD_LABELS =
    [(''REQ'', ''request''), (''RESPONSE'', ''response''), (''TXT_MSG'', ''direct msg''),
     (''ACK'', ''ack''), (''ADVERT'', ''advert''), (''GRP_TXT'', ''channel msg''),
     (''GRP_DATA'', ''group data''), (''ANON_REQ'', ''anon req''), (''PATH'', ''path''),
     (''TRACE'', ''trace''), (''MULTIPART'', ''multipart''), (''CONTROL'', ''control''),
     (''RAW_CUSTOM'', ''raw custom'')]"
  by code_simp

lemma alias_of_short:
  assumes "(e, l) \<in> set PAYLOAD_LABELS"
  shows "obj_get TYPE_ALIASES (toLowerCase (short l)) = Some e"
proof -
  have "list_all (\<lambda>(e, a). obj_get TYPE_ALIASES a = Some e)
          (map (\<lambda>(e, l). (e, toLowerCase (short l))) PAYLOAD_LABELS)"
    unfolding lower_short_labels by (simp add: TYPE_ALIASES_def)
  with assms show ?thesis by (auto simp: list_all_iff)
qed

lemma labels_check:
  "list_all (\<lambda>(e, l). enumName l = e \<and> enumNameById (enumId l) = Some e \<and>
     shortById (enumId l) = Some (short l) \<and> longById (enumId l) = long l \<and> e \<in> set ORDER)
   PAYLOAD_LABELS"
  by (simp add: enumNameById_eq shortById_eq longById_eq PAYLOAD_LABELS_def mk_label_def ORDER_def)

lemma labels_consistent:
  assumes "(e, l) \<in> set PAYLOAD_LABELS"
  shows "enumName l = e" and "enumNameById (enumId l) = Some e"
    and "shortById (enumId l) = Some (short l)" and "longById (enumId l) = long l"
    and "e \<in> set ORDER"
  using labels_check assms by (auto simp: list_all_iff)

text \<open>
  Consistency of the label tables.  For every entry, the lookups by number return its enum
  name, short and long label; the legend order lists it; and its short label in lower case is an
  alias of its enum name.
\<close>

theorem label_tables_consistent:
  "(e, l) \<in> set PAYLOAD_LABELS \<Longrightarrow>
     enumName l = e \<and> enumNameById (enumId l) = Some e \<and> shortById (enumId l) = Some (short l) \<and>
     longById (enumId l) = long l \<and> e \<in> set ORDER \<and>
     obj_get TYPE_ALIASES (toLowerCase (short l)) = Some e"
  by (simp add: labels_consistent alias_of_short)

theorem label_tables_consistent_witness: "enumNameById 4 = Some ''ADVERT''"
  using label_tables_consistent [of "''ADVERT''" "snd (mk_label ''ADVERT'' ''Advert'' ''Node identity and capability advertisement'' 4)"]
  by (simp add: PAYLOAD_LABELS_def mk_label_def)

end
