(* ===== verification/Packet_Filter_Eval.thy ===== *)
theory Packet_Filter_Eval
  imports Packet_Filter_Parse Payload_Labels
begin

text \<open>
  Field resolution, evaluation, compilation and autocompletion of the packet filter language
  (\<^verbatim>\<open>resolveField\<close>, \<^verbatim>\<open>parseDateValue\<close>, \<^verbatim>\<open>evaluate\<close>, \<^verbatim>\<open>compile\<close>, \<^verbatim>\<open>suggest\<close> in
  \<^verbatim>\<open>src/public/packet-filter.js\<close>).  A packet is a JavaScript object as the API delivers it
  (\<^verbatim>\<open>raw_hex\<close> is a string or missing).  The host supplies \<^verbatim>\<open>Date.parse\<close>, \<^verbatim>\<open>Date.now\<close> and the
  optional \<^verbatim>\<open>window.ROUTE_TYPES\<close>.  Strings are byte sequences, so the arrows and dashes of the source
  are their UTF-8 encodings.
\<close>

section \<open>Field resolution\<close>

record host =
  date_parse :: "string \<Rightarrow> jsnum"
  now_ms :: rat
  win_route_types :: "jsval obj option"

definition ROUTE_TYPES :: "jsval obj" where
  "ROUTE_TYPES = [(''0'', JStr ''TRANSPORT_FLOOD''), (''1'', JStr ''FLOOD''),
                  (''2'', JStr ''DIRECT''), (''3'', JStr ''TRANSPORT_DIRECT'')]"

definition ROUTE_ALIASES :: "jsval obj" where
  "ROUTE_ALIASES = [(''t_flood'', JStr ''TRANSPORT_FLOOD''), (''t_direct'', JStr ''TRANSPORT_DIRECT'')]"

definition isTransportRouteType :: "jsval \<Rightarrow> bool" where
  "isTransportRouteType rt = (strict_eq rt (JNum (Fin 0)) \<or> strict_eq rt (JNum (Fin 3)))"

definition getRT :: "host \<Rightarrow> jsval obj" where
  "getRT h = (case win_route_types h of Some t \<Rightarrow> t | None \<Rightarrow> ROUTE_TYPES)"

definition str_table :: "string obj \<Rightarrow> jsval obj" where
  "str_table t = map (\<lambda>(k, v). (k, JStr v)) t"

definition arrow_sep :: string where
  "arrow_sep = [CHR '' '', CHR 0xE2, CHR 0x86, CHR 0x92, CHR '' '']"

text \<open>\<^verbatim>\<open>array.join(sep)\<close>.\<close>

definition js_join :: "string \<Rightarrow> jsval list \<Rightarrow> string" where
  "js_join sep vs = join sep (map (\<lambda>v. if nullish v then [] else js_String v) vs)"

definition raw_hex_of :: "jsval \<Rightarrow> string" where
  "raw_hex_of p = (case js_prop p ''raw_hex'' of JStr s \<Rightarrow> s | _ \<Rightarrow> [])"

text \<open>The packet's time in epoch milliseconds; \<open>None\<close> where the source returns null.\<close>

definition packet_ms :: "host \<Rightarrow> jsval \<Rightarrow> jsnum option" where
  "packet_ms h p =
     (let ts = js_or (js_or (js_prop p ''timestamp'') (js_prop p ''first_seen'')) (js_prop p ''latest'') in
      if \<not> truthy ts then None
      else let ms = (case ts of JNum n \<Rightarrow> n | _ \<Rightarrow> date_parse h (js_String ts))
           in if num_is_nan ms then None else Some ms)"

definition age_seconds :: "rat \<Rightarrow> jsnum \<Rightarrow> jsnum" where
  "age_seconds now ms = (case ms of
      Fin m \<Rightarrow> Fin (max 0 ((now - m) / 1000))
    | PInf \<Rightarrow> Fin 0
    | NInf \<Rightarrow> PInf
    | NaN \<Rightarrow> NaN)"

definition decoded_of :: "jsval \<Rightarrow> jsval option" where
  "decoded_of p = (case js_prop p ''decoded_json'' of JStr s \<Rightarrow> json_parse s | v \<Rightarrow> Some v)"

fun walk_path :: "jsval \<Rightarrow> string list \<Rightarrow> jsval" where
  "walk_path v [] = v"
| "walk_path v (k # ks) = (case js_get v k of None \<Rightarrow> JNull | Some w \<Rightarrow> walk_path w ks)"

definition resolve_path :: "jsval \<Rightarrow> jsval option" where
  "resolve_path p = json_parse (js_String (js_or (js_prop p ''path_json'') (JStr ''[]'')))"

definition resolve_routed :: "jsval \<Rightarrow> string" where
  "resolve_routed p =
     (let arr = (case js_prop p ''resolved_path'' of
                   JStr s \<Rightarrow> json_parse s | JArr vs \<Rightarrow> Some (JArr vs) | _ \<Rightarrow> None)
      in case arr of
           Some (JArr vs) \<Rightarrow> join '' '' (map (\<lambda>v. toLowerCase (js_String (js_or v (JStr [])))) vs)
         | _ \<Rightarrow> [])"

definition resolve_code :: "jsval \<Rightarrow> string \<Rightarrow> jsval" where
  "resolve_code p field =
     (case decoded_of p of
        None \<Rightarrow> JNull
      | Some dc \<Rightarrow>
          (if \<not> truthy dc \<or> \<not> truthy (js_prop dc ''transportCodes'') then JNull
           else let v = js_prop (js_prop dc ''transportCodes'') field
                in if truthy v then JStr (toUpperCase (js_String v)) else JNull))"

definition resolve_payload :: "jsval \<Rightarrow> string \<Rightarrow> jsval" where
  "resolve_payload p field =
     (case decoded_of p of
        None \<Rightarrow> JNull
      | Some decoded \<Rightarrow> if nullish decoded then JNull else walk_path decoded (split_on (CHR ''.'') (drop 8 field)))"

definition resolveField :: "host \<Rightarrow> jsval \<Rightarrow> string \<Rightarrow> jsval" where
  "resolveField h p field =
    (if field = ''type'' then
       js_or (table_get (str_table FW_PAYLOAD_TYPES) (js_String (js_prop p ''payload_type''))) (JStr [])
     else if field = ''route'' then
       js_or (table_get (getRT h) (js_String (js_prop p ''route_type''))) (JStr [])
     else if field = ''transport'' then JBool (isTransportRouteType (js_prop p ''route_type''))
     else if field = ''hash'' then js_or (js_prop p ''hash'') (JStr [])
     else if field = ''raw'' then JStr (raw_hex_of p)
     else if field = ''size'' then JNum (Fin (of_nat (length (raw_hex_of p)) / 2))
     else if field = ''snr'' then js_prop p ''snr''
     else if field = ''rssi'' then js_prop p ''rssi''
     else if field = ''hops'' then
       (case resolve_path p of
          None \<Rightarrow> JNum (Fin 0)
        | Some v \<Rightarrow> (case js_get v ''length'' of None \<Rightarrow> JNum (Fin 0) | Some l \<Rightarrow> l))
     else if field = ''scope'' then js_or (js_prop p ''scope_name'') (JStr [])
     else if field = ''observer'' then js_or (js_prop p ''observer_name'') (JStr [])
     else if field = ''observer_id'' then js_or (js_prop p ''observer_id'') (JStr [])
     else if field = ''observer_iata'' \<or> field = ''iata'' then js_or (js_prop p ''observer_iata'') (JStr [])
     else if field = ''observations'' then js_or (js_prop p ''observation_count'') (JNum (Fin 0))
     else if field = ''time'' \<or> field = ''timestamp'' then
       (case packet_ms h p of None \<Rightarrow> JNull | Some ms \<Rightarrow> JNum ms)
     else if field = ''age'' then
       (case packet_ms h p of None \<Rightarrow> JNull | Some ms \<Rightarrow> JNum (age_seconds (now_ms h) ms))
     else if field = ''path'' \<or> field = ''path_prefixes'' then
       (case resolve_path p of Some (JArr vs) \<Rightarrow> JStr (js_join arrow_sep vs) | _ \<Rightarrow> JStr [])
     else if field = ''routed_through'' then JStr (resolve_routed p)
     else if field = ''payload_bytes'' then JNum (Fin (max 0 (of_nat (length (raw_hex_of p)) / 2 - 2)))
     else if field = ''payload_hex'' then JStr (drop 4 (raw_hex_of p))
     else if field = ''code1'' \<or> field = ''code2'' then resolve_code p field
     else if starts_with ''payload.'' field then resolve_payload p field
     else JNull)"

section \<open>Evaluation\<close>

text \<open>The value a comparison holds, as a JavaScript value; a duration is the object \<^verbatim>\<open>parseValue\<close> builds.\<close>

fun value_js :: "pvalue \<Rightarrow> jsval" where
  "value_js (VStr s) = JStr s"
| "value_js (VNum n) = JNum n"
| "value_js (VBool b) = JBool b"
| "value_js (VDur s) = JObj [(''__duration'', JBool True), (''seconds'', JNum s)]"

fun parseDateValue :: "host \<Rightarrow> pvalue \<Rightarrow> jsnum option" where
  "parseDateValue h (VNum n) = Some n"
| "parseDateValue h (VStr s) = (let ms = date_parse h s in if num_is_nan ms then None else Some ms)"
| "parseDateValue h _ = None"

definition field_ms :: "host \<Rightarrow> jsval \<Rightarrow> jsnum" where
  "field_ms h v = (case v of JNum n \<Rightarrow> n | _ \<Rightarrow> date_parse h (js_String v))"

definition eval_between :: "host \<Rightarrow> jsval \<Rightarrow> pvalue \<Rightarrow> pvalue \<Rightarrow> bool" where
  "eval_between h fieldVal v1 v2 =
     (let lhsMs = field_ms h fieldVal in
      if num_is_nan lhsMs then False
      else case parseDateValue h v1 of
             None \<Rightarrow> False
           | Some rhs1 \<Rightarrow>
               (case parseDateValue h v2 of
                  None \<Rightarrow> False
                | Some rhs2 \<Rightarrow> num_le (num_min rhs1 rhs2) lhsMs \<and> num_le lhsMs (num_max rhs1 rhs2)))"

definition eval_temporal :: "host \<Rightarrow> string \<Rightarrow> jsval \<Rightarrow> pvalue \<Rightarrow> bool" where
  "eval_temporal h op fieldVal v =
     (let lhsMs = field_ms h fieldVal in
      if num_is_nan lhsMs then False
      else case parseDateValue h v of
             None \<Rightarrow> False
           | Some rhs \<Rightarrow> if op = ''after'' then num_less rhs lhsMs else num_less lhsMs rhs)"

definition eval_numeric :: "string \<Rightarrow> jsval \<Rightarrow> pvalue \<Rightarrow> bool" where
  "eval_numeric op fieldVal v =
     (let a = as_float fieldVal; b = (case v of VDur s \<Rightarrow> s | _ \<Rightarrow> as_float (value_js v)) in
      if num_is_nan a \<or> num_is_nan b then False
      else if op = ''>'' then num_less b a
      else if op = ''<'' then num_less a b
      else if op = ''>='' then num_le b a
      else num_le a b)"

definition resolve_alias :: "string \<Rightarrow> pvalue \<Rightarrow> jsval" where
  "resolve_alias field v = (case v of
      VStr s \<Rightarrow>
        (if field = ''type'' then js_or (table_get (str_table TYPE_ALIASES) (toLowerCase s)) (JStr s)
         else if field = ''route'' then js_or (table_get ROUTE_ALIASES (toLowerCase s)) (JStr s)
         else JStr s)
    | _ \<Rightarrow> value_js v)"

definition eval_equal :: "string \<Rightarrow> jsval \<Rightarrow> pvalue \<Rightarrow> bool" where
  "eval_equal field fieldVal v =
     (let t = resolve_alias field v in
      if is_num fieldVal \<and> is_num t then strict_eq fieldVal t
      else if is_bool fieldVal \<or> is_bool t then strict_eq fieldVal t
      else toLowerCase (js_String fieldVal) = toLowerCase (js_String t))"

text \<open>\<^verbatim>\<open>s.slice(-n)\<close>: the last \<open>n\<close> characters, and the whole string for \<open>n = 0\<close>.\<close>

definition slice_last :: "nat \<Rightarrow> string \<Rightarrow> string" where
  "slice_last n s = (if n = 0 then s else drop (length s - n) s)"

definition eval_string :: "string \<Rightarrow> jsval \<Rightarrow> pvalue \<Rightarrow> bool" where
  "eval_string op fieldVal v =
     (let sv = toLowerCase (js_String fieldVal); tv = toLowerCase (js_String (value_js v)) in
      if op = ''contains'' then index_of tv sv \<noteq> None
      else if op = ''starts_with'' then index_of tv sv = Some 0
      else if op = ''ends_with'' then slice_last (length tv) sv = tv
      else False)"

definition eval_comparison :: "host \<Rightarrow> string \<Rightarrow> string \<Rightarrow> jsval \<Rightarrow> pvalue \<Rightarrow> bool" where
  "eval_comparison h field op fieldVal v =
     (if op = ''after'' \<or> op = ''before'' then eval_temporal h op fieldVal v
      else if op = ''>'' \<or> op = ''<'' \<or> op = ''>='' \<or> op = ''<='' then eval_numeric op fieldVal v
      else if op = ''=='' then eval_equal field fieldVal v
      else if op = ''!='' then \<not> eval_equal field fieldVal v
      else eval_string op fieldVal v)"

fun evaluate :: "host \<Rightarrow> ast \<Rightarrow> jsval \<Rightarrow> bool" where
  "evaluate h (And a b) p = (evaluate h a p \<and> evaluate h b p)"
| "evaluate h (Or a b) p = (evaluate h a p \<or> evaluate h b p)"
| "evaluate h (Not a) p = (\<not> evaluate h a p)"
| "evaluate h (Truthy f) p = truthy (resolveField h p f)"
| "evaluate h (In f vs) p =
     (let fieldVal = resolveField h p f in
      \<not> nullish fieldVal \<and>
      list_ex (\<lambda>v. toLowerCase (js_String (value_js v)) = toLowerCase (js_String fieldVal)) vs)"
| "evaluate h (Between f v1 v2) p =
     (let fieldVal = resolveField h p f in \<not> nullish fieldVal \<and> eval_between h fieldVal v1 v2)"
| "evaluate h (Comparison f op v) p =
     (let fieldVal = resolveField h p f in \<not> nullish fieldVal \<and> eval_comparison h f op fieldVal v)"

text \<open>\<^verbatim>\<open>compile\<close>: the filter and the error; an erroneous or blank expression accepts every packet.\<close>

definition compile :: "host \<Rightarrow> string \<Rightarrow> (jsval \<Rightarrow> bool) \<times> parse_error option" where
  "compile h expression =
     (case parse (date_parse h) expression of
        Inl e \<Rightarrow> (\<lambda>_. True, Some e)
      | Inr None \<Rightarrow> (\<lambda>_. True, None)
      | Inr (Some a) \<Rightarrow> (evaluate h a, None))"

section \<open>Autocompletion\<close>

definition ellipsis :: string where "ellipsis = [CHR 0xE2, CHR 0x80, CHR 0xA6]"
definition arrow :: string where "arrow = [CHR 0xE2, CHR 0x86, CHR 0x92]"
definition em_dash :: string where "em_dash = [CHR 0xE2, CHR 0x80, CHR 0x94]"

definition FIELDS :: "(string \<times> string) list" where
  "FIELDS =
    [(''type'', ''Packet payload type (ADVERT, GRP_TXT, TXT_MSG, ACK, '' @ ellipsis @ '')''),
     (''route'', ''Route type (FLOOD, DIRECT, TRANSPORT_FLOOD, TRANSPORT_DIRECT)''),
     (''transport'', ''true if route is TRANSPORT_FLOOD or TRANSPORT_DIRECT''),
     (''hash'', ''Packet hash (hex)''),
     (''raw'', ''Full raw hex of the packet''),
     (''size'', ''Total packet size in bytes''),
     (''snr'', ''Signal-to-noise ratio (dB)''),
     (''rssi'', ''Received signal strength (dBm)''),
     (''hops'', ''Number of hops in the path''),
     (''scope'', ''Transport region scope (e.g. #be). Empty for non-transport routes and unmatched regions.''),
     (''observer'', ''Observer station name''),
     (''observer_id'', ''Observer pubkey/id''),
     (''observer_iata'', ''Observer IATA region code (e.g. SJC, SFO)''),
     (''iata'', ''Alias of observer_iata''),
     (''observations'', ''Number of observations of this packet''),
     (''path'', ''Hop path as 1-byte prefixes joined (e.g. a3'' @ arrow @ ''7f). For pubkey search use routed_through.''),
     (''path_prefixes'', ''Alias of path (1-byte hop prefixes joined with arrows)''),
     (''routed_through'', ''Match packets routed through a node by pubkey (full or prefix)''),
     (''payload_bytes'', ''Payload size in bytes (size - 2 header bytes)''),
     (''payload_hex'', ''Payload bytes as hex (raw without header)''),
     (''time'', ''Packet timestamp (epoch ms)''),
     (''age'', ''Seconds since the packet was observed (use with durations: age < 1h)''),
     (''payload.name'', ''Decoded payload: node name (adverts)''),
     (''payload.lat'', ''Decoded payload: latitude''),
     (''payload.lon'', ''Decoded payload: longitude''),
     (''payload.text'', ''Decoded payload: message text (channel/DM)''),
     (''payload.channel'', ''Decoded payload: channel name''),
     (''payload.channelHash'', ''Decoded payload: channel hash''),
     (''payload.sender'', ''Decoded payload: sender name''),
     (''payload.flags.repeater'', ''Decoded payload: advert flag (repeater role)''),
     (''payload.flags.room'', ''Decoded payload: advert flag (room server)''),
     (''payload.flags.hasLocation'', ''Decoded payload: advert has location''),
     (''payload.destHash'', ''Decoded payload: destination hash byte (1B hex, REQ/RESPONSE/TXT_MSG/PATH/ANON_REQ)''),
     (''payload.srcHash'', ''Decoded payload: source hash byte (1B hex, REQ/RESPONSE/TXT_MSG/PATH/ANON_REQ)''),
     (''code1'', ''Transport route Code1 (hex, e.g. AABB) '' @ em_dash @ '' present on TRANSPORT_FLOOD/DIRECT''),
     (''code2'', ''Transport route Code2 (hex, e.g. CCDD) '' @ em_dash @ '' present on TRANSPORT_FLOOD/DIRECT'')]"

definition OPERATORS :: "(string \<times> string \<times> string) list" where
  "OPERATORS =
    [(''=='', ''Equal (case-insensitive for strings, alias-aware for type/route)'', ''type == ADVERT''),
     (''!='', ''Not equal'', ''type != ACK''),
     (''>'', ''Greater than (numeric)'', ''snr > 5''),
     (''<'', ''Less than (numeric)'', ''rssi < -90''),
     (''>='', ''Greater or equal'', ''hops >= 2''),
     (''<='', ''Less or equal'', ''size <= 100''),
     (''contains'', ''Substring match (case-insensitive)'', ''payload.name contains \"Gilroy\"''),
     (''starts_with'', ''String prefix match'', ''hash starts_with \"8a91\"''),
     (''ends_with'', ''String suffix match'', ''hash ends_with \"ff\"''),
     (''after'', ''Datetime after (ISO or epoch)'', ''time after \"2025-01-01\"''),
     (''before'', ''Datetime before'', ''time before \"2025-12-31\"''),
     (''between'', ''Datetime between two values'', ''time between \"2025-01-01\" \"2025-02-01\"''),
     (''in'', ''Value in a list (case-insensitive for strings)'', ''iata in (\"SJC\",\"SFO\")'')]"

definition TYPE_VALUES :: "string list" where
  "TYPE_VALUES = [''REQ'', ''RESPONSE'', ''TXT_MSG'', ''ACK'', ''ADVERT'', ''GRP_TXT'', ''GRP_DATA'',
     ''ANON_REQ'', ''PATH'', ''TRACE'', ''MULTIPART'', ''CONTROL'', ''RAW_CUSTOM'']"

definition ROUTE_VALUES :: "string list" where
  "ROUTE_VALUES = [''TRANSPORT_FLOOD'', ''FLOOD'', ''DIRECT'', ''TRANSPORT_DIRECT'']"

record suggestion =
  sug_value :: string
  sug_kind :: string
  sug_desc :: string

record suggest_result =
  suggestions :: "suggestion list"
  replaceStart :: nat
  replaceEnd :: nat

definition rtrim :: "string \<Rightarrow> string" where
  "rtrim s = rev (dropWhile is_ws (rev s))"

definition suggest_ops :: "string list" where
  "suggest_ops = [''=='', ''!='', ''>='', ''<='', ''>'', ''<'', ''contains'', ''starts_with'', ''ends_with'',
     ''after'', ''before'', ''between'', ''&&'', ''||'', ''('', ''!'']"

text \<open>
  The match of an alternation anchored at the end is the one that starts first, that is the
  longest alternative that is a suffix.
\<close>

definition last_tok :: "string \<Rightarrow> string option" where
  "last_tok s = foldl (\<lambda>best t. if suffix t s \<and> (case best of None \<Rightarrow> True | Some b \<Rightarrow> length b < length t)
                               then Some t else best) None suggest_ops"

text \<open>\<^verbatim>\<open>/([A-Za-z_][A-Za-z0-9_.]*)$/\<close>.\<close>

definition ident_suffix :: "string \<Rightarrow> string option" where
  "ident_suffix s = (let w = dropWhile (\<lambda>c. \<not> word_start c) (rev (takeWhile word_char (rev s)))
                     in if w = [] then None else Some w)"

definition makePrefixSuggestions :: "string \<Rightarrow> (string \<times> string) list \<Rightarrow> string \<Rightarrow> suggestion list" where
  "makePrefixSuggestions partial items kind =
     (let p = toLowerCase partial in
      map (\<lambda>(v, d). \<lparr>sug_value = v, sug_kind = kind, sug_desc = d\<rparr>)
        (filter (\<lambda>(v, d). p = [] \<or> index_of p (toLowerCase v) = Some 0) items))"

definition suggest_fields :: "string list option \<Rightarrow> (string \<times> string) list" where
  "suggest_fields payloadKeys = FIELDS @
     (case payloadKeys of
        None \<Rightarrow> []
      | Some ks \<Rightarrow> map (\<lambda>k. (''payload.'' @ k, ''Decoded payload field (dynamic)''))
                    (filter (\<lambda>k. ''payload.'' @ k \<notin> fst ` set FIELDS) ks))"

text \<open>Cases A, B and C of the source, from the text before the current word and the word's typed part.\<close>

definition suggest_items :: "string \<Rightarrow> string \<Rightarrow> string list option \<Rightarrow> suggestion list" where
  "suggest_items preceding partial payloadKeys =
     (let lastTok = last_tok preceding;
          fieldBefore = (case lastTok of
             None \<Rightarrow> None
           | Some t \<Rightarrow> ident_suffix (rtrim (take (length preceding - length t) preceding)));
          is_eq = (lastTok = Some ''=='' \<or> lastTok = Some ''!='');
          vals = (\<lambda>vs. map (\<lambda>v. (v, [])) vs)
      in if fieldBefore = Some ''type'' \<and> is_eq
         then makePrefixSuggestions partial (vals TYPE_VALUES) ''value''
         else if fieldBefore = Some ''route'' \<and> is_eq
         then makePrefixSuggestions partial (vals ROUTE_VALUES) ''value''
         else if partial = [] \<and> preceding \<noteq> [] \<and> ident_suffix preceding \<noteq> None \<and> lastTok = None
         then map (\<lambda>(v, d, _). \<lparr>sug_value = v, sug_kind = ''op'', sug_desc = d\<rparr>) OPERATORS
         else makePrefixSuggestions partial (suggest_fields payloadKeys) ''field'')"

definition suggest :: "string \<Rightarrow> nat option \<Rightarrow> string list option \<Rightarrow> suggest_result" where
  "suggest input cursor0 payloadKeys =
     (let cursor = (case cursor0 of None \<Rightarrow> length input | Some c \<Rightarrow> c);
          before = take cursor input;
          start = (if cursor \<le> length input
                   then cursor - length (takeWhile word_char (rev before)) else cursor)
      in \<lparr>suggestions = suggest_items (rtrim (take start before)) (drop start before) payloadKeys,
          replaceStart = start,
          replaceEnd = cursor + length (takeWhile word_char (drop cursor input))\<rparr>)"

section \<open>Facts about evaluation\<close>

lemma num_min_max_commute: "num_min a b = num_min b a" "num_max a b = num_max b a"
  by (cases a; cases b; auto simp: num_min_def num_max_def)+

lemma eval_between_sym: "eval_between h fv v1 v2 = eval_between h fv v2 v1"
  by (simp add: eval_between_def Let_def num_min_max_commute [of _ "the (parseDateValue h v1)"] split: option.split)
     (metis num_min_max_commute)

lemma slice_last_suffix: "slice_last (length tv) sv = tv \<longleftrightarrow> (if tv = [] then sv = [] else suffix tv sv)"
  by (auto simp: slice_last_def suffix_def) (metis append_take_drop_id)

lemma eval_string_meaning:
  "eval_string ''contains'' fv v \<longleftrightarrow> sublist (toLowerCase (js_String (value_js v))) (toLowerCase (js_String fv))"
  "eval_string ''starts_with'' fv v \<longleftrightarrow> prefix (toLowerCase (js_String (value_js v))) (toLowerCase (js_String fv))"
  "eval_string ''ends_with'' fv v \<longleftrightarrow>
     (if toLowerCase (js_String (value_js v)) = [] then toLowerCase (js_String fv) = []
      else suffix (toLowerCase (js_String (value_js v))) (toLowerCase (js_String fv)))"
  unfolding eval_string_def Let_def slice_last_suffix
  using index_of_None_iff by (auto simp: index_of_0 starts_with_prefix)

lemma obj_get_str_table: "obj_get (str_table t) k = map_option JStr (obj_get t k)"
  by (simp add: str_table_def map_of_map)

lemma nat_to_dec_not_proto: "nat_to_dec i \<notin> set object_proto"
proof
  have "list_all (\<lambda>s. \<not> list_all is_digit s) object_proto"
    by (simp add: object_proto_def is_digit_def)
  moreover assume "nat_to_dec i \<in> set object_proto"
  ultimately show False using nat_to_dec_all_digits [of i] by (auto simp: list_all_iff)
qed

lemma js_String_nat: "js_String (JNum (Fin (of_nat i))) = nat_to_dec i"
  using rat_to_string_int [of "int i"] by simp

lemma type_field:
  assumes "js_prop p ''payload_type'' = JNum (Fin (of_nat i))"
  shows "resolveField h p ''type'' = JStr (case enumNameById i of Some e \<Rightarrow> e | None \<Rightarrow> [])"
  using nat_to_dec_not_proto [of i]
  by (auto simp: resolveField_def assms js_String_nat table_get_def obj_get_str_table
      enumNameById_def js_or_def simp del: js_String.simps split: option.splits)

text \<open>The lower-case enum names are different from each other and resolve to their own enum, if to any.\<close>

lemma lower_enum_names:
  "map (\<lambda>(e, l). (e, toLowerCase e)) PAYLOAD_LABELS =
    [(''REQ'', ''req''), (''RESPONSE'', ''response''), (''TXT_MSG'', ''txt_msg''), (''ACK'', ''ack''),
     (''ADVERT'', ''advert''), (''GRP_TXT'', ''grp_txt''), (''GRP_DATA'', ''grp_data''),
     (''ANON_REQ'', ''anon_req''), (''PATH'', ''path''), (''TRACE'', ''trace''),
     (''MULTIPART'', ''multipart''), (''CONTROL'', ''control''), (''RAW_CUSTOM'', ''raw_custom'')]"
  by code_simp

lemma alias_of_enum:
  assumes "(e, l) \<in> set PAYLOAD_LABELS"
  shows "js_or (table_get (str_table TYPE_ALIASES) (toLowerCase e)) (JStr s) \<in> {JStr e, JStr s}"
proof -
  have "list_all (\<lambda>(e, a). js_or (table_get (str_table TYPE_ALIASES) a) (JStr s) \<in> {JStr e, JStr s})
          (map (\<lambda>(e, l). (e, toLowerCase e)) PAYLOAD_LABELS)"
    unfolding lower_enum_names
    by (simp add: TYPE_ALIASES_def table_get_def str_table_def object_proto_def js_or_def)
  with assms show ?thesis by (auto simp: list_all_iff)
qed

lemma enum_lower_inj:
  assumes "(e, l) \<in> set PAYLOAD_LABELS" "(e', l') \<in> set PAYLOAD_LABELS" "toLowerCase e = toLowerCase e'"
  shows "e = e'"
proof -
  have "list_all (\<lambda>(e, a). list_all (\<lambda>(e', a'). a = a' \<longrightarrow> e = e')
          (map (\<lambda>(e, l). (e, toLowerCase e)) PAYLOAD_LABELS))
          (map (\<lambda>(e, l). (e, toLowerCase e)) PAYLOAD_LABELS)"
    unfolding lower_enum_names by simp
  with assms show ?thesis by (fastforce simp: list_all_iff)
qed

lemma enum_names_facts:
  "list_all (\<lambda>(e, l). e \<noteq> []) PAYLOAD_LABELS" "distinct (map fst PAYLOAD_LABELS)"
  by (simp_all add: PAYLOAD_LABELS_def mk_label_def)

lemma enumNameById_Some: "enumNameById i = Some e \<longleftrightarrow> (\<exists>l. (e, l) \<in> set PAYLOAD_LABELS \<and> enumId l = i)"
proof
  show "enumNameById i = Some e" if "\<exists>l. (e, l) \<in> set PAYLOAD_LABELS \<and> enumId l = i"
    using that labels_consistent(2) by blast
  assume "enumNameById i = Some e"
  then obtain k l where "(k, l) \<in> set PAYLOAD_LABELS" "enumId l = i" "enumName l = e"
    unfolding enumNameById_eq by (auto dest!: map_of_SomeD)
  with labels_consistent(1) show "\<exists>l. (e, l) \<in> set PAYLOAD_LABELS \<and> enumId l = i" by blast
qed

lemma alias_target:
  assumes "(e, l) \<in> set PAYLOAD_LABELS" "toLowerCase s = toLowerCase (short l) \<or> toLowerCase s = toLowerCase e"
  shows "\<exists>t. resolve_alias ''type'' (VStr s) = JStr t \<and> toLowerCase t = toLowerCase e"
  using assms(2)
proof
  assume "toLowerCase s = toLowerCase (short l)"
  with alias_of_short [OF assms(1)] enum_names_facts(1) assms(1) show ?thesis
    by (auto simp: resolve_alias_def table_get_def obj_get_str_table js_or_def list_all_iff)
next
  assume "toLowerCase s = toLowerCase e"
  with alias_of_enum [OF assms(1), of s] show ?thesis by (auto simp: resolve_alias_def)
qed

lemma type_filter:
  assumes l: "(e, l) \<in> set PAYLOAD_LABELS"
    and s: "toLowerCase s = toLowerCase (short l) \<or> toLowerCase s = toLowerCase e"
    and p: "js_prop p ''payload_type'' = JNum (Fin (of_nat i))"
  shows "evaluate h (Comparison ''type'' ''=='' (VStr s)) p \<longleftrightarrow> i = enumId l"
proof -
  obtain t where t: "resolve_alias ''type'' (VStr s) = JStr t" "toLowerCase t = toLowerCase e"
    using alias_target [OF l s] by blast
  have ne: "e \<noteq> []" using enum_names_facts(1) l by (auto simp: list_all_iff)
  then have "evaluate h (Comparison ''type'' ''=='' (VStr s)) p \<longleftrightarrow>
      (case enumNameById i of Some e' \<Rightarrow> toLowerCase e' = toLowerCase e | None \<Rightarrow> False)"
    by (auto simp: type_field [OF p] eval_comparison_def eval_equal_def t(1) t(2) [unfolded toLowerCase_def] toLowerCase_def
        split: option.splits)
  also have "\<dots> \<longleftrightarrow> enumNameById i = Some e"
  proof (cases "enumNameById i")
    case (Some e')
    then obtain l' where "(e', l') \<in> set PAYLOAD_LABELS" by (auto simp: enumNameById_Some)
    with Some show ?thesis by (auto dest: enum_lower_inj [OF _ l])
  qed simp
  also have "\<dots> \<longleftrightarrow> i = enumId l"
    using l enum_names_facts(2) by (auto simp: enumNameById_Some dest: eq_key_imp_eq_value)
  finally show ?thesis .
qed

text \<open>The span the autocompletion replaces, and what it offers for it.\<close>

lemma suggest_start_eq:
  "c \<le> length input \<Longrightarrow> replaceStart (suggest input (Some c) keys) = c - length (takeWhile word_char (rev (take c input)))"
  by (simp add: suggest_def Let_def)

lemma suggest_end_eq:
  "replaceEnd (suggest input (Some c) keys) = c + length (takeWhile word_char (drop c input))"
  by (simp add: suggest_def Let_def)

lemma suggest_span:
  assumes "cursor \<le> length input"
  shows "replaceStart (suggest input (Some cursor) keys) \<le> cursor \<and>
     cursor \<le> replaceEnd (suggest input (Some cursor) keys) \<and>
     replaceEnd (suggest input (Some cursor) keys) \<le> length input"
  using assms length_takeWhile_le [of word_char "drop cursor input"]
  by (simp add: suggest_start_eq suggest_end_eq)

lemma drop_takeWhile_rev: "drop (length xs - length (takeWhile P (rev xs))) xs = rev (takeWhile P (rev xs))"
proof -
  have "xs = rev (dropWhile P (rev xs)) @ rev (takeWhile P (rev xs))"
    by (metis rev_append rev_rev_ident takeWhile_dropWhile_id)
  then show ?thesis
    by (metis append_eq_conv_conj diff_add_inverse2 length_append length_rev)
qed

lemma makePrefix_prefix:
  "x \<in> set (makePrefixSuggestions partial items kind) \<Longrightarrow> prefix (toLowerCase partial) (toLowerCase (sug_value x))"
  by (auto simp: makePrefixSuggestions_def Let_def index_of_0 starts_with_prefix)

lemma suggest_items_prefix:
  "x \<in> set (suggest_items preceding partial keys) \<Longrightarrow> prefix (toLowerCase partial) (toLowerCase (sug_value x))"
  unfolding suggest_items_def Let_def
  by (auto simp: toLowerCase_def dest: makePrefix_prefix split: if_split_asm)

lemma suggest_prefix:
  "x \<in> set (suggestions (suggest input (Some cursor) keys)) \<Longrightarrow>
   prefix (toLowerCase (drop (replaceStart (suggest input (Some cursor) keys)) (take cursor input)))
     (toLowerCase (sug_value x))"
  by (rule suggest_items_prefix [where keys = keys]) (simp add: suggest_def Let_def)

lemma suggest_start:
  assumes "cursor \<le> length input"
  shows "list_all word_char (drop (replaceStart (suggest input (Some cursor) keys)) (take cursor input))"
proof -
  have "drop (replaceStart (suggest input (Some cursor) keys)) (take cursor input)
      = rev (takeWhile word_char (rev (take cursor input)))"
    using drop_takeWhile_rev [of "take cursor input" word_char] assms by (simp add: suggest_start_eq min_absorb2)
  then show ?thesis by (auto simp: list_all_iff dest: set_takeWhileD)
qed

section \<open>Properties\<close>

text \<open>
  Selecting by payload type.  For every entry of the label table, \<^verbatim>\<open>type == x\<close>, where
  \<^verbatim>\<open>x\<close> is the entry's short label or its enum name in any case, accepts exactly the packets
  whose payload type is the entry's number.
\<close>

theorem filter_by_type_label:
  assumes "(e, l) \<in> set PAYLOAD_LABELS"
    and "toLowerCase s = toLowerCase (short l) \<or> toLowerCase s = toLowerCase e"
    and "js_prop p ''payload_type'' = JNum (Fin (of_nat i))"
  shows "evaluate h (Comparison ''type'' ''=='' (VStr s)) p \<longleftrightarrow> i = enumId l"
  using assms by (rule type_filter)

definition demo_host :: host where
  "demo_host = \<lparr>date_parse = \<lambda>_. NaN, now_ms = 0, win_route_types = None\<rparr>"

theorem filter_by_type_label_witness:
  "evaluate demo_host (Comparison ''type'' ''=='' (VStr ''Channel Msg'')) (JObj [(''payload_type'', JNum (Fin (of_nat 5)))])
     \<longleftrightarrow> (5::nat) = 5"
  using filter_by_type_label [of "''GRP_TXT''" "snd (mk_label ''GRP_TXT'' ''Channel Msg'' ''Channel-scoped group text message'' 5)"
      "''Channel Msg''" "JObj [(''payload_type'', JNum (Fin (of_nat 5)))]" 5 demo_host]
  by (simp add: PAYLOAD_LABELS_def mk_label_def js_prop_def table_get_def)

text \<open>
  A packet without the field.  When the field has no value in a packet, every comparison on
  it is false, \<^verbatim>\<open>!=\<close>, \<^verbatim>\<open>in\<close> and \<^verbatim>\<open>between\<close> included, and its negation accepts the packet.
\<close>

theorem missing_field_rejects:
  "nullish (resolveField h p f) \<Longrightarrow>
     \<not> evaluate h (Comparison f op v) p \<and> \<not> evaluate h (Between f v v') p \<and>
     \<not> evaluate h (In f vs) p \<and> evaluate h (Not (Comparison f op v)) p"
  by simp

theorem missing_field_rejects_witness:
  "\<not> evaluate demo_host (Comparison ''snr'' ''!='' (VNum (Fin 5))) (JObj [])"
  using missing_field_rejects [of demo_host "JObj []" "''snr''" "''!=''" "VNum (Fin 5)"]
  by (simp add: resolveField_def js_prop_def table_get_def object_proto_def)

text \<open>
  C2: Comparison operators.  On a packet that has the field, \<^verbatim>\<open>!=\<close> is the exact negation of
  \<^verbatim>\<open>==\<close>; \<^verbatim>\<open>contains\<close>, \<^verbatim>\<open>starts_with\<close> and \<^verbatim>\<open>ends_with\<close> are the sublist, prefix and suffix relations
  of the lower-case strings, except that \<^verbatim>\<open>ends_with ""\<close> only accepts the empty string; and
  \<^verbatim>\<open>between\<close> does not depend on the order of its bounds.
\<close>

theorem comparison_semantics:
  assumes "fv = resolveField h p f" "\<not> nullish fv"
    and "sv = toLowerCase (js_String fv)" "tv = toLowerCase (js_String (value_js v))"
  shows "(evaluate h (Comparison f ''!='' v) p \<longleftrightarrow> \<not> evaluate h (Comparison f ''=='' v) p) \<and>
     (evaluate h (Comparison f ''contains'' v) p \<longleftrightarrow> sublist tv sv) \<and>
     (evaluate h (Comparison f ''starts_with'' v) p \<longleftrightarrow> prefix tv sv) \<and>
     (evaluate h (Comparison f ''ends_with'' v) p \<longleftrightarrow> (if tv = [] then sv = [] else suffix tv sv)) \<and>
     (evaluate h (Between f v v') p \<longleftrightarrow> evaluate h (Between f v' v) p)"
  using assms by (simp add: eval_comparison_def eval_string_meaning eval_between_sym [of h _ v v'])

theorem comparison_semantics_witness:
  "\<not> evaluate demo_host (Comparison ''hash'' ''ends_with'' (VStr [])) (JObj [(''hash'', JStr ''8a91'')])"
  using comparison_semantics [OF refl _ refl refl, of demo_host "JObj [(''hash'', JStr ''8a91'')]" "''hash''" "VStr []"]
  by (simp add: resolveField_def js_prop_def table_get_def js_or_def toLowerCase_def)

text \<open>
  The autocompletion.  For a cursor inside the input the replaced span contains the cursor and
  lies inside the input, the part of it before the cursor is a run of word characters, and
  every suggestion starts with that part, upper and lower case being ignored.
\<close>

theorem suggest_correct:
  assumes "cursor \<le> length input" "r = suggest input (Some cursor) keys"
  shows "replaceStart r \<le> cursor \<and> cursor \<le> replaceEnd r \<and> replaceEnd r \<le> length input \<and>
     list_all word_char (drop (replaceStart r) (take cursor input)) \<and>
     (\<forall>x \<in> set (suggestions r).
        prefix (toLowerCase (drop (replaceStart r) (take cursor input))) (toLowerCase (sug_value x)))"
  unfolding assms(2) using suggest_span [OF assms(1)] suggest_start [OF assms(1)] suggest_prefix by blast

theorem suggest_correct_witness:
  "replaceStart (suggest ''snr > 5 && pay'' (Some 14) None) \<le> 14"
  using suggest_correct [of 14 "''snr > 5 && pay''", OF _ refl, of None] by simp

end
