(* ===== verification/Hop_Resolver.thy ===== *)
theory Hop_Resolver
  imports Js_Base "HOL-Library.Multiset"
begin

text \<open>
  The client-side hop resolver (\<^verbatim>\<open>src/public/hop-resolver.js\<close>): it turns the hexadecimal
  prefixes of a packet's path into nodes.  The module variables are the record \<open>resolver\<close>.  Keys of
  the indexes are hexadecimal strings, an absent or null key is the empty string, coordinates are
  reals or absent.  \<^verbatim>\<open>console.debug\<close> traces are left out.
\<close>

section \<open>Data\<close>

record node =
  public_key :: string
  node_name :: "string option"
  role :: string
  node_lat :: "real option"
  node_lon :: "real option"

record candidate =
  c_name :: "string option"
  c_pubkey :: string
  c_lat :: "real option"
  c_lon :: "real option"
  c_regional :: bool
  c_method :: string
  c_dist :: "int option"

record hop_result =
  r_name :: "string option"
  r_pubkey :: string
  r_ambiguous :: bool
  r_candidates :: "candidate list"
  r_conflicts :: "candidate list"
  r_globalFallback :: bool
  r_hopBytes :: nat
  r_totalGlobal :: nat
  r_totalRegional :: nat
  r_unreliable :: bool

type_synonym pos = "real \<times> real"

record resolver =
  prefixIdx :: "node list obj"
  pubkeyIdx :: "node obj"
  nodesList :: "node list"
  observerIataMap :: "string obj"
  iataCoords :: "pos obj"
  affinityMap :: "real obj obj"

definition MAX_HOP_DIST :: real where "MAX_HOP_DIST = 18 / 10"
definition REGION_RADIUS_KM :: real where "REGION_RADIUS_KM = 300"

definition canAppearInPath :: "string \<Rightarrow> bool" where
  "canAppearInPath rl =
     (if rl = [] then False
      else let r = toLowerCase rl
           in index_of ''repeater'' r \<noteq> None \<or> index_of ''room_server'' r \<noteq> None \<or> r = ''room'')"

section \<open>Distances\<close>

definition dist_deg :: "real \<Rightarrow> real \<Rightarrow> real \<Rightarrow> real \<Rightarrow> real" where
  "dist_deg lat1 lon1 lat2 lon2 = sqrt ((lat1 - lat2)\<^sup>2 + (lon1 - lon2)\<^sup>2)"

text \<open>\<^verbatim>\<open>Math.atan2(y, x)\<close> for arguments that are not negative.\<close>

definition atan2 :: "real \<Rightarrow> real \<Rightarrow> real" where
  "atan2 y x = (if 0 < x then arctan (y / x) else if 0 < y then pi / 2 else 0)"

definition haversine_a :: "real \<Rightarrow> real \<Rightarrow> real \<Rightarrow> real \<Rightarrow> real" where
  "haversine_a lat1 lon1 lat2 lon2 =
     (let dLat = (lat2 - lat1) * pi / 180; dLon = (lon2 - lon1) * pi / 180
      in (sin (dLat / 2))\<^sup>2 + cos (lat1 * pi / 180) * cos (lat2 * pi / 180) * (sin (dLon / 2))\<^sup>2)"

definition haversineKm :: "real \<Rightarrow> real \<Rightarrow> real \<Rightarrow> real \<Rightarrow> real" where
  "haversineKm lat1 lon1 lat2 lon2 =
     (let a = haversine_a lat1 lon1 lat2 lon2 in 6371 * 2 * atan2 (sqrt a) (sqrt (1 - a)))"

section \<open>Building the indexes\<close>

text \<open>One node of the loop in \<^verbatim>\<open>init\<close>.\<close>

definition index_prefix :: "node list obj \<Rightarrow> string \<Rightarrow> node \<Rightarrow> node list obj" where
  "index_prefix idx p n = obj_set idx p ((case obj_get idx p of Some ns \<Rightarrow> ns | None \<Rightarrow> []) @ [n])"

definition init_node :: "node list obj \<times> node obj \<Rightarrow> node \<Rightarrow> node list obj \<times> node obj" where
  "init_node st n =
     (let (pre, pks) = st in
      if public_key n = [] then st
      else let pk = toLowerCase (public_key n); pks' = obj_set pks pk n in
           if \<not> canAppearInPath (role n) then (pre, pks')
           else (foldl (\<lambda>idx len. index_prefix idx (take (len * 2) pk) n) pre [1, 2, 3], pks'))"

definition init :: "node list \<Rightarrow> (string \<times> string) list \<Rightarrow> pos obj \<Rightarrow> resolver \<Rightarrow> resolver" where
  "init nodes observers coords st =
     (let (pre, pks) = foldl init_node ([], []) nodes
      in st\<lparr>nodesList := nodes, prefixIdx := pre, pubkeyIdx := pks,
            observerIataMap := foldl (\<lambda>m (i, iata). if i \<noteq> [] \<and> iata \<noteq> [] then obj_set m i iata else m) [] observers,
            iataCoords := coords\<rparr>)"

definition ready :: "resolver \<Rightarrow> bool" where
  "ready st = (0 < length (nodesList st))"

section \<open>Affinity\<close>

record edge =
  e_source :: string
  e_target :: string
  e_score :: real
  e_weight :: real

text \<open>\<^verbatim>\<open>e.score || e.weight || 1\<close>; an absent number is 0.\<close>

definition edge_value :: "edge \<Rightarrow> real" where
  "edge_value e = (if e_score e \<noteq> 0 then e_score e else if e_weight e \<noteq> 0 then e_weight e else 1)"

definition put_affinity :: "real obj obj \<Rightarrow> string \<Rightarrow> string \<Rightarrow> real \<Rightarrow> real obj obj" where
  "put_affinity m a b v = obj_set m a (obj_set (case obj_get m a of Some x \<Rightarrow> x | None \<Rightarrow> []) b v)"

definition setAffinity :: "edge list \<Rightarrow> resolver \<Rightarrow> resolver" where
  "setAffinity edges st =
     st\<lparr>affinityMap := foldl (\<lambda>m e. put_affinity (put_affinity m (e_source e) (e_target e) (edge_value e))
                                       (e_target e) (e_source e) (edge_value e)) [] edges\<rparr>"

definition getAffinity :: "resolver \<Rightarrow> string \<Rightarrow> string \<Rightarrow> real" where
  "getAffinity st a b =
     (if a = [] \<or> b = [] then 0
      else case obj_get (affinityMap st) a of
             None \<Rightarrow> 0
           | Some m \<Rightarrow> (case obj_get m b of None \<Rightarrow> 0 | Some v \<Rightarrow> v))"

section \<open>Choosing among candidates\<close>

record region_check =
  near :: bool
  distKm :: int

text \<open>\<^verbatim>\<open>Math.round\<close>.\<close>

definition js_round :: "real \<Rightarrow> int" where
  "js_round x = \<lfloor>x + 1 / 2\<rfloor>"

definition nodeInRegion :: "resolver \<Rightarrow> node \<Rightarrow> string \<Rightarrow> region_check option" where
  "nodeInRegion st n iata =
     (case obj_get (iataCoords st) iata of
        None \<Rightarrow> None
      | Some (clat, clon) \<Rightarrow>
          (case (node_lat n, node_lon n) of
             (Some la, Some lo) \<Rightarrow>
               (if la \<noteq> 0 \<and> lo \<noteq> 0 then
                  let d = haversineKm la lo clat clon
                  in Some \<lparr>near = (d \<le> REGION_RADIUS_KM), distKm = js_round d\<rparr>
                else None)
           | _ \<Rightarrow> None))"

definition has_loc :: "candidate \<Rightarrow> bool" where
  "has_loc c = (case (c_lat c, c_lon c) of (Some la, Some lo) \<Rightarrow> \<not> (la = 0 \<and> lo = 0) | _ \<Rightarrow> False)"

definition edge_sum :: "resolver \<Rightarrow> string \<Rightarrow> string \<Rightarrow> candidate \<Rightarrow> real" where
  "edge_sum st prevPubkey nextPubkey c =
     (if prevPubkey \<noteq> [] then getAffinity st prevPubkey (c_pubkey c) else 0) +
     (if nextPubkey \<noteq> [] then getAffinity st nextPubkey (c_pubkey c) else 0)"

definition geo_dist :: "pos \<Rightarrow> candidate \<Rightarrow> real" where
  "geo_dist anchor c =
     (if has_loc c then haversineKm (the (c_lat c)) (the (c_lon c)) (fst anchor) (snd anchor) else 999999)"

definition anchor_of :: "pos option \<Rightarrow> pos option \<Rightarrow> pos option" where
  "anchor_of prevPos nextPos = (case (prevPos, nextPos) of
      (None, None) \<Rightarrow> None
    | (Some p, None) \<Rightarrow> Some p
    | (None, Some q) \<Rightarrow> Some q
    | (Some p, Some q) \<Rightarrow> Some ((fst p + fst q) / 2, (snd p + snd q) / 2))"

text \<open>
  \<^verbatim>\<open>pickByAffinity\<close> on a list that is not empty.  The comparators sort by a number, and
  \<^verbatim>\<open>Array.sort\<close> is stable, as is \<open>sort_key\<close>.
\<close>

definition pickByAffinity :: "resolver \<Rightarrow> candidate list \<Rightarrow> string \<Rightarrow> string \<Rightarrow> pos option \<Rightarrow> pos option \<Rightarrow> candidate" where
  "pickByAffinity st candidates prevPubkey nextPubkey prevPos nextPos =
     (let withEdges = filter (\<lambda>c. 0 < edge_sum st prevPubkey nextPubkey c) candidates in
      if affinityMap st \<noteq> [] \<and> (prevPubkey \<noteq> [] \<or> nextPubkey \<noteq> []) \<and> withEdges \<noteq> []
      then hd (sort_key (\<lambda>c. - edge_sum st prevPubkey nextPubkey c) withEdges)
      else case anchor_of prevPos nextPos of
             Some a \<Rightarrow> hd (sort_key (geo_dist a) candidates)
           | None \<Rightarrow> hd candidates)"

section \<open>Resolving a path\<close>

definition check_region :: "resolver \<Rightarrow> string option \<Rightarrow> node \<Rightarrow> candidate" where
  "check_region st iata n =
     (let r = (case iata of None \<Rightarrow> None | Some i \<Rightarrow> nodeInRegion st n i)
      in \<lparr>c_name = node_name n, c_pubkey = public_key n, c_lat = node_lat n, c_lon = node_lon n,
          c_regional = (case r of Some x \<Rightarrow> near x | None \<Rightarrow> False),
          c_method = (case r of Some _ \<Rightarrow> ''geo'' | None \<Rightarrow> ''none''),
          c_dist = map_option distKm r\<rparr>)"

text \<open>\<^verbatim>\<open>a.distKm || 9999\<close>: a distance that rounds to 0 counts as missing.\<close>

definition dist_or :: "candidate \<Rightarrow> int" where
  "dist_or c = (case c_dist c of Some d \<Rightarrow> if d = 0 then 9999 else d | None \<Rightarrow> 9999)"

definition no_result :: hop_result where
  "no_result = \<lparr>r_name = None, r_pubkey = [], r_ambiguous = False, r_candidates = [], r_conflicts = [],
     r_globalFallback = False, r_hopBytes = 0, r_totalGlobal = 0, r_totalRegional = 0, r_unreliable = False\<rparr>"

definition first_result :: "resolver \<Rightarrow> string option \<Rightarrow> string \<Rightarrow> hop_result" where
  "first_result st iata hop =
     (let allC = (case obj_get (prefixIdx st) (toLowerCase hop) of Some ns \<Rightarrow> ns | None \<Rightarrow> []);
          checked = map (check_region st iata) allC in
      case checked of
        [] \<Rightarrow> no_result
      | [c] \<Rightarrow> no_result\<lparr>r_name := c_name c, r_pubkey := c_pubkey c, r_candidates := [c]\<rparr>
      | _ \<Rightarrow>
          (let regional = sort_key dist_or (filter c_regional checked);
               cands = (if regional \<noteq> [] then regional else checked);
               base = no_result\<lparr>r_name := c_name (hd cands), r_pubkey := c_pubkey (hd cands),
                        r_candidates := cands, r_conflicts := cands,
                        r_globalFallback := (regional = [] \<and> iata \<noteq> None)\<rparr>
           in if length cands = 1 then base
              else base\<lparr>r_ambiguous := True, r_hopBytes := (length hop + 1) div 2,
                         r_totalGlobal := length allC, r_totalRegional := length regional\<rparr>))"

type_synonym rstate = "hop_result obj \<times> pos obj"

definition initial_position :: "resolver \<Rightarrow> hop_result \<Rightarrow> pos option" where
  "initial_position st r =
     (if \<not> r_ambiguous r \<and> r_pubkey r \<noteq> [] then
        (case find (\<lambda>n. public_key n = r_pubkey r) (nodesList st) of
           Some n \<Rightarrow>
             (case (node_lat n, node_lon n) of
                (Some la, Some lo) \<Rightarrow> if la \<noteq> 0 \<and> lo \<noteq> 0 then Some (la, lo) else None
              | _ \<Rightarrow> None)
         | None \<Rightarrow> None)
      else None)"

text \<open>The nearest hop of a list (the hops before, nearest first, or the hops behind) with a position.\<close>

definition neighbour :: "rstate \<Rightarrow> string list \<Rightarrow> pos option \<Rightarrow> string \<times> pos option" where
  "neighbour s hs fallback =
     (case find (\<lambda>h. obj_get (snd s) h \<noteq> None) hs of
        Some h \<Rightarrow> ((case obj_get (fst s) h of Some r \<Rightarrow> r_pubkey r | None \<Rightarrow> []), obj_get (snd s) h)
      | None \<Rightarrow> ([], fallback))"

definition disambiguate_hop ::
  "resolver \<Rightarrow> string list \<Rightarrow> pos option \<Rightarrow> pos option \<Rightarrow> rstate \<times> bool \<Rightarrow> nat \<Rightarrow> rstate \<times> bool" where
  "disambiguate_hop st hops originPos observerPos sc i =
     (let (s, changed) = sc; hop = hops ! i in
      if obj_get (snd s) hop \<noteq> None then sc
      else case obj_get (fst s) hop of
             None \<Rightarrow> sc
           | Some r \<Rightarrow>
               (let withLoc = filter has_loc (r_candidates r) in
                if \<not> r_ambiguous r \<or> withLoc = [] then sc
                else let (prevPubkey, prevPos) = neighbour s (rev (take i hops)) originPos;
                         (nextPubkey, nextPos) = neighbour s (drop (Suc i) hops) observerPos in
                     if prevPubkey = [] \<and> nextPubkey = [] \<and> prevPos = None \<and> nextPos = None then sc
                     else let picked = pickByAffinity st withLoc prevPubkey nextPubkey prevPos nextPos
                          in ((obj_set (fst s) hop (r\<lparr>r_name := c_name picked, r_pubkey := c_pubkey picked\<rparr>),
                               obj_set (snd s) hop (the (c_lat picked), the (c_lon picked))), True)))"

definition disambiguate_pass ::
  "resolver \<Rightarrow> string list \<Rightarrow> pos option \<Rightarrow> pos option \<Rightarrow> rstate \<Rightarrow> rstate \<times> bool" where
  "disambiguate_pass st hops o1 o2 s =
     foldl (disambiguate_hop st hops o1 o2) (s, False) [0..<length hops]"

fun disambiguate ::
  "nat \<Rightarrow> resolver \<Rightarrow> string list \<Rightarrow> pos option \<Rightarrow> pos option \<Rightarrow> rstate \<Rightarrow> rstate" where
  "disambiguate 0 st hops o1 o2 s = s"
| "disambiguate (Suc maxIter) st hops o1 o2 s =
     (let (s', changed) = disambiguate_pass st hops o1 o2 s
      in if changed then disambiguate maxIter st hops o1 o2 s' else s')"

definition sanity_hop :: "string list \<Rightarrow> rstate \<Rightarrow> nat \<Rightarrow> rstate" where
  "sanity_hop hops s i =
     (case obj_get (snd s) (hops ! i) of
        None \<Rightarrow> s
      | Some (la, lo) \<Rightarrow>
          (let prev = (if 0 < i then obj_get (snd s) (hops ! (i - 1)) else None);
               next = (if i + 1 < length hops then obj_get (snd s) (hops ! (i + 1)) else None);
               far = (\<lambda>q. case q of None \<Rightarrow> False | Some (a, b) \<Rightarrow> MAX_HOP_DIST < dist_deg la lo a b)
           in if prev = None \<and> next = None then s
              else if (far prev \<and> far next) \<or> (far prev \<and> next = None) \<or> (far next \<and> prev = None) then
                ((case obj_get (fst s) (hops ! i) of
                    Some r \<Rightarrow> obj_set (fst s) (hops ! i) (r\<lparr>r_unreliable := True\<rparr>)
                  | None \<Rightarrow> fst s),
                 obj_del (snd s) (hops ! i))
              else s))"

definition resolve_first :: "resolver \<Rightarrow> string option \<Rightarrow> string list \<Rightarrow> hop_result obj" where
  "resolve_first st iata hops = foldl (\<lambda>m hop. obj_set m hop (first_result st iata hop)) [] hops"

definition resolve_positions :: "resolver \<Rightarrow> hop_result obj \<Rightarrow> string list \<Rightarrow> pos obj" where
  "resolve_positions st res hops =
     foldl (\<lambda>m hop. case obj_get res hop of
              None \<Rightarrow> m
            | Some r \<Rightarrow> (case initial_position st r of Some p \<Rightarrow> obj_set m hop p | None \<Rightarrow> m)) [] hops"

definition both :: "real option \<Rightarrow> real option \<Rightarrow> pos option" where
  "both a b = (case (a, b) of (Some x, Some y) \<Rightarrow> Some (x, y) | _ \<Rightarrow> None)"

definition resolve ::
  "resolver \<Rightarrow> string list \<Rightarrow> real option \<Rightarrow> real option \<Rightarrow> real option \<Rightarrow> real option \<Rightarrow> string \<Rightarrow> hop_result obj" where
  "resolve st hops originLat originLon observerLat observerLon observerId =
     (let iata = (if observerId \<noteq> [] then obj_get (observerIataMap st) observerId else None);
          res = resolve_first st iata hops;
          s0 = (res, resolve_positions st res hops);
          s1 = disambiguate (Suc (length hops)) st hops (both originLat originLon) (both observerLat observerLon) s0
      in fst (foldl (sanity_hop hops) s1 [0..<length hops]))"

section \<open>Lookups by full key\<close>

definition nameForKey :: "resolver \<Rightarrow> string \<Rightarrow> string option" where
  "nameForKey st pubkey =
     (if pubkey = [] then None
      else case obj_get (pubkeyIdx st) (toLowerCase pubkey) of
             Some n \<Rightarrow> (if node_name n = Some [] then None else node_name n)
           | None \<Rightarrow> None)"

definition resolveFromServer :: "resolver \<Rightarrow> string list \<Rightarrow> string list \<Rightarrow> hop_result obj" where
  "resolveFromServer st hops resolvedPath =
     (if length hops \<noteq> length resolvedPath then []
      else foldl (\<lambda>m (hop, pubkey).
             if pubkey = [] then m
             else obj_set m hop
               (case obj_get (pubkeyIdx st) (toLowerCase pubkey) of
                  Some n \<Rightarrow> no_result\<lparr>r_name := node_name n, r_pubkey := pubkey,
                     r_candidates := [\<lparr>c_name = node_name n, c_pubkey = pubkey, c_lat = node_lat n,
                        c_lon = node_lon n, c_regional = False, c_method = [], c_dist = None\<rparr>]\<rparr>
                | None \<Rightarrow> no_result\<lparr>r_name := Some (take 8 pubkey), r_pubkey := pubkey\<rparr>)) [] (zip hops resolvedPath))"

section \<open>The great-circle distance\<close>

lemma sin_sq_half: "(sin (x / 2))\<^sup>2 = (1 - cos x) / 2" for x :: real
  using cos_double_sin [of "x / 2"] by simp

lemma haversine_a_eq:
  "haversine_a lat1 lon1 lat2 lon2 =
     (1 - (sin (lat1 * pi / 180) * sin (lat2 * pi / 180) +
           cos (lat1 * pi / 180) * cos (lat2 * pi / 180) * cos ((lon2 - lon1) * pi / 180))) / 2"
proof -
  have "cos ((lat2 - lat1) * pi / 180) =
      cos (lat2 * pi / 180) * cos (lat1 * pi / 180) + sin (lat2 * pi / 180) * sin (lat1 * pi / 180)"
    using cos_diff [of "lat2 * pi / 180" "lat1 * pi / 180"] by (simp add: left_diff_distrib diff_divide_distrib)
  then show ?thesis by (simp add: haversine_a_def Let_def sin_sq_half field_simps)
qed

lemma spherical_bound: "\<bar>sin a * sin b + cos a * cos b * cos c\<bar> \<le> 1" for a b c :: real
proof -
  have "\<bar>cos a * cos b * cos c\<bar> \<le> \<bar>cos a * cos b\<bar>"
    using abs_cos_le_one [of c] by (simp add: abs_mult mult_left_le)
  moreover have "cos (a - b) = cos a * cos b + sin a * sin b" "cos (a + b) = cos a * cos b - sin a * sin b"
    by (simp_all add: cos_diff cos_add)
  moreover have "\<bar>cos (a - b)\<bar> \<le> 1" "\<bar>cos (a + b)\<bar> \<le> 1" by simp_all
  ultimately show ?thesis by arith
qed

lemma haversine_a_bounds: "0 \<le> haversine_a lat1 lon1 lat2 lon2" "haversine_a lat1 lon1 lat2 lon2 \<le> 1"
  using spherical_bound [of "lat1 * pi / 180" "lat2 * pi / 180" "(lon2 - lon1) * pi / 180"]
  unfolding haversine_a_eq by (auto simp: abs_le_iff)

lemma atan2_bounds: "0 \<le> y \<Longrightarrow> 0 \<le> x \<Longrightarrow> 0 \<le> atan2 y x \<and> atan2 y x \<le> pi / 2"
  using arctan_ubound [of "y / x"] by (auto simp: atan2_def less_imp_le)

lemma haversine_bounds: "0 \<le> haversineKm a b c d" "haversineKm a b c d \<le> 6371 * pi"
  using atan2_bounds [of "sqrt (haversine_a a b c d)" "sqrt (1 - haversine_a a b c d)"] haversine_a_bounds [of a b c d]
  by (simp_all add: haversineKm_def Let_def)

lemma haversine_sym: "haversineKm a b c d = haversineKm c d a b"
proof -
  have "cos ((d - b) * pi / 180) = cos ((b - d) * pi / 180)"
    by (metis cos_minus minus_diff_eq minus_mult_left minus_divide_left)
  then have "haversine_a a b c d = haversine_a c d a b" by (simp add: haversine_a_eq mult.commute mult.left_commute)
  then show ?thesis by (simp add: haversineKm_def)
qed

lemma haversine_self: "haversineKm a b a b = 0"
  by (simp add: haversineKm_def haversine_a_def atan2_def)

section \<open>Sorting picks the best candidate\<close>

lemma hd_sort_key_min:
  assumes "xs \<noteq> []"
  shows "hd (sort_key f xs) \<in> set xs" "x \<in> set xs \<Longrightarrow> f (hd (sort_key f xs)) \<le> f x"
proof -
  let ?ys = "sort_key f xs"
  have ne: "?ys \<noteq> []" using assms by (metis length_0_conv length_sort)
  then have "hd ?ys \<in> set ?ys" by (rule hd_in_set)
  then show "hd ?ys \<in> set xs" by simp
  assume "x \<in> set xs"
  then have x: "x \<in> set ?ys" by simp
  have "sorted (map f ?ys)" by simp
  with ne x show "f (hd ?ys) \<le> f x" by (cases ?ys) auto
qed

text \<open>The head after a stable sort is the earliest of the smallest elements.\<close>

lemma hd_sort_key_first:
  "xs \<noteq> [] \<Longrightarrow> \<exists>before after. xs = before @ hd (sort_key f xs) # after \<and>
     (\<forall>x \<in> set before. f (hd (sort_key f xs)) < f x) \<and> (\<forall>x \<in> set after. f (hd (sort_key f xs)) \<le> f x)"
proof (induction xs)
  case (Cons x xs)
  let ?h = "hd (sort_key f xs)"
  show ?case
  proof (cases "xs = []")
    case False
    then have ne: "sort_key f xs \<noteq> []" by (metis length_0_conv length_sort)
    then have hd: "hd (sort_key f (x # xs)) = (if f x \<le> f ?h then x else ?h)" by (cases "sort_key f xs") simp_all
    obtain before after where ba: "xs = before @ ?h # after" "\<forall>y \<in> set before. f ?h < f y" "\<forall>y \<in> set after. f ?h \<le> f y"
      using Cons.IH [OF False] by blast
    show ?thesis
    proof (cases "f x \<le> f ?h")
      case True
      have "\<forall>y \<in> set xs. f ?h \<le> f y" using hd_sort_key_min(2) [OF False] by blast
      with True have "\<forall>y \<in> set xs. f x \<le> f y" by force
      then have "x # xs = [] @ x # xs \<and> (\<forall>y \<in> set []. f x < f y) \<and> (\<forall>y \<in> set xs. f x \<le> f y)" by simp
      with True show ?thesis unfolding hd by (simp only: if_True) blast
    next
      case False
      then have "x # xs = (x # before) @ ?h # after \<and> (\<forall>y \<in> set (x # before). f ?h < f y) \<and> (\<forall>y \<in> set after. f ?h \<le> f y)"
        using ba by simp
      with False show ?thesis unfolding hd by (simp only: if_False) blast
    qed
  qed (auto intro: exI [of _ "[]"])
qed simp

lemma pick_in: "cs \<noteq> [] \<Longrightarrow> pickByAffinity st cs p q pp qq \<in> set cs"
proof -
  assume ne: "cs \<noteq> []"
  let ?we = "filter (\<lambda>c. 0 < edge_sum st p q c) cs"
  have "?we \<noteq> [] \<Longrightarrow> hd (sort_key (\<lambda>c. - edge_sum st p q c) ?we) \<in> set cs"
    using hd_sort_key_min(1) [of ?we "\<lambda>c. - edge_sum st p q c"] by auto
  moreover have "hd (sort_key (geo_dist a) cs) \<in> set cs" for a
    using hd_sort_key_min(1) [OF ne] by blast
  ultimately show ?thesis
    using ne unfolding pickByAffinity_def Let_def by (simp split: option.split)
qed

text \<open>A positive sum of scores comes from a graph and a neighbour.\<close>

lemma edge_sum_pos: "0 < edge_sum st p q c \<Longrightarrow> affinityMap st \<noteq> [] \<and> (p \<noteq> [] \<or> q \<noteq> [])"
  by (auto simp: edge_sum_def getAffinity_def split: if_splits)

lemma filter_split:
  "filter P xs = b @ c # a \<Longrightarrow> \<exists>before after. xs = before @ c # after \<and> b = filter P before \<and> a = filter P after"
proof (induction xs arbitrary: b)
  case (Cons x xs)
  show ?case
  proof (cases "P x \<and> b = []")
    case True
    with Cons.prems show ?thesis by (intro exI [of _ "[]"] exI [of _ xs]) simp
  next
    case False
    with Cons.prems have "filter P xs = (if P x then tl b else b) @ c # a" by (cases b) (auto split: if_splits)
    from Cons.IH [OF this] obtain before after where
      "xs = before @ c # after" "(if P x then tl b else b) = filter P before" "a = filter P after" by blast
    with Cons.prems False show ?thesis
      by (intro exI [of _ "x # before"] exI [of _ after]) (cases b; auto split: if_splits)
  qed
qed simp

lemma pick_graph:
  assumes "\<exists>c \<in> set cs. 0 < edge_sum st p q c"
  assumes ch_def: "ch = pickByAffinity st cs p q pp qq"
  shows "\<exists>before after. cs = before @ ch # after \<and>
    (\<forall>c \<in> set before. edge_sum st p q c < edge_sum st p q ch) \<and> (\<forall>c \<in> set after. edge_sum st p q c \<le> edge_sum st p q ch)"
proof -
  let ?we = "filter (\<lambda>c. 0 < edge_sum st p q c) cs"
  have ne: "?we \<noteq> []" using assms(1) by (auto simp: filter_empty_conv)
  then have ch: "ch = hd (sort_key (\<lambda>c. - edge_sum st p q c) ?we)"
    using assms(1) edge_sum_pos unfolding ch_def pickByAffinity_def Let_def by fastforce
  obtain b a where we: "?we = b @ ch # a" "\<forall>c \<in> set b. edge_sum st p q c < edge_sum st p q ch"
      "\<forall>c \<in> set a. edge_sum st p q c \<le> edge_sum st p q ch"
    using hd_sort_key_first [OF ne, of "\<lambda>c. - edge_sum st p q c"] unfolding ch [symmetric] by auto
  then obtain before after where cs: "cs = before @ ch # after" "b = filter (\<lambda>c. 0 < edge_sum st p q c) before"
      "a = filter (\<lambda>c. 0 < edge_sum st p q c) after"
    using filter_split by metis
  have "ch \<in> set ?we" using we(1) by simp
  then have "0 < edge_sum st p q ch" by simp
  then have "\<forall>c \<in> set before. edge_sum st p q c < edge_sum st p q ch" "\<forall>c \<in> set after. edge_sum st p q c \<le> edge_sum st p q ch"
    using we(2,3) unfolding cs(2,3) by (fastforce simp: not_less)+
  with cs(1) show ?thesis by blast
qed

lemma pick_geo:
  assumes "\<not> (\<exists>c \<in> set cs. 0 < edge_sum st p q c)" "cs \<noteq> []"
  shows "pickByAffinity st cs p q pp qq =
    (case anchor_of pp qq of Some a \<Rightarrow> hd (sort_key (geo_dist a) cs) | None \<Rightarrow> hd cs)"
proof -
  have "filter (\<lambda>c. 0 < edge_sum st p q c) cs = []" using assms(1) by (auto simp: filter_empty_conv)
  then show ?thesis unfolding pickByAffinity_def Let_def by simp
qed

section \<open>Affinity is symmetric\<close>

definition aff :: "real obj obj \<Rightarrow> string \<Rightarrow> string \<Rightarrow> real option" where
  "aff m a b = (case obj_get m a of None \<Rightarrow> None | Some x \<Rightarrow> obj_get x b)"

lemma aff_put: "aff (put_affinity m a b v) x y = (if x = a \<and> y = b then Some v else aff m x y)"
  by (auto simp: aff_def put_affinity_def obj_get_set split: option.splits)

lemma aff_put_both_sym:
  assumes "aff m x y = aff m y x"
  shows "aff (put_affinity (put_affinity m s t v) t s v) x y = aff (put_affinity (put_affinity m s t v) t s v) y x"
proof (cases "(x = t \<and> y = s) \<or> (x = s \<and> y = t)")
  case True
  then show ?thesis by (elim disjE) (simp_all add: aff_put)
next
  case False
  then have "\<not> (x = t \<and> y = s)" "\<not> (x = s \<and> y = t)" "\<not> (y = t \<and> x = s)" "\<not> (y = s \<and> x = t)" by blast+
  then have "aff (put_affinity (put_affinity m s t v) t s v) x y = aff m x y"
    "aff (put_affinity (put_affinity m s t v) t s v) y x = aff m y x"
    unfolding aff_put by (simp_all only: if_False)
  with assms show ?thesis by simp
qed

lemma aff_fold_sym:
  assumes "\<And>x y. aff m x y = aff m y x"
  shows "aff (foldl (\<lambda>m e. put_affinity (put_affinity m (e_source e) (e_target e) (edge_value e))
            (e_target e) (e_source e) (edge_value e)) m es) x y =
         aff (foldl (\<lambda>m e. put_affinity (put_affinity m (e_source e) (e_target e) (edge_value e))
            (e_target e) (e_source e) (edge_value e)) m es) y x"
  using assms
proof (induction es arbitrary: m)
  case Nil
  show ?case unfolding foldl_Nil by (rule Nil)
next
  case (Cons e es)
  show ?case unfolding foldl_Cons
    by (rule Cons.IH, rule aff_put_both_sym, rule Cons.prems)
qed

lemma getAffinity_aff:
  "getAffinity st a b = (if a = [] \<or> b = [] then 0 else case aff (affinityMap st) a b of None \<Rightarrow> 0 | Some v \<Rightarrow> v)"
  by (simp add: getAffinity_def aff_def split: option.splits)

lemma getAffinity_sym: "getAffinity (setAffinity es st) a b = getAffinity (setAffinity es st) b a"
  using aff_fold_sym [of "[]" es a b] by (auto simp: getAffinity_aff setAffinity_def aff_def [of "[]"])

section \<open>The prefix index\<close>

definition get_or :: "node list obj \<Rightarrow> string \<Rightarrow> node list" where
  "get_or idx p = (case obj_get idx p of Some ns \<Rightarrow> ns | None \<Rightarrow> [])"

definition relay :: "node \<Rightarrow> bool" where
  "relay n = (public_key n \<noteq> [] \<and> canAppearInPath (role n))"

lemma get_or_index_prefix: "get_or (index_prefix idx q n) p = get_or idx p @ (if p = q then [n] else [])"
  by (auto simp: get_or_def index_prefix_def obj_get_set split: option.splits)

lemma get_or_index_prefixes:
  "get_or (foldl (\<lambda>idx len. index_prefix idx (take (len * 2) pk) n) pre ls) p =
     get_or pre p @ map (\<lambda>_. n) (filter (\<lambda>len. take (len * 2) pk = p) ls)"
  by (induction ls arbitrary: pre) (auto simp: get_or_index_prefix)

lemma get_or_init:
  "get_or (fst (foldl init_node (pre, pks) nodes)) p = get_or pre p @
     concat (map (\<lambda>n. if relay n
       then map (\<lambda>_. n) (filter (\<lambda>len. take (len * 2) (toLowerCase (public_key n)) = p) [1, 2, 3]) else []) nodes)"
proof (induction nodes arbitrary: pre pks)
  case (Cons n nodes)
  have "get_or (fst (init_node (pre, pks) n)) p = get_or pre p @ (if relay n
       then map (\<lambda>_. n) (filter (\<lambda>len. take (len * 2) (toLowerCase (public_key n)) = p) [1, 2, 3]) else [])"
    by (auto simp: init_node_def relay_def Let_def get_or_index_prefixes simp del: foldl_Cons filter.simps)
  then show ?case using Cons.IH [of "fst (init_node (pre, pks) n)" "snd (init_node (pre, pks) n)"] by simp
qed simp

lemma prefix_take: "length p \<le> length s \<Longrightarrow> take (length p) s = p \<longleftrightarrow> prefix p s"
  by (metis append_eq_conv_conj prefix_def)

lemma concat_filter: "concat (map (\<lambda>x. if P x then [x] else []) xs) = filter P xs"
  by (induction xs) auto

lemma index_init_sound:
  assumes "n \<in> set (get_or (prefixIdx (init nodes obs coords st)) p)"
  shows "n \<in> set nodes \<and> relay n \<and> prefix p (toLowerCase (public_key n))"
  using assms get_or_init [of "[]" "[]" nodes p]
  by (auto simp: init_def get_or_def [of "[]"] take_is_prefix split: prod.splits if_splits)

lemma index_init_complete:
  assumes long: "\<forall>n \<in> set nodes. 6 \<le> length (public_key n)" and len: "length p \<in> {2, 4, 6}"
  shows "get_or (prefixIdx (init nodes obs coords st)) p =
     filter (\<lambda>n. relay n \<and> prefix p (toLowerCase (public_key n))) nodes"
proof -
  have one: "(if relay n then map (\<lambda>_. n) (filter (\<lambda>len. take (len * 2) (toLowerCase (public_key n)) = p) [1, 2, 3]) else []) =
      (if relay n \<and> prefix p (toLowerCase (public_key n)) then [n] else [])" if "n \<in> set nodes" for n
  proof -
    have k: "6 \<le> length (toLowerCase (public_key n))" using long that by (simp add: toLowerCase_def)
    have "take (l * 2) (toLowerCase (public_key n)) = p \<longleftrightarrow> l * 2 = length p \<and> prefix p (toLowerCase (public_key n))"
      if "l \<in> {1, 2, 3}" for l
    proof -
      have "length (take (l * 2) (toLowerCase (public_key n))) = l * 2" using k that by auto
      then show ?thesis using prefix_take [of p "toLowerCase (public_key n)"] k len by auto
    qed
    then have eq: "filter (\<lambda>l. take (l * 2) (toLowerCase (public_key n)) = p) [1, 2, 3] =
        filter (\<lambda>l. l * 2 = length p \<and> prefix p (toLowerCase (public_key n))) [1, 2, 3]"
      by (intro filter_cong) auto
    have one: "map (\<lambda>_. n) (filter (\<lambda>l. l * 2 = length p \<and> b) [1, 2, 3]) = (if b then [n] else [])" for b
      using len by auto
    show ?thesis unfolding eq one by auto
  qed
  have "get_or (prefixIdx (init nodes obs coords st)) p =
     concat (map (\<lambda>n. if relay n then map (\<lambda>_. n) (filter (\<lambda>len. take (len * 2) (toLowerCase (public_key n)) = p) [1, 2, 3]) else []) nodes)"
    using get_or_init [of "[]" "[]" nodes p] by (simp add: init_def get_or_def [of "[]"] case_prod_unfold Let_def)
  also have "\<dots> = concat (map (\<lambda>n. if relay n \<and> prefix p (toLowerCase (public_key n)) then [n] else []) nodes)"
    using one by (intro arg_cong [of _ _ concat] map_cong) auto
  finally show ?thesis by (simp add: concat_filter)
qed

lemma pubkey_index:
  "obj_get (pubkeyIdx (init nodes obs coords st)) k =
     map_of (rev (map (\<lambda>n. (toLowerCase (public_key n), n)) (filter (\<lambda>n. public_key n \<noteq> []) nodes))) k"
proof -
  have "snd (foldl init_node (pre, pks) nodes) =
      foldl (\<lambda>s (k, v). obj_set s k v) pks (map (\<lambda>n. (toLowerCase (public_key n), n)) (filter (\<lambda>n. public_key n \<noteq> []) nodes))" for pre pks
  proof (induction nodes arbitrary: pre pks)
    case (Cons n nodes)
    show ?case using Cons.IH [of "fst (init_node (pre, pks) n)" "snd (init_node (pre, pks) n)"]
      by (auto simp: init_node_def Let_def split: if_splits)
  qed simp
  from this [of "[]" "[]"]
  have "pubkeyIdx (init nodes obs coords st) =
      foldl (\<lambda>s (k, v). obj_set s k v) [] (map (\<lambda>n. (toLowerCase (public_key n), n)) (filter (\<lambda>n. public_key n \<noteq> []) nodes))"
    by (simp add: init_def case_prod_unfold Let_def)
  with jsobj.get_puts [OF jsobj.ok_empty, of "map (\<lambda>n. (toLowerCase (public_key n), n)) (filter (\<lambda>n. public_key n \<noteq> []) nodes)" k]
  show ?thesis by (simp split: option.splits)
qed

section \<open>Soundness of the resolution\<close>

definition cand_ok :: "resolver \<Rightarrow> string \<Rightarrow> candidate \<Rightarrow> bool" where
  "cand_ok st hop c = (\<exists>n \<in> set (get_or (prefixIdx st) (toLowerCase hop)).
     c_pubkey c = public_key n \<and> c_name c = node_name n \<and> c_lat c = node_lat n \<and> c_lon c = node_lon n)"

definition result_ok :: "resolver \<Rightarrow> string \<Rightarrow> hop_result \<Rightarrow> bool" where
  "result_ok st hop r = ((\<forall>c \<in> set (r_candidates r). cand_ok st hop c) \<and>
     (if r_candidates r = [] then r_pubkey r = [] \<and> r_name r = None
      else \<exists>c \<in> set (r_candidates r). c_pubkey c = r_pubkey r \<and> c_name c = r_name r))"

lemma check_region_simps [simp]:
  "c_pubkey (check_region st iata n) = public_key n" "c_name (check_region st iata n) = node_name n"
  "c_lat (check_region st iata n) = node_lat n" "c_lon (check_region st iata n) = node_lon n"
  by (simp_all add: check_region_def Let_def)

lemma no_result_simps [simp]:
  "r_candidates no_result = []" "r_pubkey no_result = []" "r_name no_result = None" "r_ambiguous no_result = False"
  by (simp_all add: no_result_def)

lemma first_result_ok: "result_ok st hop (first_result st iata hop)"
proof -
  let ?all = "get_or (prefixIdx st) (toLowerCase hop)"
  let ?checked = "map (check_region st iata) ?all"
  have ok: "cand_ok st hop c" if "c \<in> set ?checked" for c
    using that by (auto simp: cand_ok_def)
  define regional where "regional = sort_key dist_or (filter c_regional ?checked)"
  define cands where "cands = (if regional \<noteq> [] then regional else ?checked)"
  have sub: "set cands \<subseteq> set ?checked" by (auto simp: cands_def regional_def)
  have ne: "?checked \<noteq> [] \<Longrightarrow> cands \<noteq> []" by (auto simp: cands_def)
  consider "?checked = []" | c where "?checked = [c]" | c d cs where "?checked = c # d # cs"
    by (cases ?checked rule: remdups_adj.cases) auto
  then show ?thesis
  proof cases
    case 1
    then show ?thesis by (simp add: first_result_def get_or_def Let_def result_ok_def)
  next
    case (2 c)
    with ok show ?thesis
      by (simp add: first_result_def get_or_def [symmetric] Let_def result_ok_def)
  next
    case (3 c d cs)
    have "first_result st iata hop =
      (let base = no_result\<lparr>r_name := c_name (hd cands), r_pubkey := c_pubkey (hd cands),
                        r_candidates := cands, r_conflicts := cands,
                        r_globalFallback := (regional = [] \<and> iata \<noteq> None)\<rparr>
           in if length cands = 1 then base
              else base\<lparr>r_ambiguous := True, r_hopBytes := (length hop + 1) div 2,
                         r_totalGlobal := length ?all, r_totalRegional := length regional\<rparr>)"
      unfolding first_result_def get_or_def [symmetric] Let_def cands_def regional_def 3 by simp
    moreover have "cands \<noteq> []" "hd cands \<in> set cands" using ne 3 by auto
    ultimately show ?thesis using sub ok by (auto simp: result_ok_def Let_def)
  qed
qed

definition state_ok :: "resolver \<Rightarrow> string list \<Rightarrow> rstate \<Rightarrow> bool" where
  "state_ok st hops s = (dom (obj_get (fst s)) = set hops \<and>
     (\<forall>hop r. obj_get (fst s) hop = Some r \<longrightarrow> result_ok st hop r))"

lemma dom_upd_if: "dom (\<lambda>k. if k = h then Some r else f k) = insert h (dom f)"
  by (auto simp: dom_def)

lemma state_ok_put:
  assumes "state_ok st hops s" "hop \<in> set hops" "result_ok st hop r"
  shows "state_ok st hops (obj_set (fst s) hop r, ps)"
  using assms by (simp add: state_ok_def obj_get_set dom_upd_if insert_absorb)

lemma resolve_first_ok: "state_ok st hops (resolve_first st iata hops, ps)"
proof -
  have "(\<forall>hop r. obj_get m hop = Some r \<longrightarrow> result_ok st hop r) \<Longrightarrow>
    dom (obj_get (foldl (\<lambda>m hop. obj_set m hop (first_result st iata hop)) m hs)) = dom (obj_get m) \<union> set hs \<and>
    (\<forall>hop r. obj_get (foldl (\<lambda>m hop. obj_set m hop (first_result st iata hop)) m hs) hop = Some r \<longrightarrow> result_ok st hop r)" for m hs
  proof (induction hs arbitrary: m)
    case (Cons h hs)
    have "\<forall>hop r. obj_get (obj_set m h (first_result st iata h)) hop = Some r \<longrightarrow> result_ok st hop r"
      using Cons.prems first_result_ok by (auto simp: obj_get_set)
    from Cons.IH [OF this] show ?case by (auto simp: obj_get_set)
  qed simp
  from this [of "[]" hops] show ?thesis by (auto simp: state_ok_def resolve_first_def)
qed

text \<open>What one step of the disambiguation can do.\<close>

lemma disambiguate_hop_cases:
  obtains (same) "disambiguate_hop st hops o1 o2 (s, ch) i = (s, ch)"
  | (pick) r c where "obj_get (snd s) (hops ! i) = None" "obj_get (fst s) (hops ! i) = Some r"
      "c \<in> set (r_candidates r)" "r_ambiguous r"
      "disambiguate_hop st hops o1 o2 (s, ch) i =
         ((obj_set (fst s) (hops ! i) (r\<lparr>r_name := c_name c, r_pubkey := c_pubkey c\<rparr>),
           obj_set (snd s) (hops ! i) (the (c_lat c), the (c_lon c))), True)"
proof (cases "disambiguate_hop st hops o1 o2 (s, ch) i = (s, ch)")
  case False
  obtain p1 q1 where n1: "neighbour s (rev (take i hops)) o1 = (p1, q1)" by (cases "neighbour s (rev (take i hops)) o1")
  obtain p2 q2 where n2: "neighbour s (drop (Suc i) hops) o2 = (p2, q2)" by (cases "neighbour s (drop (Suc i) hops) o2")
  from False obtain r where r: "obj_get (snd s) (hops ! i) = None" "obj_get (fst s) (hops ! i) = Some r"
    by (cases "obj_get (snd s) (hops ! i)"; cases "obj_get (fst s) (hops ! i)") (simp_all add: disambiguate_hop_def)
  let ?w = "filter has_loc (r_candidates r)"
  have w: "?w \<noteq> []" using False r by (auto simp: disambiguate_hop_def)
  have amb: "r_ambiguous r" using False r by (cases "r_ambiguous r") (simp_all add: disambiguate_hop_def Let_def)
  have ctx: "\<not> (p1 = [] \<and> p2 = [] \<and> q1 = None \<and> q2 = None)"
  proof
    assume "p1 = [] \<and> p2 = [] \<and> q1 = None \<and> q2 = None"
    with r n1 n2 have "disambiguate_hop st hops o1 o2 (s, ch) i = (s, ch)"
      by (simp add: disambiguate_hop_def Let_def)
    with False show False ..
  qed
  let ?c = "pickByAffinity st ?w p1 p2 q1 q2"
  have "?c \<in> set ?w" by (rule pick_in [OF w])
  moreover have "disambiguate_hop st hops o1 o2 (s, ch) i =
         ((obj_set (fst s) (hops ! i) (r\<lparr>r_name := c_name ?c, r_pubkey := c_pubkey ?c\<rparr>),
           obj_set (snd s) (hops ! i) (the (c_lat ?c), the (c_lon ?c))), True)"
    using amb ctx r n1 n2 w unfolding disambiguate_hop_def Let_def by (simp, use ctx in blast)
  ultimately show ?thesis using that(2) r amb by auto
qed (use that in blast)

lemma disambiguate_hop_ok:
  assumes "state_ok st hops s" "i < length hops"
  shows "state_ok st hops (fst (disambiguate_hop st hops o1 o2 (s, ch) i))"
proof (cases rule: disambiguate_hop_cases [of st hops o1 o2 s ch i])
  case (pick r c)
  have "result_ok st (hops ! i) r" using assms(1) pick(2) by (auto simp: state_ok_def)
  then have "result_ok st (hops ! i) (r\<lparr>r_name := c_name c, r_pubkey := c_pubkey c\<rparr>)"
    using pick(3) by (auto simp: result_ok_def)
  with assms show ?thesis by (simp add: pick(5) state_ok_put)
qed (simp add: assms)

lemma fold_indices:
  assumes "P s" "\<And>s i. P s \<Longrightarrow> i < n \<Longrightarrow> P (f s i)"
  shows "P (foldl f s [0..<n])"
proof -
  have "P (foldl f s is)" if "set is \<subseteq> {0..<n}" for "is"
    using assms(1) that by (induction "is" arbitrary: s) (auto intro: assms(2))
  then show ?thesis by simp
qed

lemma disambiguate_pass_ok:
  "state_ok st hops s \<Longrightarrow> state_ok st hops (fst (disambiguate_pass st hops o1 o2 s))"
  unfolding disambiguate_pass_def
  by (rule fold_indices [of "\<lambda>sc. state_ok st hops (fst sc)"]) (auto intro: disambiguate_hop_ok)

lemma disambiguate_ok: "state_ok st hops s \<Longrightarrow> state_ok st hops (disambiguate n st hops o1 o2 s)"
proof (induction n arbitrary: s)
  case (Suc n)
  from disambiguate_pass_ok [OF Suc.prems, of o1 o2] Suc.IH show ?case by (auto split: prod.split)
qed simp

lemma sanity_hop_ok:
  assumes "state_ok st hops s" "i < length hops"
  shows "state_ok st hops (sanity_hop hops s i)"
proof -
  have "state_ok st hops ((case obj_get (fst s) (hops ! i) of
      Some r \<Rightarrow> obj_set (fst s) (hops ! i) (r\<lparr>r_unreliable := True\<rparr>) | None \<Rightarrow> fst s), ps)" for ps
  proof (cases "obj_get (fst s) (hops ! i)")
    case (Some r)
    then have "result_ok st (hops ! i) (r\<lparr>r_unreliable := True\<rparr>)"
      using assms(1) by (auto simp: state_ok_def result_ok_def)
    with Some assms show ?thesis by (simp add: state_ok_put)
  next
    case None
    with assms(1) show ?thesis by (simp add: state_ok_def)
  qed
  with assms(1) show ?thesis
    unfolding sanity_hop_def Let_def
    by (cases "obj_get (snd s) (hops ! i)"; cases "the (obj_get (snd s) (hops ! i))")
       (simp_all only: option.case option.sel prod.case split: if_split, blast+)
qed

lemma resolve_ok:
  "dom (obj_get (resolve st hops a b c d ob)) = set hops \<and>
   (\<forall>hop r. obj_get (resolve st hops a b c d ob) hop = Some r \<longrightarrow> result_ok st hop r)"
proof -
  define iata where "iata = (if ob \<noteq> [] then obj_get (observerIataMap st) ob else None)"
  define s0 where "s0 = (resolve_first st iata hops, resolve_positions st (resolve_first st iata hops) hops)"
  define s1 where "s1 = disambiguate (Suc (length hops)) st hops (both a b) (both c d) s0"
  have "state_ok st hops s0" unfolding s0_def by (rule resolve_first_ok)
  then have "state_ok st hops s1" unfolding s1_def by (rule disambiguate_ok)
  then have "state_ok st hops (foldl (sanity_hop hops) s1 [0..<length hops])"
    by (rule fold_indices) (rule sanity_hop_ok)
  moreover have "resolve st hops a b c d ob = fst (foldl (sanity_hop hops) s1 [0..<length hops])"
    unfolding resolve_def Let_def iata_def s0_def s1_def by (rule refl)
  ultimately show ?thesis by (simp add: state_ok_def)
qed

section \<open>The disambiguation reaches a fixed point\<close>

definition unplaced :: "string list \<Rightarrow> rstate \<Rightarrow> string set" where
  "unplaced hops s = {h \<in> set hops. obj_get (snd s) h = None}"

lemma unplaced_pick:
  assumes "i < length hops" "obj_get (snd s) (hops ! i) = None" "snd s' = obj_set (snd s) (hops ! i) p"
  shows "card (unplaced hops s') < card (unplaced hops s)"
proof (rule psubset_card_mono)
  show "finite (unplaced hops s)" by (simp add: unplaced_def)
  have eq: "obj_get (snd s') h = (if h = hops ! i then Some p else obj_get (snd s) h)" for h
    by (simp add: assms(3) obj_get_set)
  have "hops ! i \<in> unplaced hops s" using assms(1,2) by (simp add: unplaced_def)
  moreover have "unplaced hops s' = unplaced hops s - {hops ! i}" unfolding unplaced_def eq by auto
  ultimately show "unplaced hops s' \<subset> unplaced hops s" by blast
qed

lemma pass_progress:
  assumes "set is \<subseteq> {0..<length hops}" "foldl (disambiguate_hop st hops o1 o2) (s, ch) is = (s', ch')"
  shows "(s' = s \<and> ch' = ch) \<or> (ch' \<and> card (unplaced hops s') < card (unplaced hops s))"
  using assms
proof (induction "is" arbitrary: s ch)
  case (Cons i "is")
  show ?case
  proof (cases rule: disambiguate_hop_cases [of st hops o1 o2 s ch i])
    case same
    with Cons show ?thesis by simp
  next
    case (pick r c)
    obtain t where t: "disambiguate_hop st hops o1 o2 (s, ch) i = (t, True)"
        "snd t = obj_set (snd s) (hops ! i) (the (c_lat c), the (c_lon c))" using pick(5) by simp
    have lt: "card (unplaced hops t) < card (unplaced hops s)"
      using Cons.prems(1) by (intro unplaced_pick [OF _ pick(1) t(2)]) simp
    from Cons.prems Cons.IH [of t True] t(1)
    have "(s' = t \<and> ch' = True) \<or> (ch' \<and> card (unplaced hops s') < card (unplaced hops t))" by simp
    with lt show ?thesis by auto
  qed
qed simp

lemma disambiguate_fixpoint:
  "card (unplaced hops s) < n \<Longrightarrow>
   disambiguate_pass st hops o1 o2 (disambiguate n st hops o1 o2 s) = (disambiguate n st hops o1 o2 s, False)"
proof (induction n arbitrary: s)
  case (Suc n)
  obtain s' ch where p: "disambiguate_pass st hops o1 o2 s = (s', ch)" by fastforce
  with pass_progress [of "[0..<length hops]" hops st o1 o2 s False s' ch]
  have "(s' = s \<and> \<not> ch) \<or> (ch \<and> card (unplaced hops s') < card (unplaced hops s))"
    by (auto simp: disambiguate_pass_def)
  with Suc p show ?case by (cases ch) auto
qed simp

lemma unplaced_bound: "card (unplaced hops s) \<le> length hops"
proof -
  have "card (unplaced hops s) \<le> card (set hops)" by (rule card_mono) (auto simp: unplaced_def)
  then show ?thesis using card_length [of hops] by linarith
qed

section \<open>A prefix that only one relay has\<close>

definition settled :: "string \<Rightarrow> string \<Rightarrow> rstate \<Rightarrow> bool" where
  "settled hop pk s = (\<exists>r. obj_get (fst s) hop = Some r \<and> \<not> r_ambiguous r \<and> r_pubkey r = pk)"

lemma settled_put:
  "settled hop pk s \<Longrightarrow> h \<noteq> hop \<or> (\<not> r_ambiguous r \<and> r_pubkey r = pk) \<Longrightarrow> settled hop pk (obj_set (fst s) h r, ps)"
  by (auto simp: settled_def obj_get_set)

lemma settled_disambiguate_hop:
  "settled hop pk s \<Longrightarrow> settled hop pk (fst (disambiguate_hop st hops o1 o2 (s, ch) i))"
proof (cases rule: disambiguate_hop_cases [of st hops o1 o2 s ch i])
  case (pick r c)
  moreover assume "settled hop pk s"
  moreover from this pick have "hops ! i \<noteq> hop" by (auto simp: settled_def)
  ultimately show ?thesis by (simp add: settled_put)
qed simp

lemma settled_disambiguate:
  "settled hop pk s \<Longrightarrow> settled hop pk (disambiguate n st hops o1 o2 s)"
proof (induction n arbitrary: s)
  case (Suc n)
  have "settled hop pk (fst (disambiguate_pass st hops o1 o2 s))" unfolding disambiguate_pass_def
    by (rule fold_indices [of "\<lambda>sc. settled hop pk (fst sc)"]) (use Suc.prems in \<open>auto intro: settled_disambiguate_hop\<close>)
  with Suc.IH show ?case by (auto split: prod.split)
qed simp

lemma settled_sanity: "settled hop pk s \<Longrightarrow> settled hop pk (sanity_hop hops s i)"
proof -
  assume s: "settled hop pk s"
  have "settled hop pk ((case obj_get (fst s) (hops ! i) of
      Some r \<Rightarrow> obj_set (fst s) (hops ! i) (r\<lparr>r_unreliable := True\<rparr>) | None \<Rightarrow> fst s), ps)" for ps
    using s by (auto simp: settled_def obj_get_set split: option.split)
  with s show ?thesis
    unfolding sanity_hop_def Let_def
    by (cases "obj_get (snd s) (hops ! i)"; cases "the (obj_get (snd s) (hops ! i))")
       (simp_all only: option.case option.sel prod.case split: if_split, blast+)
qed

lemma resolve_first_get: "hop \<in> set hops \<Longrightarrow> obj_get (resolve_first st iata hops) hop = Some (first_result st iata hop)"
proof -
  have "obj_get (foldl (\<lambda>m hop. obj_set m hop (first_result st iata hop)) m hs) hop =
      (if hop \<in> set hs then Some (first_result st iata hop) else obj_get m hop)" for m hs
    by (induction hs arbitrary: m) (auto simp: obj_get_set)
  then show "hop \<in> set hops \<Longrightarrow> ?thesis" by (simp add: resolve_first_def)
qed

lemma resolve_settled:
  assumes "get_or (prefixIdx st) (toLowerCase hop) = [n]" "hop \<in> set hops"
  shows "\<exists>r. obj_get (resolve st hops a b c d ob) hop = Some r \<and> \<not> r_ambiguous r \<and> r_pubkey r = public_key n"
proof -
  have "settled hop (public_key n) (resolve_first st iata hops, ps)" for iata ps
    using assms
    by (auto simp: settled_def resolve_first_get first_result_def get_or_def [symmetric] Let_def)
  then have "settled hop (public_key n) (foldl (sanity_hop hops) (disambiguate k st hops o1 o2
      (resolve_first st iata hops, ps)) [0..<length hops])" for iata ps k o1 o2
    by (intro fold_indices [of "settled hop (public_key n)"] settled_disambiguate) (auto intro: settled_sanity)
  then show ?thesis unfolding resolve_def Let_def settled_def by blast
qed

section \<open>Properties\<close>

text \<open>
  C4: Soundness of the resolution.  For a resolver whose prefix index was built from \<open>nodes\<close>, the
  result has an entry for exactly the hops of the path, and a hop that is resolved to a key is
  resolved to a node of \<open>nodes\<close> that can relay, whose key starts with the hop's prefix, and whose
  name is the one reported, whatever regional filtering and disambiguation did.
\<close>

theorem resolve_sound:
  assumes "prefixIdx st = prefixIdx (init nodes obs coords st0)"
  shows "dom (obj_get (resolve st hops a b c d ob)) = set hops \<and>
    (\<forall>hop r. obj_get (resolve st hops a b c d ob) hop = Some r \<and> r_pubkey r \<noteq> [] \<longrightarrow>
      (\<exists>n \<in> set nodes. public_key n = r_pubkey r \<and> node_name n = r_name r \<and> canAppearInPath (role n) \<and>
         prefix (toLowerCase hop) (toLowerCase (public_key n))))"
proof -
  have "\<exists>n \<in> set nodes. public_key n = r_pubkey r \<and> node_name n = r_name r \<and> canAppearInPath (role n) \<and>
         prefix (toLowerCase hop) (toLowerCase (public_key n))"
    if r: "obj_get (resolve st hops a b c d ob) hop = Some r" "r_pubkey r \<noteq> []" for hop r
  proof -
    from r resolve_ok [of st hops a b c d ob] have "result_ok st hop r" by blast
    with r(2) obtain n where "n \<in> set (get_or (prefixIdx st) (toLowerCase hop))"
        "r_pubkey r = public_key n" "r_name r = node_name n"
      by (auto simp: result_ok_def cand_ok_def split: if_splits)
    with index_init_sound [of n nodes obs coords st0 "toLowerCase hop"] assms show ?thesis
      by (auto simp: relay_def)
  qed
  with resolve_ok [of st hops a b c d ob] show ?thesis by blast
qed

text \<open>
  Completeness of the prefix index and unambiguous prefixes.  When the keys have at least six
  digits, a one-, two- or three-byte prefix leads to exactly the relaying nodes whose key starts
  with it, in the order of the list; and a hop whose prefix only one relaying node has is
  resolved to that node, without ambiguity.
\<close>

theorem resolve_unique_prefix:
  assumes "st = init nodes obs coords st0" "\<forall>n \<in> set nodes. 6 \<le> length (public_key n)"
    and "hop \<in> set hops" "length hop \<in> {2, 4, 6}"
    and "filter (\<lambda>n. relay n \<and> prefix (toLowerCase hop) (toLowerCase (public_key n))) nodes = [n]"
  shows "\<exists>r. obj_get (resolve st hops a b c d ob) hop = Some r \<and> \<not> r_ambiguous r \<and> r_pubkey r = public_key n"
proof (rule resolve_settled [OF _ assms(3)])
  have "length (toLowerCase hop) \<in> {2, 4, 6}" using assms(4) by (simp add: toLowerCase_def)
  from index_init_complete [OF assms(2) this] assms(1,5)
  show "get_or (prefixIdx st) (toLowerCase hop) = [n]" by simp
qed

text \<open>
  C5: The disambiguation loop.  With the bound \<^verbatim>\<open>hops.length + 1\<close> of the source the loop always
  ends because nothing changes any more, never because the bound stops it: one more pass over
  the final state changes nothing.
\<close>

theorem disambiguation_fixpoint:
  "disambiguate_pass st hops o1 o2 (disambiguate (Suc (length hops)) st hops o1 o2 s) =
     (disambiguate (Suc (length hops)) st hops o1 o2 s, False)"
  using unplaced_bound [of hops s] by (intro disambiguate_fixpoint) simp

text \<open>
  C6: The choice among candidates, with or without a neighbour graph.  If some candidate has
  edges to the resolved neighbours, the chosen one has the greatest sum of scores.  Otherwise, and so
  in particular when no graph is loaded, the chosen one is the closest to the anchor (the position
  of the one neighbour that has one, or the middle of both), a candidate without a location
  counting as 999999 km away.  Among equals the earliest candidate is chosen, and without scores and without an anchor
  the first one.
\<close>

theorem pick_is_best:
  assumes "cs \<noteq> []" "ch = pickByAffinity st cs p q pp qq"
  shows "\<exists>before after. cs = before @ ch # after \<and>
    (if \<exists>c \<in> set cs. 0 < edge_sum st p q c
     then (\<forall>c \<in> set before. edge_sum st p q c < edge_sum st p q ch) \<and> (\<forall>c \<in> set after. edge_sum st p q c \<le> edge_sum st p q ch)
     else case anchor_of pp qq of
            Some a \<Rightarrow> (\<forall>c \<in> set before. geo_dist a ch < geo_dist a c) \<and> (\<forall>c \<in> set after. geo_dist a ch \<le> geo_dist a c)
          | None \<Rightarrow> before = [])"
proof (cases "\<exists>c \<in> set cs. 0 < edge_sum st p q c")
  case True
  then show ?thesis using pick_graph [OF True refl, of pp qq] unfolding assms(2) by simp
next
  case False
  show ?thesis
  proof (cases "anchor_of pp qq")
    case None
    then have "cs = [] @ ch # tl cs" using pick_geo [OF False assms(1), of pp qq] assms by simp
    with False None show ?thesis by (intro exI [of _ "[]"] exI [of _ "tl cs"]) simp
  next
    case (Some a)
    then have "ch = hd (sort_key (geo_dist a) cs)" using pick_geo [OF False assms(1), of pp qq] assms(2) by simp
    then show ?thesis using hd_sort_key_first [OF assms(1), of "geo_dist a"] False Some by simp
  qed
qed

text \<open>
  Affinity and distance are symmetric.  After loading a neighbour graph the score between two
  nodes does not depend on the direction; the great-circle distance is symmetric, zero between
  equal points and never more than half the circumference of the earth.
\<close>

theorem affinity_distance_symmetric:
  "getAffinity (setAffinity es st) a b = getAffinity (setAffinity es st) b a \<and>
   haversineKm la lo la' lo' = haversineKm la' lo' la lo \<and> haversineKm la lo la lo = 0 \<and>
   0 \<le> haversineKm la lo la' lo' \<and> haversineKm la lo la' lo' \<le> 6371 * pi"
  using getAffinity_sym haversine_sym haversine_self haversine_bounds by blast

definition demo_nodes :: "node list" where
  "demo_nodes = [\<lparr>public_key = ''a1b2c3d4'', node_name = Some ''Peak'', role = ''repeater'', node_lat = None, node_lon = None\<rparr>,
                 \<lparr>public_key = ''a1ffff00'', node_name = Some ''Phone'', role = ''companion'', node_lat = None, node_lon = None\<rparr>]"

definition demo_resolver :: resolver where
  "demo_resolver = init demo_nodes [] [] \<lparr>prefixIdx = [], pubkeyIdx = [], nodesList = [],
     observerIataMap = [], iataCoords = [], affinityMap = [(''x'', [])]\<rparr>"

theorem resolve_sound_witness:
  "dom (obj_get (resolve demo_resolver [''A1''] None None None None [])) = {''A1''}"
  using resolve_sound [of demo_resolver demo_nodes "[]" "[]" "undefined" "[''A1'']" None None None None "[]"]
  by (simp add: demo_resolver_def init_def Let_def case_prod_unfold)

lemma demo_roles: "canAppearInPath ''repeater''" "\<not> canAppearInPath ''companion''" "toLowerCase ''A1'' = ''a1''"
    "toLowerCase ''a1b2c3d4'' = ''a1b2c3d4''"
  by code_simp+

theorem resolve_unique_prefix_witness:
  "\<exists>r. obj_get (resolve demo_resolver [''A1''] None None None None []) ''A1'' = Some r \<and>
       \<not> r_ambiguous r \<and> r_pubkey r = ''a1b2c3d4''"
  using resolve_unique_prefix [of demo_resolver demo_nodes "[]" "[]" "_" "''A1''" "[''A1'']" "hd demo_nodes" None None None None "[]"]
  by (simp add: demo_resolver_def demo_nodes_def relay_def demo_roles)

text \<open>Two candidates, the first without a location; the second is at the anchor and has an edge to \<open>p\<close>.\<close>

definition demo_cands :: "candidate list" where
  "demo_cands = [\<lparr>c_name = None, c_pubkey = ''a'', c_lat = None, c_lon = None, c_regional = False, c_method = [], c_dist = None\<rparr>,
                 \<lparr>c_name = None, c_pubkey = ''b'', c_lat = Some 3, c_lon = Some 4, c_regional = False, c_method = [], c_dist = None\<rparr>]"

lemma demo_cands_two: "demo_cands = before @ ch # after \<Longrightarrow>
    (before = [] \<and> ch = demo_cands ! 0 \<and> after = [demo_cands ! 1]) \<or> (before = [demo_cands ! 0] \<and> ch = demo_cands ! 1 \<and> after = [])"
  by (cases before; cases "tl before") (auto simp: demo_cands_def)

lemma demo_cands_scores:
  "edge_sum (demo_resolver\<lparr>affinityMap := [(''p'', [(''b'', 5)])]\<rparr>) ''p'' [] (demo_cands ! 0) = 0"
  "edge_sum (demo_resolver\<lparr>affinityMap := [(''p'', [(''b'', 5)])]\<rparr>) ''p'' [] (demo_cands ! 1) = 5"
  "edge_sum (demo_resolver\<lparr>affinityMap := []\<rparr>) ''p'' [] c = 0"
  "geo_dist (3, 4) (demo_cands ! 0) = 999999" "geo_dist (3, 4) (demo_cands ! 1) = 0"
  by (simp_all add: demo_cands_def edge_sum_def getAffinity_def geo_dist_def has_loc_def haversine_self)

theorem pick_is_best_witness:
  "pickByAffinity (demo_resolver\<lparr>affinityMap := [(''p'', [(''b'', 5)])]\<rparr>) demo_cands ''p'' [] None None = demo_cands ! 1 \<and>
   pickByAffinity (demo_resolver\<lparr>affinityMap := []\<rparr>) demo_cands ''p'' [] (Some (3, 4)) None = demo_cands ! 1"
proof
  have two: "demo_cands \<noteq> []" "demo_cands ! 1 \<in> set demo_cands" by (simp_all add: demo_cands_def)
  show "pickByAffinity (demo_resolver\<lparr>affinityMap := [(''p'', [(''b'', 5)])]\<rparr>) demo_cands ''p'' [] None None = demo_cands ! 1"
    (is "?ch = _")
  proof -
    have "\<exists>c \<in> set demo_cands. 0 < edge_sum (demo_resolver\<lparr>affinityMap := [(''p'', [(''b'', 5)])]\<rparr>) ''p'' [] c"
      using two(2) by (intro bexI [of _ "demo_cands ! 1"]) (simp_all add: demo_cands_scores [unfolded One_nat_def])
    with pick_is_best [OF two(1) refl, of "demo_resolver\<lparr>affinityMap := [(''p'', [(''b'', 5)])]\<rparr>" "''p''" "[]" None None]
    obtain before after where ba: "demo_cands = before @ ?ch # after"
        "\<forall>c \<in> set after. edge_sum (demo_resolver\<lparr>affinityMap := [(''p'', [(''b'', 5)])]\<rparr>) ''p'' [] c
           \<le> edge_sum (demo_resolver\<lparr>affinityMap := [(''p'', [(''b'', 5)])]\<rparr>) ''p'' [] ?ch"
      by (simp only: if_True) blast
    from demo_cands_two [OF ba(1)] ba(2) show ?thesis by (elim disjE conjE) (simp_all add: demo_cands_scores [unfolded One_nat_def])
  qed
  show "pickByAffinity (demo_resolver\<lparr>affinityMap := []\<rparr>) demo_cands ''p'' [] (Some (3, 4)) None = demo_cands ! 1"
    (is "?ch = _")
  proof -
    obtain before after where ba: "demo_cands = before @ ?ch # after" "\<forall>c \<in> set after. geo_dist (3, 4) ?ch \<le> geo_dist (3, 4) c"
      using pick_is_best [OF two(1) refl, of "demo_resolver\<lparr>affinityMap := []\<rparr>" "''p''" "[]" "Some (3, 4)" None]
      by (auto simp: demo_cands_scores anchor_of_def)
    from demo_cands_two [OF ba(1)] ba(2) show ?thesis by (elim disjE conjE) (simp_all add: demo_cands_scores [unfolded One_nat_def])
  qed
qed

end
