(* ===== verification/Channel_Decrypt.thy ===== *)
theory Channel_Decrypt
  imports Js_Json "HOL-Library.Word" "HOL-Library.List_Lexorder" "HOL-Library.Char_ord"
begin

text \<open>
  Client-side channel decryption and key storage (\<^verbatim>\<open>src/public/channel-decrypt.js\<close>).  A
  \<^verbatim>\<open>Uint8Array\<close> is a list of 8-bit words.  SHA-256, HMAC, AES and the platform's text codec are
  the fields of the record \<open>crypto\<close>.  \<^verbatim>\<open>localStorage\<close> is an object from keys to strings, written
  through a quota test that may refuse; \<^verbatim>\<open>await\<close> is a plain call.  Channel names are not array
  indices or members of \<^verbatim>\<open>Object.prototype\<close>, so an object lists them in insertion order, and only this module writes the three
  storage keys, so their values are JSON texts of objects.
\<close>

unbundle bit_operations_syntax

type_synonym bytes = "8 word list"

record crypto =
  sha256 :: "bytes \<Rightarrow> bytes"
  hmacSha256 :: "bytes \<Rightarrow> bytes \<Rightarrow> bytes"
  aes_decrypt :: "bytes \<Rightarrow> bytes \<Rightarrow> bytes"
  text_encode :: "string \<Rightarrow> bytes"
  text_decode :: "bytes \<Rightarrow> string"

section \<open>Hexadecimal strings\<close>

definition byte_hex :: "8 word \<Rightarrow> string" where
  "byte_hex b = (if b < 16 then [CHR ''0'', hex_char (unat b)]
                 else [hex_char (unat b div 16), hex_char (unat b mod 16)])"

definition bytesToHex :: "bytes \<Rightarrow> string" where
  "bytesToHex bs = concat (map byte_hex bs)"

text \<open>
  One iteration per two characters; the array has \<^verbatim>\<open>floor(length / 2)\<close> elements, so a last odd
  character is read but not stored; what does not parse is stored as 0, other numbers modulo 256.
\<close>

fun hexToBytes :: "string \<Rightarrow> bytes" where
  "hexToBytes (c # d # r) = (case parseInt16 [c, d] of Some i \<Rightarrow> word_of_int i | None \<Rightarrow> 0) # hexToBytes r"
| "hexToBytes _ = []"

section \<open>Key derivation, decryption, MAC\<close>

definition deriveKey :: "crypto \<Rightarrow> string \<Rightarrow> bytes" where
  "deriveKey C channelName = take 16 (sha256 C (text_encode C channelName))"

definition computeChannelHash :: "crypto \<Rightarrow> bytes \<Rightarrow> 8 word" where
  "computeChannelHash C key = hd (sha256 C key)"

definition decryptECB :: "crypto \<Rightarrow> bytes \<Rightarrow> bytes \<Rightarrow> bytes option" where
  "decryptECB C key ciphertext =
     (if ciphertext = [] \<or> length ciphertext mod 16 \<noteq> 0 then None else Some (aes_decrypt C key ciphertext))"

text \<open>An element past the end is \<^verbatim>\<open>undefined\<close>, and two undefined elements are equal.\<close>

definition byte_at :: "bytes \<Rightarrow> nat \<Rightarrow> 8 word option" where
  "byte_at bs i = (if i < length bs then Some (bs ! i) else None)"

definition channel_secret :: "bytes \<Rightarrow> bytes" where
  "channel_secret key = key @ replicate (32 - length key) 0"

definition verifyMAC :: "crypto \<Rightarrow> bytes \<Rightarrow> bytes \<Rightarrow> string \<Rightarrow> bool" where
  "verifyMAC C key ciphertext macHex =
     (let macBytes = hexToBytes macHex; sigBytes = hmacSha256 C (channel_secret key) ciphertext
      in byte_at sigBytes 0 = byte_at macBytes 0 \<and> byte_at sigBytes 1 = byte_at macBytes 1)"

section \<open>Plaintext\<close>

record message =
  msg_timestamp :: int
  msg_flags :: "8 word"
  msg_sender :: string
  msg_text :: string

text \<open>The bitwise or of JavaScript yields a signed 32-bit number, whatever \<^verbatim>\<open>>>> 0\<close> did to an operand.\<close>

definition le_timestamp :: "8 word \<Rightarrow> 8 word \<Rightarrow> 8 word \<Rightarrow> 8 word \<Rightarrow> int" where
  "le_timestamp b0 b1 b2 b3 =
     sint ((ucast b0 :: 32 word) OR push_bit 8 (ucast b1) OR push_bit 16 (ucast b2) OR push_bit 24 (ucast b3))"

definition non_printable :: "char \<Rightarrow> bool" where
  "non_printable c = (code c < (32::nat) \<and> code c \<noteq> (10::nat) \<and> code c \<noteq> (13::nat) \<and> code c \<noteq> (9::nat))"

definition split_sender :: "string \<Rightarrow> string \<times> string" where
  "split_sender text =
     (case index_of '': '' text of
        Some colonIdx \<Rightarrow>
          (if 0 < colonIdx \<and> colonIdx < 50 then
             (let potentialSender = take colonIdx text in
              if CHR '':'' \<notin> set potentialSender \<and> CHR ''['' \<notin> set potentialSender \<and> CHR '']'' \<notin> set potentialSender
              then (potentialSender, drop (colonIdx + 2) text) else ([], text))
           else ([], text))
      | None \<Rightarrow> ([], text))"

fun parsePlaintext :: "crypto \<Rightarrow> bytes \<Rightarrow> message option" where
  "parsePlaintext C (b0 # b1 # b2 # b3 # flags # textBytes) =
     (let text = text_decode C (takeWhile (\<lambda>b. b \<noteq> 0) textBytes) in
      if 2 < length (filter non_printable text) then None
      else let (sender, msg) = split_sender text
           in Some \<lparr>msg_timestamp = le_timestamp b0 b1 b2 b3, msg_flags = flags, msg_sender = sender, msg_text = msg\<rparr>)"
| "parsePlaintext C _ = None"

definition decrypt :: "crypto \<Rightarrow> bytes \<Rightarrow> string \<Rightarrow> string \<Rightarrow> message option" where
  "decrypt C keyBytes macHex encryptedHex =
     (let ciphertext = hexToBytes encryptedHex in
      if ciphertext = [] \<or> length ciphertext mod 16 \<noteq> 0 then None
      else if \<not> verifyMAC C keyBytes ciphertext macHex then None
      else case decryptECB C keyBytes ciphertext of
             None \<Rightarrow> None
           | Some plaintext \<Rightarrow> parsePlaintext C plaintext)"

section \<open>Storage\<close>

record key_entry =
  channelName :: string
  keyBytes :: bytes
  keyHex :: string

type_synonym key_map = "(8 word \<times> key_entry) list"

record cd_state =
  storage :: "string obj"
  keyMapCache :: "key_map option"
  keyMapSig :: string

definition STORAGE_KEY :: string where "STORAGE_KEY = ''corescope_channel_keys''"
definition LABELS_KEY :: string where "LABELS_KEY = ''corescope_channel_labels''"
definition CACHE_KEY :: string where "CACHE_KEY = ''corescope_channel_cache''"
definition MAX_CACHED_MESSAGES :: nat where "MAX_CACHED_MESSAGES = 1000"

text \<open>\<^verbatim>\<open>localStorage.setItem\<close> inside a \<^verbatim>\<open>try\<close>: the quota test decides, a refusal changes nothing.\<close>

type_synonym quota = "string \<Rightarrow> string \<Rightarrow> bool"

definition set_item :: "quota \<Rightarrow> string \<Rightarrow> string \<Rightarrow> cd_state \<Rightarrow> cd_state" where
  "set_item q k v st = (if q k v then st\<lparr>storage := obj_set (storage st) k v\<rparr> else st)"

definition read_obj :: "cd_state \<Rightarrow> string \<Rightarrow> jsval obj" where
  "read_obj st k =
     (case obj_get (storage st) k of
        None \<Rightarrow> []
      | Some raw \<Rightarrow> (case json_parse raw of Some (JObj ob) \<Rightarrow> ob | _ \<Rightarrow> []))"

definition getKeys :: "cd_state \<Rightarrow> jsval obj" where
  "getKeys st = read_obj st STORAGE_KEY"

definition getLabels :: "cd_state \<Rightarrow> jsval obj" where
  "getLabels st = read_obj st LABELS_KEY"

definition getLabel :: "cd_state \<Rightarrow> string \<Rightarrow> string" where
  "getLabel st name = (case obj_get (getLabels st) name of Some (JStr l) \<Rightarrow> l | _ \<Rightarrow> [])"

definition saveLabel :: "quota \<Rightarrow> string \<Rightarrow> string \<Rightarrow> cd_state \<Rightarrow> cd_state" where
  "saveLabel q name label st =
     (let labels = getLabels st;
          labels' = (if trim label \<noteq> [] then obj_set labels name (JStr (trim label)) else obj_del labels name)
      in set_item q LABELS_KEY (json_text (JObj labels')) st)"

text \<open>The label is the empty string where the caller passes none.\<close>

definition saveKey :: "quota \<Rightarrow> string \<Rightarrow> string \<Rightarrow> string \<Rightarrow> cd_state \<Rightarrow> cd_state" where
  "saveKey q name hex label st =
     (let st1 = (set_item q STORAGE_KEY (json_text (JObj (obj_set (getKeys st) name (JStr hex)))) st)\<lparr>keyMapCache := None\<rparr>
      in if trim label \<noteq> [] then saveLabel q name (trim label) st1 else st1)"

definition clearChannelCache :: "quota \<Rightarrow> string \<Rightarrow> cd_state \<Rightarrow> cd_state" where
  "clearChannelCache q key st = set_item q CACHE_KEY (json_text (JObj (obj_del (read_obj st CACHE_KEY) key))) st"

definition removeKey :: "quota \<Rightarrow> string \<Rightarrow> cd_state \<Rightarrow> cd_state" where
  "removeKey q name st =
     (let st1 = (set_item q STORAGE_KEY (json_text (JObj (obj_del (getKeys st) name))) st)\<lparr>keyMapCache := None\<rparr>;
          st2 = clearChannelCache q name st1
      in case obj_get (getLabels st2) name of
           Some v \<Rightarrow> if truthy v
             then set_item q LABELS_KEY (json_text (JObj (obj_del (getLabels st2) name))) st2 else st2
         | None \<Rightarrow> st2)"

definition cacheMessages :: "quota \<Rightarrow> int \<Rightarrow> string \<Rightarrow> jsval list \<Rightarrow> cd_state \<Rightarrow> cd_state" where
  "cacheMessages q now key messages st =
     set_item q CACHE_KEY (json_text (JObj (obj_set (read_obj st CACHE_KEY) key
       (JObj [(''messages'', JArr messages), (''ts'', JNum (Fin (of_int now)))])))) st"

definition getCachedMessages :: "cd_state \<Rightarrow> string \<Rightarrow> jsval" where
  "getCachedMessages st key =
     (case obj_get (read_obj st CACHE_KEY) key of
        Some e \<Rightarrow> if truthy e then js_prop e ''messages'' else JNull
      | None \<Rightarrow> JNull)"

definition setCache :: "quota \<Rightarrow> int \<Rightarrow> string \<Rightarrow> jsval list \<Rightarrow> jsval \<Rightarrow> nat \<Rightarrow> cd_state \<Rightarrow> cd_state" where
  "setCache q now key messages lastTimestamp totalCount st =
     (let toStore = (if MAX_CACHED_MESSAGES < length messages
                     then drop (length messages - MAX_CACHED_MESSAGES) messages else messages)
      in set_item q CACHE_KEY (json_text (JObj (obj_set (read_obj st CACHE_KEY) key
           (JObj [(''messages'', JArr toStore), (''lastTimestamp'', lastTimestamp),
                  (''count'', JNum (Fin (of_nat (if totalCount \<noteq> 0 then totalCount else length toStore)))),
                  (''ts'', JNum (Fin (of_int now)))])))) st)"

definition getCache :: "cd_state \<Rightarrow> string \<Rightarrow> jsval" where
  "getCache st key = (case obj_get (read_obj st CACHE_KEY) key of Some e \<Rightarrow> js_or e JNull | None \<Rightarrow> JNull)"

section \<open>The key map of the live path\<close>

definition keysSignature :: "jsval obj \<Rightarrow> string" where
  "keysSignature keys =
     concat (map (\<lambda>n. n @ ''='' @ js_String (case obj_get keys n of Some v \<Rightarrow> v | None \<Rightarrow> JUndef) @ '';'') (sort (obj_keys keys)))"

definition add_key :: "crypto \<Rightarrow> key_map \<Rightarrow> string \<times> jsval \<Rightarrow> key_map" where
  "add_key C m nv = (case snd nv of
      JStr hex \<Rightarrow>
        (let bs = hexToBytes hex in
         if hex = [] \<or> length bs \<noteq> 16 then m
         else let h = computeChannelHash C bs in
              if map_of m h \<noteq> None then m
              else m @ [(h, \<lparr>channelName = fst nv, keyBytes = bs, keyHex = hex\<rparr>)])
    | _ \<Rightarrow> m)"

definition fresh_key_map :: "crypto \<Rightarrow> jsval obj \<Rightarrow> key_map" where
  "fresh_key_map C keys = foldl (add_key C) [] keys"

definition buildKeyMap :: "crypto \<Rightarrow> cd_state \<Rightarrow> key_map \<times> cd_state" where
  "buildKeyMap C st =
     (let keys = getKeys st; sig = keysSignature keys in
      case keyMapCache st of
        Some m \<Rightarrow> if keyMapSig st = sig then (m, st)
                  else (fresh_key_map C keys, st\<lparr>keyMapCache := Some (fresh_key_map C keys), keyMapSig := sig\<rparr>)
      | None \<Rightarrow> (fresh_key_map C keys, st\<lparr>keyMapCache := Some (fresh_key_map C keys), keyMapSig := sig\<rparr>))"

datatype hash_field = HNum int | HStr string | HOther

record grp_payload =
  gp_type :: string
  gp_encryptedData :: string
  gp_mac :: string
  gp_channelHash :: hash_field

record live_result =
  lr_sender :: string
  lr_text :: string
  lr_channelName :: string
  lr_hashByte :: int
  lr_timestamp :: "int option"

definition tryDecryptLive :: "crypto \<Rightarrow> grp_payload \<Rightarrow> key_map \<Rightarrow> live_result option" where
  "tryDecryptLive C p m =
     (if gp_type p \<noteq> ''GRP_TXT'' \<or> gp_encryptedData p = [] \<or> gp_mac p = [] then None
      else case (case gp_channelHash p of HNum i \<Rightarrow> Some i | HStr s \<Rightarrow> parseInt16 s | HOther \<Rightarrow> None) of
             None \<Rightarrow> None
           | Some hashByte \<Rightarrow>
               (case (if 0 \<le> hashByte \<and> hashByte < 256 then map_of m (word_of_int hashByte) else None) of
                  None \<Rightarrow> None
                | Some entry \<Rightarrow>
                    (case decrypt C (keyBytes entry) (gp_mac p) (gp_encryptedData p) of
                       None \<Rightarrow> None
                     | Some r \<Rightarrow> Some
                         \<lparr>lr_sender = (if msg_sender r \<noteq> [] then msg_sender r else ''Unknown''),
                          lr_text = msg_text r, lr_channelName = channelName entry,
                          lr_hashByte = hashByte,
                          lr_timestamp = (if msg_timestamp r \<noteq> 0 then Some (msg_timestamp r) else None)\<rparr>)))"

section \<open>The hexadecimal codec\<close>

lemma hex_not_special:
  "is_hex c \<Longrightarrow> \<not> is_ws c \<and> c \<noteq> CHR ''-'' \<and> c \<noteq> CHR ''+'' \<and> c \<noteq> CHR ''x'' \<and> c \<noteq> CHR ''X''"
  by (auto simp: char_class_defs)

lemma parseInt16_two: "is_hex c \<Longrightarrow> is_hex d \<Longrightarrow> parseInt16 [c, d] = Some (int (16 * hex_val c + hex_val d))"
  using hex_not_special [of c] hex_not_special [of d]
  by (simp add: parseInt16_def parse_sign_def strip_0x_def hex_value_def Let_def)

lemma byte_hex_eq: "byte_hex b = [hex_char (unat b div 16), hex_char (unat b mod 16)]"
proof -
  have "b < 16 \<longleftrightarrow> unat b < 16" by (simp add: word_less_nat_alt)
  moreover have "hex_char 0 = CHR ''0''" by code_simp
  ultimately show ?thesis by (auto simp: byte_hex_def)
qed

lemma unat_byte_lt: "unat (b :: 8 word) < 256"
  using unsigned_less [of b, where ?'a = nat] by simp

lemma hexToBytes_append_byte: "hexToBytes (byte_hex b @ s) = b # hexToBytes s"
proof -
  have "unat b div 16 < 16" "unat b mod 16 < 16" using unat_byte_lt [of b] by auto
  then have "parseInt16 (byte_hex b) = Some (int (16 * (unat b div 16) + unat b mod 16))"
    by (simp add: byte_hex_eq parseInt16_two)
  then show ?thesis by (simp add: byte_hex_eq)
qed

lemma hexToBytes_bytesToHex: "hexToBytes (bytesToHex bs) = bs"
  by (induction bs) (simp_all add: bytesToHex_def hexToBytes_append_byte)

lemma length_hexToBytes: "length (hexToBytes s) = length s div 2"
  by (induction s rule: hexToBytes.induct) auto

lemma byte_hex_parse:
  assumes "is_hex c" "is_hex d"
  shows "byte_hex (word_of_int (int (16 * hex_val c + hex_val d))) = [lower_char c, lower_char d]"
proof -
  have lt: "hex_val c < 16" "hex_val d < 16" using assms hex_val_less by auto
  have u: "unat (word_of_int (int (16 * hex_val c + hex_val d)) :: 8 word) = 16 * hex_val c + hex_val d"
    using lt by (simp add: unat_of_nat del: of_nat_add of_nat_mult)
  show ?thesis unfolding byte_hex_eq u using lt assms by (simp add: hex_char_val)
qed

lemma bytesToHex_hexToBytes:
  "list_all is_hex s \<Longrightarrow> even (length s) \<Longrightarrow> bytesToHex (hexToBytes s) = toLowerCase s"
proof (induction s rule: hexToBytes.induct)
  case (1 c d r)
  then have "bytesToHex (hexToBytes r) = toLowerCase r" by simp
  moreover have "hexToBytes (c # d # r) = word_of_int (int (16 * hex_val c + hex_val d)) # hexToBytes r"
    using 1 by (simp add: parseInt16_two del: of_nat_add of_nat_mult)
  ultimately show ?case using byte_hex_parse 1 by (simp add: bytesToHex_def toLowerCase_def del: of_nat_add of_nat_mult)
qed (auto simp: bytesToHex_def toLowerCase_def)

interpretation hexcodec: codec bytesToHex "\<lambda>s. Some (hexToBytes s)" "\<lambda>_. True"
  by unfold_locales (simp add: hexToBytes_bytesToHex)

section \<open>The time stamp\<close>

lemma byte_or_shift: "ucast (b :: 8 word) OR push_bit 8 y = ucast b + 256 * (y :: 32 word)"
proof -
  have "ucast b AND push_bit 8 y = 0"
    by (rule bit_word_eqI) (auto simp: bit_simps dest: bit_imp_le_length)
  then have "ucast b OR push_bit 8 y = ucast b + push_bit 8 y" by (rule disjunctive_add_eq_or [symmetric])
  then show ?thesis by (simp add: push_bit_eq_mult mult.commute)
qed

lemma le_word:
  "(ucast b0 :: 32 word) OR push_bit 8 (ucast b1) OR push_bit 16 (ucast b2) OR push_bit 24 (ucast b3) =
     word_of_int (uint b0 + 256 * uint b1 + 65536 * uint b2 + 16777216 * uint b3)" for b0 b1 b2 b3 :: "8 word"
proof -
  have e: "push_bit 8 (ucast b1 OR push_bit 8 (ucast b2 OR push_bit 8 (ucast b3))) =
      push_bit 8 (ucast b1) OR push_bit 16 (ucast b2) OR push_bit 24 (ucast b3 :: 32 word)"
    by (simp add: push_bit_or)
  have "(ucast b0 :: 32 word) OR push_bit 8 (ucast b1) OR push_bit 16 (ucast b2) OR push_bit 24 (ucast b3) =
      ucast b0 + 256 * (ucast b1 + 256 * (ucast b2 + 256 * ucast b3))"
    unfolding e [symmetric] byte_or_shift by (rule refl)
  also have "\<dots> = word_of_int (uint b0 + 256 * (uint b1 + 256 * (uint b2 + 256 * uint b3)))"
    by simp
  finally show ?thesis by (simp add: distrib_left add.assoc del: of_int_add of_int_mult)
qed

lemma le_timestamp_value:
  "le_timestamp b0 b1 b2 b3 =
     (let v = uint b0 + 256 * uint b1 + 65536 * uint b2 + 16777216 * uint b3
      in if uint b3 < 128 then v else v - 4294967296)"
proof -
  have lt: "uint b < 256" "0 \<le> uint b" for b :: "8 word"
    using unsigned_less [of b, where ?'a = int] by auto
  have "sint (word_of_int v :: 32 word) = (v + 2147483648) mod 4294967296 - 2147483648" for v
    by (simp add: signed_of_int signed_take_bit_eq_take_bit_shift take_bit_eq_mod)
  moreover have "(v + 2147483648) mod 4294967296 = v + 2147483648" if "0 \<le> v" "v < 2147483648" for v :: int
    using that by (intro mod_pos_pos_trivial) auto
  moreover have "(v + 2147483648) mod 4294967296 = v - 2147483648" if "2147483648 \<le> v" "v < 4294967296" for v :: int
    using that mod_pos_pos_trivial [of "v - 2147483648" 4294967296] mod_add_self2 [of "v - 2147483648" 4294967296]
    by (simp add: add.commute)
  ultimately have sint_eq: "sint (word_of_int v :: 32 word) = (if v < 2147483648 then v else v - 4294967296)"
    if "0 \<le> v" "v < 4294967296" for v using that by (auto simp: not_less)
  define v where "v = uint b0 + 256 * uint b1 + 65536 * uint b2 + 16777216 * uint b3"
  have "0 \<le> v" "v < 4294967296" "v < 2147483648 \<longleftrightarrow> uint b3 < 128"
    unfolding v_def using lt [of b0] lt [of b1] lt [of b2] lt [of b3] by linarith+
  then show ?thesis
    unfolding le_timestamp_def le_word Let_def v_def [symmetric] using sint_eq [of v] by simp
qed

section \<open>Reading back a packet\<close>

definition ascii_bytes :: "string \<Rightarrow> bytes" where
  "ascii_bytes s = map (\<lambda>c. of_nat (code c)) s"

definition ascii_text :: "string \<Rightarrow> bool" where
  "ascii_text s = list_all (\<lambda>c. 32 \<le> code c \<and> code c < (128::nat)) s"

text \<open>What the decoder of the platform is known to do on ASCII bytes.\<close>

definition decodes_ascii :: "crypto \<Rightarrow> bool" where
  "decodes_ascii C = (\<forall>s. ascii_text s \<longrightarrow> text_decode C (ascii_bytes s) = s)"

definition le_bytes :: "int \<Rightarrow> bytes" where
  "le_bytes t = [word_of_int t, word_of_int (t div 256), word_of_int (t div 65536), word_of_int (t div 16777216)]"

text \<open>The plaintext layout the header of the source documents, padded with zero bytes.\<close>

definition plain_packet :: "int \<Rightarrow> 8 word \<Rightarrow> string \<Rightarrow> string \<Rightarrow> nat \<Rightarrow> bytes" where
  "plain_packet t flags sender msg pad = le_bytes t @ [flags] @ ascii_bytes (sender @ '': '' @ msg) @ replicate pad 0"

lemma ascii_nonzero: "ascii_text s \<Longrightarrow> takeWhile (\<lambda>b. b \<noteq> 0) (ascii_bytes s @ replicate n 0) = ascii_bytes s"
proof (induction s)
  case (Cons c s)
  then have c: "32 \<le> code c" "code c < (128::nat)" by (simp_all add: ascii_text_def)
  then have "unat (of_nat (code c) :: 8 word) = code c" by (simp add: unat_of_nat)
  with c have "(of_nat (code c) :: 8 word) \<noteq> 0" by (metis unsigned_0 not_numeral_le_zero)
  with Cons show ?case by (simp add: ascii_bytes_def ascii_text_def)
qed (simp add: ascii_bytes_def)

lemma index_of_colon: "CHR '':'' \<notin> set s \<Longrightarrow> index_of '': '' (s @ '': '' @ r) = Some (length s)"
  by (induction s) (auto simp: starts_with_def)

lemma split_sender_packet:
  assumes "sender \<noteq> []" "length sender < 50" "CHR '':'' \<notin> set sender" "CHR ''['' \<notin> set sender" "CHR '']'' \<notin> set sender"
  shows "split_sender (sender @ '': '' @ msg) = (sender, msg)"
  using assms unfolding split_sender_def index_of_colon [OF assms(3)] by simp

lemma ascii_printable: "ascii_text s \<Longrightarrow> filter non_printable s = []"
  by (auto simp: ascii_text_def list_all_iff filter_empty_conv non_printable_def)

lemma le_bytes_timestamp:
  assumes "0 \<le> t" "t < 4294967296"
  shows "le_timestamp (word_of_int t) (word_of_int (t div 256)) (word_of_int (t div 65536)) (word_of_int (t div 16777216)) =
     (if t < 2147483648 then t else t - 4294967296)"
proof -
  have u: "uint (word_of_int x :: 8 word) = x mod 256" for x
    by (simp add: unsigned_of_int take_bit_eq_mod)
  have d: "t div 65536 = t div 256 div 256" "t div 16777216 = t div 256 div 256 div 256"
    by (simp_all add: zdiv_zmult2_eq [symmetric])
  define a where "a = t div 256"
  define b where "b = a div 256"
  define c where "c = b div 256"
  have c: "0 \<le> c" "c < 256" using assms by (auto simp: c_def b_def a_def)
  have e: "t = t mod 256 + 256 * (a mod 256) + 65536 * (b mod 256) + 16777216 * c"
    using mult_div_mod_eq [of 256 t] mult_div_mod_eq [of 256 a] mult_div_mod_eq [of 256 b]
    unfolding a_def [symmetric] b_def [symmetric] c_def [symmetric] by linarith
  have "t < 2147483648 \<longleftrightarrow> c < 128"
    using e pos_mod_bound [of 256 t] pos_mod_bound [of 256 a] pos_mod_bound [of 256 b]
      pos_mod_sign [of 256 t] pos_mod_sign [of 256 a] pos_mod_sign [of 256 b] by linarith
  moreover have "c mod 256 = c" using c by simp
  ultimately show ?thesis
    using e unfolding le_timestamp_value u d Let_def a_def [symmetric] b_def [symmetric] c_def [symmetric] by simp
qed

lemma parse_plain_packet:
  assumes "decodes_ascii C" "ascii_text (sender @ '': '' @ msg)"
    and "sender \<noteq> []" "length sender < 50" "CHR '':'' \<notin> set sender" "CHR ''['' \<notin> set sender" "CHR '']'' \<notin> set sender"
    and "0 \<le> t" "t < 4294967296"
  shows "parsePlaintext C (plain_packet t flags sender msg pad) =
     Some \<lparr>msg_timestamp = (if t < 2147483648 then t else t - 4294967296), msg_flags = flags,
           msg_sender = sender, msg_text = msg\<rparr>"
proof -
  have "text_decode C (takeWhile (\<lambda>b. b \<noteq> 0) (ascii_bytes (sender @ '': '' @ msg) @ replicate pad 0)) = sender @ '': '' @ msg"
    using assms(1,2) by (simp only: ascii_nonzero decodes_ascii_def)
  then show ?thesis
    using split_sender_packet [OF assms(3-7), of msg] ascii_printable [OF assms(2)] le_bytes_timestamp [OF assms(8,9)]
    by (simp add: plain_packet_def le_bytes_def)
qed

lemma verifyMAC_hex:
  "2 \<le> length sig \<Longrightarrow> hmacSha256 C (channel_secret key) ct = sig \<Longrightarrow> verifyMAC C key ct (bytesToHex (take 2 sig))"
  by (simp add: verifyMAC_def hexToBytes_bytesToHex byte_at_def)

lemma decrypt_packet:
  assumes "ct \<noteq> []" "length ct mod 16 = 0" "aes_decrypt C key ct = plain" "parsePlaintext C plain = Some m"
    and "2 \<le> length (hmacSha256 C (channel_secret key) ct)"
  shows "decrypt C key (bytesToHex (take 2 (hmacSha256 C (channel_secret key) ct))) (bytesToHex ct) = Some m"
  using assms verifyMAC_hex [OF assms(5) refl]
  by (simp add: decrypt_def hexToBytes_bytesToHex decryptECB_def)

lemma decrypt_authentic:
  "decrypt C key mac enc = Some m \<Longrightarrow> verifyMAC C key (hexToBytes enc) mac \<and>
     parsePlaintext C (aes_decrypt C key (hexToBytes enc)) = Some m"
  by (auto simp: decrypt_def decryptECB_def Let_def split: if_splits option.splits)

section \<open>The stored keys\<close>

declare json_text.simps [simp del] json_ok.simps(6) [simp del]

definition json_stored :: "cd_state \<Rightarrow> string \<Rightarrow> bool" where
  "json_stored st k = json_ok (JObj (read_obj st k))"

definition cd_ok :: "cd_state \<Rightarrow> bool" where
  "cd_ok st = (json_stored st STORAGE_KEY \<and> json_stored st LABELS_KEY \<and> json_stored st CACHE_KEY)"

lemma storage_keys_distinct [simp]:
  "STORAGE_KEY \<noteq> LABELS_KEY" "STORAGE_KEY \<noteq> CACHE_KEY" "LABELS_KEY \<noteq> CACHE_KEY"
  "LABELS_KEY \<noteq> STORAGE_KEY" "CACHE_KEY \<noteq> STORAGE_KEY" "CACHE_KEY \<noteq> LABELS_KEY"
  by (simp_all add: STORAGE_KEY_def LABELS_KEY_def CACHE_KEY_def)

lemma json_ok_obj_set: "json_ok (JObj ob) \<Longrightarrow> json_ok v \<Longrightarrow> json_ok (JObj (obj_set ob k v))"
proof -
  assume a: "json_ok (JObj ob)" "json_ok v"
  have "set (obj_set ob k v) \<subseteq> insert (k, v) (set ob)" by (induction ob k v rule: obj_set.induct) auto
  moreover have "obj_wf (obj_set ob k v)" using a(1) by (simp add: obj_wf_set obj_wf_def [symmetric] json_ok.simps(6))
  ultimately show ?thesis using a by (auto simp: obj_wf_def json_ok.simps(6))
qed

lemma json_ok_obj_del: "json_ok (JObj ob) \<Longrightarrow> json_ok (JObj (obj_del ob k))"
  using obj_wf_del [of ob k] by (auto simp: obj_wf_def obj_del_def json_ok.simps(6))

lemma read_obj_set:
  assumes "json_ok (JObj ob)"
  shows "read_obj (set_item q k (json_text (JObj ob)) st) k' =
     (if k' = k \<and> q k (json_text (JObj ob)) then ob else read_obj st k')"
  using json.decode_encode [OF assms] by (simp add: read_obj_def set_item_def obj_get_set)

lemma read_obj_cache [simp]: "read_obj (st\<lparr>keyMapCache := c\<rparr>) k = read_obj st k"
  by (simp add: read_obj_def)

definition accept :: quota where "accept k v = True"

definition stored_key :: "cd_state \<Rightarrow> string \<Rightarrow> string option" where
  "stored_key st name = (case obj_get (getKeys st) name of Some (JStr h) \<Rightarrow> Some h | _ \<Rightarrow> None)"

definition empty_cd :: cd_state where
  "empty_cd = \<lparr>storage = [], keyMapCache = None, keyMapSig = []\<rparr>"

lemma empty_cd_ok: "cd_ok empty_cd"
  by (simp add: cd_ok_def json_stored_def read_obj_def empty_cd_def json_ok.simps(6))

lemma keys_set_other [simp]: "k \<noteq> STORAGE_KEY \<Longrightarrow> getKeys (set_item q k v st) = getKeys st"
  by (auto simp: getKeys_def read_obj_def set_item_def obj_get_set)

lemma set_item_cache [simp]: "keyMapCache (set_item q k v st) = keyMapCache st"
  by (simp add: set_item_def)

lemma json_stored_set_item:
  "json_ok (JObj ob) \<Longrightarrow> json_stored st k' \<Longrightarrow> json_stored (set_item q k (json_text (JObj ob)) st) k'"
  by (auto simp: json_stored_def read_obj_set)

lemma cd_ok_set_item: "json_ok (JObj ob) \<Longrightarrow> cd_ok st \<Longrightarrow> cd_ok (set_item q k (json_text (JObj ob)) st)"
  by (simp add: cd_ok_def json_stored_set_item)

lemma cd_ok_cache [simp]: "cd_ok (st\<lparr>keyMapCache := c\<rparr>) = cd_ok st"
  by (simp add: cd_ok_def json_stored_def)

lemma saveLabel_ok: "cd_ok st \<Longrightarrow> cd_ok (saveLabel q name l st)"
proof -
  assume ok: "cd_ok st"
  then have "json_ok (JObj (getLabels st))" by (simp add: cd_ok_def json_stored_def getLabels_def)
  then show ?thesis using ok
    by (auto simp: saveLabel_def Let_def intro!: cd_ok_set_item json_ok_obj_set json_ok_obj_del)
qed

lemma saveKey_ok: "cd_ok st \<Longrightarrow> cd_ok (saveKey q name hex l st)"
proof -
  assume ok: "cd_ok st"
  then have "json_ok (JObj (getKeys st))" by (simp add: cd_ok_def json_stored_def getKeys_def)
  then have "json_ok (JObj (obj_set (getKeys st) name (JStr hex)))" by (rule json_ok_obj_set) simp
  then show ?thesis using ok
    by (simp add: saveKey_def Let_def saveLabel_ok cd_ok_set_item)
qed

lemma removeKey_ok: "cd_ok st \<Longrightarrow> cd_ok (removeKey q name st)"
proof -
  assume ok: "cd_ok st"
  then have "json_ok (JObj (obj_del (getKeys st) name))"
    by (intro json_ok_obj_del) (simp add: cd_ok_def json_stored_def getKeys_def)
  with ok have ok1: "cd_ok ((set_item q STORAGE_KEY (json_text (JObj (obj_del (getKeys st) name))) st)\<lparr>keyMapCache := None\<rparr>)"
    (is "cd_ok ?st1") by (simp add: cd_ok_set_item)
  then have "json_ok (JObj (obj_del (read_obj ?st1 CACHE_KEY) name))"
    by (intro json_ok_obj_del) (simp add: cd_ok_def json_stored_def)
  with ok1 have ok2: "cd_ok (clearChannelCache q name ?st1)" (is "cd_ok ?st2")
    by (simp add: clearChannelCache_def cd_ok_set_item)
  then have "json_ok (JObj (obj_del (getLabels ?st2) name))"
    by (intro json_ok_obj_del) (simp add: cd_ok_def json_stored_def getLabels_def)
  with ok2 show ?thesis
    by (auto simp: removeKey_def Let_def cd_ok_set_item split: option.split)
qed

lemma saveLabel_keys [simp]: "getKeys (saveLabel q name l st) = getKeys st"
  by (simp add: saveLabel_def Let_def)

lemma keys_cache [simp]: "getKeys (st\<lparr>keyMapCache := c\<rparr>) = getKeys st"
  by (simp add: getKeys_def)

lemma getKeys_save:
  assumes "cd_ok st"
  shows "getKeys (saveKey accept name hex l st) = obj_set (getKeys st) name (JStr hex)"
proof -
  have "json_ok (JObj (obj_set (getKeys st) name (JStr hex)))"
    using assms by (intro json_ok_obj_set) (simp_all add: cd_ok_def json_stored_def getKeys_def)
  from read_obj_set [OF this, of accept STORAGE_KEY st STORAGE_KEY]
  have "getKeys (set_item accept STORAGE_KEY (json_text (JObj (obj_set (getKeys st) name (JStr hex)))) st) =
      obj_set (getKeys st) name (JStr hex)"
    by (simp add: getKeys_def accept_def)
  then show ?thesis by (simp add: saveKey_def Let_def)
qed

lemma getKeys_remove_storage:
  assumes "cd_ok st"
  shows "getKeys (set_item accept STORAGE_KEY (json_text (JObj (obj_del (getKeys st) name))) st) = obj_del (getKeys st) name"
proof -
  have "json_ok (JObj (obj_del (getKeys st) name))"
    using assms by (intro json_ok_obj_del) (simp_all add: cd_ok_def json_stored_def getKeys_def)
  from read_obj_set [OF this, of accept STORAGE_KEY st STORAGE_KEY] show ?thesis
    by (simp add: getKeys_def accept_def)
qed

lemma getKeys_remove:
  "cd_ok st \<Longrightarrow> getKeys (removeKey accept name st) = obj_del (getKeys st) name"
  by (simp add: removeKey_def Let_def clearChannelCache_def getKeys_remove_storage split: option.split)

interpretation keystore: key_store empty_cd stored_key "\<lambda>st name hex. saveKey accept name hex [] st"
    "\<lambda>st name. removeKey accept name st" cd_ok
proof
  show "stored_key empty_cd k = None" for k
    by (simp add: stored_key_def getKeys_def read_obj_def empty_cd_def)
  show "cd_ok s \<Longrightarrow> stored_key (saveKey accept k v [] s) k' = (if k' = k then Some v else stored_key s k')" for s k v k'
    by (simp add: stored_key_def getKeys_save obj_get_set)
  show "cd_ok s \<Longrightarrow> stored_key (removeKey accept k s) k' = (if k' = k then None else stored_key s k')" for s k k'
    by (simp add: stored_key_def getKeys_remove obj_get_del)
qed (rule empty_cd_ok saveKey_ok removeKey_ok, assumption?)+

section \<open>The key map\<close>

definition entry_ok :: "crypto \<Rightarrow> jsval obj \<Rightarrow> 8 word \<times> key_entry \<Rightarrow> bool" where
  "entry_ok C keys he = (computeChannelHash C (keyBytes (snd he)) = fst he \<and> length (keyBytes (snd he)) = 16 \<and>
     keyBytes (snd he) = hexToBytes (keyHex (snd he)) \<and>
     (channelName (snd he), JStr (keyHex (snd he))) \<in> set keys)"

lemma map_of_None_fst: "map_of m h = None \<longleftrightarrow> h \<notin> fst ` set m"
  by (simp add: map_of_eq_None_iff)

lemma add_key_ok:
  assumes "list_all (entry_ok C keys) m" "distinct (map fst m)" "nv \<in> set keys"
  shows "list_all (entry_ok C keys) (add_key C m nv) \<and> distinct (map fst (add_key C m nv))"
  using assms by (cases nv) (auto simp: add_key_def Let_def entry_ok_def map_of_None_fst split: jsval.split)

lemma fresh_key_map_ok: "list_all (entry_ok C keys) (fresh_key_map C keys) \<and> distinct (map fst (fresh_key_map C keys))"
proof -
  have "set ks \<subseteq> set keys \<Longrightarrow> list_all (entry_ok C keys) m \<Longrightarrow> distinct (map fst m) \<Longrightarrow>
      list_all (entry_ok C keys) (foldl (add_key C) m ks) \<and> distinct (map fst (foldl (add_key C) m ks))" for ks m
    by (induction ks arbitrary: m) (auto dest: add_key_ok)
  from this [of keys "[]"] show ?thesis by (simp add: fresh_key_map_def)
qed

text \<open>Every stored key of 16 bytes has an entry for its hash byte, the first one if several share it.\<close>

lemma add_key_mono: "map_of m h = Some e \<Longrightarrow> map_of (add_key C m nv) h = Some e"
  by (auto simp: add_key_def Let_def split: jsval.split)

lemma foldl_add_key_mono: "map_of m h = Some e \<Longrightarrow> map_of (foldl (add_key C) m ks) h = Some e"
  by (induction ks arbitrary: m) (auto intro: add_key_mono)

lemma add_key_hits:
  "hex \<noteq> [] \<Longrightarrow> length (hexToBytes hex) = 16 \<Longrightarrow>
   \<exists>e. map_of (add_key C m (name, JStr hex)) (computeChannelHash C (hexToBytes hex)) = Some e"
  by (cases "map_of m (computeChannelHash C (hexToBytes hex))") (auto simp: add_key_def Let_def map_add_def)

lemma fresh_key_map_complete:
  assumes "(name, JStr hex) \<in> set keys" "length (hexToBytes hex) = 16"
  shows "\<exists>e. map_of (fresh_key_map C keys) (computeChannelHash C (hexToBytes hex)) = Some e"
proof -
  from assms(1) obtain pre post where k: "keys = pre @ (name, JStr hex) # post" by (meson split_list)
  have "hex \<noteq> []" using assms(2) by auto
  from add_key_hits [OF this assms(2), of C "foldl (add_key C) [] pre" name] show ?thesis
    unfolding fresh_key_map_def k by (auto intro: foldl_add_key_mono)
qed

section \<open>Reachable states and the cached key map\<close>

inductive cd_step :: "crypto \<Rightarrow> cd_state \<Rightarrow> cd_state \<Rightarrow> bool" for C where
  save: "cd_step C st (saveKey q name hex l st)"
| remove: "cd_step C st (removeKey q name st)"
| label: "cd_step C st (saveLabel q name l st)"
| clear: "cd_step C st (clearChannelCache q key st)"
| cache_messages: "cd_step C st (cacheMessages q now key ms st)"
| set_cache: "cd_step C st (setCache q now key ms lt n st)"
| build: "cd_step C st (snd (buildKeyMap C st))"

text \<open>A page starts with whatever is in the storage and no cached map.\<close>

inductive cd_reachable :: "crypto \<Rightarrow> cd_state \<Rightarrow> bool" for C where
  start: "keyMapCache st = None \<Longrightarrow> cd_reachable C st"
| step: "cd_reachable C st \<Longrightarrow> cd_step C st st' \<Longrightarrow> cd_reachable C st'"

definition cache_valid :: "crypto \<Rightarrow> cd_state \<Rightarrow> bool" where
  "cache_valid C st = (keyMapCache st = None \<or> keyMapCache st = Some (fresh_key_map C (getKeys st)))"

lemma buildKeyMap_valid:
  assumes "cache_valid C st"
  shows "fst (buildKeyMap C st) = fresh_key_map C (getKeys st)" "cache_valid C (snd (buildKeyMap C st))"
proof -
  have [simp]: "getKeys (st\<lparr>keyMapCache := c, keyMapSig := s\<rparr>) = getKeys st" for c s
    by (simp add: getKeys_def read_obj_def)
  show "fst (buildKeyMap C st) = fresh_key_map C (getKeys st)" "cache_valid C (snd (buildKeyMap C st))"
    using assms
    by (cases "keyMapSig st = keysSignature (getKeys st)"; auto simp: buildKeyMap_def cache_valid_def Let_def)+
qed

lemma cache_valid_set_item: "k \<noteq> STORAGE_KEY \<Longrightarrow> cache_valid C (set_item q k v st) = cache_valid C st"
  by (simp add: cache_valid_def)

lemma cache_valid_None: "keyMapCache st = None \<Longrightarrow> cache_valid C st"
  by (simp add: cache_valid_def)

lemma keyMapCache_label [simp]: "keyMapCache (saveLabel q name l st) = keyMapCache st"
  by (simp add: saveLabel_def Let_def)

lemma keyMapCache_remove [simp]: "keyMapCache (removeKey q name st) = None"
  by (simp add: removeKey_def Let_def clearChannelCache_def split: option.split)

lemma keyMapCache_save [simp]: "keyMapCache (saveKey q name hex l st) = None"
  by (simp add: saveKey_def Let_def)

lemma cd_step_valid: "cd_step C st st' \<Longrightarrow> cache_valid C st \<Longrightarrow> cache_valid C st'"
  by (induction rule: cd_step.induct)
     (auto simp: cache_valid_None cache_valid_set_item buildKeyMap_valid saveLabel_def clearChannelCache_def
        cacheMessages_def setCache_def Let_def)

lemma cd_reachable_valid: "cd_reachable C st \<Longrightarrow> cache_valid C st"
  by (induction rule: cd_reachable.induct) (auto simp: cache_valid_None dest: cd_step_valid)

section \<open>The message cache and removal\<close>

lemma json_ok_messages:
  assumes "\<forall>m \<in> set ms. json_ok m" "json_ok lt"
  shows "json_ok (JObj [(''messages'', JArr ms), (''lastTimestamp'', lt), (''count'', JNum (Fin (of_nat n))), (''ts'', JNum (Fin (of_int t)))])"
  using assms by (simp add: json_ok.simps(6))

definition recent :: "jsval list \<Rightarrow> jsval list" where
  "recent ms = drop (length ms - MAX_CACHED_MESSAGES) ms"

lemma setCache_get:
  assumes "cd_ok st" "\<forall>m \<in> set ms. json_ok m" "json_ok lt"
  shows "getCache (setCache accept now key ms lt n st) key =
    JObj [(''messages'', JArr (recent ms)), (''lastTimestamp'', lt),
          (''count'', JNum (Fin (of_nat (if n \<noteq> 0 then n else length (recent ms))))), (''ts'', JNum (Fin (of_int now)))]"
    (is "_ = ?e")
proof -
  have r: "(if MAX_CACHED_MESSAGES < length ms then drop (length ms - MAX_CACHED_MESSAGES) ms else ms) = recent ms"
    by (simp add: recent_def)
  have "\<forall>m \<in> set (recent ms). json_ok m" using assms(2) by (auto simp: recent_def dest: in_set_dropD)
  then have "json_ok ?e" using assms(3) by (rule json_ok_messages)
  then have ok: "json_ok (JObj (obj_set (read_obj st CACHE_KEY) key ?e))"
    using assms(1) by (intro json_ok_obj_set) (auto simp: cd_ok_def json_stored_def)
  have "setCache accept now key ms lt n st = set_item accept CACHE_KEY (json_text (JObj (obj_set (read_obj st CACHE_KEY) key ?e))) st"
    unfolding setCache_def Let_def r ..
  then show ?thesis using read_obj_set [OF ok, of accept CACHE_KEY st CACHE_KEY]
    by (simp add: getCache_def accept_def obj_get_set js_or_def)
qed

lemma removeKey_clears:
  assumes "cd_ok st"
  shows "getCache (removeKey accept name st) name = JNull" "getLabel (removeKey accept name st) name = []"
proof -
  define st1 where "st1 = (set_item accept STORAGE_KEY (json_text (JObj (obj_del (getKeys st) name))) st)\<lparr>keyMapCache := None\<rparr>"
  have j1: "json_ok (JObj (obj_del (getKeys st) name))"
    using assms by (intro json_ok_obj_del) (simp add: cd_ok_def json_stored_def getKeys_def)
  then have ok1: "cd_ok st1" using assms by (simp add: st1_def cd_ok_set_item)
  have j2: "json_ok (JObj (obj_del (read_obj st1 CACHE_KEY) name))"
    using ok1 by (intro json_ok_obj_del) (simp add: cd_ok_def json_stored_def)
  define st2 where "st2 = clearChannelCache accept name st1"
  have ok2: "cd_ok st2" using ok1 j2 by (simp add: st2_def clearChannelCache_def cd_ok_set_item)
  have c2: "read_obj st2 CACHE_KEY = obj_del (read_obj st1 CACHE_KEY) name"
    by (simp add: st2_def clearChannelCache_def read_obj_set [OF j2] accept_def)
  have j3: "json_ok (JObj (obj_del (getLabels st2) name))"
    using ok2 by (intro json_ok_obj_del) (simp add: cd_ok_def json_stored_def getLabels_def)
  have rem: "removeKey accept name st = (case obj_get (getLabels st2) name of
      Some v \<Rightarrow> if truthy v then set_item accept LABELS_KEY (json_text (JObj (obj_del (getLabels st2) name))) st2 else st2
    | None \<Rightarrow> st2)"
    unfolding removeKey_def Let_def st2_def st1_def ..
  have l: "getLabels (set_item accept LABELS_KEY (json_text (JObj (obj_del (getLabels st2) name))) st2) = obj_del (getLabels st2) name"
    using read_obj_set [OF j3, of accept LABELS_KEY st2 LABELS_KEY] by (simp add: getLabels_def accept_def)
  have c: "read_obj (set_item accept LABELS_KEY (json_text (JObj (obj_del (getLabels st2) name))) st2) CACHE_KEY = read_obj st2 CACHE_KEY"
    using read_obj_set [OF j3] by simp
  show "getCache (removeKey accept name st) name = JNull"
    unfolding rem getCache_def using c c2 by (auto simp: obj_get_del split: option.split)
  show "getLabel (removeKey accept name st) name = []"
    unfolding rem getLabel_def using l by (auto simp: obj_get_del split: option.split jsval.split)
qed

section \<open>Properties\<close>

text \<open>
  Hexadecimal round trip.  Every byte array survives printing as hexadecimal and reading
  back; and an even number of hexadecimal digits survives reading and printing, in lower case.
\<close>

theorem hex_roundtrip:
  "hexToBytes (bytesToHex bs) = bs \<and>
   (list_all is_hex s \<and> even (length s) \<longrightarrow> bytesToHex (hexToBytes s) = toLowerCase s)"
  by (simp add: hexToBytes_bytesToHex bytesToHex_hexToBytes)

theorem hex_roundtrip_witness: "bytesToHex (hexToBytes ''A0ff'') = toLowerCase ''A0ff''"
  using hex_roundtrip [of "[]" "''A0ff''"] by (simp add: char_class_defs)

text \<open>
  C7: Decrypting what a sender produced.  Let a plaintext have the documented layout (four bytes of
  time stamp in little-endian order, flags, an ASCII text ``sender: message'', zero padding), let AES
  decryption of the ciphertext give it, and let the packet carry the first two bytes of the HMAC under
  the key padded with zeros.  Then \<^verbatim>\<open>decrypt\<close> returns sender, message and flags; the time
  stamp is right below \<open>2\<^sup>3\<^sup>1\<close> seconds and comes out negative (less \<open>2\<^sup>3\<^sup>2\<close>) from there on.
\<close>

theorem decrypt_roundtrip:
  assumes "decodes_ascii C" "ascii_text (sender @ '': '' @ msg)"
    and "sender \<noteq> []" "length sender < 50" "CHR '':'' \<notin> set sender" "CHR ''['' \<notin> set sender" "CHR '']'' \<notin> set sender"
    and "0 \<le> t" "t < 4294967296"
    and "aes_decrypt C key ct = plain_packet t flags sender msg pad" "ct \<noteq> []" "length ct mod 16 = 0"
    and "2 \<le> length (hmacSha256 C (channel_secret key) ct)"
  shows "decrypt C key (bytesToHex (take 2 (hmacSha256 C (channel_secret key) ct))) (bytesToHex ct) =
     Some \<lparr>msg_timestamp = (if t < 2147483648 then t else t - 4294967296), msg_flags = flags,
           msg_sender = sender, msg_text = msg\<rparr>"
  by (rule decrypt_packet [OF assms(11,12,10) parse_plain_packet [OF assms(1-9)] assms(13)])

definition demo_crypto :: crypto where
  "demo_crypto = \<lparr>sha256 = \<lambda>bs. replicate 32 7, hmacSha256 = \<lambda>k bs. replicate 32 9,
     aes_decrypt = \<lambda>k bs. bs, text_encode = ascii_bytes, text_decode = map (\<lambda>b. char_of (unat b))\<rparr>"

lemma demo_crypto_ascii: "decodes_ascii demo_crypto"
proof -
  have "char_of (unat (of_nat (code c) :: 8 word)) = c" if "32 \<le> code c \<and> code c < (128::nat)" for c
    using that by (simp add: unat_of_nat)
  then show ?thesis
    by (auto simp: decodes_ascii_def demo_crypto_def ascii_bytes_def ascii_text_def list_all_iff o_def intro!: map_idI)
qed

theorem decrypt_roundtrip_witness:
  "decrypt demo_crypto [] (bytesToHex (take 2 (hmacSha256 demo_crypto (channel_secret []) (plain_packet 4000000000 0 ''Al'' ''hi'' 5))))
     (bytesToHex (plain_packet 4000000000 0 ''Al'' ''hi'' 5)) =
   Some \<lparr>msg_timestamp = (if (4000000000::int) < 2147483648 then 4000000000 else 4000000000 - 4294967296), msg_flags = 0,
         msg_sender = ''Al'', msg_text = ''hi''\<rparr>"
  by (rule decrypt_roundtrip [OF demo_crypto_ascii, where pad = 5])
     (simp_all add: ascii_text_def demo_crypto_def plain_packet_def le_bytes_def ascii_bytes_def)

text \<open>
  C8: Only authenticated messages, under the key the packet names.  When the live path returns a
  message, the packet is a channel message whose channel hash, a number or hexadecimal text, is a
  byte and the hash byte of a stored key of 16 bytes; the message is shown under that key's
  name, the first two bytes of the HMAC of the ciphertext under that key equal those of the packet, and
  sender, text and time stamp are what decryption under that key gives.
\<close>

theorem live_decrypt_authentic:
  assumes "tryDecryptLive C p (fresh_key_map C keys) = Some r"
  shows "\<exists>hex m h. (lr_channelName r, JStr hex) \<in> set keys \<and> length (hexToBytes hex) = 16 \<and>
    gp_type p = ''GRP_TXT'' \<and>
    (gp_channelHash p = HNum h \<or> (\<exists>s. gp_channelHash p = HStr s \<and> parseInt16 s = Some h)) \<and> 0 \<le> h \<and> h < 256 \<and>
    word_of_int h = computeChannelHash C (hexToBytes hex) \<and> lr_hashByte r = h \<and>
    verifyMAC C (hexToBytes hex) (hexToBytes (gp_encryptedData p)) (gp_mac p) \<and>
    parsePlaintext C (aes_decrypt C (hexToBytes hex) (hexToBytes (gp_encryptedData p))) = Some m \<and>
    lr_sender r = (if msg_sender m = [] then ''Unknown'' else msg_sender m) \<and> lr_text r = msg_text m \<and>
    lr_timestamp r = (if msg_timestamp m = 0 then None else Some (msg_timestamp m))"
proof -
  from assms obtain e m where e: "map_of (fresh_key_map C keys) (word_of_int (lr_hashByte r)) = Some e"
      and m: "decrypt C (keyBytes e) (gp_mac p) (gp_encryptedData p) = Some m"
      and r: "lr_channelName r = channelName e" "lr_text r = msg_text m"
        "lr_sender r = (if msg_sender m = [] then ''Unknown'' else msg_sender m)"
        "lr_timestamp r = (if msg_timestamp m = 0 then None else Some (msg_timestamp m))"
      and h: "gp_type p = ''GRP_TXT''" "0 \<le> lr_hashByte r" "lr_hashByte r < 256"
        "gp_channelHash p = HNum (lr_hashByte r) \<or> (\<exists>s. gp_channelHash p = HStr s \<and> parseInt16 s = Some (lr_hashByte r))"
    by (auto simp: tryDecryptLive_def split: if_splits option.splits hash_field.splits)
  from map_of_SomeD [OF e] fresh_key_map_ok [of C keys]
  have "entry_ok C keys (word_of_int (lr_hashByte r), e)" by (auto simp: list_all_iff)
  with decrypt_authentic [OF m] obtain hex where
      hex: "(lr_channelName r, JStr hex) \<in> set keys" "length (hexToBytes hex) = 16"
        "word_of_int (lr_hashByte r) = computeChannelHash C (hexToBytes hex)"
        "verifyMAC C (hexToBytes hex) (hexToBytes (gp_encryptedData p)) (gp_mac p)"
        "parsePlaintext C (aes_decrypt C (hexToBytes hex) (hexToBytes (gp_encryptedData p))) = Some m"
    using r(1) by (auto simp: entry_ok_def)
  show ?thesis
    using hex r(2-) h by (intro exI [of _ hex] exI [of _ m] exI [of _ "lr_hashByte r"]) simp
qed

definition demo_packet :: bytes where "demo_packet = plain_packet 5 0 ''Al'' ''hi'' 5"

lemma demo_live:
  "tryDecryptLive demo_crypto
     \<lparr>gp_type = ''GRP_TXT'', gp_encryptedData = bytesToHex demo_packet, gp_mac = ''0909'', gp_channelHash = HNum 7\<rparr>
     (fresh_key_map demo_crypto [(''#t'', JStr (bytesToHex (replicate 16 1)))]) =
   Some \<lparr>lr_sender = ''Al'', lr_text = ''hi'', lr_channelName = ''#t'', lr_hashByte = 7, lr_timestamp = Some 5\<rparr>"
  by code_simp

theorem live_decrypt_authentic_witness:
  "\<exists>hex. (''#t'', JStr hex) \<in> set [(''#t'', JStr (bytesToHex (replicate 16 1)))] \<and> length (hexToBytes hex) = 16 \<and>
     (word_of_int 7 :: 8 word) = computeChannelHash demo_crypto (hexToBytes hex) \<and>
     verifyMAC demo_crypto (hexToBytes hex) (hexToBytes (bytesToHex demo_packet)) ''0909''"
  using live_decrypt_authentic [OF demo_live] by auto

text \<open>
  The cached key map is never stale.  In every state that saving and removing keys, saving labels,
  caching messages and building the map can reach from a fresh page, with any pattern of quota
  failures, \<^verbatim>\<open>buildKeyMap\<close> returns the map of the keys that are stored now.
\<close>

theorem key_map_fresh: "cd_reachable C st \<Longrightarrow> fst (buildKeyMap C st) = fresh_key_map C (getKeys st)"
  by (rule buildKeyMap_valid(1) [OF cd_reachable_valid])

theorem key_map_fresh_witness:
  "fst (buildKeyMap demo_crypto (saveKey accept ''#t'' ''00'' [] (snd (buildKeyMap demo_crypto empty_cd)))) =
   fresh_key_map demo_crypto (getKeys (saveKey accept ''#t'' ''00'' [] (snd (buildKeyMap demo_crypto empty_cd))))"
  by (intro key_map_fresh cd_reachable.step [OF cd_reachable.step [OF cd_reachable.start cd_step.build] cd_step.save])
     (simp add: empty_cd_def)

text \<open>
  C9: The key store.  While the quota admits the writes, a saved key is read back, saving and removing
  leave the other channels alone, and removing a channel also removes its label and its cached
  messages.
\<close>

theorem key_store_contract:
  assumes "cd_ok st"
  shows "stored_key (saveKey accept name hex [] st) k = (if k = name then Some hex else stored_key st k) \<and>
    stored_key (removeKey accept name st) k = (if k = name then None else stored_key st k) \<and>
    getCache (removeKey accept name st) name = JNull \<and> getLabel (removeKey accept name st) name = [] \<and>
    cd_ok (saveKey accept name hex [] st) \<and> cd_ok (removeKey accept name st)"
  using keystore.get_put [OF assms] keystore.get_del [OF assms] keystore.ok_put [OF assms] keystore.ok_del [OF assms]
    removeKey_clears [OF assms] by simp

theorem key_store_contract_witness:
  "stored_key (saveKey accept ''#a'' ''00ff'' [] empty_cd) ''#a'' = Some ''00ff''"
  using key_store_contract [OF empty_cd_ok] by simp

text \<open>
  The message cache.  What \<^verbatim>\<open>setCache\<close> stores is read back by \<^verbatim>\<open>getCache\<close>, cut to the
  most recent 1000 messages, with the given count or else the number of stored messages.
\<close>

theorem message_cache_bounded:
  assumes "cd_ok st" "\<forall>m \<in> set ms. json_ok m" "json_ok lt"
  shows "\<exists>stored. getCache (setCache accept now key ms lt n st) key =
      JObj [(''messages'', JArr stored), (''lastTimestamp'', lt),
            (''count'', JNum (Fin (of_nat (if n \<noteq> 0 then n else length stored)))), (''ts'', JNum (Fin (of_int now)))] \<and>
    length stored = min 1000 (length ms) \<and> suffix stored ms"
  using setCache_get [OF assms] by (intro exI [of _ "recent ms"]) (simp add: recent_def MAX_CACHED_MESSAGES_def suffix_drop)

theorem message_cache_bounded_witness:
  "\<exists>stored. getCache (setCache accept 0 ''#a'' [JStr ''m''] JNull 0 empty_cd) ''#a'' =
      JObj [(''messages'', JArr stored), (''lastTimestamp'', JNull),
            (''count'', JNum (Fin (of_nat (if (0::nat) \<noteq> 0 then 0 else length stored)))), (''ts'', JNum (Fin (of_int 0)))] \<and>
    length stored = min 1000 (length [JStr ''m'']) \<and> suffix stored [JStr ''m'']"
  by (rule message_cache_bounded [OF empty_cd_ok]) simp_all

end
