(* ===== verification/Packet_Bytes.thy ===== *)
theory Packet_Bytes
  imports Js_Base
begin

text \<open>
  The byte layout of a packet on the client: route and payload names, the offset of the path length
  byte and \<^verbatim>\<open>computeBreakdownRanges\<close> (\<^verbatim>\<open>src/public/app.js\<close>), and the path-hash size and the
  filters on path hops (\<^verbatim>\<open>src/public/hop-filter.js\<close>).  Route and payload types are numbers or absent;
  \<^verbatim>\<open>length / 2\<close> is a rational, because the string may have an odd number of digits; the bit
  operations on the parsed path byte are integer division and remainder.
\<close>

section \<open>Names and offsets\<close>

definition route_type_names :: "(int \<times> string) list" where
  "route_type_names = [(0, ''TRANSPORT_FLOOD''), (1, ''FLOOD''), (2, ''DIRECT''), (3, ''TRANSPORT_DIRECT'')]"

definition payload_type_names :: "(int \<times> string) list" where
  "payload_type_names = [(0, ''Request''), (1, ''Response''), (2, ''Direct Msg''), (3, ''ACK''), (4, ''Advert''),
     (5, ''Channel Msg''), (6, ''Group Data''), (7, ''Anon Req''), (8, ''Path''), (9, ''Trace''), (10, ''Multipart''),
     (11, ''Control''), (15, ''Raw Custom'')]"

definition payload_colors :: "(int \<times> string) list" where
  "payload_colors = [(0, ''req''), (1, ''response''), (2, ''txt-msg''), (3, ''ack''), (4, ''advert''), (5, ''grp-txt''),
     (6, ''grp-data''), (7, ''anon-req''), (8, ''path''), (9, ''trace''), (10, ''multipart''), (11, ''control''),
     (15, ''raw-custom'')]"

definition routeTypeName :: "int \<Rightarrow> string" where
  "routeTypeName n = (case map_of route_type_names n of Some s \<Rightarrow> s | None \<Rightarrow> ''UNKNOWN'')"

definition payloadTypeName :: "int \<Rightarrow> string" where
  "payloadTypeName n = (case map_of payload_type_names n of Some s \<Rightarrow> s | None \<Rightarrow> ''UNKNOWN'')"

definition payloadTypeColor :: "int \<Rightarrow> string" where
  "payloadTypeColor n = (case map_of payload_colors n of Some s \<Rightarrow> s | None \<Rightarrow> ''unknown'')"

definition isTransportRoute :: "int option \<Rightarrow> bool" where
  "isTransportRoute rt = (rt = Some 0 \<or> rt = Some 3)"

definition getPathLenOffset :: "int option \<Rightarrow> nat" where
  "getPathLenOffset rt = (if isTransportRoute rt then 5 else 1)"

section \<open>The breakdown of a packet into ranges\<close>

record brange =
  b_start :: nat
  b_end :: rat
  b_label :: string

definition mk_range :: "nat \<Rightarrow> rat \<Rightarrow> string \<Rightarrow> brange" where
  "mk_range s e l = \<lparr>b_start = s, b_end = e, b_label = l\<rparr>"

text \<open>\<^verbatim>\<open>replace(/\s+/g, '')\<close>, and \<^verbatim>\<open>parseInt(clean.slice(o * 2, o * 2 + 2), 16)\<close>.\<close>

definition strip_ws :: "string \<Rightarrow> string" where
  "strip_ws s = filter (\<lambda>c. \<not> is_ws c) s"

definition byte_of :: "string \<Rightarrow> nat \<Rightarrow> int option" where
  "byte_of clean ofs = parseInt16 (take 2 (drop (ofs * 2) clean))"

definition flag_set :: "int \<Rightarrow> int \<Rightarrow> bool" where
  "flag_set flags m = ((flags div m) mod 2 = 1)"

text \<open>The application part of an advert, after its flags byte: location, two features, name.\<close>

definition advert_app_ranges :: "rat \<Rightarrow> int \<Rightarrow> nat \<Rightarrow> brange list" where
  "advert_app_ranges bytes appFlags f0 =
     (let loc = flag_set appFlags 16 \<and> of_nat (f0 + 8) \<le> bytes;
          f1 = (if loc then f0 + 8 else f0);
          f2 = (if flag_set appFlags 32 \<and> of_nat (f1 + 2) \<le> bytes then f1 + 2 else f1);
          f3 = (if flag_set appFlags 64 \<and> of_nat (f2 + 2) \<le> bytes then f2 + 2 else f2)
      in (if loc then [mk_range f0 (of_nat (f0 + 3)) ''Latitude'', mk_range (f0 + 4) (of_nat (f0 + 7)) ''Longitude'']
          else []) @
         (if flag_set appFlags 128 \<and> of_nat f3 < bytes then [mk_range f3 (bytes - 1) ''Name''] else []))"

definition advert_ranges :: "string \<Rightarrow> rat \<Rightarrow> nat \<Rightarrow> brange list" where
  "advert_ranges clean bytes p =
     (let appStart = p + 100 in
      [mk_range p (of_nat (p + 31)) ''PubKey'', mk_range (p + 32) (of_nat (p + 35)) ''Timestamp'',
       mk_range (p + 36) (of_nat (p + 99)) ''Signature''] @
      (if of_nat appStart < bytes then
         mk_range appStart (of_nat appStart) ''Flags'' #
         (case byte_of clean appStart of
            None \<Rightarrow> []
          | Some appFlags \<Rightarrow> advert_app_ranges bytes appFlags (appStart + 1))
       else []))"

definition payload_ranges :: "string \<Rightarrow> int option \<Rightarrow> rat \<Rightarrow> nat \<Rightarrow> brange list" where
  "payload_ranges clean payloadType bytes p =
     (if payloadType = Some 4 \<and> 100 \<le> bytes - of_nat p then advert_ranges clean bytes p
      else [mk_range p (bytes - 1) ''Payload''])"

text \<open>From the path length byte on; \<open>hashSize\<close> and \<open>hashCount\<close> are not negative for a byte read from digits.\<close>

definition path_ranges :: "string \<Rightarrow> int option \<Rightarrow> rat \<Rightarrow> nat \<Rightarrow> brange list" where
  "path_ranges clean payloadType bytes ofs =
     (if bytes \<le> of_nat ofs then []
      else mk_range ofs (of_nat ofs) ''Path Length'' #
        (case byte_of clean ofs of
           None \<Rightarrow> []
         | Some pathByte \<Rightarrow>
             (let hashSize = pathByte div 64 + 1; hashCount = pathByte mod 64;
                  pathBytes = nat (hashSize * hashCount); o1 = ofs + 1; o2 = o1 + pathBytes
              in (if 0 < hashCount \<and> of_nat o2 \<le> bytes then [mk_range o1 (of_nat o2 - 1) ''Path''] else []) @
                 (if bytes \<le> of_nat o2 then [] else payload_ranges clean payloadType bytes o2))))"

definition computeBreakdownRanges :: "string \<Rightarrow> int option \<Rightarrow> int option \<Rightarrow> brange list" where
  "computeBreakdownRanges hexString routeType payloadType =
     (let clean = strip_ws hexString; bytes = of_nat (length clean) / 2 in
      if hexString = [] \<or> bytes < 2 then []
      else mk_range 0 0 ''Header'' #
        (if isTransportRoute routeType then
           (if bytes < 5 then []
            else mk_range 1 4 ''Transport Codes'' # path_ranges clean payloadType bytes 5)
         else path_ranges clean payloadType bytes 1))"

section \<open>Hop filters\<close>

definition hopByteLen :: "string option \<Rightarrow> nat" where
  "hopByteLen h = (case h of None \<Rightarrow> 0 | Some s \<Rightarrow> length s div 2)"

text \<open>The threshold of the server configuration, when it has been loaded.\<close>

definition getPathTrustThreshold :: "int option \<Rightarrow> int" where
  "getPathTrustThreshold pathTrust = (case pathTrust of Some t \<Rightarrow> t | None \<Rightarrow> 1)"

definition meetsPathTrust :: "int option \<Rightarrow> string option \<Rightarrow> bool" where
  "meetsPathTrust pathTrust hop =
     (let threshold = getPathTrustThreshold pathTrust; bl = hopByteLen hop in
      if threshold \<le> 1 then True else if bl = 0 then False else threshold \<le> int bl)"

definition pathBelowTrust :: "int option \<Rightarrow> string option list \<Rightarrow> bool" where
  "pathBelowTrust pathTrust hops =
     (let threshold = getPathTrustThreshold pathTrust in
      if hops = [] then False else if threshold \<le> 1 then False
      else \<not> list_ex (\<lambda>h. threshold \<le> int (hopByteLen h)) hops)"

definition packetHashSize :: "string \<Rightarrow> int option \<Rightarrow> int" where
  "packetHashSize rawHex routeType =
     (let clean = strip_ws rawHex; bytes = length clean div 2;
          ofs = (if routeType = Some 0 \<or> routeType = Some 3 then 5 else 1) in
      if rawHex = [] \<or> bytes < ofs + 1 then 0
      else case byte_of clean ofs of None \<Rightarrow> 0 | Some pathByte \<Rightarrow> pathByte div 64 + 1)"

text \<open>The setting in \<^verbatim>\<open>localStorage\<close> and the two render-time filters; \<open>opt\<close> is \<^verbatim>\<open>opts.hide1ByteHops\<close> when it is a boolean.\<close>

definition HIDE_KEY :: string where "HIDE_KEY = ''meshcore-hide-1byte-hops''"

definition getHide1ByteHops :: "string obj \<Rightarrow> bool" where
  "getHide1ByteHops ls = (obj_get ls HIDE_KEY = Some ''true'')"

definition setHide1ByteHops :: "bool \<Rightarrow> string obj \<Rightarrow> string obj" where
  "setHide1ByteHops on ls = (if on then obj_set ls HIDE_KEY ''true'' else obj_del ls HIDE_KEY)"

definition isVisibleHop :: "string obj \<Rightarrow> bool option \<Rightarrow> string option \<Rightarrow> bool" where
  "isVisibleHop ls opt hop =
     (let enabled = (case opt of Some b \<Rightarrow> b | None \<Rightarrow> getHide1ByteHops ls)
      in if \<not> enabled then True else hopByteLen hop \<noteq> 1)"

definition filterPathHops :: "string obj \<Rightarrow> bool option \<Rightarrow> string option list \<Rightarrow> string option list" where
  "filterPathHops ls opt hops =
     (let enabled = (case opt of Some b \<Rightarrow> b | None \<Rightarrow> getHide1ByteHops ls)
      in if hops = [] \<or> \<not> enabled then hops else filter (\<lambda>h. hopByteLen h \<noteq> 1) hops)"

section \<open>The ranges are in order and inside the packet\<close>

definition ranges_from :: "nat \<Rightarrow> rat \<Rightarrow> brange list \<Rightarrow> bool" where
  "ranges_from lo bytes rs =
     (list_all (\<lambda>r. of_nat (b_start r) \<le> b_end r \<and> b_end r \<le> bytes - 1 \<and> lo \<le> b_start r) rs \<and>
      sorted_wrt (\<lambda>r r'. b_end r < of_nat (b_start r')) rs)"

lemma ranges_from_Nil [simp]: "ranges_from lo bytes []"
  by (simp add: ranges_from_def)

lemma ranges_from_Cons:
  assumes "ranges_from lo' bytes rs" "lo \<le> s" "of_nat s \<le> e" "e \<le> bytes - 1" "e < of_nat lo'"
  shows "ranges_from lo bytes (mk_range s e l # rs)"
proof -
  have s: "of_nat s < (of_nat lo' :: rat)" using assms(3,5) by (rule order.strict_trans1)
  then have "s < lo'" by simp
  moreover have "e < of_nat (b_start r)" if "r \<in> set rs" for r
  proof -
    have "lo' \<le> b_start r" using assms(1) that by (auto simp: ranges_from_def list_all_iff)
    then have "(of_nat lo' :: rat) \<le> of_nat (b_start r)" by simp
    with assms(5) show ?thesis by linarith
  qed
  ultimately show ?thesis
    using assms by (auto simp: ranges_from_def mk_range_def list_all_iff)
qed

lemma ranges_from_append:
  assumes "ranges_from lo bytes rs" "ranges_from lo' bytes rs'" "list_all (\<lambda>r. b_end r < of_nat lo') rs" "lo \<le> lo'"
  shows "ranges_from lo bytes (rs @ rs')"
proof -
  have "b_end r < of_nat (b_start r')" if "r \<in> set rs" "r' \<in> set rs'" for r r'
  proof -
    have "b_end r < of_nat lo'" using assms(3) that by (auto simp: list_all_iff)
    moreover have "(of_nat lo' :: rat) \<le> of_nat (b_start r')" using assms(2) that by (auto simp: ranges_from_def list_all_iff)
    ultimately show ?thesis by linarith
  qed
  with assms show ?thesis by (fastforce simp: ranges_from_def sorted_wrt_append list_all_iff)
qed

lemma ranges_from_weaken: "ranges_from lo bytes rs \<Longrightarrow> lo' \<le> lo \<Longrightarrow> ranges_from lo' bytes rs"
  by (auto simp: ranges_from_def list_all_iff)

lemma rat_nat_le: "(of_nat a :: rat) \<le> of_nat n - 1 \<longleftrightarrow> a < n"
  by (metis le_diff_eq of_nat_1 of_nat_add of_nat_le_iff Suc_eq_plus1 Suc_le_eq)

lemma advert_name_ok:
  "of_nat f < (of_nat n :: rat) \<Longrightarrow> ranges_from f (of_nat n) [mk_range f (of_nat n - 1) l]"
  by (rule ranges_from_Cons [where lo' = n]) (auto simp: rat_nat_le)

lemma advert_app_ranges_ok: "ranges_from f0 (of_nat n) (advert_app_ranges (of_nat n) fl f0)"
proof -
  define loc where "loc = (flag_set fl 16 \<and> f0 + 8 \<le> n)"
  define f1 where "f1 = (if loc then f0 + 8 else f0)"
  define f2 where "f2 = (if flag_set fl 32 \<and> f1 + 2 \<le> n then f1 + 2 else f1)"
  define f3 where "f3 = (if flag_set fl 64 \<and> f2 + 2 \<le> n then f2 + 2 else f2)"
  let ?name = "if flag_set fl 128 \<and> f3 < n then [mk_range f3 (of_nat n - 1) ''Name''] else []"
  have f: "f1 \<le> f2" "f2 \<le> f3" by (auto simp: f2_def f3_def)
  have nm: "ranges_from f1 (of_nat n) ?name"
    using advert_name_ok [of f3 n "''Name''"] f by (auto intro: ranges_from_weaken)
  have "ranges_from f0 (of_nat n) ((if loc then [mk_range f0 (of_nat (f0 + 3)) ''Latitude'',
      mk_range (f0 + 4) (of_nat (f0 + 7)) ''Longitude''] else []) @ ?name)"
  proof (cases loc)
    case True
    then have n8: "f0 + 8 \<le> n" "f1 = f0 + 8" by (auto simp: loc_def f1_def)
    have "ranges_from (f0 + 4) (of_nat n) (mk_range (f0 + 4) (of_nat (f0 + 7)) ''Longitude'' # ?name)"
      by (rule ranges_from_Cons [OF nm]) (use n8 in \<open>simp_all add: rat_nat_le del: of_nat_add\<close>)
    then have "ranges_from f0 (of_nat n) (mk_range f0 (of_nat (f0 + 3)) ''Latitude'' #
        mk_range (f0 + 4) (of_nat (f0 + 7)) ''Longitude'' # ?name)"
      by (rule ranges_from_Cons) (use n8 in \<open>simp_all add: rat_nat_le del: of_nat_add\<close>)
    then show ?thesis using True by simp
  qed (use nm in \<open>simp add: f1_def\<close>)
  then show ?thesis
    unfolding advert_app_ranges_def Let_def of_nat_le_iff of_nat_less_iff
    unfolding loc_def [symmetric] f1_def [symmetric] f2_def [symmetric] f3_def [symmetric] .
qed

lemma advert_ranges_ok:
  assumes "p + 100 \<le> n"
  shows "ranges_from p (of_nat n) (advert_ranges clean (of_nat n) p)"
proof -
  let ?app = "case byte_of clean (p + 100) of None \<Rightarrow> [] | Some fl \<Rightarrow> advert_app_ranges (of_nat n) fl (p + 100 + 1)"
  let ?rest = "if of_nat (p + 100) < (of_nat n :: rat)
      then mk_range (p + 100) (of_nat (p + 100)) ''Flags'' # ?app else []"
  have "ranges_from (p + 100 + 1) (of_nat n) ?app"
    by (cases "byte_of clean (p + 100)") (simp_all only: option.case ranges_from_Nil advert_app_ranges_ok)
  then have "p + 100 < n \<Longrightarrow> ranges_from (p + 100) (of_nat n) (mk_range (p + 100) (of_nat (p + 100)) ''Flags'' # ?app)"
    by (rule ranges_from_Cons) (simp_all add: rat_nat_le del: of_nat_add)
  then have "ranges_from (p + 100) (of_nat n) ?rest" by (simp only: of_nat_less_iff ranges_from_Nil split: if_split) blast
  then have "ranges_from (p + 36) (of_nat n) (mk_range (p + 36) (of_nat (p + 99)) ''Signature'' # ?rest)"
    by (rule ranges_from_Cons) (use assms in \<open>simp_all add: rat_nat_le del: of_nat_add\<close>)
  then have "ranges_from (p + 32) (of_nat n) (mk_range (p + 32) (of_nat (p + 35)) ''Timestamp'' #
      mk_range (p + 36) (of_nat (p + 99)) ''Signature'' # ?rest)"
    by (rule ranges_from_Cons) (use assms in \<open>simp_all add: rat_nat_le del: of_nat_add\<close>)
  then have "ranges_from p (of_nat n) (mk_range p (of_nat (p + 31)) ''PubKey'' # mk_range (p + 32) (of_nat (p + 35)) ''Timestamp'' #
      mk_range (p + 36) (of_nat (p + 99)) ''Signature'' # ?rest)"
    by (rule ranges_from_Cons) (use assms in \<open>simp_all add: rat_nat_le del: of_nat_add\<close>)
  then show ?thesis unfolding advert_ranges_def Let_def by (simp only: append.simps)
qed

lemma payload_ranges_ok:
  "p < n \<Longrightarrow> ranges_from p (of_nat n) (payload_ranges clean pt (of_nat n) p)"
  using advert_ranges_ok [of p n clean] advert_name_ok [of p n]
  by (auto simp: payload_ranges_def le_diff_eq)

lemma byte_of_nonneg:
  assumes "list_all is_hex clean" "byte_of clean ofs = Some b"
  shows "0 \<le> b"
proof -
  let ?t = "take 2 (drop (ofs * 2) clean)"
  have h: "list_all is_hex ?t" using assms(1) by (auto simp: list_all_iff dest: in_set_takeD in_set_dropD)
  have "fst (parse_sign (dropWhile is_ws ?t)) = False"
  proof (cases "dropWhile is_ws ?t")
    case (Cons c r)
    then have "c \<in> set ?t" by (metis list.set_intros(1) set_dropWhileD)
    then have "is_hex c" using h by (auto simp: list_all_iff)
    then have "c \<noteq> CHR ''-''" by (auto simp: char_class_defs)
    with Cons show ?thesis unfolding Cons by (simp add: parse_sign_def)
  next
    case Nil
    then show ?thesis unfolding Nil by (simp add: parse_sign_def)
  qed
  with assms(2) show ?thesis by (auto simp: byte_of_def parseInt16_def Let_def split: prod.splits if_splits)
qed

lemma path_ranges_ok:
  assumes "list_all is_hex clean"
  shows "ranges_from ofs (of_nat n) (path_ranges clean pt (of_nat n) ofs)"
proof (cases "byte_of clean ofs")
  case None
  then show ?thesis
    by (auto simp: path_ranges_def rat_nat_le intro!: ranges_from_Cons [where lo' = "Suc ofs"])
next
  case (Some b)
  have b: "0 \<le> b" by (rule byte_of_nonneg [OF assms Some])
  define o2 where "o2 = ofs + 1 + nat ((b div 64 + 1) * (b mod 64))"
  have le: "ofs + 1 \<le> o2" by (simp add: o2_def)
  have pos: "ofs + 1 < o2" if "0 < b mod 64"
  proof -
    have "0 < b div 64 + 1" using b pos_imp_zdiv_nonneg_iff [of 64 b] by linarith
    with that have "0 < (b div 64 + 1) * (b mod 64)" by (rule mult_pos_pos [rotated, OF _, THEN rev_mp]) simp
    then show ?thesis by (simp add: o2_def)
  qed
  have pl: "ranges_from o2 (of_nat n) (if (of_nat n :: rat) \<le> of_nat o2 then [] else payload_ranges clean pt (of_nat n) o2)"
    by (simp add: payload_ranges_ok not_le)
  have "ranges_from (ofs + 1) (of_nat n)
     ((if 0 < b mod 64 \<and> (of_nat o2 :: rat) \<le> of_nat n then [mk_range (ofs + 1) (of_nat o2 - 1) ''Path''] else []) @
      (if (of_nat n :: rat) \<le> of_nat o2 then [] else payload_ranges clean pt (of_nat n) o2))"
  proof (cases "0 < b mod 64 \<and> (of_nat o2 :: rat) \<le> of_nat n")
    case True
    have "ranges_from (ofs + 1) (of_nat n) (mk_range (ofs + 1) (of_nat o2 - 1) ''Path'' #
       (if (of_nat n :: rat) \<le> of_nat o2 then [] else payload_ranges clean pt (of_nat n) o2))"
      by (rule ranges_from_Cons [OF pl]) (use True pos in \<open>simp_all add: rat_nat_le del: of_nat_add\<close>)
    with True show ?thesis by simp
  next
    case False
    then have "(if 0 < b mod 64 \<and> (of_nat o2 :: rat) \<le> of_nat n then [mk_range (ofs + 1) (of_nat o2 - 1) ''Path''] else []) = []"
      by (simp only: if_False)
    with ranges_from_weaken [OF pl le] show ?thesis by (simp only: append_Nil)
  qed
  note rest = this
  have "ranges_from ofs (of_nat n) (mk_range ofs (of_nat ofs) ''Path Length'' #
     ((if 0 < b mod 64 \<and> (of_nat o2 :: rat) \<le> of_nat n then [mk_range (ofs + 1) (of_nat o2 - 1) ''Path''] else []) @
      (if (of_nat n :: rat) \<le> of_nat o2 then [] else payload_ranges clean pt (of_nat n) o2)))" if "ofs < n"
    by (rule ranges_from_Cons [OF rest]) (use that in \<open>simp_all add: rat_nat_le\<close>)
  then show ?thesis
    unfolding path_ranges_def Some Let_def option.case o2_def [symmetric] by (simp add: not_le)
qed

lemma breakdown_ok:
  assumes "list_all is_hex (strip_ws h)" "even (length (strip_ws h))"
  shows "ranges_from 0 (of_nat (length (strip_ws h) div 2)) (computeBreakdownRanges h rt pt)"
proof -
  define n where "n = length (strip_ws h) div 2"
  have n: "of_nat (length (strip_ws h)) / 2 = (of_nat n :: rat)"
    using assms(2) by (auto simp: n_def elim!: evenE)
  have p: "ranges_from k (of_nat n) (path_ranges (strip_ws h) pt (of_nat n) k)" for k
    by (rule path_ranges_ok [OF assms(1)])
  have "2 \<le> n \<Longrightarrow> ranges_from 0 (of_nat n) (mk_range 0 0 ''Header'' # rs)" if "ranges_from 1 (of_nat n) rs" for rs
    by (rule ranges_from_Cons [OF that]) (auto simp: rat_nat_le)
  moreover have "5 \<le> n \<Longrightarrow> ranges_from 1 (of_nat n) (mk_range 1 4 ''Transport Codes'' # path_ranges (strip_ws h) pt (of_nat n) 5)"
    by (rule ranges_from_Cons [OF p]) (use rat_nat_le [of 4 n] in auto)
  moreover have "(of_nat n < (2::rat)) = (n < 2)" "(of_nat n < (5::rat)) = (n < 5)"
    by (metis of_nat_less_iff of_nat_numeral)+
  moreover have "computeBreakdownRanges h rt pt = (if h = [] \<or> of_nat n < (2::rat) then []
      else mk_range 0 0 ''Header'' #
        (if isTransportRoute rt then
           (if of_nat n < (5::rat) then []
            else mk_range 1 4 ''Transport Codes'' # path_ranges (strip_ws h) pt (of_nat n) 5)
         else path_ranges (strip_ws h) pt (of_nat n) 1))"
    unfolding computeBreakdownRanges_def Let_def n ..
  ultimately show ?thesis
    using p [of 1] unfolding n_def [symmetric] by (simp add: not_less del: One_nat_def)
qed

text \<open>Where the path range is, and its agreement with the reader of \<^verbatim>\<open>hop-filter.js\<close>.\<close>

lemma advert_no_path: "r \<in> set (payload_ranges clean pt bytes p) \<Longrightarrow> b_label r \<noteq> ''Path''"
  by (auto simp: payload_ranges_def advert_ranges_def advert_app_ranges_def mk_range_def Let_def split: if_splits option.splits)

lemma path_ranges_path:
  assumes "r \<in> set (path_ranges c pt bytes ofs)" "b_label r = ''Path''"
  shows "\<exists>b. byte_of c ofs = Some b \<and> 0 < b mod 64 \<and>
    r = mk_range (ofs + 1) (of_nat (ofs + 1 + nat ((b div 64 + 1) * (b mod 64))) - 1) ''Path'' \<and>
    of_nat (ofs + 1 + nat ((b div 64 + 1) * (b mod 64))) \<le> bytes"
proof (cases "byte_of c ofs")
  case None
  with assms show ?thesis by (auto simp: path_ranges_def mk_range_def split: if_splits)
next
  case (Some b)
  define o2 where "o2 = ofs + 1 + nat ((b div 64 + 1) * (b mod 64))"
  have "r = mk_range ofs (of_nat ofs) ''Path Length'' \<or> r \<in> set (payload_ranges c pt bytes o2) \<or>
      (0 < b mod 64 \<and> of_nat o2 \<le> bytes \<and> r = mk_range (ofs + 1) (of_nat o2 - 1) ''Path'')"
    using assms(1) unfolding path_ranges_def Some Let_def option.case o2_def [symmetric]
    by (simp split: if_split_asm) blast+
  moreover have "r \<noteq> mk_range ofs (of_nat ofs) ''Path Length''" using assms(2) by (auto simp: mk_range_def)
  moreover have "r \<notin> set (payload_ranges c pt bytes o2)" using assms(2) advert_no_path by blast
  ultimately show ?thesis using Some unfolding o2_def by blast
qed

section \<open>Properties\<close>

text \<open>
  C14: The breakdown is well formed.  For a packet given as an even number of hexadecimal digits
  (white space is ignored), the ranges lie inside the packet, none is empty, and they are listed in
  ascending order without overlap.
\<close>

theorem breakdown_ranges_ordered:
  assumes "list_all is_hex (strip_ws h)" "even (length (strip_ws h))"
  shows "list_all (\<lambda>r. of_nat (b_start r) \<le> b_end r \<and> b_end r \<le> of_nat (length (strip_ws h) div 2) - 1)
           (computeBreakdownRanges h rt pt) \<and>
         sorted_wrt (\<lambda>r r'. b_end r < of_nat (b_start r')) (computeBreakdownRanges h rt pt)"
  using breakdown_ok [OF assms, of rt pt] by (auto simp: ranges_from_def list_all_iff)

theorem breakdown_ranges_ordered_witness:
  "sorted_wrt (\<lambda>r r'. b_end r < of_nat (b_start r')) (computeBreakdownRanges ''15 02 AABB 00'' (Some 1) (Some 5))"
  using breakdown_ranges_ordered [of "''15 02 AABB 00''" "Some 1" "Some 5"] by (simp add: strip_ws_def char_class_defs)

text \<open>
  The two readers of the path length byte agree.  The path range of the breakdown starts right
  after the path length byte of the route type, and its length is a positive multiple of
  the hash size that \<^verbatim>\<open>packetHashSize\<close> reports.
\<close>

theorem path_readers_agree:
  assumes r: "r \<in> set (computeBreakdownRanges h rt pt)" "b_label r = ''Path''"
    and "list_all is_hex (strip_ws h)"
  shows "b_start r = getPathLenOffset rt + 1 \<and>
     (\<exists>hashCount > 0. b_end r - of_nat (b_start r) + 1 = of_int (packetHashSize h rt * hashCount))"
proof -
  let ?c = "strip_ws h" and ?o = "getPathLenOffset rt"
  have h: "h \<noteq> []" using r by (auto simp: computeBreakdownRanges_def)
  have in_path: "r \<in> set (path_ranges ?c pt (of_nat (length ?c) / 2) ?o)"
    using r by (auto simp: computeBreakdownRanges_def getPathLenOffset_def mk_range_def Let_def split: if_splits)
  then obtain b where b: "byte_of ?c ?o = Some b" "0 < b mod 64" "b_start r = ?o + 1"
      "b_end r = of_nat (?o + 1 + nat ((b div 64 + 1) * (b mod 64))) - 1"
      "(of_nat (?o + 1 + nat ((b div 64 + 1) * (b mod 64))) :: rat) \<le> of_nat (length ?c) / 2"
    using path_ranges_path [OF in_path r(2)] by (auto simp: mk_range_def)
  have nn: "0 \<le> b" by (rule byte_of_nonneg [OF assms(3) b(1)])
  have "(of_nat (?o + 1) :: rat) \<le> of_nat (length ?c) / 2"
    using b(5) by (rule order.trans [rotated]) simp
  then have "(of_nat (2 * (?o + 1)) :: rat) \<le> of_nat (length ?c)" by simp
  then have "2 * (?o + 1) \<le> length ?c" by (simp only: of_nat_le_iff)
  then have "?o + 1 \<le> length ?c div 2" by (simp add: less_eq_div_iff_mult_less_eq)
  then have "packetHashSize h rt = b div 64 + 1"
    using h b(1) by (simp add: packetHashSize_def getPathLenOffset_def isTransportRoute_def Let_def split: if_splits)
  moreover have "0 \<le> (b div 64 + 1) * (b mod 64)"
    using nn pos_imp_zdiv_nonneg_iff [of 64 b] by (intro mult_nonneg_nonneg) auto
  ultimately show ?thesis using b by (auto intro!: exI [of _ "b mod 64"])
qed

lemma demo_breakdown:
  "mk_range 2 3 ''Path'' \<in> set (computeBreakdownRanges ''1541AABB00'' (Some 1) (Some 5))"
  by code_simp

theorem path_readers_agree_witness:
  "\<exists>hashCount > 0. (3::rat) - 2 + 1 = of_int (packetHashSize ''1541AABB00'' (Some 1) * hashCount)"
  using path_readers_agree [OF demo_breakdown] by (simp add: mk_range_def strip_ws_def char_class_defs)

text \<open>
  The hop filters agree.  Filtering a path keeps exactly the hops the render-time predicate shows,
  in order, for an explicit option and for the stored setting, which reads back what was stored; and a
  path is below the trust threshold exactly when it has hops and none of them meets it.
\<close>

theorem hop_filters_agree:
  "filterPathHops ls opt hops = filter (isVisibleHop ls opt) hops \<and>
   filterPathHops (setHide1ByteHops on ls) None hops = filterPathHops ls (Some on) hops \<and>
   (pathBelowTrust pt hops \<longleftrightarrow> hops \<noteq> [] \<and> \<not> list_ex (meetsPathTrust pt) hops)"
proof (intro conjI)
  have vis: "isVisibleHop ls' opt' = (\<lambda>h. (case opt' of Some b \<Rightarrow> b | None \<Rightarrow> getHide1ByteHops ls') \<longrightarrow> hopByteLen h \<noteq> 1)"
    for ls' opt' by (auto simp: isVisibleHop_def Let_def fun_eq_iff)
  show "filterPathHops ls opt hops = filter (isVisibleHop ls opt) hops"
    by (auto simp: filterPathHops_def Let_def vis)
  have "getHide1ByteHops (setHide1ByteHops on ls) = on"
    by (simp add: getHide1ByteHops_def setHide1ByteHops_def obj_get_set obj_get_del)
  then show "filterPathHops (setHide1ByteHops on ls) None hops = filterPathHops ls (Some on) hops"
    by (simp add: filterPathHops_def)
  have "1 < getPathTrustThreshold pt \<Longrightarrow> meetsPathTrust pt = (\<lambda>h. getPathTrustThreshold pt \<le> int (hopByteLen h))"
    by (auto simp: meetsPathTrust_def Let_def fun_eq_iff)
  moreover have "getPathTrustThreshold pt \<le> 1 \<Longrightarrow> hops \<noteq> [] \<Longrightarrow> list_ex (meetsPathTrust pt) hops"
    by (cases hops) (auto simp: meetsPathTrust_def Let_def)
  ultimately show "pathBelowTrust pt hops \<longleftrightarrow> hops \<noteq> [] \<and> \<not> list_ex (meetsPathTrust pt) hops"
    by (auto simp: pathBelowTrust_def Let_def)
qed

end
