(* ===== verification/Url_State.thy ===== *)
theory Url_State
  imports Js_Json
begin

text \<open>
  View state in the URL hash: \<^verbatim>\<open>src/public/url-state.js\<close>, over a model of
  \<^verbatim>\<open>URLSearchParams\<close> (form encoding with percent escapes of UTF-8 bytes) and of
  \<^verbatim>\<open>encodeURIComponent\<close>.  Strings are 8-bit code units, so UTF-8 has one or two bytes; a
  byte sequence that denotes another character decodes to the substitute character.
  \<^verbatim>\<open>for (k in params)\<close> is the insertion order; keys that are array indices are not reordered.
\<close>

section \<open>Percent encoding\<close>

definition utf8_char :: "char \<Rightarrow> string" where
  "utf8_char c = (if code c < 128 then [c] else [char_of (192 + code c div 64), char_of (128 + code c mod 64)])"

fun utf8_decode :: "string \<Rightarrow> string" where
  "utf8_decode [] = []"
| "utf8_decode (c # s) =
     (if code c < 128 then c # utf8_decode s
      else case s of
             [] \<Rightarrow> [CHR 0x1A]
           | d # s' \<Rightarrow>
               if (code c = 194 \<or> code c = 195) \<and> 128 \<le> code d \<and> code d < 192
               then char_of ((code c - 192) * 64 + (code d - 128)) # utf8_decode s'
               else CHR 0x1A # utf8_decode s)"

definition upper_hex :: "nat \<Rightarrow> char" where
  "upper_hex d = (if d < 10 then char_of (d + 48) else char_of (d + 55))"

definition pct_byte :: "char \<Rightarrow> string" where
  "pct_byte c = [CHR ''%'', upper_hex (code c div 16), upper_hex (code c mod 16)]"

fun pct_decode :: "string \<Rightarrow> string" where
  "pct_decode [] = []"
| "pct_decode (c # s) =
     (if c = CHR ''%'' then
        (case s of
           h # l # r \<Rightarrow> if is_hex h \<and> is_hex l then char_of (hex_value [h, l]) # pct_decode r else c # pct_decode s
         | _ \<Rightarrow> c # pct_decode s)
      else c # pct_decode s)"

text \<open>The characters the form encoding and \<^verbatim>\<open>encodeURIComponent\<close> leave alone.\<close>

definition form_plain :: "char \<Rightarrow> bool" where
  "form_plain c = (is_alpha c \<or> is_digit c \<or> c \<in> {CHR ''*'', CHR ''-'', CHR ''.'', CHR ''_''})"

definition uri_plain :: "char \<Rightarrow> bool" where
  "uri_plain c = (is_alpha c \<or> is_digit c \<or>
     c \<in> {CHR ''-'', CHR ''_'', CHR ''.'', CHR ''!'', CHR ''~'', CHR ''*'', CHR 0x27, CHR ''('', CHR '')''})"

definition form_char :: "char \<Rightarrow> string" where
  "form_char c = (if c = CHR '' '' then ''+'' else if form_plain c then [c] else concat (map pct_byte (utf8_char c)))"

definition form_encode :: "string \<Rightarrow> string" where
  "form_encode s = concat (map form_char s)"

definition form_decode :: "string \<Rightarrow> string" where
  "form_decode s = utf8_decode (pct_decode (map (\<lambda>c. if c = CHR ''+'' then CHR '' '' else c) s))"

definition encodeURIComponent :: "string \<Rightarrow> string" where
  "encodeURIComponent s =
     concat (map (\<lambda>c. if uri_plain c then [c] else concat (map pct_byte (utf8_char c))) s)"

section \<open>\<^verbatim>\<open>URLSearchParams\<close>\<close>

definition split_first :: "char \<Rightarrow> string \<Rightarrow> string \<times> string" where
  "split_first c s = (takeWhile (\<lambda>x. x \<noteq> c) s, drop 1 (dropWhile (\<lambda>x. x \<noteq> c) s))"

definition params_parse :: "string \<Rightarrow> (string \<times> string) list" where
  "params_parse s =
     (let q = (case s of c # r \<Rightarrow> if c = CHR ''?'' then r else s | [] \<Rightarrow> [])
      in map (\<lambda>p. let (k, v) = split_first (CHR ''='') p in (form_decode k, form_decode v))
           (filter (\<lambda>p. p \<noteq> []) (split_on (CHR ''&'') q)))"

definition params_text :: "(string \<times> string) list \<Rightarrow> string" where
  "params_text ps = join ''&'' (map (\<lambda>(k, v). form_encode k @ ''='' @ form_encode v) ps)"

section \<open>\<^verbatim>\<open>url-state.js\<close>\<close>

text \<open>A sort token; the result \<^verbatim>\<open>null\<close> is \<open>None\<close>, and so is a missing argument.\<close>

definition parseSort :: "jsval \<Rightarrow> (string \<times> string) option" where
  "parseSort s =
     (if nullish s \<or> s = JStr [] then None
      else let str = js_String s; idx = index_of '':'' str;
               column = (case idx of Some i \<Rightarrow> take i str | None \<Rightarrow> str);
               dir = (case idx of Some i \<Rightarrow> drop (i + 1) str | None \<Rightarrow> ''desc'');
               dir' = (if dir \<noteq> ''asc'' \<and> dir \<noteq> ''desc'' then ''desc'' else dir)
           in Some (column, dir'))"

definition serializeSort :: "string \<Rightarrow> string \<Rightarrow> string" where
  "serializeSort column direction =
     (if column = [] then [] else if direction = ''asc'' then column @ '':asc'' else column)"

text \<open>Both \<^verbatim>\<open>charAt(0)\<close> tests.\<close>

definition drop_lead :: "char \<Rightarrow> string \<Rightarrow> string" where
  "drop_lead c s = (case s of x # r \<Rightarrow> if x = c then r else s | [] \<Rightarrow> [])"

definition strip_hash :: "string \<Rightarrow> string" where
  "strip_hash h = drop_lead (CHR ''/'') (drop_lead (CHR ''#'') h)"

text \<open>\<^verbatim>\<open>params[k] = v\<close>: assigning a string to \<^verbatim>\<open>__proto__\<close> has no effect.\<close>

definition set_param :: "'v obj \<Rightarrow> string \<Rightarrow> 'v \<Rightarrow> 'v obj" where
  "set_param ob k v = (if k = ''__proto__'' then ob else obj_set ob k v)"

record parsed_hash =
  ph_route :: string
  ph_params :: "string obj"

definition parseHash :: "string \<Rightarrow> parsed_hash" where
  "parseHash hash =
     (let h = strip_hash hash in
      if h = [] then \<lparr>ph_route = [], ph_params = []\<rparr>
      else let qi = index_of ''?'' h;
               route = (case qi of Some i \<Rightarrow> take i h | None \<Rightarrow> h);
               qs = (case qi of Some i \<Rightarrow> drop (i + 1) h | None \<Rightarrow> []);
               params = (if qs = [] then [] else foldl (\<lambda>ob (k, v). set_param ob k v) [] (params_parse qs))
           in \<lparr>ph_route = route, ph_params = params\<rparr>)"

definition empty_param :: "jsval \<Rightarrow> bool" where
  "empty_param v = (nullish v \<or> v = JStr [])"

definition buildHash :: "string \<Rightarrow> jsval obj \<Rightarrow> string" where
  "buildHash route params =
     (let r = strip_hash route;
          sp = foldl (\<lambda>sp (k, v). if empty_param v then sp else obj_set sp k (js_String v)) [] params;
          qs = params_text sp
      in ''#/'' @ r @ (if qs = [] then [] else ''?'' @ qs))"

definition apply_update :: "jsval obj \<Rightarrow> string \<times> jsval \<Rightarrow> jsval obj" where
  "apply_update merged kv =
     (case kv of (k, v) \<Rightarrow> if empty_param v then obj_del merged k else set_param merged k v)"

definition updateHashParams :: "jsval obj \<Rightarrow> string \<Rightarrow> string" where
  "updateHashParams updates currentHash =
     (let parsed = parseHash currentHash;
          merged = foldl (\<lambda>ob (k, v). set_param ob k (JStr v)) [] (ph_params parsed);
          merged' = foldl apply_update merged updates
      in buildHash (ph_route parsed) merged')"

section \<open>The codec\<close>

lemma hex_val_upper_hex [simp]: "d < 16 \<Longrightarrow> is_hex (upper_hex d) \<and> hex_val (upper_hex d) = d"
  by (auto simp: upper_hex_def is_hex_def hex_val_def is_digit_def of_char_of)

lemma code_lt: "code c < 256"
  by (rule nat_of_char_less_256)

lemma pct_decode_byte: "pct_decode (pct_byte c @ s) = c # pct_decode s"
proof -
  have "code c div 16 < 16" "code c mod 16 < 16" using code_lt [of c] by (simp_all add: div_less_iff_less_mult)
  then show ?thesis by (simp add: pct_byte_def hex_value_def)
qed

lemma pct_decode_bytes: "pct_decode (concat (map pct_byte bs) @ s) = bs @ pct_decode s"
  by (induction bs) (simp_all add: pct_decode_byte del: pct_decode.simps)

lemma utf8_decode_char: "utf8_decode (utf8_char c @ s) = c # utf8_decode s"
proof (cases "code c < 128")
  case False
  then have "2 \<le> code c div 64" "code c div 64 < 4"
    using code_lt [of c] by (simp_all add: less_eq_div_iff_mult_less_eq div_less_iff_less_mult)
  then have "code c div 64 = 2 \<or> code c div 64 = 3" by linarith
  then have d: "code (char_of (192 + code c div 64) :: char) = 192 + code c div 64"
      "code (char_of (128 + code c mod 64) :: char) = 128 + code c mod 64"
    by (auto intro!: code_char_of)
  have "char_of (code c div 64 * 64 + code c mod 64) = c" by (simp only: div_mult_mod_eq char_of_char)
  with False d \<open>code c div 64 = 2 \<or> code c div 64 = 3\<close> show ?thesis
    by (auto simp: utf8_char_def simp del: of_char_of)
qed (simp add: utf8_char_def)

lemma form_plain_facts:
  "form_plain c \<Longrightarrow> c \<noteq> CHR ''%'' \<and> c \<noteq> CHR ''+'' \<and> c \<noteq> CHR ''='' \<and> c \<noteq> CHR ''&'' \<and> code c < 128"
  by (auto simp: form_plain_def char_class_defs)

lemma upper_hex_facts:
  "d < 16 \<Longrightarrow> upper_hex d \<noteq> CHR ''+'' \<and> upper_hex d \<noteq> CHR ''='' \<and> upper_hex d \<noteq> CHR ''&''"
  by (auto simp: upper_hex_def char_eq_code of_char_of simp del: of_char_eq_iff)

abbreviation plus_space :: "string \<Rightarrow> string" where
  "plus_space \<equiv> map (\<lambda>c. if c = CHR ''+'' then CHR '' '' else c)"

lemma pct_byte_safe: "x \<in> set (pct_byte c) \<Longrightarrow> x \<noteq> CHR ''+'' \<and> x \<noteq> CHR ''='' \<and> x \<noteq> CHR ''&''"
  using upper_hex_facts [of "code c div 16"] upper_hex_facts [of "code c mod 16"] code_lt [of c]
  by (auto simp: pct_byte_def div_less_iff_less_mult)

lemma form_encode_safe: "x \<in> set (form_encode s) \<Longrightarrow> x \<noteq> CHR ''='' \<and> x \<noteq> CHR ''&''"
  using form_plain_facts pct_byte_safe by (fastforce simp: form_encode_def form_char_def split: if_splits)

lemma pct_decode_form_char: "pct_decode (plus_space (form_char c) @ s) = utf8_char c @ pct_decode s"
proof -
  consider "c = CHR '' ''" | "c \<noteq> CHR '' ''" "form_plain c" | "c \<noteq> CHR '' ''" "\<not> form_plain c" by blast
  then show ?thesis
  proof cases
    case 1
    then show ?thesis by (simp add: form_char_def utf8_char_def)
  next
    case 2
    then show ?thesis using form_plain_facts [of c] by (simp add: form_char_def utf8_char_def)
  next
    case 3
    let ?bs = "concat (map pct_byte (utf8_char c))"
    have "plus_space ?bs = ?bs"
    proof (rule map_idI)
      fix x assume "x \<in> set ?bs"
      then have "x \<noteq> CHR ''+''" using pct_byte_safe by fastforce
      then show "(if x = CHR ''+'' then CHR '' '' else x) = x" by simp
    qed
    with 3 have "plus_space (form_char c) = ?bs" by (simp add: form_char_def)
    then show ?thesis by (simp only: pct_decode_bytes)
  qed
qed

lemma form_decode_encode [simp]: "form_decode (form_encode s) = s"
proof -
  have "pct_decode (plus_space (form_encode s)) = concat (map utf8_char s)"
    by (induction s) (simp_all add: form_encode_def pct_decode_form_char del: pct_decode.simps(2))
  moreover have "utf8_decode (concat (map utf8_char s)) = s"
    by (induction s) (simp_all add: utf8_decode_char del: utf8_decode.simps(2))
  ultimately show ?thesis by (simp add: form_decode_def)
qed

interpretation formcodec: codec form_encode "\<lambda>s. Some (form_decode s)" "\<lambda>_. True"
  by unfold_locales simp

lemma split_first_pair:
  "split_first (CHR ''='') (form_encode k @ CHR ''='' # v) = (form_encode k, v)"
proof -
  have "takeWhile (\<lambda>x. x \<noteq> CHR ''='') (form_encode k @ CHR ''='' # v) = form_encode k"
    "dropWhile (\<lambda>x. x \<noteq> CHR ''='') (form_encode k @ CHR ''='' # v) = CHR ''='' # v"
    using form_encode_safe [of _ k] by (auto simp: takeWhile_append dropWhile_append)
  then show ?thesis by (simp add: split_first_def)
qed

lemma split_params_text:
  "filter (\<lambda>p. p \<noteq> []) (split_on (CHR ''&'') (params_text ps)) =
     map (\<lambda>(k, v). form_encode k @ ''='' @ form_encode v) ps"
proof (cases ps)
  case Nil
  then show ?thesis by (simp add: params_text_def)
next
  case (Cons p ps')
  let ?e = "map (\<lambda>(k, v). form_encode k @ ''='' @ form_encode v) ps"
  have "\<forall>w\<in>set ?e. CHR ''&'' \<notin> set w" using form_encode_safe by fastforce
  moreover have "?e \<noteq> []" using Cons by simp
  ultimately have "split_on (CHR ''&'') (params_text ps) = ?e"
    unfolding params_text_def by (rule split_join [rotated])
  then show ?thesis by (auto simp: filter_id_conv)
qed

lemma form_encode_hd: "form_encode k = c # r \<Longrightarrow> c \<noteq> CHR ''?''"
proof (cases k)
  case (Cons x k')
  assume "form_encode k = c # r"
  with Cons have "c # r = form_char x @ form_encode k'" by (simp add: form_encode_def)
  then show ?thesis
    by (auto simp: form_char_def utf8_char_def pct_byte_def form_plain_def char_class_defs split: if_splits)
qed (simp add: form_encode_def)

lemma params_text_hd: "params_text ps = c # r \<Longrightarrow> c \<noteq> CHR ''?''"
proof (cases ps)
  case (Cons p ps')
  obtain k v where p: "p = (k, v)" by (cases p)
  assume a: "params_text ps = c # r"
  have "\<exists>t. params_text ps = form_encode k @ CHR ''='' # t"
    using Cons p by (cases ps') (auto simp: params_text_def)
  with a show ?thesis using form_encode_hd by (cases "form_encode k") auto
qed (simp add: params_text_def)

lemma params_parse_text [simp]: "params_parse (params_text ps) = ps"
proof -
  have "(case params_text ps of c # r \<Rightarrow> if c = CHR ''?'' then r else params_text ps | [] \<Rightarrow> []) = params_text ps"
    using params_text_hd by (auto split: list.split)
  then show ?thesis
    unfolding params_parse_def Let_def by (simp add: split_params_text split_first_pair case_prod_beta comp_def)
qed

section \<open>Hashes\<close>

lemma index_of_char: "c \<notin> set r \<Longrightarrow> index_of [c] (r @ c # s) = Some (length r)"
  by (induction r) (auto simp: starts_with_def)

lemma index_of_char_None: "c \<notin> set r \<Longrightarrow> index_of [c] r = None"
  by (induction r) (auto simp: starts_with_def)

lemma obj_set_new: "k \<notin> fst ` set ob \<Longrightarrow> obj_set ob k v = ob @ [(k, v)]"
  by (induction ob k v rule: obj_set.induct) auto

lemma foldl_obj_set_filter:
  "distinct (obj_keys (acc @ map (\<lambda>(k, v). (k, f v)) ob)) \<Longrightarrow>
   foldl (\<lambda>sp (k, v). if P v then sp else obj_set sp k (f v)) acc ob =
     acc @ map (\<lambda>(k, v). (k, f v)) (filter (\<lambda>(k, v). \<not> P v) ob)"
proof (induction ob arbitrary: acc)
  case (Cons kv ob)
  obtain k v where kv: "kv = (k, v)" by (cases kv)
  show ?case
  proof (cases "P v")
    case True
    with Cons kv show ?thesis by auto
  next
    case False
    have "k \<notin> fst ` set acc" using Cons.prems by (auto simp: kv)
    then have "obj_set acc k (f v) = acc @ [(k, f v)]" by (rule obj_set_new)
    with Cons.IH [of "acc @ [(k, f v)]"] Cons.prems False show ?thesis by (simp add: kv)
  qed
qed simp

lemma foldl_set_param:
  "distinct (obj_keys (acc @ ob)) \<Longrightarrow> ''__proto__'' \<notin> fst ` set ob \<Longrightarrow>
   foldl (\<lambda>ob (k, v). set_param ob k v) acc ob = acc @ ob"
proof (induction ob arbitrary: acc)
  case (Cons kv ob)
  obtain k v where kv: "kv = (k, v)" by (cases kv)
  have "k \<notin> fst ` set acc" using Cons.prems by (auto simp: kv)
  then have "set_param acc k v = acc @ [(k, v)]" using Cons.prems by (auto simp: kv set_param_def obj_set_new)
  with Cons.IH [of "acc @ [(k, v)]"] Cons.prems show ?case by (simp add: kv)
qed simp

text \<open>What \<open>buildHash\<close> keeps of the parameters.\<close>

definition kept_params :: "jsval obj \<Rightarrow> string obj" where
  "kept_params params = map (\<lambda>(k, v). (k, js_String v)) (filter (\<lambda>(k, v). \<not> empty_param v) params)"

lemma buildHash_eq:
  "obj_wf params \<Longrightarrow> buildHash route params =
     ''#/'' @ strip_hash route @ (if kept_params params = [] then [] else ''?'' @ params_text (kept_params params))"
proof -
  assume "obj_wf params"
  then have "distinct (obj_keys ([] @ map (\<lambda>(k, v). (k, js_String v)) params))"
    by (simp add: obj_wf_def comp_def case_prod_beta)
  then have "foldl (\<lambda>sp (k, v). if empty_param v then sp else obj_set sp k (js_String v)) [] params = kept_params params"
    using foldl_obj_set_filter [of "[]" js_String params empty_param] by (simp add: kept_params_def)
  moreover have "params_text ps = [] \<longleftrightarrow> ps = []" for ps
    using params_parse_text [of ps] by (cases "params_text ps = []") (auto simp: params_text_def params_parse_def)
  ultimately show ?thesis by (simp add: buildHash_def Let_def)
qed

lemma kept_params_wf: "obj_wf params \<Longrightarrow> obj_wf (kept_params params)"
  by (auto simp: obj_wf_def kept_params_def comp_def case_prod_beta intro: distinct_map_filter)

lemma kept_params_keys: "fst ` set (kept_params params) \<subseteq> fst ` set params"
  by (force simp: kept_params_def)

lemma strip_hash_built [simp]: "strip_hash (CHR ''#'' # CHR ''/'' # r) = r"
  by (simp add: strip_hash_def drop_lead_def)

lemma parse_built:
  assumes "CHR ''?'' \<notin> set (strip_hash route)" "obj_wf params" "''__proto__'' \<notin> fst ` set params"
  shows "parseHash (buildHash route params) = \<lparr>ph_route = strip_hash route, ph_params = kept_params params\<rparr>"
proof -
  have "foldl (\<lambda>ob (k, v). set_param ob k v) [] (kept_params params) = kept_params params"
    using foldl_set_param [of "[]" "kept_params params"] kept_params_wf [OF assms(2)] kept_params_keys [of params] assms(3)
    by (auto simp: obj_wf_def)
  moreover have "params_text (kept_params params) \<noteq> []" if "kept_params params \<noteq> []"
    using that params_parse_text [of "kept_params params"] by (metis params_parse_text params_text_def list.map(1) join.simps(1))
  ultimately show ?thesis
    using assms(1) unfolding buildHash_eq [OF assms(2)] parseHash_def Let_def
    by (cases "kept_params params = []") (simp_all add: index_of_char index_of_char_None)
qed

lemma parseHash_route: "CHR ''?'' \<notin> set (ph_route (parseHash h))"
proof -
  have "CHR ''?'' \<notin> set (take i s)" if "index_of ''?'' s = Some i" for i s
    using that by (induction s arbitrary: i) (auto simp: starts_with_def split: if_splits)
  moreover have "CHR ''?'' \<notin> set s" if "index_of ''?'' s = None" for s
    using that by (induction s) (auto simp: starts_with_def split: if_splits)
  ultimately show ?thesis by (auto simp: parseHash_def Let_def split: option.split)
qed

lemma strip_hash_sub: "set (strip_hash r) \<subseteq> set r"
  by (auto simp: strip_hash_def drop_lead_def split: list.splits if_splits)

definition proto_free :: "'v obj \<Rightarrow> bool" where
  "proto_free ob = (obj_wf ob \<and> ''__proto__'' \<notin> fst ` set ob)"

lemma proto_free_Nil [simp]: "proto_free []" by (simp add: proto_free_def)

lemma proto_free_set_param: "proto_free ob \<Longrightarrow> proto_free (set_param ob k v)"
  by (auto simp: proto_free_def set_param_def)

lemma proto_free_del: "proto_free ob \<Longrightarrow> proto_free (obj_del ob k)"
  by (auto simp: proto_free_def obj_del_def obj_wf_def intro: distinct_map_filter)

lemma proto_free_foldl: "proto_free ob \<Longrightarrow> proto_free (foldl (\<lambda>ob (k, v). set_param ob k (f v)) ob kvs)"
  by (induction kvs arbitrary: ob) (auto simp: proto_free_set_param)

lemma parseHash_proto_free: "proto_free (ph_params (parseHash h))"
  using proto_free_foldl [of "[]" "\<lambda>v. v"] by (auto simp: parseHash_def Let_def)

lemma apply_updates:
  "proto_free ob \<Longrightarrow> obj_wf upd \<Longrightarrow> proto_free (foldl apply_update ob upd) \<and>
     (k \<noteq> ''__proto__'' \<longrightarrow> obj_get (foldl apply_update ob upd) k =
        (case obj_get upd k of None \<Rightarrow> obj_get ob k | Some v \<Rightarrow> if empty_param v then None else Some v))"
proof (induction upd arbitrary: ob)
  case (Cons kv upd)
  obtain a b where kv: "kv = (a, b)" by (cases kv)
  have wf: "obj_wf upd" "a \<notin> fst ` set upd" using Cons.prems(2) by (auto simp: kv obj_wf_def)
  have pf: "proto_free (apply_update ob kv)"
    using Cons.prems(1) by (auto simp: apply_update_def kv proto_free_set_param proto_free_del)
  have "obj_get upd a = None" using wf(2) by (auto simp: map_of_eq_None_iff)
  moreover have "k \<noteq> ''__proto__'' \<longrightarrow> obj_get (apply_update ob kv) k =
      (if k = a then (if empty_param b then None else Some b) else obj_get ob k)"
    by (auto simp: apply_update_def kv set_param_def obj_get_set obj_get_del)
  ultimately show ?case using Cons.IH [OF pf wf(1)] by (auto simp: kv split: option.splits)
qed simp

lemma obj_get_kept: "obj_wf params \<Longrightarrow> obj_get (kept_params params) k =
   (case obj_get params k of None \<Rightarrow> None | Some v \<Rightarrow> if empty_param v then None else Some (js_String v))"
proof (induction params)
  case (Cons kv params)
  obtain a b where kv: "kv = (a, b)" by (cases kv)
  have "obj_wf params" "a \<notin> fst ` set params" using Cons.prems by (auto simp: kv obj_wf_def)
  moreover have "obj_get params a = None" using \<open>a \<notin> fst ` set params\<close> by (auto simp: map_of_eq_None_iff)
  ultimately show ?case using Cons.IH by (auto simp: kept_params_def kv)
qed (simp add: kept_params_def)

section \<open>Properties\<close>

text \<open>
  C22: A hash that is built is parsed back to what was put in: for a route whose path (after a leading
  hash sign and slash) has no question mark, and parameters with distinct names, the route is that path
  and the parameters are the ones whose value is not null, undefined or empty, in order, as strings,
  whatever characters names and values contain.
\<close>

theorem hash_roundtrip:
  assumes "CHR ''?'' \<notin> set (strip_hash route)" "obj_wf params" "''__proto__'' \<notin> fst ` set params"
  shows "parseHash (buildHash route params) =
    \<lparr>ph_route = strip_hash route,
     ph_params = map (\<lambda>(k, v). (k, js_String v)) (filter (\<lambda>(k, v). \<not> empty_param v) params)\<rparr>"
  using parse_built [OF assms] by (simp only: kept_params_def)

theorem hash_roundtrip_witness:
  "parseHash (buildHash ''#/packets'' [(''filter'', JStr ''a & b=c%''), (''x'', JNull)]) =
    \<lparr>ph_route = ''packets'', ph_params = [(''filter'', ''a & b=c%'')]\<rparr>"
  using hash_roundtrip [of "''#/packets''" "[(''filter'', JStr ''a & b=c%''), (''x'', JNull)]"]
  by (simp add: strip_hash_def drop_lead_def empty_param_def obj_wf_def)

text \<open>
  A partial update of the hash changes exactly the named parameters.  The route stays (up to
  a second leading hash sign or slash), a parameter set to a value reads back as that value, one
  set to null, undefined or the empty string is gone, and every other one keeps its value (one that
  was empty is dropped).
\<close>

theorem hash_update:
  assumes "obj_wf updates" "k \<noteq> ''__proto__''"
  shows "ph_route (parseHash (updateHashParams updates h)) = strip_hash (ph_route (parseHash h)) \<and>
    obj_get (ph_params (parseHash (updateHashParams updates h))) k =
      (case obj_get updates k of
         Some v \<Rightarrow> if empty_param v then None else Some (js_String v)
       | None \<Rightarrow> (case obj_get (ph_params (parseHash h)) k of
                   Some w \<Rightarrow> if w = [] then None else Some w
                 | None \<Rightarrow> None))"
proof -
  let ?p = "parseHash h"
  let ?m = "map (\<lambda>(k, v). (k, JStr v)) (ph_params ?p)"
  let ?m' = "foldl apply_update ?m updates"
  have pf: "proto_free ?m" using parseHash_proto_free [of h]
    by (auto simp: proto_free_def obj_wf_def comp_def case_prod_beta image_iff)
  have "foldl (\<lambda>ob (k, v). set_param ob k (JStr v)) acc kvs =
      foldl (\<lambda>ob (k, v). set_param ob k v) acc (map (\<lambda>(k, v). (k, JStr v)) kvs)" for acc kvs
    by (induction kvs arbitrary: acc) auto
  then have "foldl (\<lambda>ob (k, v). set_param ob k (JStr v)) [] (ph_params ?p) = ?m"
    using foldl_set_param [of "[]" ?m] pf by (simp add: proto_free_def obj_wf_def)
  then have u: "updateHashParams updates h = buildHash (ph_route ?p) ?m'"
    by (simp add: updateHashParams_def Let_def)
  have pf': "proto_free ?m'" and g: "obj_get ?m' k = (case obj_get updates k of None \<Rightarrow> obj_get ?m k
      | Some v \<Rightarrow> if empty_param v then None else Some v)"
    using apply_updates [OF pf assms(1), of k] assms(2) by auto
  have "parseHash (updateHashParams updates h) =
      \<lparr>ph_route = strip_hash (ph_route ?p), ph_params = kept_params ?m'\<rparr>"
    unfolding u using parseHash_route [of h] strip_hash_sub pf' by (intro parse_built) (auto simp: proto_free_def)
  moreover have "obj_get ?m k = map_option JStr (obj_get (ph_params ?p) k)"
    by (simp add: map_of_map)
  ultimately show ?thesis
    using pf' by (auto simp: obj_get_kept proto_free_def g empty_param_def split: option.split)
qed

theorem hash_update_witness:
  "obj_get (ph_params (parseHash (updateHashParams [(''tab'', JStr ''rf'')] ''#/nodes?sort=name''))) ''tab'' = Some ''rf''"
  using hash_update [of "[(''tab'', JStr ''rf'')]" "''tab''" "''#/nodes?sort=name''"] by (simp add: obj_wf_def empty_param_def)

text \<open>
  Sort tokens round trip: a column without a colon and a direction survive serialisation and
  parsing, and the direction that parsing reports is always one of the two.
\<close>

theorem sort_roundtrip:
  assumes "column \<noteq> []" "CHR '':'' \<notin> set column" "dir = ''asc'' \<or> dir = ''desc''"
  shows "parseSort (JStr (serializeSort column dir)) = Some (column, dir) \<and>
    (\<forall>s c d. parseSort s = Some (c, d) \<longrightarrow> d = ''asc'' \<or> d = ''desc'')"
proof -
  have "index_of '':'' (column @ '':asc'') = Some (length column)"
    using index_of_char [OF assms(2), of "''asc''"] by simp
  then have "parseSort (JStr (serializeSort column dir)) = Some (column, dir)"
    using assms by (auto simp: parseSort_def serializeSort_def Let_def index_of_char_None)
  then show ?thesis by (auto simp: parseSort_def Let_def split: if_splits)
qed

theorem sort_roundtrip_witness:
  "parseSort (JStr (serializeSort ''name'' ''asc'')) = Some (''name'', ''asc'')"
  using sort_roundtrip [of "''name''" "''asc''"] by simp

end
