(* ===== verification/Region_Filter.thy ===== *)
theory Region_Filter
  imports Js_Json Url_State
begin

text \<open>
  The two selectors every page shares: the region filter (a set of region codes, or all) with its
  show-all toggle, \<^verbatim>\<open>src/public/region-filter.js\<close>, and the area filter (one area or all),
  \<^verbatim>\<open>src/public/area-filter.js\<close>.  The module variables and \<^verbatim>\<open>localStorage\<close> are one
  record per module; listeners are numbered and every call of one is recorded.  What is
  rendered is the list of items with their labels and marks, not the HTML around them.
\<close>

section \<open>State\<close>

text \<open>A \<^verbatim>\<open>Set\<close> is a list without repetitions, in insertion order.\<close>

fun set_add :: "'a list \<Rightarrow> 'a \<Rightarrow> 'a list" where
  "set_add xs x = (if x \<in> set xs then xs else xs @ [x])"

definition new_set :: "'a list \<Rightarrow> 'a list" where
  "new_set xs = foldl set_add [] xs"

record region_state =
  r_regions :: "string obj"
  r_selected :: "jsval list option"
  r_listeners :: "nat list"
  r_loaded :: bool
  r_ls :: "string obj"
  r_show_listeners :: "nat list"
  r_calls :: "(nat \<times> jsval list option) list"
  r_show_calls :: "(nat \<times> bool) list"

definition REGION_KEY :: string where "REGION_KEY = ''meshcore-region-filter''"
definition SHOW_ALL_KEY :: string where "SHOW_ALL_KEY = ''mc-region-show-all-nodes''"

section \<open>Region selection\<close>

text \<open>\<^verbatim>\<open>JSON.parse(localStorage.getItem(key))\<close>: a missing entry parses as null; \<open>None\<close> is the exception.\<close>

definition stored_json :: "string obj \<Rightarrow> string \<Rightarrow> jsval option" where
  "stored_json ls k = (case obj_get ls k of None \<Rightarrow> Some JNull | Some t \<Rightarrow> json_parse t)"

definition region_load :: "string obj \<Rightarrow> jsval list option" where
  "region_load ls =
     (case stored_json ls REGION_KEY of
        Some (JArr stored) \<Rightarrow> if 0 < length stored then Some (new_set stored) else None
      | _ \<Rightarrow> None)"

definition region_save :: "jsval list option \<Rightarrow> string obj \<Rightarrow> string obj" where
  "region_save selected ls =
     (case selected of
        None \<Rightarrow> obj_del ls REGION_KEY
      | Some s \<Rightarrow> obj_set ls REGION_KEY (json_text (JArr s)))"

definition region_init :: "string obj \<Rightarrow> region_state" where
  "region_init ls =
     \<lparr>r_regions = [], r_selected = region_load ls, r_listeners = [], r_loaded = False, r_ls = ls,
      r_show_listeners = [], r_calls = [], r_show_calls = []\<rparr>"

definition region_persist :: "region_state \<Rightarrow> region_state" where
  "region_persist st = st\<lparr>r_ls := region_save (r_selected st) (r_ls st)\<rparr>"

text \<open>The reply of the server: \<open>None\<close> when the request or its decoding fails, \<open>Some None\<close> for null.\<close>

definition fetchRegions :: "string obj option option \<Rightarrow> region_state \<Rightarrow> region_state" where
  "fetchRegions reply st =
     (if r_loaded st then st
      else case reply of
             None \<Rightarrow> st\<lparr>r_regions := []\<rparr>
           | Some data \<Rightarrow>
               (let regions = (case data of Some d \<Rightarrow> d | None \<Rightarrow> []);
                    st1 = st\<lparr>r_regions := regions, r_loaded := True\<rparr>
                in case r_selected st of
                     None \<Rightarrow> st1
                   | Some s \<Rightarrow>
                       (let codes = obj_keys regions;
                            cleaned = filter (\<lambda>c. c \<in> set (map JStr codes)) s
                        in region_persist (st1\<lparr>r_selected := if 0 < length cleaned then Some cleaned else None\<rparr>))))"

definition region_getSelected :: "region_state \<Rightarrow> jsval list option" where
  "region_getSelected st =
     (case r_selected st of None \<Rightarrow> None | Some s \<Rightarrow> if length s = 0 then None else Some s)"

definition getRegionParam :: "region_state \<Rightarrow> string" where
  "getRegionParam st =
     (case region_getSelected st of Some s \<Rightarrow> join '','' (map (\<lambda>v. if nullish v then [] else js_String v) s) | None \<Rightarrow> [])"

definition regionQueryString :: "region_state \<Rightarrow> string" where
  "regionQueryString st =
     (let p = getRegionParam st in if p = [] then [] else ''&region='' @ encodeURIComponent p)"

text \<open>The selection after a click, and the handler: save, then every listener in order.\<close>

definition toggle_selection :: "string \<Rightarrow> string list \<Rightarrow> jsval list option \<Rightarrow> jsval list option" where
  "toggle_selection region codes selected =
     (if region = ''__all__'' then None
      else let sel = (case selected of
                        None \<Rightarrow> Some [JStr region]
                      | Some s \<Rightarrow>
                          if JStr region \<in> set s then
                            (let s' = filter (\<lambda>v. v \<noteq> JStr region) s in if length s' = 0 then None else Some s')
                          else Some (s @ [JStr region]))
           in case sel of Some s \<Rightarrow> if length s = length codes then None else Some s | None \<Rightarrow> None)"

definition toggleRegion :: "string \<Rightarrow> string list \<Rightarrow> region_state \<Rightarrow> region_state" where
  "toggleRegion region codes st =
     (let st1 = region_persist (st\<lparr>r_selected := toggle_selection region codes (r_selected st)\<rparr>)
      in st1\<lparr>r_calls := r_calls st1 @ map (\<lambda>f. (f, region_getSelected st1)) (r_listeners st1)\<rparr>)"

definition region_setSelected :: "jsval list option \<Rightarrow> region_state \<Rightarrow> region_state" where
  "region_setSelected codes st =
     region_persist (st\<lparr>r_selected := (case codes of Some cs \<Rightarrow> if 0 < length cs then Some (new_set cs) else None | None \<Rightarrow> None)\<rparr>)"

definition region_onChange :: "nat \<Rightarrow> region_state \<Rightarrow> region_state" where
  "region_onChange f st = st\<lparr>r_listeners := r_listeners st @ [f]\<rparr>"

definition region_offChange :: "nat \<Rightarrow> region_state \<Rightarrow> region_state" where
  "region_offChange f st = st\<lparr>r_listeners := filter (\<lambda>g. g \<noteq> f) (r_listeners st)\<rparr>"

section \<open>The show-all toggle\<close>

definition showAllGet :: "region_state \<Rightarrow> bool" where
  "showAllGet st = (obj_get (r_ls st) SHOW_ALL_KEY = Some ''true'')"

definition show_save :: "bool \<Rightarrow> string obj \<Rightarrow> string obj" where
  "show_save b ls = (if b then obj_set ls SHOW_ALL_KEY ''true'' else obj_del ls SHOW_ALL_KEY)"

definition showAllSet :: "bool \<Rightarrow> region_state \<Rightarrow> region_state" where
  "showAllSet b st =
     st\<lparr>r_ls := show_save b (r_ls st), r_show_calls := r_show_calls st @ map (\<lambda>f. (f, b)) (r_show_listeners st)\<rparr>"

definition showAllOnChange :: "nat \<Rightarrow> region_state \<Rightarrow> region_state" where
  "showAllOnChange f st = st\<lparr>r_show_listeners := r_show_listeners st @ [f]\<rparr>"

definition showAllOffChange :: "nat \<Rightarrow> region_state \<Rightarrow> region_state" where
  "showAllOffChange f st = st\<lparr>r_show_listeners := filter (\<lambda>g. g \<noteq> f) (r_show_listeners st)\<rparr>"

definition nodesRegionQueryString :: "region_state \<Rightarrow> string" where
  "nodesRegionQueryString st = (if showAllGet st then [] else regionQueryString st)"

section \<open>What is rendered\<close>

definition dropdownLabel :: "region_state \<Rightarrow> string" where
  "dropdownLabel st =
     (case r_selected st of
        None \<Rightarrow> ''All Regions''
      | Some sel \<Rightarrow>
          if length sel = 0 then ''All Regions''
          else if length sel \<le> 2 then join '', '' (map (\<lambda>v. if nullish v then [] else js_String v) sel)
          else nat_to_dec (length sel) @ '' Regions'')"

text \<open>An item has the region code, its label and whether it is marked as active.\<close>

type_synonym region_item = "string \<times> string \<times> bool"

datatype region_view =
    RHidden
  | RPills bool "region_item list"
  | RDropdown string bool "region_item list"

definition region_active :: "region_state \<Rightarrow> string \<Rightarrow> bool" where
  "region_active st rcode = (case r_selected st of None \<Rightarrow> True | Some s \<Rightarrow> JStr rcode \<in> set s)"

definition region_label :: "region_state \<Rightarrow> string \<Rightarrow> string option" where
  "region_label st rcode = (case obj_get (r_regions st) rcode of Some l \<Rightarrow> if l = [] then None else Some l | None \<Rightarrow> None)"

definition renderPills :: "region_state \<Rightarrow> string list \<Rightarrow> region_view" where
  "renderPills st codes =
     RPills (r_selected st = None)
       (map (\<lambda>rcode. (rcode, (case region_label st rcode of Some l \<Rightarrow> l | None \<Rightarrow> rcode), region_active st rcode)) codes)"

text \<open>\<open>cities\<close> is \<^verbatim>\<open>window.IATA_CITIES\<close>.\<close>

definition renderDropdown :: "string obj \<Rightarrow> region_state \<Rightarrow> string list \<Rightarrow> region_view" where
  "renderDropdown cities st codes =
     RDropdown (dropdownLabel st) (r_selected st = None)
       (map (\<lambda>rcode.
          (let cityName = (case region_label st rcode of Some l \<Rightarrow> l
                           | None \<Rightarrow> (case obj_get cities rcode of Some c \<Rightarrow> c | None \<Rightarrow> []));
               label = (if cityName = [] then rcode else rcode @ '' - '' @ cityName)
           in (rcode, label, region_active st rcode))) codes)"

definition region_render :: "string obj \<Rightarrow> bool \<Rightarrow> region_state \<Rightarrow> region_view" where
  "region_render cities forceDropdown st =
     (let codes = obj_keys (r_regions st) in
      if length codes < 2 then RHidden
      else if 4 < length codes \<or> forceDropdown then renderDropdown cities st codes
      else renderPills st codes)"

text \<open>\<^verbatim>\<open>initFilter\<close>: fetch, then render.\<close>

definition region_initFilter :: "string obj \<Rightarrow> bool \<Rightarrow> string obj option option \<Rightarrow> region_state \<Rightarrow> region_state \<times> region_view" where
  "region_initFilter cities dropdown reply st =
     (let st1 = fetchRegions reply st in (st1, region_render cities dropdown st1))"

section \<open>The area filter\<close>

record area_entry =
  ar_key :: string
  ar_label :: string

record area_state =
  a_areas :: "area_entry list"
  a_selected :: "string option"
  a_listeners :: "nat list"
  a_loaded :: bool
  a_ls :: "string obj"
  a_calls :: "(nat \<times> string option) list"

definition AREA_KEY :: string where "AREA_KEY = ''meshcore-area-filter''"

definition area_load :: "string obj \<Rightarrow> string option" where
  "area_load ls = (case obj_get ls AREA_KEY of Some v \<Rightarrow> if v = [] then None else Some v | None \<Rightarrow> None)"

text \<open>The empty string is falsy: it is removed like null.\<close>

definition area_save :: "string option \<Rightarrow> string obj \<Rightarrow> string obj" where
  "area_save selected ls =
     (case selected of Some v \<Rightarrow> if v = [] then obj_del ls AREA_KEY else obj_set ls AREA_KEY v
      | None \<Rightarrow> obj_del ls AREA_KEY)"

definition area_init :: "string obj \<Rightarrow> area_state" where
  "area_init ls = \<lparr>a_areas = [], a_selected = area_load ls, a_listeners = [], a_loaded = False, a_ls = ls, a_calls = []\<rparr>"

text \<open>The reply: \<open>None\<close> is a failure, \<open>Some None\<close> a body that is not an array.\<close>

definition fetchAreas :: "area_entry list option option \<Rightarrow> area_state \<Rightarrow> area_state" where
  "fetchAreas reply st =
     (if a_loaded st then st
      else case reply of
             None \<Rightarrow> st\<lparr>a_areas := []\<rparr>
           | Some data \<Rightarrow>
               (let areas = (case data of Some d \<Rightarrow> d | None \<Rightarrow> []);
                    st1 = st\<lparr>a_areas := areas, a_loaded := True\<rparr>
                in case a_selected st of
                     Some v \<Rightarrow>
                       if v \<noteq> [] \<and> \<not> list_ex (\<lambda>a. ar_key a = v) areas
                       then st1\<lparr>a_selected := None, a_ls := area_save None (a_ls st)\<rparr> else st1
                   | None \<Rightarrow> st1))"

definition area_getSelected :: "area_state \<Rightarrow> string option" where
  "area_getSelected st = a_selected st"

definition getAreaParam :: "area_state \<Rightarrow> string" where
  "getAreaParam st = (case a_selected st of Some v \<Rightarrow> v | None \<Rightarrow> [])"

definition areaQueryString :: "area_state \<Rightarrow> string" where
  "areaQueryString st =
     (case a_selected st of Some v \<Rightarrow> if v = [] then [] else ''&area='' @ encodeURIComponent v | None \<Rightarrow> [])"

text \<open>The text of the trigger button, without the trailing arrow sign.\<close>

definition triggerLabel :: "area_state \<Rightarrow> string" where
  "triggerLabel st =
     (case a_selected st of
        None \<Rightarrow> ''Area: All''
      | Some v \<Rightarrow> if v = [] then ''Area: All''
                 else ''Area: '' @ (case find (\<lambda>a. ar_key a = v) (a_areas st) of Some a \<Rightarrow> ar_label a | None \<Rightarrow> v))"

text \<open>The click on a menu item (\<^verbatim>\<open>menu.onclick\<close>); the items rendered, with their marks.\<close>

definition area_click :: "string \<Rightarrow> area_state \<Rightarrow> area_state" where
  "area_click area st =
     (let sel = (if area = ''__all__'' then None else Some area);
          st1 = st\<lparr>a_selected := sel, a_ls := area_save sel (a_ls st)\<rparr>
      in st1\<lparr>a_calls := a_calls st1 @ map (\<lambda>f. (f, sel)) (a_listeners st1)\<rparr>)"

definition area_render :: "area_state \<Rightarrow> (string \<times> bool \<times> (string \<times> string \<times> bool) list) option" where
  "area_render st =
     (if length (a_areas st) = 0 then None
      else Some (triggerLabel st, (case a_selected st of Some v \<Rightarrow> v = [] | None \<Rightarrow> True),
                 map (\<lambda>a. (ar_key a, ar_label a, a_selected st = Some (ar_key a))) (a_areas st)))"

definition area_onChange :: "nat \<Rightarrow> area_state \<Rightarrow> area_state" where
  "area_onChange f st = st\<lparr>a_listeners := a_listeners st @ [f]\<rparr>"

definition area_offChange :: "nat \<Rightarrow> area_state \<Rightarrow> area_state" where
  "area_offChange f st = st\<lparr>a_listeners := filter (\<lambda>g. g \<noteq> f) (a_listeners st)\<rparr>"

section \<open>Steps\<close>

text \<open>
  The events of the region filter: the reply of the server, a click on one of the rendered items (its
  codes are those of the regions loaded), a selection from the URL, the show-all switch, and subscriptions.
\<close>

inductive region_step :: "region_state \<Rightarrow> region_state \<Rightarrow> bool" where
  fetch: "region_step st (fetchRegions reply st)"
| toggle: "region_step st (toggleRegion region (obj_keys (r_regions st)) st)"
| url: "list_all is_str cs \<Longrightarrow> region_step st (region_setSelected (Some cs) st)"
| reset: "region_step st (region_setSelected None st)"
| show_set: "region_step st (showAllSet b st)"
| sub: "region_step st (region_onChange f st)"
| unsub: "region_step st (region_offChange f st)"
| show_sub: "region_step st (showAllOnChange f st)"
| show_unsub: "region_step st (showAllOffChange f st)"

text \<open>A page starts with whatever an earlier visit stored, which is a list of codes.\<close>

definition stored_codes :: "string obj \<Rightarrow> bool" where
  "stored_codes ls = (case region_load ls of Some s \<Rightarrow> list_all is_str s | None \<Rightarrow> True)"

inductive region_reachable :: "region_state \<Rightarrow> bool" where
  init: "stored_codes ls \<Longrightarrow> region_reachable (region_init ls)"
| step: "region_reachable st \<Longrightarrow> region_step st st' \<Longrightarrow> region_reachable st'"

inductive_cases region_stepE: "region_step st st'"

inductive area_step :: "area_state \<Rightarrow> area_state \<Rightarrow> bool" where
  fetch: "area_step st (fetchAreas reply st)"
| click: "area_step st (area_click area st)"
| sub: "area_step st (area_onChange f st)"
| unsub: "area_step st (area_offChange f st)"

inductive area_reachable :: "area_state \<Rightarrow> bool" where
  init: "area_reachable (area_init ls)"
| step: "area_reachable st \<Longrightarrow> area_step st st' \<Longrightarrow> area_reachable st'"

section \<open>The settings in \<^verbatim>\<open>localStorage\<close>\<close>

lemma new_set_acc: "distinct acc \<Longrightarrow> distinct (foldl set_add acc xs) \<and> set (foldl set_add acc xs) = set acc \<union> set xs"
  by (induction xs arbitrary: acc) auto

lemma new_set_distinct [simp]: "distinct (new_set xs)" and set_new_set [simp]: "set (new_set xs) = set xs"
  using new_set_acc [of "[]" xs] by (auto simp: new_set_def)

lemma new_set_Nil_iff [simp]: "new_set xs = [] \<longleftrightarrow> xs = []"
  by (metis set_empty set_new_set)

lemma foldl_set_add_id: "distinct (acc @ xs) \<Longrightarrow> foldl set_add acc xs = acc @ xs"
proof (induction xs arbitrary: acc)
  case (Cons x xs)
  then have "x \<notin> set acc" by auto
  with Cons.IH [of "acc @ [x]"] Cons.prems show ?case by simp
qed simp

lemma new_set_id: "distinct xs \<Longrightarrow> new_set xs = xs"
  using foldl_set_add_id [of "[]" xs] by (simp add: new_set_def)

definition selection_ok :: "jsval list option \<Rightarrow> bool" where
  "selection_ok sel = (case sel of None \<Rightarrow> True | Some s \<Rightarrow> s \<noteq> [] \<and> distinct s \<and> list_all json_ok s)"

lemma selection_ok_simps [simp]:
  "selection_ok None" "selection_ok (Some s) = (s \<noteq> [] \<and> distinct s \<and> list_all json_ok s)"
  by (simp_all add: selection_ok_def)

lemma keys_differ: "REGION_KEY \<noteq> SHOW_ALL_KEY"
  by (simp add: REGION_KEY_def SHOW_ALL_KEY_def)

interpretation region_setting: persisted REGION_KEY region_load region_save selection_ok
proof
  fix v ls assume "selection_ok v"
  then show "region_load (region_save v ls) = v"
    by (cases v) (auto simp: region_load_def region_save_def stored_json_def obj_get_set obj_get_del json_parse_text
        list_all_iff new_set_id simp del: json_text.simps)
qed (auto simp: region_load_def region_save_def stored_json_def obj_get_set obj_get_del split: option.split)

interpretation show_setting: persisted SHOW_ALL_KEY "\<lambda>ls. obj_get ls SHOW_ALL_KEY = Some ''true''" show_save "\<lambda>_. True"
  by unfold_locales (auto simp: show_save_def obj_get_set obj_get_del)

interpretation area_setting: persisted AREA_KEY area_load area_save "\<lambda>v. v \<noteq> Some []"
  by unfold_locales (auto simp: area_load_def area_save_def obj_get_set obj_get_del split: option.split)

section \<open>The invariant of the region filter\<close>

text \<open>The stored text, when there is one, is of the kind \<^verbatim>\<open>JSON.stringify\<close> prints for strings.\<close>

definition region_inv :: "region_state \<Rightarrow> bool" where
  "region_inv st = (selection_ok (r_selected st) \<and> (case r_selected st of Some s \<Rightarrow> list_all is_str s | None \<Rightarrow> True) \<and>
     region_load (r_ls st) = r_selected st)"

lemma is_str_json_ok: "list_all is_str s \<Longrightarrow> list_all json_ok s"
  by (auto simp: list_all_iff) (metis is_str.elims(2) json_ok.simps)

lemma region_inv_persist:
  assumes "selection_ok (r_selected st)" "case r_selected st of Some s \<Rightarrow> list_all is_str s | None \<Rightarrow> True"
  shows "region_inv (region_persist st)"
  using assms region_setting.load_save by (simp add: region_inv_def region_persist_def)

lemma toggle_selection_ok:
  assumes "selection_ok sel" "case sel of Some s \<Rightarrow> list_all is_str s | None \<Rightarrow> True"
  shows "selection_ok (toggle_selection r codes sel) \<and>
    (case toggle_selection r codes sel of Some s \<Rightarrow> list_all is_str s | None \<Rightarrow> True)"
  using assms by (cases sel) (auto simp: toggle_selection_def Let_def list_all_iff)

lemma region_step_inv: "region_step st st' \<Longrightarrow> region_inv st \<Longrightarrow> region_inv st'"
proof (induction rule: region_step.induct)
  case (fetch st reply)
  show ?case
  proof (cases "r_loaded st \<or> reply = None \<or> r_selected st = None")
    case True
    with fetch show ?thesis by (auto simp: fetchRegions_def region_inv_def Let_def split: option.splits)
  next
    case False
    then obtain data s where d: "reply = Some data" "r_selected st = Some s" "\<not> r_loaded st" by auto
    with fetch have "distinct s" "list_all json_ok s" "list_all is_str s" by (auto simp: region_inv_def)
    with d show ?thesis
      unfolding fetchRegions_def Let_def by (auto intro!: region_inv_persist simp: list_all_iff)
  qed
next
  case (toggle st region)
  then have "region_inv (region_persist (st\<lparr>r_selected := toggle_selection region (obj_keys (r_regions st)) (r_selected st)\<rparr>))"
    using toggle_selection_ok by (intro region_inv_persist) (auto simp: region_inv_def)
  then show ?case by (simp add: toggleRegion_def Let_def region_inv_def)
next
  case (url cs st)
  then show ?case
    unfolding region_setSelected_def by (intro region_inv_persist) (auto simp: list_all_iff dest!: is_str_json_ok [unfolded list_all_iff, OF url(1) [unfolded list_all_iff], THEN bspec])
next
  case (reset st)
  then show ?case unfolding region_setSelected_def by (intro region_inv_persist) auto
next
  case (show_set st b)
  then show ?case
    using show_setting.save_other [of REGION_KEY b "r_ls st"] keys_differ
      region_setting.load_cong [of "show_save b (r_ls st)" "r_ls st"]
    by (simp add: showAllSet_def region_inv_def)
qed (simp_all add: region_inv_def region_onChange_def region_offChange_def showAllOnChange_def showAllOffChange_def)

lemma region_reachable_inv: "region_reachable st \<Longrightarrow> region_inv st"
proof (induction rule: region_reachable.induct)
  case (init ls)
  have "selection_ok (region_load ls)"
    using init is_str_json_ok by (auto simp: stored_codes_def region_load_def selection_ok_def split: option.splits jsval.splits if_splits)
  with init show ?case by (simp add: region_inv_def region_init_def stored_codes_def)
qed (rule region_step_inv)

text \<open>The codes a selection stands for.\<close>

definition effective :: "string list \<Rightarrow> jsval list option \<Rightarrow> string set" where
  "effective codes sel = (case sel of None \<Rightarrow> set codes | Some s \<Rightarrow> {c. JStr c \<in> set s})"

lemma effective_full:
  assumes "distinct s" "set s \<subseteq> JStr ` set codes" "distinct codes" "length s = length codes"
  shows "{c. JStr c \<in> set s} = set codes"
proof -
  have "card (JStr ` set codes) = length codes"
    using assms(3) by (simp add: card_image inj_on_def distinct_card)
  moreover have "card (set s) = length codes" using assms(1,4) by (simp add: distinct_card)
  ultimately have "set s = JStr ` set codes" using assms(2) by (intro card_subset_eq) auto
  then show ?thesis by auto
qed

lemma toggle_effective:
  assumes "region \<noteq> ''__all__''" "region \<in> set codes" "distinct codes"
    and "case sel of Some s \<Rightarrow> s \<noteq> [] \<and> distinct s \<and> set s \<subseteq> JStr ` set codes | None \<Rightarrow> True"
  shows "effective codes (toggle_selection region codes sel) =
    (if sel = None then {region}
     else let t = (if region \<in> effective codes sel then effective codes sel - {region} else insert region (effective codes sel))
          in if t = {} then set codes else t)"
proof -
  have full: "effective codes (if length s = length codes then None else Some s) = {c. JStr c \<in> set s}"
    if "distinct s" "set s \<subseteq> JStr ` set codes" for s
    using effective_full [OF that assms(3)] by (auto simp: effective_def)
  show ?thesis
  proof (cases sel)
    case None
    then show ?thesis using assms full [of "[JStr region]"] by (auto simp: toggle_selection_def Let_def)
  next
    case (Some s)
    then have s: "s \<noteq> []" "distinct s" "set s \<subseteq> JStr ` set codes" using assms(4) by auto
    have eff: "effective codes sel = {c. JStr c \<in> set s}" by (simp add: effective_def Some)
    show ?thesis
    proof (cases "JStr region \<in> set s")
      case True
      let ?s = "filter (\<lambda>v. v \<noteq> JStr region) s"
      have t: "effective codes sel - {region} = {c. JStr c \<in> set ?s}" using eff by auto
      have tog: "toggle_selection region codes sel =
          (if ?s = [] then None else if length ?s = length codes then None else Some ?s)"
        using assms(1) True by (simp add: toggle_selection_def Some Let_def)
      have emp: "?s = [] \<longleftrightarrow> {c. JStr c \<in> set ?s} = {}"
      proof
        assume "{c. JStr c \<in> set ?s} = {}"
        then have "JStr c \<notin> set ?s" for c by blast
        moreover have "\<exists>c. x = JStr c" if "x \<in> set ?s" for x using that s(3) by auto
        ultimately have "x \<notin> set ?s" for x by metis
        then have "set ?s = {}" by (simp only: ex_in_conv [symmetric] not_ex set_eq_iff empty_iff) simp
        then show "?s = []" by (simp only: set_empty)
      qed auto
      have eff': "effective codes (if length ?s = length codes then None else Some ?s) = {c. JStr c \<in> set ?s}"
        using s by (intro full) auto
      have reg: "region \<in> effective codes sel" "sel \<noteq> None" using True eff Some by simp_all
      have none: "effective codes None = set codes" by (simp add: effective_def)
      show ?thesis
      proof (cases "?s = []")
        case True
        show ?thesis
          unfolding tog if_P [OF True] if_not_P [OF reg(2)] if_P [OF reg(1)] t Let_def if_P [OF True [unfolded emp]] none ..
      next
        case False
        show ?thesis
          unfolding tog if_not_P [OF False] if_not_P [OF reg(2)] if_P [OF reg(1)] t Let_def if_not_P [OF False [unfolded emp]] eff' ..
      qed
    next
      case False
      have "set (s @ [JStr region]) \<subseteq> JStr ` set codes" using s assms(2) by auto
      with False s have "effective codes (if length (s @ [JStr region]) = length codes then None else Some (s @ [JStr region]))
          = {c. JStr c \<in> set (s @ [JStr region])}" by (intro full) auto
      moreover have "toggle_selection region codes sel =
          (if length (s @ [JStr region]) = length codes then None else Some (s @ [JStr region]))"
        using assms(1) False by (simp add: toggle_selection_def Some Let_def)
      ultimately show ?thesis using Some eff False by auto
    qed
  qed
qed

section \<open>The area filter\<close>

text \<open>
  In every reachable state the stored area is the selected one, and once the areas have been
  loaded a stored selection that survived is one of them, or was clicked since.
\<close>

lemma area_reachable_stored:
  "area_reachable st \<Longrightarrow> area_load (a_ls st) = (if a_selected st = Some [] then None else a_selected st)"
proof (induction rule: area_reachable.induct)
  case (init ls)
  show ?case by (auto simp: area_init_def area_load_def split: option.splits)
next
  case (step st st')
  from step(2,1,3) show ?case
    by (cases rule: area_step.cases)
      (auto simp: fetchAreas_def area_click_def area_onChange_def area_offChange_def Let_def
        area_setting.load_save area_save_def area_load_def obj_get_del obj_get_set split: option.splits if_splits)
qed

lemma fetchAreas_known:
  "\<not> a_loaded st \<Longrightarrow> a_selected (fetchAreas (Some (Some areas)) st) = Some v \<Longrightarrow> v \<noteq> [] \<Longrightarrow> v \<in> ar_key ` set areas"
  by (auto simp: fetchAreas_def Let_def list_ex_iff split: option.splits if_splits)

section \<open>Properties\<close>

text \<open>
  C23: The selected regions survive a reload.  In every state the page can reach, the selection is
  never an empty set, and loading it again from storage, as the next visit does, gives the same
  selection.
\<close>

theorem region_selection_persisted:
  "region_reachable st \<Longrightarrow> r_selected st \<noteq> Some [] \<and> r_selected (region_init (r_ls st)) = r_selected st"
  using region_reachable_inv [of st] by (auto simp: region_inv_def region_init_def)

definition demo_regions :: region_state where
  "demo_regions = toggleRegion ''SJC'' [''SJC'', ''SFO''] (fetchRegions (Some (Some [(''SJC'', []), (''SFO'', [])])) (region_init []))"

lemma demo_regions_reachable: "region_reachable demo_regions"
proof -
  have "stored_codes []" by (simp add: stored_codes_def region_load_def stored_json_def)
  then have "region_reachable (fetchRegions (Some (Some [(''SJC'', []), (''SFO'', [])])) (region_init []))"
    by (rule region_reachable.step [OF region_reachable.init region_step.fetch])
  from region_reachable.step [OF this region_step.toggle [of _ "''SJC''"]] show ?thesis
    by (simp add: demo_regions_def fetchRegions_def region_init_def region_load_def stored_json_def)
qed

theorem region_selection_persisted_witness:
  "r_selected (region_init (r_ls demo_regions)) = Some [JStr ''SJC'']"
  using region_selection_persisted [OF demo_regions_reachable]
  by (simp add: demo_regions_def toggleRegion_def toggle_selection_def fetchRegions_def region_init_def region_load_def
      stored_json_def region_persist_def Let_def)

text \<open>
  A click on a region does what the list shows.  With some regions selected, all of them known, it
  adds or removes the clicked one, and an empty result means all regions; with all regions shown it
  selects the clicked one alone.  The marks rendered afterwards are exactly the new selection, the
  selection is stored, and every listener is called once, in order, with it.
\<close>

theorem region_toggle:
  fixes st region
  assumes "region \<noteq> ''__all__''" "region \<in> set (obj_keys (r_regions st))" "obj_wf (r_regions st)" "region_inv st"
    and "case r_selected st of Some s \<Rightarrow> set s \<subseteq> JStr ` set (obj_keys (r_regions st)) | None \<Rightarrow> True"
  shows "let codes = obj_keys (r_regions st); st' = toggleRegion region codes st; old = effective codes (r_selected st);
             t = (if region \<in> old then old - {region} else insert region old)
         in set (filter (region_active st') codes) = (if r_selected st = None then {region} else if t = {} then set codes else t) \<and>
            region_load (r_ls st') = r_selected st' \<and>
            r_calls st' = r_calls st @ map (\<lambda>f. (f, region_getSelected st')) (r_listeners st)"
proof -
  let ?codes = "obj_keys (r_regions st)"
  let ?st' = "toggleRegion region ?codes st"
  have d: "distinct ?codes" using assms(3) by (simp add: obj_wf_def)
  have sel: "r_selected ?st' = toggle_selection region ?codes (r_selected st)"
    by (simp add: toggleRegion_def region_persist_def Let_def)
  have pre: "case r_selected st of Some s \<Rightarrow> s \<noteq> [] \<and> distinct s \<and> set s \<subseteq> JStr ` set ?codes | None \<Rightarrow> True"
    using assms(4,5) by (auto simp: region_inv_def split: option.splits)
  have eff: "effective ?codes (r_selected ?st') = (if r_selected st = None then {region}
     else let t = (if region \<in> effective ?codes (r_selected st) then effective ?codes (r_selected st) - {region}
                   else insert region (effective ?codes (r_selected st))) in if t = {} then set ?codes else t)"
    unfolding sel by (rule toggle_effective [OF assms(1,2) d pre])
  have "effective ?codes (r_selected st) \<subseteq> set ?codes"
    using assms(5) by (auto simp: effective_def split: option.splits)
  with assms(2) have "effective ?codes (r_selected ?st') \<subseteq> set ?codes"
    unfolding eff by (auto simp: Let_def)
  then have "set (filter (region_active ?st') ?codes) = effective ?codes (r_selected ?st')"
    by (auto simp: effective_def region_active_def split: option.splits)
  moreover have "region_load (r_ls ?st') = r_selected ?st'"
    using region_step_inv [OF region_step.toggle assms(4), of region] by (simp add: region_inv_def)
  moreover have "r_calls ?st' = r_calls st @ map (\<lambda>f. (f, region_getSelected ?st')) (r_listeners st)"
    by (simp add: toggleRegion_def region_persist_def region_getSelected_def Let_def)
  ultimately show ?thesis unfolding eff by (simp only: Let_def)
qed

theorem region_toggle_witness:
  "set (filter (region_active (toggleRegion ''SFO'' [''SJC'', ''SFO''] demo_regions)) [''SJC'', ''SFO'']) = {''SJC'', ''SFO''}"
proof -
  have r: "obj_keys (r_regions demo_regions) = [''SJC'', ''SFO'']" "r_selected demo_regions = Some [JStr ''SJC'']"
    by (simp_all add: demo_regions_def toggleRegion_def toggle_selection_def fetchRegions_def region_init_def region_load_def
      stored_json_def region_persist_def Let_def)
  have e: "effective [''SJC'', ''SFO''] (Some [JStr ''SJC'']) = {''SJC''}" by (auto simp: effective_def)
  have "set (filter (region_active (toggleRegion ''SFO'' [''SJC'', ''SFO''] demo_regions)) [''SJC'', ''SFO'']) =
     (if Some [JStr ''SJC''] = None then {''SFO''}
      else if (if ''SFO'' \<in> {''SJC''} then {''SJC''} - {''SFO''} else insert ''SFO'' {''SJC''}) = {} then set [''SJC'', ''SFO'']
      else (if ''SFO'' \<in> {''SJC''} then {''SJC''} - {''SFO''} else insert ''SFO'' {''SJC''}))"
    by (rule region_toggle [of "''SFO''" demo_regions, unfolded Let_def r e, THEN conjunct1])
      (simp_all add: obj_wf_def r region_reachable_inv [OF demo_regions_reachable])
  then show ?thesis by (simp add: insert_commute)
qed

end
