(* ===== verification/Live_Packets.thy ===== *)
theory Live_Packets
  imports Region_Filter
begin

text \<open>
  Packets on the live page: the cached parsers of \<^verbatim>\<open>src/public/packet-helpers.js\<close>, and from
  \<^verbatim>\<open>src/public/live.js\<close> the conversion of stored packets into buffer entries (synchronous and
  in chunks) and the region filter on packet groups.  A packet is a JavaScript object; a function that
  caches a result on it returns the updated object.  \<open>date_ms\<close> stands for
  \<^verbatim>\<open>new Date(v).getTime()\<close>, the date parser of the host.
\<close>

type_synonym packet = "jsval obj"

section \<open>Cached parsers\<close>

definition own :: "packet \<Rightarrow> string \<Rightarrow> jsval" where
  "own p k = table_get p k"

text \<open>\<^verbatim>\<open>try { x = JSON.parse(raw) || d } catch (e) { x = d }\<close>.\<close>

definition parse_or :: "string \<Rightarrow> jsval \<Rightarrow> jsval" where
  "parse_or raw d = (case json_parse raw of Some v \<Rightarrow> js_or v d | None \<Rightarrow> d)"

definition getParsedPath :: "packet \<Rightarrow> jsval \<times> packet" where
  "getParsedPath p =
     (if own p ''_parsedPath'' \<noteq> JUndef then (js_or (own p ''_parsedPath'') (JArr []), p)
      else let raw = own p ''path_json'';
               v = (case raw of JStr s \<Rightarrow> parse_or s (JArr []) | _ \<Rightarrow> if is_arr raw then raw else JArr [])
           in (v, obj_set p ''_parsedPath'' v))"

definition clearParsedCache :: "packet \<Rightarrow> packet" where
  "clearParsedCache p = obj_del (obj_del (obj_del p ''_parsedPath'') ''_parsedDecoded'') ''_parsedResolvedPath''"

definition getResolvedPath :: "packet \<Rightarrow> jsval \<times> packet" where
  "getResolvedPath p =
     (if own p ''_parsedResolvedPath'' \<noteq> JUndef then (own p ''_parsedResolvedPath'', p)
      else let raw = own p ''resolved_path'';
               v = (if \<not> truthy raw then JNull
                    else case raw of JStr s \<Rightarrow> parse_or s JNull | _ \<Rightarrow> if is_arr raw then raw else JNull)
           in (v, obj_set p ''_parsedResolvedPath'' v))"

definition getParsedDecoded :: "packet \<Rightarrow> jsval \<times> packet" where
  "getParsedDecoded p =
     (if own p ''_parsedDecoded'' \<noteq> JUndef then (js_or (own p ''_parsedDecoded'') (JObj []), p)
      else let raw = own p ''decoded_json'';
               v = (case raw of JStr s \<Rightarrow> parse_or s (JObj [])
                    | _ \<Rightarrow> if truthy raw \<and> is_object raw then raw else JObj [])
           in (v, obj_set p ''_parsedDecoded'' v))"

section \<open>Buffer entries\<close>

record vcr_entry =
  e_ts :: jsnum
  e_pkt :: packet

definition dbPacketToLive :: "(jsval \<Rightarrow> jsnum) \<Rightarrow> packet \<Rightarrow> packet" where
  "dbPacketToLive date_ms pkt =
     (let (raw, pkt1) = getParsedDecoded pkt;
          (hops, pkt2) = getParsedPath pkt1;
          typeName = js_or (js_prop raw ''type'') (js_or (own pkt2 ''payload_type_name'') (JStr ''UNKNOWN''))
      in [(''id'', own pkt2 ''id''), (''hash'', own pkt2 ''hash''), (''raw'', own pkt2 ''raw_hex''),
          (''path_json'', own pkt2 ''path_json''), (''resolved_path'', own pkt2 ''resolved_path''),
          (''_ts'', JNum (date_ms (js_or (own pkt2 ''timestamp'') (own pkt2 ''created_at'')))),
          (''decoded'', JObj [(''header'', JObj [(''payloadTypeName'', typeName)]), (''payload'', raw),
                              (''path'', JObj [(''hops'', hops)])]),
          (''snr'', own pkt2 ''snr''), (''rssi'', own pkt2 ''rssi''), (''observer'', own pkt2 ''observer_name''),
          (''observer_id'', own pkt2 ''observer_id''), (''observer_iata'', own pkt2 ''observer_iata'')])"

text \<open>\<^verbatim>\<open>Object.assign({}, p, obs, {hash, raw_hex, decoded_json})\<close>.\<close>

definition assign :: "packet \<Rightarrow> packet \<Rightarrow> packet" where
  "assign p q = foldl (\<lambda>ob (k, v). obj_set ob k v) p q"

definition with_observation :: "packet \<Rightarrow> packet \<Rightarrow> packet" where
  "with_observation p obs =
     assign (assign (assign [] p) obs)
       [(''hash'', own p ''hash''), (''raw_hex'', own p ''raw_hex''), (''decoded_json'', own p ''decoded_json'')]"

text \<open>The observations of a packet: the objects of a non-empty array.\<close>

fun as_obj :: "jsval \<Rightarrow> packet" where
  "as_obj (JObj ob) = ob"
| "as_obj _ = []"

definition observations :: "packet \<Rightarrow> packet list" where
  "observations p = (case own p ''observations'' of JArr os \<Rightarrow> map as_obj os | _ \<Rightarrow> [])"

definition packet_entries :: "(jsval \<Rightarrow> jsnum) \<Rightarrow> packet \<Rightarrow> vcr_entry list" where
  "packet_entries date_ms p =
     (if 0 < length (observations p) then
        map (\<lambda>obs. \<lparr>e_ts = date_ms (js_or (own obs ''timestamp'') (js_or (own p ''timestamp'') (own p ''created_at''))),
                    e_pkt = dbPacketToLive date_ms (with_observation p obs)\<rparr>) (observations p)
      else [\<lparr>e_ts = date_ms (js_or (own p ''timestamp'') (own p ''created_at'')), e_pkt = dbPacketToLive date_ms p\<rparr>])"

definition expandToBufferEntries :: "(jsval \<Rightarrow> jsnum) \<Rightarrow> packet list \<Rightarrow> vcr_entry list" where
  "expandToBufferEntries date_ms pkts = foldl (\<lambda>entries p. entries @ packet_entries date_ms p) [] pkts"

definition VCR_CHUNK_SIZE :: nat where "VCR_CHUNK_SIZE = 200"

text \<open>
  One run of \<^verbatim>\<open>processChunk\<close>: the entries so far and the index; then the chain of them, each
  scheduled by the one before until the index has reached the end.
\<close>

definition processChunk :: "(jsval \<Rightarrow> jsnum) \<Rightarrow> packet list \<Rightarrow> nat \<times> vcr_entry list \<Rightarrow> nat \<times> vcr_entry list" where
  "processChunk date_ms pkts st =
     (case st of (i, entries) \<Rightarrow>
        (let to = min (i + VCR_CHUNK_SIZE) (length pkts)
         in (max i to, foldl (\<lambda>es p. es @ packet_entries date_ms p) entries (drop i (take to pkts)))))"

function expandAsync_from :: "(jsval \<Rightarrow> jsnum) \<Rightarrow> packet list \<Rightarrow> nat \<times> vcr_entry list \<Rightarrow> vcr_entry list" where
  "expandAsync_from date_ms pkts st =
     (let st' = processChunk date_ms pkts st
      in if fst st' < length pkts then expandAsync_from date_ms pkts st' else snd st')"
  by pat_completeness auto
termination
  by (relation "measure (\<lambda>(_, pkts, st). length pkts - fst st)")
    (auto simp: processChunk_def VCR_CHUNK_SIZE_def Let_def split: prod.splits)

definition expandToBufferEntriesAsync :: "(jsval \<Rightarrow> jsnum) \<Rightarrow> packet list \<Rightarrow> vcr_entry list" where
  "expandToBufferEntriesAsync date_ms pkts = expandAsync_from date_ms pkts (0, [])"

text \<open>\<^verbatim>\<open>packetTimestamp\<close>; \<open>now\<close> is \<^verbatim>\<open>Date.now()\<close>.\<close>

definition packetTimestamp :: "(jsval \<Rightarrow> jsnum) \<Rightarrow> rat \<Rightarrow> packet \<Rightarrow> jsnum" where
  "packetTimestamp date_ms now p = date_ms (js_or (own p ''timestamp'') (js_or (own p ''created_at'') (JNum (Fin now))))"

section \<open>The region filter on packet groups\<close>

definition packetMatchesRegion :: "packet list \<Rightarrow> jsval obj \<Rightarrow> jsval list option \<Rightarrow> bool" where
  "packetMatchesRegion packets obsMap selected =
     (case selected of
        None \<Rightarrow> True
      | Some s \<Rightarrow>
          if length s = 0 then True
          else if length packets = 0 then False
          else let sel = map (\<lambda>v. toUpperCase (js_String v)) s
               in list_ex (\<lambda>p.
                    (let oid = own p ''observer_id'' in
                     if nullish oid then False
                     else let iata = table_get obsMap (js_String oid) in
                          if \<not> truthy iata then False else toUpperCase (js_String iata) \<in> set sel)) packets)"

definition add_observer :: "jsval obj \<Rightarrow> jsval \<Rightarrow> jsval obj" where
  "add_observer m o' =
     (if truthy o' \<and> \<not> nullish (js_prop o' ''id'') \<and> truthy (js_prop o' ''iata'')
      then set_param m (js_String (js_prop o' ''id'')) (js_prop o' ''iata'') else m)"

definition buildObserverIataMap :: "jsval \<Rightarrow> jsval obj" where
  "buildObserverIataMap data =
     (let lst = (case data of JArr xs \<Rightarrow> Some xs
                 | _ \<Rightarrow> if truthy data then (case js_prop data ''observers'' of JArr xs \<Rightarrow> Some xs | _ \<Rightarrow> None) else None)
      in case lst of None \<Rightarrow> [] | Some xs \<Rightarrow> foldl add_observer [] xs)"

section \<open>Chunking does not change the entries\<close>

lemma foldl_append_concat: "foldl (\<lambda>es p. es @ f p) acc xs = acc @ concat (map f xs)"
  by (induction xs arbitrary: acc) auto

lemma expandToBufferEntries_concat: "expandToBufferEntries date_ms pkts = concat (map (packet_entries date_ms) pkts)"
  by (simp add: expandToBufferEntries_def foldl_append_concat)

declare expandAsync_from.simps [simp del]

lemma expandAsync_from_eq:
  "i \<le> length pkts \<Longrightarrow> expandAsync_from date_ms pkts (i, es) = es @ concat (map (packet_entries date_ms) (drop i pkts))"
proof (induction date_ms pkts "(i, es)" arbitrary: i es rule: expandAsync_from.induct)
  case (1 date_ms pkts i es)
  define to where "to = min (i + VCR_CHUNK_SIZE) (length pkts)"
  have to: "i \<le> to" "to \<le> length pkts" using "1.prems" by (auto simp: to_def)
  let ?es = "es @ concat (map (packet_entries date_ms) (drop i (take to pkts)))"
  have step: "processChunk date_ms pkts (i, es) = (to, ?es)"
    using to by (simp add: processChunk_def to_def [symmetric] foldl_append_concat Let_def max_def)
  have "take to pkts @ drop to pkts = pkts" by simp
  then have "drop i pkts = drop i (take to pkts) @ drop to pkts"
    using to by (metis append_take_drop_id drop_append drop_drop drop_eq_Nil diff_is_0_eq length_take min.absorb2 drop0)
  then have whole: "concat (map (packet_entries date_ms) (drop i pkts)) =
      concat (map (packet_entries date_ms) (drop i (take to pkts))) @ concat (map (packet_entries date_ms) (drop to pkts))"
    by simp
  show ?case
  proof (cases "to < length pkts")
    case True
    from "1.hyps" [OF step [symmetric]] True to have "expandAsync_from date_ms pkts (to, ?es) =
        ?es @ concat (map (packet_entries date_ms) (drop to pkts))" by (simp add: step)
    with True whole show ?thesis
      by (subst expandAsync_from.simps) (simp add: step)
  next
    case False
    with to have "drop to pkts = []" by simp
    with False whole show ?thesis by (subst expandAsync_from.simps) (simp add: step)
  qed
qed

lemma expandAsync_eq: "expandToBufferEntriesAsync date_ms pkts = expandToBufferEntries date_ms pkts"
  by (simp add: expandToBufferEntriesAsync_def expandAsync_from_eq expandToBufferEntries_concat)

lemma packet_entries_length:
  "length (packet_entries date_ms p) = max 1 (length (observations p))"
  by (cases "observations p") (auto simp: packet_entries_def)

section \<open>The observer of an entry\<close>

lemma own_set_other: "k \<noteq> k' \<Longrightarrow> own (obj_set p k' v) k = own p k"
  by (simp add: own_def table_get_def obj_get_set)

lemma own_getParsedDecoded: "k \<noteq> ''_parsedDecoded'' \<Longrightarrow> own (snd (getParsedDecoded p)) k = own p k"
  by (simp add: getParsedDecoded_def Let_def own_set_other)

lemma own_getParsedPath: "k \<noteq> ''_parsedPath'' \<Longrightarrow> own (snd (getParsedPath p)) k = own p k"
  by (simp add: getParsedPath_def Let_def own_set_other)

lemma live_observer: "own (dbPacketToLive date_ms p) ''observer_id'' = own p ''observer_id''"
proof -
  obtain r p1 where 1: "getParsedDecoded p = (r, p1)" by (cases "getParsedDecoded p")
  obtain h p2 where 2: "getParsedPath p1 = (h, p2)" by (cases "getParsedPath p1")
  have "own p2 ''observer_id'' = own p ''observer_id''"
    using own_getParsedDecoded [of "''observer_id''" p] own_getParsedPath [of "''observer_id''" p1] by (simp add: 1 2)
  then show ?thesis by (simp add: dbPacketToLive_def 1 2 own_def table_get_def)
qed

lemma own_assign:
  "obj_wf q \<Longrightarrow> own (assign p q) k = (case obj_get q k of Some v \<Rightarrow> v | None \<Rightarrow> own p k)"
proof (induction q arbitrary: p)
  case (Cons kv q)
  obtain a b where kv: "kv = (a, b)" by (cases kv)
  have "obj_wf q" "obj_get q a = None" using Cons.prems by (auto simp: kv obj_wf_def map_of_eq_None_iff)
  then show ?case
    using Cons.IH [of "obj_set p a b"]
    by (auto simp: kv assign_def own_def table_get_def obj_get_set split: option.splits)
qed (simp add: assign_def)

definition observer_of :: "packet \<Rightarrow> packet \<Rightarrow> jsval" where
  "observer_of p obs = (case obj_get obs ''observer_id'' of Some v \<Rightarrow> v | None \<Rightarrow> own p ''observer_id'')"

lemma with_observation_observer:
  assumes "obj_wf p" "obj_wf obs"
  shows "own (with_observation p obs) ''observer_id'' = observer_of p obs"
proof -
  have "own (assign [] p) ''observer_id'' = own p ''observer_id''"
    using own_assign [OF assms(1), of "[]"] by (simp add: own_def table_get_def object_proto_def split: option.split)
  moreover have "obj_wf [(''hash'', own p ''hash''), (''raw_hex'', own p ''raw_hex''), (''decoded_json'', own p ''decoded_json'')]"
    by (simp add: obj_wf_def)
  from own_assign [OF this] have "own (with_observation p obs) ''observer_id'' = own (assign (assign [] p) obs) ''observer_id''"
    by (simp add: with_observation_def)
  ultimately show ?thesis
    using own_assign [OF assms(2), of "assign [] p" "''observer_id''"] by (simp only: observer_of_def)
qed

text \<open>The observers a stored packet was heard by.\<close>

definition packet_observers :: "packet \<Rightarrow> jsval list" where
  "packet_observers p = (if observations p = [] then [own p ''observer_id''] else map (observer_of p) (observations p))"

lemma entries_observers:
  assumes "obj_wf p" "list_all obj_wf (observations p)"
  shows "map (\<lambda>e. own (e_pkt e) ''observer_id'') (packet_entries date_ms p) = packet_observers p"
  using assms by (auto simp: packet_entries_def packet_observers_def live_observer list_all_iff with_observation_observer)

definition in_region :: "jsval obj \<Rightarrow> jsval list \<Rightarrow> jsval \<Rightarrow> bool" where
  "in_region m sel oid = (\<not> nullish oid \<and> truthy (table_get m (js_String oid)) \<and>
     toUpperCase (js_String (table_get m (js_String oid))) \<in> (\<lambda>v. toUpperCase (js_String v)) ` set sel)"

lemma packetMatchesRegion_iff:
  "sel \<noteq> [] \<Longrightarrow> packetMatchesRegion packets m (Some sel) \<longleftrightarrow> (\<exists>p\<in>set packets. in_region m sel (own p ''observer_id''))"
  by (auto simp: packetMatchesRegion_def in_region_def list_ex_iff Let_def)

section \<open>Properties\<close>

text \<open>
  C24: Chunking does not change the result.  The entries built in chunks of 200 packets, with a return to
  the event loop between chunks, are those of the synchronous version, for any number of packets, and
  every packet gives one entry per observation and one when it has none.
\<close>

theorem chunked_expansion:
  "expandToBufferEntriesAsync date_ms pkts = expandToBufferEntries date_ms pkts \<and>
   length (expandToBufferEntries date_ms pkts) = sum_list (map (\<lambda>p. max 1 (length (observations p))) pkts)"
  by (simp add: expandAsync_eq) (simp add: expandToBufferEntries_concat length_concat packet_entries_length comp_def)

text \<open>
  The region filter works on replayed packets.  A group expanded from stored packets passes
  the filter for a selection exactly when one of the observers of one of the packets is mapped to
  a selected region (compared without regard to case); with no selection every group passes.
\<close>

theorem replay_region_filter:
  assumes "\<forall>p\<in>set pkts. obj_wf p \<and> list_all obj_wf (observations p)"
  shows "packetMatchesRegion (map e_pkt (expandToBufferEntries date_ms pkts)) m (region_getSelected st) \<longleftrightarrow>
    (case region_getSelected st of None \<Rightarrow> True
     | Some sel \<Rightarrow> \<exists>p\<in>set pkts. \<exists>oid\<in>set (packet_observers p). in_region m sel oid)"
proof (cases "region_getSelected st")
  case (Some sel)
  then have sel: "sel \<noteq> []" by (auto simp: region_getSelected_def split: option.splits if_splits)
  have "(\<lambda>e. own (e_pkt e) ''observer_id'') ` set (packet_entries date_ms p) = set (packet_observers p)"
    if "p \<in> set pkts" for p
    using assms that by (simp only: set_map [symmetric] entries_observers)
  note obs = this
  have grp: "set (map e_pkt (expandToBufferEntries date_ms pkts)) = (\<Union>p\<in>set pkts. e_pkt ` set (packet_entries date_ms p))"
    by (auto simp: expandToBufferEntries_concat)
  have "(\<exists>q\<in>set (map e_pkt (expandToBufferEntries date_ms pkts)). in_region m sel (own q ''observer_id'')) \<longleftrightarrow>
      (\<exists>p\<in>set pkts. \<exists>oid\<in>(\<lambda>e. own (e_pkt e) ''observer_id'') ` set (packet_entries date_ms p). in_region m sel oid)"
    unfolding grp by (simp only: bex_UN bex_simps)
  also have "\<dots> \<longleftrightarrow> (\<exists>p\<in>set pkts. \<exists>oid\<in>set (packet_observers p). in_region m sel oid)"
    by (rule bex_cong [OF refl]) (simp only: obs)
  finally show ?thesis unfolding Some option.case packetMatchesRegion_iff [OF sel] .
qed (simp add: packetMatchesRegion_def)

definition demo_packet :: packet where
  "demo_packet = [(''hash'', JStr ''ab''), (''observations'', JArr [JObj [(''observer_id'', JStr ''o1'')]])]"

theorem replay_region_filter_witness:
  "packetMatchesRegion (map e_pkt (expandToBufferEntries (\<lambda>_. Fin 0) [demo_packet]))
     (buildObserverIataMap (JObj [(''observers'', JArr [JObj [(''id'', JStr ''o1''), (''iata'', JStr ''sjc'')]])]))
     (region_getSelected demo_regions)"
proof -
  have s: "region_getSelected demo_regions = Some [JStr ''SJC'']"
    by (simp add: region_getSelected_def demo_regions_def toggleRegion_def toggle_selection_def fetchRegions_def region_init_def
        region_load_def stored_json_def region_persist_def Let_def)
  have m: "buildObserverIataMap (JObj [(''observers'', JArr [JObj [(''id'', JStr ''o1''), (''iata'', JStr ''sjc'')]])]) =
      [(''o1'', JStr ''sjc'')]"
    by (simp add: buildObserverIataMap_def add_observer_def js_prop_def table_get_def set_param_def)
  have o: "observations demo_packet = [[(''observer_id'', JStr ''o1'')]]"
    by (simp add: observations_def demo_packet_def own_def table_get_def)
  have "in_region [(''o1'', JStr ''sjc'')] [JStr ''SJC''] (JStr ''o1'')"
    by code_simp
  moreover have "JStr ''o1'' \<in> set (packet_observers demo_packet)"
    by (simp add: packet_observers_def o observer_of_def)
  moreover have "\<forall>p\<in>set [demo_packet]. obj_wf p \<and> list_all obj_wf (observations p)"
    by (simp add: o obj_wf_def) (simp add: demo_packet_def)
  ultimately show ?thesis
    using replay_region_filter [of "[demo_packet]" "\<lambda>_. Fin 0" "[(''o1'', JStr ''sjc'')]" demo_regions] unfolding m s by auto
qed

end
