(* ===== verification/Live_Vcr.thy ===== *)
theory Live_Vcr
  imports Live_Packets "HOL-Library.Multiset"
begin

text \<open>
  The recorder of the live page: the state machine LIVE, PAUSED, REPLAY of \<^verbatim>\<open>src/public/live.js\<close>,
  its packet buffer, the replay timer, the requests in flight with their generation, and the timeline.
  The state is the object \<^verbatim>\<open>VCR\<close> with the module variables its handlers use.  A promise chain in flight is
  an element of \<open>v_pending\<close>: it is answered, fails, or finishes expanding its packets at any later time.
  The replay timer is the closure it will run (groups and index).  Packets given to
  \<^verbatim>\<open>renderPacketTree\<close> are recorded in \<open>v_rendered\<close>; drawing itself, the map layers and the node list are not modelled.
\<close>

section \<open>State\<close>

datatype vcr_mode = LIVE | PAUSED | REPLAY

record vcr_group =
  g_packets :: "packet list"
  g_ts :: jsnum

datatype vcr_kind = FromTs | Rewind | NextPage

datatype vcr_request =
    AwaitReply vcr_kind nat
  | Expanding vcr_kind nat "vcr_entry list"
  | NoMore

record vcr =
  v_mode :: vcr_mode
  v_buffer :: "vcr_entry list"
  v_playhead :: int
  v_missed :: nat
  v_speed :: rat
  v_timer_set :: bool
  v_armed :: "(vcr_group list \<times> nat) option"
  v_scope :: rat
  v_timestamps :: "jsnum list"
  v_fetched_scope :: rat
  v_gen :: nat
  v_frozen :: "rat option"
  v_scrubTs :: "rat option"
  v_dragging :: bool
  v_dragPct :: "rat option"
  v_pending :: "vcr_request list"
  v_rendered :: "packet list list"
  v_delay :: rat
  v_hidden :: bool
  v_suppress :: bool
  v_realistic :: bool
  v_propagation :: "packet list obj"
  v_ls :: "string obj"

definition vcr_speeds :: "rat list" where
  "vcr_speeds = [1/4, 1/2, 1, 2, 4, 8]"

text \<open>The stored speed when it is one of the list; the page gets it when it is left (below), not at its start.\<close>

definition initialSpeed :: "string obj \<Rightarrow> rat" where
  "initialSpeed ls =
     (case obj_get ls ''live-vcr-speed'' of
        None \<Rightarrow> 1
      | Some t \<Rightarrow> (case parseFloat t of Fin q \<Rightarrow> if q \<in> set vcr_speeds then q else 1 | _ \<Rightarrow> 1))"

definition vcr_init :: "bool \<Rightarrow> string obj \<Rightarrow> vcr" where
  "vcr_init realistic ls =
     \<lparr>v_mode = LIVE, v_buffer = [], v_playhead = -1, v_missed = 0, v_speed = 1, v_timer_set = False,
      v_armed = None, v_scope = 3600000, v_timestamps = [], v_fetched_scope = 0, v_gen = 0, v_frozen = None,
      v_scrubTs = None, v_dragging = False, v_dragPct = Some 0, v_pending = [], v_rendered = [], v_delay = 0,
      v_hidden = False, v_suppress = False, v_realistic = realistic, v_propagation = [], v_ls = ls\<rparr>"

section \<open>Modes\<close>

definition vcrSetMode :: "rat \<Rightarrow> vcr_mode \<Rightarrow> vcr \<Rightarrow> vcr" where
  "vcrSetMode now mode st =
     st\<lparr>v_mode := mode,
        v_frozen := (if mode = LIVE then None else case v_frozen st of None \<Rightarrow> Some now | Some t \<Rightarrow> Some t)\<rparr>"

definition stopReplay :: "vcr \<Rightarrow> vcr" where
  "stopReplay st = (if v_timer_set st then st\<lparr>v_timer_set := False, v_armed := None\<rparr> else st)"

definition vcrPause :: "rat \<Rightarrow> vcr \<Rightarrow> vcr" where
  "vcrPause now st =
     (if v_mode st = PAUSED then st else vcrSetMode now PAUSED ((stopReplay st)\<lparr>v_missed := 0\<rparr>))"

definition vcrResumeLive :: "rat \<Rightarrow> vcr \<Rightarrow> vcr" where
  "vcrResumeLive now st =
     (let st1 = stopReplay st
      in vcrSetMode now LIVE
           (st1\<lparr>v_gen := v_gen st1 + 1, v_playhead := -1, v_speed := 1, v_missed := 0, v_dragPct := None, v_scrubTs := None\<rparr>))"

definition vcrReplayFromTs :: "rat \<Rightarrow> rat \<Rightarrow> vcr \<Rightarrow> vcr" where
  "vcrReplayFromTs now targetTs st =
     (let st1 = stopReplay st; gen = v_gen st1 + 1;
          st2 = vcrSetMode now REPLAY (st1\<lparr>v_gen := gen\<rparr>)
      in st2\<lparr>v_pending := v_pending st2 @ [AwaitReply FromTs gen]\<rparr>)"

definition vcrUnpause :: "rat \<Rightarrow> vcr \<Rightarrow> vcr" where
  "vcrUnpause now st =
     (if v_mode st \<noteq> PAUSED then st
      else case v_scrubTs st of Some ts \<Rightarrow> vcrReplayFromTs now ts st | None \<Rightarrow> vcrResumeLive now st)"

definition vcrRewind :: "vcr \<Rightarrow> vcr" where
  "vcrRewind st =
     (let st1 = stopReplay st; gen = v_gen st1 + 1
      in st1\<lparr>v_gen := gen, v_pending := v_pending st1 @ [AwaitReply Rewind gen]\<rparr>)"

section \<open>Replay\<close>

text \<open>The groups of the buffer by hash, in order of first appearance, then sorted by time (time stamps are numbers).\<close>

definition entry_hash :: "vcr_entry \<Rightarrow> string option" where
  "entry_hash e = (let h = own (e_pkt e) ''hash'' in if truthy h then Some (js_String h) else None)"

definition add_entry :: "vcr_group obj \<Rightarrow> vcr_entry \<Rightarrow> vcr_group obj" where
  "add_entry groups e =
     (let hash = (case entry_hash e of Some h \<Rightarrow> h | None \<Rightarrow> ''nohash-'' @ nat_to_dec (length groups))
      in case obj_get groups hash of
           Some g \<Rightarrow> obj_set groups hash
             \<lparr>g_packets = g_packets g @ [e_pkt e], g_ts = (if num_less (g_ts g) (e_ts e) then e_ts e else g_ts g)\<rparr>
         | None \<Rightarrow> obj_set groups hash \<lparr>g_packets = [e_pkt e], g_ts = e_ts e\<rparr>)"

fun ts_value :: "jsnum \<Rightarrow> rat" where
  "ts_value (Fin q) = q"
| "ts_value _ = 0"

text \<open>
  No time stamp of the buffer is \<^verbatim>\<open>NaN\<close>: the comparator of the source would be inconsistent on it, where
  \<open>ts_value\<close> takes it for 0.
\<close>

definition replay_groups :: "vcr_entry list \<Rightarrow> vcr_group list" where
  "replay_groups buffer = sort_key (\<lambda>g. ts_value (g_ts g)) (map snd (foldl add_entry [] buffer))"

text \<open>One tick: the next group and the next timer, or, after the last group, the request for the next page.\<close>

definition tick_delay :: "vcr_group list \<Rightarrow> nat \<Rightarrow> rat \<Rightarrow> rat" where
  "tick_delay groups i speed =
     (if i + 1 < length groups
      then min 2000 (max 100 (ts_value (g_ts (groups ! (i + 1))) - ts_value (g_ts (groups ! i)))) / speed
      else 300)"

definition fetchNextReplayPage :: "vcr \<Rightarrow> vcr" where
  "fetchNextReplayPage st =
     (if v_buffer st = [] then st\<lparr>v_pending := v_pending st @ [NoMore]\<rparr>
      else st\<lparr>v_pending := v_pending st @ [AwaitReply NextPage (v_gen st)]\<rparr>)"

definition tick :: "vcr_group list \<Rightarrow> nat \<Rightarrow> vcr \<Rightarrow> vcr" where
  "tick groups i st =
     (if v_mode st \<noteq> REPLAY then st
      else if length groups \<le> i then fetchNextReplayPage st
      else let group = groups ! i in
           st\<lparr>v_rendered := v_rendered st @ [g_packets group],
              v_playhead := min (int (length (v_buffer st))) (v_playhead st + int (length (g_packets group))),
              v_delay := tick_delay groups i (v_speed st),
              v_timer_set := True, v_armed := Some (groups, i + 1)\<rparr>)"

definition startReplay :: "vcr \<Rightarrow> vcr" where
  "startReplay st = (let st1 = stopReplay st in tick (replay_groups (v_buffer st1)) 0 st1)"

text \<open>The timer fires; \<^verbatim>\<open>VCR.replayTimer\<close> keeps its number.\<close>

definition timer_fires :: "vcr \<Rightarrow> vcr" where
  "timer_fires st =
     (case v_armed st of None \<Rightarrow> st | Some (groups, i) \<Rightarrow> tick groups i (st\<lparr>v_armed := None\<rparr>))"

definition vcrReplayMissed :: "rat \<Rightarrow> vcr \<Rightarrow> vcr" where
  "vcrReplayMissed now st =
     startReplay (vcrSetMode now REPLAY
       (st\<lparr>v_playhead := max 0 (int (length (v_buffer st)) - int (v_missed st)), v_missed := 0, v_speed := 2\<rparr>))"

fun index_in :: "'a list \<Rightarrow> 'a \<Rightarrow> nat option" where
  "index_in [] x = None"
| "index_in (y # ys) x = (if y = x then Some 0 else map_option Suc (index_in ys x))"

definition next_speed :: "rat \<Rightarrow> rat" where
  "next_speed s = vcr_speeds ! ((case index_in vcr_speeds s of Some i \<Rightarrow> i + 1 | None \<Rightarrow> 0) mod length vcr_speeds)"

definition vcrSpeedCycle :: "vcr \<Rightarrow> vcr" where
  "vcrSpeedCycle st =
     (let s = next_speed (v_speed st);
          st1 = st\<lparr>v_speed := s, v_ls := obj_set (v_ls st) ''live-vcr-speed'' (rat_to_string s)\<rparr>
      in if v_mode st1 = REPLAY \<and> v_timer_set st1 then startReplay (stopReplay st1) else st1)"

text \<open>
  Leaving the page (\<^verbatim>\<open>destroy\<close>); \<open>ls\<close> is the storage when the script was loaded.  The requests in
  flight stay in flight although the generation starts again at 0, so the steps below are those of one visit.
\<close>

definition vcr_destroy :: "string obj \<Rightarrow> vcr \<Rightarrow> vcr" where
  "vcr_destroy ls st =
     (stopReplay st)\<lparr>v_buffer := [], v_playhead := -1, v_mode := LIVE, v_missed := 0, v_speed := initialSpeed ls, v_gen := 0\<rparr>"

section \<open>Requests in flight\<close>

definition drop_request :: "vcr_request \<Rightarrow> vcr \<Rightarrow> vcr" where
  "drop_request r st = st\<lparr>v_pending := remove1 r (v_pending st)\<rparr>"

text \<open>
  The reply with its packets arrives.  A rewind leaves out the packets whose number is in the
  buffer now; an empty page ends the replay; everything else goes on to expand its packets.
\<close>

definition buffer_ids :: "vcr \<Rightarrow> jsval list" where
  "buffer_ids st = filter truthy (map (\<lambda>e. own (e_pkt e) ''id'') (v_buffer st))"

definition request_replied :: "(jsval \<Rightarrow> jsnum) \<Rightarrow> rat \<Rightarrow> vcr_kind \<Rightarrow> nat \<Rightarrow> packet list \<Rightarrow> vcr \<Rightarrow> vcr" where
  "request_replied date_ms now k gen pkts st =
     (let st1 = drop_request (AwaitReply k gen) st in
      case k of
        FromTs \<Rightarrow> st1\<lparr>v_pending := v_pending st1 @ [Expanding FromTs gen (expandToBufferEntriesAsync date_ms pkts)]\<rparr>
      | Rewind \<Rightarrow>
          (let fresh = filter (\<lambda>p. own p ''id'' \<notin> set (buffer_ids st)) (rev pkts)
           in st1\<lparr>v_pending := v_pending st1 @ [Expanding Rewind gen (expandToBufferEntriesAsync date_ms fresh)]\<rparr>)
      | NextPage \<Rightarrow>
          if length pkts = 0 then vcrResumeLive now st1
          else st1\<lparr>v_pending := v_pending st1 @ [Expanding NextPage gen (expandToBufferEntriesAsync date_ms pkts)]\<rparr>)"

text \<open>The request or its decoding fails: the three \<^verbatim>\<open>catch\<close> clauses.\<close>

definition request_failed :: "rat \<Rightarrow> vcr_kind \<Rightarrow> nat \<Rightarrow> vcr \<Rightarrow> vcr" where
  "request_failed now k gen st =
     (let st1 = drop_request (AwaitReply k gen) st
      in case k of FromTs \<Rightarrow> vcrResumeLive now st1 | Rewind \<Rightarrow> st1 | NextPage \<Rightarrow> vcrResumeLive now st1)"

text \<open>The packets have been expanded: the last step of each chain, with its test of the generation.\<close>

definition request_expanded :: "rat \<Rightarrow> vcr_kind \<Rightarrow> nat \<Rightarrow> vcr_entry list \<Rightarrow> vcr \<Rightarrow> vcr" where
  "request_expanded now k gen entries st =
     (let st1 = drop_request (Expanding k gen entries) st in
      case k of
        FromTs \<Rightarrow>
          if gen \<noteq> v_gen st1 then st1
          else if length entries = 0 then vcrSetMode now PAUSED st1
          else startReplay (st1\<lparr>v_buffer := entries, v_playhead := 0, v_scrubTs := None, v_dragPct := None\<rparr>)
      | Rewind \<Rightarrow>
          if gen \<noteq> v_gen st1 then st1
          else startReplay (vcrSetMode now REPLAY (st1\<lparr>v_buffer := entries @ v_buffer st1, v_playhead := 0, v_speed := 1\<rparr>))
      | NextPage \<Rightarrow>
          if gen \<noteq> v_gen st1 then vcrResumeLive now st1
          else vcrResumeLive now (st1\<lparr>v_buffer := v_buffer st1 @ entries\<rparr>))"

definition no_more_page :: "rat \<Rightarrow> vcr \<Rightarrow> vcr" where
  "no_more_page now st = vcrResumeLive now (drop_request NoMore st)"

section \<open>Packets from the network\<close>

definition push_entry :: "vcr_entry \<Rightarrow> vcr \<Rightarrow> vcr" where
  "push_entry e st =
     (let buffer = v_buffer st @ [e] in
      if 2000 < length buffer then
        st\<lparr>v_buffer := drop 500 buffer,
           v_playhead := (if 0 \<le> v_playhead st then max 0 (v_playhead st - 500) else v_playhead st)\<rparr>
      else st\<lparr>v_buffer := buffer\<rparr>)"

definition bufferPacket :: "(jsval \<Rightarrow> jsnum) \<Rightarrow> rat \<Rightarrow> packet \<Rightarrow> vcr \<Rightarrow> vcr" where
  "bufferPacket date_ms now pkt0 st =
     (let ts = packetTimestamp date_ms now pkt0;
          pkt = obj_set pkt0 ''_ts'' (JNum ts);
          st1 = push_entry \<lparr>e_ts = ts, e_pkt = pkt\<rparr> st
      in case v_mode st1 of
           LIVE \<Rightarrow>
             if v_hidden st1 then st1
             else if v_suppress st1 then st1
             else let hash = own pkt ''hash'' in
                  if v_realistic st1 \<and> truthy hash then
                    (case obj_get (v_propagation st1) (js_String hash) of
                       Some ps \<Rightarrow> st1\<lparr>v_propagation := obj_set (v_propagation st1) (js_String hash) (ps @ [pkt])\<rparr>
                     | None \<Rightarrow> st1\<lparr>v_propagation := obj_set (v_propagation st1) (js_String hash) [pkt]\<rparr>)
                  else st1\<lparr>v_rendered := v_rendered st1 @ [[pkt]]\<rparr>
         | PAUSED \<Rightarrow> st1\<lparr>v_missed := v_missed st1 + 1\<rparr>
         | REPLAY \<Rightarrow> st1)"

text \<open>The timer of a propagation buffer, and the handler of \<^verbatim>\<open>visibilitychange\<close>.\<close>

definition propagation_fires :: "string \<Rightarrow> vcr \<Rightarrow> vcr" where
  "propagation_fires hash st =
     (case obj_get (v_propagation st) hash of
        None \<Rightarrow> st
      | Some ps \<Rightarrow> st\<lparr>v_propagation := obj_del (v_propagation st) hash, v_rendered := v_rendered st @ [ps]\<rparr>)"

definition visibility_change :: "bool \<Rightarrow> vcr \<Rightarrow> vcr" where
  "visibility_change hidden st =
     (if hidden then st\<lparr>v_hidden := True\<rparr> else st\<lparr>v_hidden := False, v_propagation := []\<rparr>)"

section \<open>Buttons and the timeline\<close>

definition pause_button :: "rat \<Rightarrow> vcr \<Rightarrow> vcr" where
  "pause_button now st =
     (if v_mode st = PAUSED then vcrUnpause now st
      else if v_mode st = REPLAY then vcrSetMode now PAUSED (stopReplay st)
      else vcrPause now st)"

definition clamp01 :: "rat \<Rightarrow> rat" where
  "clamp01 x = max 0 (min 1 x)"

text \<open>\<open>x\<close> is the position of the pointer as a share of the width of the timeline.\<close>

definition scrubVisual :: "rat \<Rightarrow> vcr \<Rightarrow> vcr" where
  "scrubVisual x st = st\<lparr>v_dragPct := Some (clamp01 x)\<rparr>"

definition scrub_start :: "rat \<Rightarrow> rat \<Rightarrow> vcr \<Rightarrow> vcr" where
  "scrub_start now x st =
     (let st1 = stopReplay (st\<lparr>v_dragging := True, v_scrubTs := None\<rparr>)
      in scrubVisual x (st1\<lparr>v_frozen := (case v_frozen st1 of None \<Rightarrow> Some now | Some t \<Rightarrow> Some t)\<rparr>))"

definition scrub_move :: "rat \<Rightarrow> vcr \<Rightarrow> vcr" where
  "scrub_move x st = (if \<not> v_dragging st then st else scrubVisual x st)"

definition pct_value :: "vcr \<Rightarrow> rat" where
  "pct_value st = (case v_dragPct st of Some p \<Rightarrow> p | None \<Rightarrow> 0)"

definition scrubRelease :: "rat \<Rightarrow> vcr \<Rightarrow> vcr" where
  "scrubRelease now st =
     (if \<not> v_dragging st then st
      else let targetTs = now - v_scope st + pct_value st * v_scope st
           in vcrReplayFromTs now targetTs (st\<lparr>v_dragging := False, v_frozen := Some now, v_scrubTs := Some targetTs\<rparr>))"

definition timeline_now :: "rat \<Rightarrow> vcr \<Rightarrow> rat" where
  "timeline_now now st = (case v_frozen st of Some t \<Rightarrow> t | None \<Rightarrow> now)"

definition timeline_stamps :: "rat \<Rightarrow> vcr \<Rightarrow> jsnum list" where
  "timeline_stamps now st =
     (let startTs = timeline_now now st - v_scope st
      in filter (\<lambda>ts. num_le (Fin startTs) ts) (v_timestamps st) @
         filter (\<lambda>ts. num_le (Fin startTs) ts) (map e_ts (v_buffer st)))"

definition timeline_bucket :: "rat \<Rightarrow> rat \<Rightarrow> jsnum \<Rightarrow> int option" where
  "timeline_bucket startTs scopeMs ts = (case ts of Fin q \<Rightarrow> Some \<lfloor>(q - startTs) / scopeMs * 100\<rfloor> | _ \<Rightarrow> None)"

definition count_stamp :: "rat \<Rightarrow> rat \<Rightarrow> nat list \<times> nat \<Rightarrow> jsnum \<Rightarrow> nat list \<times> nat" where
  "count_stamp startTs scopeMs acc ts =
     (case timeline_bucket startTs scopeMs ts of
        Some b \<Rightarrow>
          if 0 \<le> b \<and> b < 100 then
            (let counts = (fst acc)[nat b := fst acc ! nat b + 1]
             in (counts, if snd acc < counts ! nat b then counts ! nat b else snd acc))
          else acc
      | None \<Rightarrow> acc)"

definition timeline_counts :: "rat \<Rightarrow> vcr \<Rightarrow> nat list \<times> nat" where
  "timeline_counts now st =
     foldl (count_stamp (timeline_now now st - v_scope st) (v_scope st)) (replicate 100 0, 0) (timeline_stamps now st)"

text \<open>The bars drawn: index, height and top of every bucket that is not empty, in a canvas of height \<open>ch\<close>.\<close>

definition timeline_bars :: "rat \<Rightarrow> rat \<Rightarrow> vcr \<Rightarrow> (nat \<times> rat \<times> rat) list" where
  "timeline_bars now ch st =
     (let (counts, maxCount) = timeline_counts now st in
      if maxCount = 0 then []
      else map (\<lambda>i. let barH = of_nat (counts ! i) / of_nat maxCount * (ch - 4) in (i, barH, ch - barH - 2))
             (filter (\<lambda>i. counts ! i \<noteq> 0) [0..<100]))"

definition playhead_x :: "rat \<Rightarrow> rat \<Rightarrow> vcr \<Rightarrow> rat" where
  "playhead_x now cw st =
     (let startTs = timeline_now now st - v_scope st;
          pos = (\<lambda>ts. (ts - startTs) / v_scope st * cw);
          x = (if v_mode st = LIVE then cw
               else case v_scrubTs st of
                      Some ts \<Rightarrow> pos ts
                    | None \<Rightarrow> if 0 \<le> v_playhead st \<and> v_playhead st < int (length (v_buffer st))
                              then pos (ts_value (e_ts (v_buffer st ! nat (v_playhead st)))) else cw)
      in max 0 (min (cw - 2) x))"

definition set_scope :: "rat \<Rightarrow> vcr \<Rightarrow> vcr" where
  "set_scope scope st = st\<lparr>v_scope := scope\<rparr>"

text \<open>
  The reply, \<open>None\<close> when the request failed, arrives in the state \<open>st\<close>; the scope is that of the state
  \<open>sent\<close> of the call.  A scope that has been fetched is not fetched again.
\<close>

definition fetchTimelineTimestamps :: "jsnum list option \<Rightarrow> vcr \<Rightarrow> vcr \<Rightarrow> vcr" where
  "fetchTimelineTimestamps reply sent st =
     (if v_scope sent = v_fetched_scope sent then st
      else case reply of None \<Rightarrow> st | Some tss \<Rightarrow> st\<lparr>v_timestamps := tss, v_fetched_scope := v_scope sent\<rparr>)"

section \<open>The clock\<close>

definition pad2 :: "nat \<Rightarrow> string" where
  "pad2 n = (let s = nat_to_dec n in replicate (2 - length s) (CHR ''0'') @ s)"

text \<open>\<open>ofs\<close> is the offset of the time zone in milliseconds (0 for UTC).\<close>

definition vcrFormatTime :: "int \<Rightarrow> int \<Rightarrow> string" where
  "vcrFormatTime ofs tsMs =
     (let t = tsMs + ofs
      in pad2 (nat (t div 3600000 mod 24)) @ '':'' @ pad2 (nat (t div 60000 mod 60)) @ '':'' @ pad2 (nat (t div 1000 mod 60)))"

definition SEG_MAP :: "(char \<times> nat) list" where
  "SEG_MAP = [(CHR ''0'', 0x7E), (CHR ''1'', 0x30), (CHR ''2'', 0x6D), (CHR ''3'', 0x79), (CHR ''4'', 0x33), (CHR ''5'', 0x5B),
     (CHR ''6'', 0x5F), (CHR ''7'', 0x70), (CHR ''8'', 0x7F), (CHR ''9'', 0x7B), (CHR ''-'', 0x01), (CHR '':'', 0x80),
     (CHR '' '', 0x00), (CHR ''P'', 0x67), (CHR ''A'', 0x77), (CHR ''U'', 0x3E), (CHR ''S'', 0x5B), (CHR ''E'', 0x4F),
     (CHR ''L'', 0x0E), (CHR ''I'', 0x30), (CHR ''V'', 0x3E), (CHR ''+'', 0x01)]"

definition seg_bits :: "char \<Rightarrow> nat" where
  "seg_bits c = (case map_of SEG_MAP c of Some b \<Rightarrow> b | None \<Rightarrow> 0)"

text \<open>The two texts of the display.\<close>

definition updateVCRLcd :: "vcr \<Rightarrow> string \<times> string" where
  "updateVCRLcd st =
     ((case v_mode st of LIVE \<Rightarrow> ''LIVE'' | PAUSED \<Rightarrow> ''PAUSE'' | REPLAY \<Rightarrow> ''PLAY '' @ rat_to_string (v_speed st) @ ''x''),
      (if v_mode st = PAUSED \<and> 0 < v_missed st then ''+'' @ nat_to_dec (v_missed st) @ '' PKTS'' else []))"

section \<open>Clickable paths\<close>

text \<open>An entry is the time it was added and the number of its line; the loops of \<^verbatim>\<open>pruneClickablePaths\<close>.\<close>

definition CLICKABLE_PATH_TTL_MS :: rat where "CLICKABLE_PATH_TTL_MS = 30000"
definition CLICKABLE_PATH_MAX :: nat where "CLICKABLE_PATH_MAX = 50"

fun prune_expired :: "nat \<Rightarrow> rat \<Rightarrow> (rat \<times> nat) list \<Rightarrow> (rat \<times> nat) list" where
  "prune_expired 0 cutoff ps = ps"
| "prune_expired (Suc i) cutoff ps =
     prune_expired i cutoff (if fst (ps ! i) < cutoff then take i ps @ drop (i + 1) ps else ps)"

fun shift_excess :: "(rat \<times> nat) list \<Rightarrow> (rat \<times> nat) list" where
  "shift_excess [] = []"
| "shift_excess (p # ps) = (if CLICKABLE_PATH_MAX < length (p # ps) then shift_excess ps else p # ps)"

definition pruneClickablePaths :: "rat \<Rightarrow> (rat \<times> nat) list \<Rightarrow> (rat \<times> nat) list" where
  "pruneClickablePaths now ps = shift_excess (prune_expired (length ps) (now - CLICKABLE_PATH_TTL_MS) ps)"

definition registerClickablePath :: "rat \<Rightarrow> nat \<Rightarrow> (rat \<times> nat) list \<Rightarrow> (rat \<times> nat) list" where
  "registerClickablePath now poly ps = pruneClickablePaths now (ps @ [(now, poly)])"

section \<open>Steps\<close>

text \<open>
  The events of the page in any order: the buttons and the pointer, timers, packets from the network, and
  any request in flight going on or failing.
\<close>

inductive vcr_step :: "(jsval \<Rightarrow> jsnum) \<Rightarrow> vcr \<Rightarrow> vcr \<Rightarrow> bool" for date_ms where
  pause: "vcr_step date_ms st (pause_button now st)"
| live: "vcr_step date_ms st (vcrResumeLive now st)"
| speed: "vcr_step date_ms st (vcrSpeedCycle st)"
| rewind: "vcr_step date_ms st (vcrRewind st)"
| press: "vcr_step date_ms st (scrub_start now x st)"
| move: "vcr_step date_ms st (scrub_move x st)"
| release: "vcr_step date_ms st (scrubRelease now st)"
| scope: "vcr_step date_ms st (set_scope s st)"
| stamps: "vcr_step date_ms st (fetchTimelineTimestamps reply sent st)"
| timer: "vcr_step date_ms st (timer_fires st)"
| packet: "vcr_step date_ms st (bufferPacket date_ms now pkt st)"
| propagate: "vcr_step date_ms st (propagation_fires hash st)"
| visible: "vcr_step date_ms st (visibility_change hidden st)"
| reply: "AwaitReply k gen \<in> set (v_pending st) \<Longrightarrow> vcr_step date_ms st (request_replied date_ms now k gen pkts st)"
| fail: "AwaitReply k gen \<in> set (v_pending st) \<Longrightarrow> vcr_step date_ms st (request_failed now k gen st)"
| expanded: "Expanding k gen es \<in> set (v_pending st) \<Longrightarrow> vcr_step date_ms st (request_expanded now k gen es st)"
| exhausted: "NoMore \<in> set (v_pending st) \<Longrightarrow> vcr_step date_ms st (no_more_page now st)"

inductive vcr_reachable :: "(jsval \<Rightarrow> jsnum) \<Rightarrow> vcr \<Rightarrow> bool" for date_ms where
  init: "vcr_reachable date_ms (vcr_init realistic ls)"
| step: "vcr_reachable date_ms st \<Longrightarrow> vcr_step date_ms st st' \<Longrightarrow> vcr_reachable date_ms st'"

section \<open>Invariants of the recorder\<close>

fun request_gen :: "vcr_request \<Rightarrow> nat option" where
  "request_gen (AwaitReply k g) = Some g"
| "request_gen (Expanding k g es) = Some g"
| "request_gen NoMore = None"

fun is_from_ts :: "vcr_request \<Rightarrow> bool" where
  "is_from_ts (AwaitReply k g) = (k = FromTs)"
| "is_from_ts (Expanding k g es) = (k = FromTs)"
| "is_from_ts NoMore = False"

text \<open>A scrub or rewind request of the current generation.\<close>

fun is_jump :: "vcr_request \<Rightarrow> bool" where
  "is_jump (AwaitReply k g) = (k \<noteq> NextPage)"
| "is_jump (Expanding k g es) = (k \<noteq> NextPage)"
| "is_jump NoMore = False"

definition current :: "nat \<Rightarrow> vcr_request \<Rightarrow> bool" where
  "current g r = (is_jump r \<and> request_gen r = Some g)"

text \<open>
  The playhead is inside the buffer, live mode has none; the speed is one of the list; a timer runs only during a
  replay; no request is newer than the generation, and in live mode no scrub request is current; at most one
  scrub or rewind is current, and no timer is set while there is one.
\<close>

definition vcr_inv :: "vcr \<Rightarrow> bool" where
  "vcr_inv st =
     (-1 \<le> v_playhead st \<and> v_playhead st \<le> int (length (v_buffer st)) \<and>
      v_speed st \<in> set vcr_speeds \<and>
      (v_mode st = LIVE \<longrightarrow> v_playhead st = -1) \<and>
      (v_armed st \<noteq> None \<longrightarrow> v_timer_set st \<and> v_mode st = REPLAY) \<and>
      (\<forall>r\<in>set (v_pending st). \<forall>g. request_gen r = Some g \<longrightarrow> g \<le> v_gen st \<and>
         (v_mode st = LIVE \<and> is_from_ts r \<longrightarrow> g < v_gen st)) \<and>
      length (filter (current (v_gen st)) (v_pending st)) \<le> 1 \<and>
      (v_timer_set st \<longrightarrow> filter (current (v_gen st)) (v_pending st) = []))"

lemma vcr_invI:
  assumes "-1 \<le> v_playhead st" "v_playhead st \<le> int (length (v_buffer st))" "v_speed st \<in> set vcr_speeds"
    "v_mode st = LIVE \<Longrightarrow> v_playhead st = -1" "v_armed st \<noteq> None \<Longrightarrow> v_timer_set st \<and> v_mode st = REPLAY"
    "\<And>r g. r \<in> set (v_pending st) \<Longrightarrow> request_gen r = Some g \<Longrightarrow> g \<le> v_gen st"
    "\<And>r g. r \<in> set (v_pending st) \<Longrightarrow> request_gen r = Some g \<Longrightarrow> v_mode st = LIVE \<Longrightarrow> is_from_ts r \<Longrightarrow> g < v_gen st"
    "length (filter (current (v_gen st)) (v_pending st)) \<le> 1"
    "v_timer_set st \<Longrightarrow> filter (current (v_gen st)) (v_pending st) = []"
  shows "vcr_inv st"
  using assms by (auto simp: vcr_inv_def)

lemma vcr_invD:
  assumes "vcr_inv st"
  shows "-1 \<le> v_playhead st" "v_playhead st \<le> int (length (v_buffer st))" "v_speed st \<in> set vcr_speeds"
    "v_mode st = LIVE \<Longrightarrow> v_playhead st = -1" "v_armed st \<noteq> None \<Longrightarrow> v_timer_set st" "v_armed st \<noteq> None \<Longrightarrow> v_mode st = REPLAY"
    "r \<in> set (v_pending st) \<Longrightarrow> request_gen r = Some g \<Longrightarrow> g \<le> v_gen st"
    "r \<in> set (v_pending st) \<Longrightarrow> request_gen r = Some g \<Longrightarrow> v_mode st = LIVE \<Longrightarrow> is_from_ts r \<Longrightarrow> g < v_gen st"
    "length (filter (current (v_gen st)) (v_pending st)) \<le> 1"
    "v_timer_set st \<Longrightarrow> filter (current (v_gen st)) (v_pending st) = []"
  using assms by (auto simp: vcr_inv_def)

lemma no_next_current: "vcr_inv st \<Longrightarrow> filter (current (Suc (v_gen st))) (v_pending st) = []"
  using vcr_invD(7) [of st _ "Suc (v_gen st)"] by (auto simp: filter_empty_conv current_def)

lemma current_simps [simp]:
  "current g (AwaitReply k h) = (k \<noteq> NextPage \<and> h = g)" "current g (Expanding k h es) = (k \<noteq> NextPage \<and> h = g)"
  "\<not> current g NoMore"
  by (auto simp: current_def)

lemma speeds_in: "1 \<in> set vcr_speeds" "2 \<in> set vcr_speeds" "next_speed s \<in> set vcr_speeds"
proof -
  show "1 \<in> set vcr_speeds" "2 \<in> set vcr_speeds" by (simp_all add: vcr_speeds_def)
  show "next_speed s \<in> set vcr_speeds"
    unfolding next_speed_def by (rule nth_mem, rule mod_less_divisor) (simp add: vcr_speeds_def)
qed

lemma stopReplay_simps [simp]:
  "v_mode (stopReplay st) = v_mode st" "v_buffer (stopReplay st) = v_buffer st" "v_playhead (stopReplay st) = v_playhead st"
  "v_speed (stopReplay st) = v_speed st" "v_pending (stopReplay st) = v_pending st" "v_gen (stopReplay st) = v_gen st"
  "v_missed (stopReplay st) = v_missed st" "v_rendered (stopReplay st) = v_rendered st" "v_frozen (stopReplay st) = v_frozen st"
  "v_scrubTs (stopReplay st) = v_scrubTs st" "v_timer_set (stopReplay st) = False" "v_scope (stopReplay st) = v_scope st"
  "v_dragging (stopReplay st) = v_dragging st"
  by (simp_all add: stopReplay_def)

lemma stopReplay_armed: "(v_armed st \<noteq> None \<Longrightarrow> v_timer_set st) \<Longrightarrow> v_armed (stopReplay st) = None"
  by (cases "v_armed st") (auto simp: stopReplay_def)

lemma setMode_simps [simp]:
  "v_mode (vcrSetMode now m st) = m" "v_buffer (vcrSetMode now m st) = v_buffer st"
  "v_playhead (vcrSetMode now m st) = v_playhead st" "v_speed (vcrSetMode now m st) = v_speed st"
  "v_pending (vcrSetMode now m st) = v_pending st" "v_gen (vcrSetMode now m st) = v_gen st"
  "v_armed (vcrSetMode now m st) = v_armed st" "v_timer_set (vcrSetMode now m st) = v_timer_set st"
  "v_rendered (vcrSetMode now m st) = v_rendered st" "v_missed (vcrSetMode now m st) = v_missed st"
  by (simp_all add: vcrSetMode_def)

lemma stopReplay_inv: "vcr_inv st \<Longrightarrow> vcr_inv (stopReplay st) \<and> v_armed (stopReplay st) = None"
  by (cases "v_armed st") (auto simp: vcr_inv_def stopReplay_def)

lemma setMode_inv:
  "vcr_inv st \<Longrightarrow> v_armed st = None \<Longrightarrow> m \<noteq> LIVE \<Longrightarrow> vcr_inv (vcrSetMode now m st)"
  by (auto simp: vcr_inv_def vcrSetMode_def)

lemma resumeLive_inv: "vcr_inv st \<Longrightarrow> vcr_inv (vcrResumeLive now st)"
proof -
  assume i: "vcr_inv st"
  have "g \<le> v_gen st" if "r \<in> set (v_pending st)" "request_gen r = Some g" for r g using vcr_invD(7) [OF i that] .
  with stopReplay_inv [OF i] no_next_current [OF i] show ?thesis
    by (intro vcr_invI) (auto simp: vcrResumeLive_def Let_def vcrSetMode_def speeds_in le_Suc_eq less_Suc_eq_le)
qed

lemma fromTs_inv: "vcr_inv st \<Longrightarrow> vcr_inv (vcrReplayFromTs now ts st)"
proof -
  assume i: "vcr_inv st"
  have "g \<le> v_gen st" if "r \<in> set (v_pending st)" "request_gen r = Some g" for r g using vcr_invD(7) [OF i that] .
  with stopReplay_inv [OF i] no_next_current [OF i] vcr_invD(1,2,3) [OF i] show ?thesis
    by (intro vcr_invI) (auto simp: vcrReplayFromTs_def Let_def le_Suc_eq)
qed

lemma rewind_inv: "vcr_inv st \<Longrightarrow> vcr_inv (vcrRewind st)"
proof -
  assume i: "vcr_inv st"
  have "g \<le> v_gen st" if "r \<in> set (v_pending st)" "request_gen r = Some g" for r g using vcr_invD(7) [OF i that] .
  with stopReplay_inv [OF i] no_next_current [OF i] vcr_invD(1-4) [OF i] show ?thesis
    by (intro vcr_invI) (auto simp: vcrRewind_def Let_def le_Suc_eq less_Suc_eq_le)
qed

lemma tick_inv:
  assumes "vcr_inv st" "v_armed st = None" "filter (current (v_gen st)) (v_pending st) = []"
  shows "vcr_inv (tick gs i st)"
proof -
  consider "v_mode st \<noteq> REPLAY" | "v_mode st = REPLAY" "length gs \<le> i" | "v_mode st = REPLAY" "\<not> length gs \<le> i" by blast
  then show ?thesis
  proof cases
    case 1
    then show ?thesis using assms by (simp add: tick_def)
  next
    case 2
    then show ?thesis using assms by (auto simp: tick_def fetchNextReplayPage_def vcr_inv_def)
  next
    case 3
    then show ?thesis using assms by (auto simp: tick_def Let_def vcr_inv_def)
  qed
qed

lemma startReplay_inv: "vcr_inv st \<Longrightarrow> filter (current (v_gen st)) (v_pending st) = [] \<Longrightarrow> vcr_inv (startReplay st)"
  using stopReplay_inv [of st] tick_inv [of "stopReplay st"] by (simp add: startReplay_def Let_def)

lemma timer_inv: "vcr_inv st \<Longrightarrow> vcr_inv (timer_fires st)"
proof (cases "v_armed st")
  case (Some c)
  assume "vcr_inv st"
  with Some have "vcr_inv (st\<lparr>v_armed := None\<rparr>)" "filter (current (v_gen st)) (v_pending st) = []"
    by (simp_all add: vcr_inv_def)
  with Some show ?thesis by (cases c) (simp add: timer_fires_def tick_inv)
qed (simp add: timer_fires_def)

lemma drop_request_inv: "vcr_inv st \<Longrightarrow> vcr_inv (drop_request r st)"
proof -
  assume i: "vcr_inv st"
  have "length (filter P (remove1 r xs)) \<le> length (filter P xs)" for P xs by (induction xs) auto
  from this [of "current (v_gen st)" "v_pending st"] have
    "length (filter (current (v_gen st)) (remove1 r (v_pending st))) \<le> 1 \<and>
     (filter (current (v_gen st)) (v_pending st) = [] \<longrightarrow> filter (current (v_gen st)) (remove1 r (v_pending st)) = [])"
    using vcr_invD(9) [OF i] by (metis le_zero_eq length_0_conv order.trans)
  with i show ?thesis
    using set_remove1_subset [of r "v_pending st"] by (auto simp: vcr_inv_def drop_request_def )
qed

lemma push_entry_inv: "vcr_inv st \<Longrightarrow> vcr_inv (push_entry e st)"
  by (auto simp: vcr_inv_def push_entry_def Let_def)

lemma pending_add_inv:
  "vcr_inv st \<Longrightarrow> (current (v_gen st) r \<Longrightarrow> filter (current (v_gen st)) (v_pending st) = [] \<and> \<not> v_timer_set st) \<Longrightarrow> (\<And>g. request_gen r = Some g \<Longrightarrow> g \<le> v_gen st) \<Longrightarrow>
   (\<And>g. request_gen r = Some g \<Longrightarrow> v_mode st = LIVE \<Longrightarrow> is_from_ts r \<Longrightarrow> g < v_gen st) \<Longrightarrow>
   vcr_inv (st\<lparr>v_pending := v_pending st @ [r]\<rparr>)"
  by (auto simp: vcr_inv_def)

lemma unpause_inv: "vcr_inv st \<Longrightarrow> vcr_inv (vcrUnpause now st)"
  by (auto simp: vcrUnpause_def fromTs_inv resumeLive_inv split: option.split)

lemma pause_inv: "vcr_inv st \<Longrightarrow> vcr_inv (vcrPause now st)"
proof -
  assume i: "vcr_inv st"
  have "vcr_inv ((stopReplay st)\<lparr>v_missed := 0\<rparr>)" "v_armed ((stopReplay st)\<lparr>v_missed := 0\<rparr>) = None"
    using stopReplay_inv [OF i] by (simp_all add: vcr_inv_def)
  then show ?thesis using i by (simp add: vcrPause_def setMode_inv)
qed

lemma pause_button_inv: "vcr_inv st \<Longrightarrow> vcr_inv (pause_button now st)"
  using stopReplay_inv [of st] by (simp add: pause_button_def unpause_inv pause_inv setMode_inv)

lemma speed_inv: "vcr_inv st \<Longrightarrow> vcr_inv (vcrSpeedCycle st)"
proof -
  assume i: "vcr_inv st"
  let ?st = "st\<lparr>v_speed := next_speed (v_speed st), v_ls := obj_set (v_ls st) ''live-vcr-speed'' (rat_to_string (next_speed (v_speed st)))\<rparr>"
  have "vcr_inv ?st" using i by (simp add: vcr_inv_def speeds_in)
  moreover from this have "v_timer_set ?st \<Longrightarrow> vcr_inv (startReplay (stopReplay ?st))"
    using stopReplay_inv [of ?st] vcr_invD(10) [of ?st] by (intro startReplay_inv) auto
  ultimately show ?thesis unfolding vcrSpeedCycle_def Let_def by (simp only: split: if_split) blast
qed

lemma scrub_inv:
  assumes i: "vcr_inv st"
  shows "vcr_inv (scrub_start now x st)" "vcr_inv (scrub_move x st)" "vcr_inv (scrubRelease now st)"
proof -
  have "vcr_inv (st\<lparr>v_dragging := True, v_scrubTs := None\<rparr>)" using i by (simp add: vcr_inv_def)
  from stopReplay_inv [OF this] show "vcr_inv (scrub_start now x st)"
    by (simp add: scrub_start_def scrubVisual_def Let_def vcr_inv_def)
  show "vcr_inv (scrub_move x st)" using i by (simp add: scrub_move_def scrubVisual_def vcr_inv_def)
  have "vcr_inv (st\<lparr>v_dragging := False, v_frozen := Some now, v_scrubTs := ts\<rparr>)" for ts using i by (simp add: vcr_inv_def)
  then show "vcr_inv (scrubRelease now st)" using i by (simp add: scrubRelease_def Let_def fromTs_inv)
qed

lemma buffer_inv: "vcr_inv st \<Longrightarrow> vcr_inv (bufferPacket date_ms now pkt st)"
proof -
  assume i: "vcr_inv st"
  let ?ts = "packetTimestamp date_ms now pkt"
  let ?p = "obj_set pkt ''_ts'' (JNum ?ts)"
  let ?st = "push_entry \<lparr>e_ts = ?ts, e_pkt = ?p\<rparr> st"
  have p: "vcr_inv ?st" by (rule push_entry_inv [OF i])
  have "vcr_inv (?st\<lparr>v_propagation := q\<rparr>)" "vcr_inv (?st\<lparr>v_rendered := q'\<rparr>)" "vcr_inv (?st\<lparr>v_missed := n\<rparr>)" for q q' n
    using p by (simp_all add: vcr_inv_def)
  with p show ?thesis
    unfolding bufferPacket_def Let_def by (simp split: vcr_mode.split option.split)
qed

lemma drop_request_simps [simp]:
  "v_mode (drop_request r st) = v_mode st" "v_gen (drop_request r st) = v_gen st"
  "v_pending (drop_request r st) = remove1 r (v_pending st)"
  by (simp_all add: drop_request_def)

lemma current_removed:
  assumes "vcr_inv st" "r \<in> set (v_pending st)" "current (v_gen st) r"
  shows "filter (current (v_gen st)) (remove1 r (v_pending st)) = [] \<and> \<not> v_timer_set st"
proof -
  have "length (filter P (remove1 x xs)) = length (filter P xs) - 1" if "x \<in> set xs" "P x" for P :: "vcr_request \<Rightarrow> bool" and x xs
    using that by (induction xs) (auto simp: Suc_diff_le, metis Suc_pred filter_empty_conv length_greater_0_conv)
  from this [OF assms(2), of "current (v_gen st)"] assms(3) vcr_invD(9) [OF assms(1)]
  have "length (filter (current (v_gen st)) (remove1 r (v_pending st))) = 0" by simp
  moreover have "filter (current (v_gen st)) (v_pending st) \<noteq> []" using assms(2,3) by (auto simp: filter_empty_conv)
  ultimately show ?thesis using vcr_invD(10) [OF assms(1)] by auto
qed

lemma replied_inv:
  assumes i: "vcr_inv st" and r: "AwaitReply k gen \<in> set (v_pending st)"
  shows "vcr_inv (request_replied date_ms now k gen pkts st)"
proof -
  let ?st = "drop_request (AwaitReply k gen) st"
  have d: "vcr_inv ?st" by (rule drop_request_inv [OF i])
  have g: "gen \<le> v_gen st" "v_mode st = LIVE \<Longrightarrow> k = FromTs \<Longrightarrow> gen < v_gen st"
    using vcr_invD(7,8) [OF i r] by simp_all
  have c: "current (v_gen st) (AwaitReply k gen) \<Longrightarrow> filter (current (v_gen st)) (remove1 (AwaitReply k gen) (v_pending st)) = []
      \<and> \<not> v_timer_set st" by (rule current_removed [OF i r])
  have "vcr_inv (?st\<lparr>v_pending := v_pending ?st @ [Expanding k gen es]\<rparr>)" for es
    by (rule pending_add_inv [OF d]) (use g c in \<open>auto simp: drop_request_def\<close>)
  then show ?thesis
    using resumeLive_inv [OF d] unfolding request_replied_def Let_def by (cases k) simp_all
qed

lemma expanded_inv:
  assumes i: "vcr_inv st" and r: "Expanding k gen es \<in> set (v_pending st)"
  shows "vcr_inv (request_expanded now k gen es st)"
proof -
  let ?st = "drop_request (Expanding k gen es) st"
  have d: "vcr_inv ?st" by (rule drop_request_inv [OF i])
  have g: "v_mode st = LIVE \<Longrightarrow> k = FromTs \<Longrightarrow> gen < v_gen st"
    using vcr_invD(8) [OF i r] by simp
  have c: "filter (current (v_gen st)) (remove1 (Expanding k gen es) (v_pending st)) = [] \<and> \<not> v_timer_set st"
    if "gen = v_gen st" "k \<noteq> NextPage" using current_removed [OF i r] that by simp
  show ?thesis
  proof (cases k)
    case FromTs
    have "vcr_inv (startReplay (?st\<lparr>v_buffer := es, v_playhead := 0, v_scrubTs := None, v_dragPct := None\<rparr>))"
      if "gen = v_gen st" using d g c FromTs that by (intro startReplay_inv) (auto simp: vcr_inv_def)
    moreover have "vcr_inv (vcrSetMode now PAUSED ?st)" if "gen = v_gen st"
      using c FromTs that vcr_invD(5) [OF d] by (intro setMode_inv [OF d]) (cases "v_armed st"; auto simp: drop_request_def)+
    ultimately show ?thesis using d FromTs by (cases "es = []") (simp_all add: request_expanded_def Let_def)
  next
    case Rewind
    have "vcr_inv (startReplay (vcrSetMode now REPLAY (?st\<lparr>v_buffer := es @ v_buffer ?st, v_playhead := 0, v_speed := 1\<rparr>)))"
      if "gen = v_gen st"
      using d c Rewind that by (intro startReplay_inv) (auto simp: vcr_inv_def vcrSetMode_def speeds_in)
    then show ?thesis using d Rewind by (simp add: request_expanded_def Let_def)
  next
    case NextPage
    have "vcr_inv (?st\<lparr>v_buffer := v_buffer ?st @ es\<rparr>)" using d by (auto simp: vcr_inv_def)
    from resumeLive_inv [OF this] resumeLive_inv [OF d] show ?thesis
      unfolding NextPage request_expanded_def Let_def vcr_kind.case by (simp only: split: if_split) blast
  qed
qed

lemma vcr_step_inv: "vcr_step date_ms st st' \<Longrightarrow> vcr_inv st \<Longrightarrow> vcr_inv st'"
proof (induction rule: vcr_step.induct)
  case (reply k gen st now pkts)
  then show ?case by (simp add: replied_inv)
next
  case (fail k gen st now)
  then show ?case
    using drop_request_inv [of st] resumeLive_inv by (cases k) (simp_all add: request_failed_def Let_def)
next
  case (expanded k gen es st now)
  then show ?case by (simp add: expanded_inv)
next
  case (exhausted st now)
  then show ?case by (simp add: no_more_page_def resumeLive_inv drop_request_inv)
qed (simp_all add: pause_button_inv resumeLive_inv speed_inv rewind_inv scrub_inv timer_inv buffer_inv,
  auto simp: vcr_inv_def set_scope_def fetchTimelineTimestamps_def propagation_fires_def visibility_change_def split: option.splits)

lemma vcr_reachable_inv: "vcr_reachable date_ms st \<Longrightarrow> vcr_inv st"
proof (induction rule: vcr_reachable.induct)
  case (init realistic ls)
  then show ?case by (simp add: vcr_init_def vcr_inv_def speeds_in)
qed (rule vcr_step_inv)

section \<open>Replay shows every packet once, in order of time\<close>

lemma obj_set_present:
  "obj_get ob k = Some v \<Longrightarrow> \<exists>a b. ob = a @ (k, v) # b \<and> (\<forall>w. obj_set ob k w = a @ (k, w) # b)"
proof (induction ob)
  case (Cons kv ob)
  obtain x y where kv: "kv = (x, y)" by (cases kv)
  show ?case
  proof (cases "x = k")
    case True
    with Cons.prems kv show ?thesis by (intro exI [of _ "[]"] exI [of _ ob]) auto
  next
    case False
    with Cons kv obtain a b where "ob = a @ (k, v) # b" "\<forall>w. obj_set ob k w = a @ (k, w) # b" by auto
    with False kv show ?thesis by (intro exI [of _ "kv # a"] exI [of _ b]) auto
  qed
qed simp

definition group_packets :: "vcr_group obj \<Rightarrow> packet multiset" where
  "group_packets gs = mset (concat (map (g_packets \<circ> snd) gs))"

lemma add_entry_packets: "group_packets (add_entry gs e) = add_mset (e_pkt e) (group_packets gs)"
proof -
  define h where "h = (case entry_hash e of Some h \<Rightarrow> h | None \<Rightarrow> ''nohash-'' @ nat_to_dec (length gs))"
  show ?thesis
  proof (cases "obj_get gs h")
    case None
    then have "h \<notin> fst ` set gs" by (simp add: map_of_eq_None_iff)
    then show ?thesis
      using None by (simp add: add_entry_def h_def [symmetric] Let_def obj_set_new group_packets_def)
  next
    case (Some g)
    from obj_set_present [OF this] obtain a b where gs: "gs = a @ (h, g) # b" and set: "\<And>w. obj_set gs h w = a @ (h, w) # b"
      by auto
    have "add_entry gs e = obj_set gs h
        \<lparr>g_packets = g_packets g @ [e_pkt e], g_ts = (if num_less (g_ts g) (e_ts e) then e_ts e else g_ts g)\<rparr>"
      unfolding add_entry_def Let_def h_def [symmetric] Some by simp
    then have "group_packets (add_entry gs e) = group_packets (a @ (h, g) # b) + {#e_pkt e#}"
      unfolding set by (simp add: group_packets_def)
    then show ?thesis unfolding gs by simp
  qed
qed

lemma foldl_add_entry_packets: "group_packets (foldl add_entry gs es) = group_packets gs + mset (map e_pkt es)"
  by (induction es arbitrary: gs) (simp_all add: add_entry_packets)

lemma concat_mset_cong: "mset xs = mset ys \<Longrightarrow> mset (concat xs) = mset (concat ys)"
  by (simp add: mset_concat) (metis mset_map sum_mset_sum_list)

lemma replay_groups_packets: "mset (concat (map g_packets (replay_groups buffer))) = mset (map e_pkt buffer)"
proof -
  have "mset (map g_packets (replay_groups buffer)) = mset (map (g_packets \<circ> snd) (foldl add_entry [] buffer))"
    by (simp add: replay_groups_def multiset.map_comp)
  then have "mset (concat (map g_packets (replay_groups buffer))) = group_packets (foldl add_entry [] buffer)"
    unfolding group_packets_def by (rule concat_mset_cong)
  also have "\<dots> = group_packets [] + mset (map e_pkt buffer)" by (rule foldl_add_entry_packets)
  finally show ?thesis by (simp add: group_packets_def)
qed

lemma replay_groups_sorted: "sorted (map (\<lambda>g. ts_value (g_ts g)) (replay_groups buffer))"
  by (simp add: replay_groups_def)

text \<open>The timer firing again and again, with nothing else happening.\<close>

lemma tick_run:
  assumes "v_mode st = REPLAY" "i \<le> length gs" "v_armed st = None"
  shows "\<exists>st'. (timer_fires ^^ (length gs - i)) (tick gs i st) = st' \<and>
    v_rendered st' = v_rendered st @ map g_packets (drop i gs) \<and>
    v_pending st' = v_pending st @ [if v_buffer st = [] then NoMore else AwaitReply NextPage (v_gen st)] \<and>
    v_armed st' = None \<and> v_mode st' = REPLAY \<and> v_buffer st' = v_buffer st \<and> v_gen st' = v_gen st"
  using assms
proof (induction "length gs - i" arbitrary: i st)
  case 0
  then show ?case by (simp add: tick_def fetchNextReplayPage_def)
next
  case (Suc n)
  let ?st = "tick gs i st"
  have lt: "i < length gs" using Suc.hyps(2) by simp
  then have t: "v_armed ?st = Some (gs, i + 1)" "v_mode ?st = REPLAY" "v_rendered ?st = v_rendered st @ [g_packets (gs ! i)]"
      "v_pending ?st = v_pending st" "v_buffer ?st = v_buffer st" "v_gen ?st = v_gen st"
    using Suc.prems by (simp_all add: tick_def Let_def)
  let ?st1 = "?st\<lparr>v_armed := None\<rparr>"
  have fire: "timer_fires ?st = tick gs (i + 1) ?st1" by (simp add: timer_fires_def t(1))
  have n: "n = length gs - (i + 1)" using Suc.hyps(2) by simp
  have "(timer_fires ^^ (length gs - i)) ?st = (timer_fires ^^ (length gs - (i + 1))) (tick gs (i + 1) ?st1)"
    using Suc.hyps(2) n by (metis fire funpow_Suc_right o_apply)
  moreover have "v_mode ?st1 = REPLAY" "i + 1 \<le> length gs" "v_armed ?st1 = None" using t lt by simp_all
  note ih = Suc.hyps(1) [OF n this]
  moreover have "drop i gs = gs ! i # drop (i + 1) gs" using lt by (simp add: Cons_nth_drop_Suc)
  ultimately show ?case using t by (simp only: vcr.simps) simp
qed

lemma startReplay_run:
  assumes "v_mode st = REPLAY" "vcr_inv st"
  shows "\<exists>st'. (timer_fires ^^ length (replay_groups (v_buffer st))) (startReplay st) = st' \<and>
    v_rendered st' = v_rendered st @ map g_packets (replay_groups (v_buffer st)) \<and>
    v_pending st' = v_pending st @ [if v_buffer st = [] then NoMore else AwaitReply NextPage (v_gen st)] \<and>
    v_armed st' = None \<and> v_mode st' = REPLAY \<and> v_buffer st' = v_buffer st \<and> v_gen st' = v_gen st"
  using tick_run [of "stopReplay st" 0 "replay_groups (v_buffer st)"] assms stopReplay_inv [of st]
  by (simp add: startReplay_def Let_def)

text \<open>A next page that has packets: they are expanded, then added to the buffer, and the page is live.\<close>

lemma next_page_expanded:
  assumes "v_mode st = REPLAY" "v_armed st = None" "pkts \<noteq> []"
  shows "let waiting = request_replied date_ms now NextPage (v_gen st) pkts st;
             es = expandToBufferEntriesAsync date_ms pkts;
             after = request_expanded later NextPage (v_gen st) es waiting
         in v_mode waiting = REPLAY \<and> Expanding NextPage (v_gen st) es \<in> set (v_pending waiting) \<and>
            v_mode after = LIVE \<and> v_playhead after = -1 \<and> v_armed after = None \<and>
            v_buffer after = v_buffer st @ es \<and> v_rendered after = v_rendered st"
  using assms by (simp add: request_replied_def request_expanded_def drop_request_def vcrResumeLive_def vcrSetMode_def stopReplay_def Let_def)

section \<open>Paths and the timeline\<close>

lemma prune_expired_eq:
  "i \<le> length ps \<Longrightarrow> prune_expired i cutoff ps = filter (\<lambda>p. \<not> fst p < cutoff) (take i ps) @ drop i ps"
proof (induction i cutoff ps rule: prune_expired.induct)
  case (2 i cutoff ps)
  have ps: "take (Suc i) ps = take i ps @ [ps ! i]" using 2 by (simp add: take_Suc_conv_app_nth)
  have d: "drop i ps = ps ! i # drop (Suc i) ps" using 2 by (simp add: Cons_nth_drop_Suc)
  show ?case
  proof (cases "fst (ps ! i) < cutoff")
    case True
    with 2 show ?thesis by (simp add: ps min_def)
  next
    case False
    with 2 show ?thesis by (simp add: ps d)
  qed
qed simp

lemma shift_excess_eq: "shift_excess ps = drop (length ps - CLICKABLE_PATH_MAX) ps"
  by (induction ps) (auto simp: Suc_diff_le not_less)

lemma pruneClickablePaths_eq:
  "pruneClickablePaths now ps =
     (let live = filter (\<lambda>p. now - CLICKABLE_PATH_TTL_MS \<le> fst p) ps in drop (length live - CLICKABLE_PATH_MAX) live)"
  by (simp add: pruneClickablePaths_def shift_excess_eq prune_expired_eq Let_def not_less)

lemma tick_delay_bounds:
  assumes "s \<in> set vcr_speeds"
  shows "12 \<le> tick_delay gs i s \<and> tick_delay gs i s \<le> 8000"
proof -
  have s: "1/4 \<le> s" "s \<le> 8" "0 < s" using assms by (auto simp: vcr_speeds_def)
  have m: "100 \<le> min 2000 (max 100 x)" "min 2000 (max 100 x) \<le> 2000" for x :: rat by auto
  have "12 \<le> y / s \<and> y / s \<le> 8000" if "100 \<le> y" "y \<le> 2000" for y :: rat
    using that s by (simp add: pos_le_divide_eq pos_divide_le_eq)
  with m show ?thesis by (simp add: tick_delay_def)
qed

section \<open>Properties\<close>

text \<open>
  C25: The recorder keeps its invariant under every order of events.  Whatever the user does and in whatever
  order replies, failures, timers and packets arrive, the playhead is inside the buffer (and off in live
  mode), the speed is one of the six, a replay timer runs only in replay mode, and at most one scrub or
  rewind request is current, during which no timer is set.
\<close>

theorem vcr_invariant:
  "vcr_reachable date_ms st \<Longrightarrow>
    -1 \<le> v_playhead st \<and> v_playhead st \<le> int (length (v_buffer st)) \<and> (v_mode st = LIVE \<longrightarrow> v_playhead st = -1) \<and>
    v_speed st \<in> {1/4, 1/2, 1, 2, 4, 8} \<and> (v_armed st \<noteq> None \<longrightarrow> v_mode st = REPLAY) \<and>
    length (filter (current (v_gen st)) (v_pending st)) \<le> 1 \<and>
    (v_timer_set st \<longrightarrow> filter (current (v_gen st)) (v_pending st) = [])"
  using vcr_reachable_inv [of date_ms st] by (simp add: vcr_inv_def vcr_speeds_def)

definition demo_vcr :: vcr where
  "demo_vcr = scrubRelease 10 (scrub_start 10 0 (bufferPacket (\<lambda>_. Fin 5) 7 [(''hash'', JStr ''ab'')] (vcr_init False [])))"

lemma demo_vcr_reachable: "vcr_reachable (\<lambda>_. Fin 5) demo_vcr"
  unfolding demo_vcr_def
  by (intro vcr_reachable.step [OF _ vcr_step.release] vcr_reachable.step [OF _ vcr_step.press]
      vcr_reachable.step [OF _ vcr_step.packet] vcr_reachable.init)

lemma demo_vcr_mode: "v_mode demo_vcr = REPLAY" "v_gen demo_vcr = 1"
    "v_pending demo_vcr = [AwaitReply FromTs 1]" "map e_pkt (v_buffer demo_vcr) = [[(''hash'', JStr ''ab''), (''_ts'', JNum (Fin 5))]]"
  by (simp_all add: demo_vcr_def scrubRelease_def scrub_start_def scrubVisual_def vcrReplayFromTs_def bufferPacket_def
      push_entry_def vcr_init_def stopReplay_def vcrSetMode_def Let_def own_def table_get_def packetTimestamp_def)

theorem vcr_invariant_witness: "v_playhead demo_vcr \<le> int (length (v_buffer demo_vcr)) \<and> v_speed demo_vcr \<in> {1/4, 1/2, 1, 2, 4, 8}"
  using vcr_invariant [OF demo_vcr_reachable] by simp

text \<open>
  C26: A replay that is not disturbed runs to its end and the page returns to live.  From any reachable state in
  replay mode, starting the replay and letting the timer fire as often as there are groups renders every packet of the buffer exactly
  once, group by group in the order of time.  Without a buffer the page is then live again.  Otherwise the next page is asked
  for, and whatever becomes of that request, the page is live again: when it fails, when the page is empty,
  and when it has packets.  In that last case the page waits in replay mode until they are expanded; they are then added to the end
  of the buffer, no timer runs, and nothing more has been rendered.
\<close>

theorem replay_complete:
  assumes "vcr_reachable date_ms st" "v_mode st = REPLAY"
  shows "let groups = replay_groups (v_buffer st); st' = (timer_fires ^^ length groups) (startReplay st) in
    v_rendered st' = v_rendered st @ map g_packets groups \<and>
    mset (concat (map g_packets groups)) = mset (map e_pkt (v_buffer st)) \<and>
    sorted (map (\<lambda>g. ts_value (g_ts g)) groups) \<and>
    (if v_buffer st = [] then NoMore \<in> set (v_pending st') \<and> v_mode (no_more_page now st') = LIVE
     else AwaitReply NextPage (v_gen st) \<in> set (v_pending st') \<and>
       v_mode (request_failed now NextPage (v_gen st) st') = LIVE \<and>
       v_mode (request_replied date_ms now NextPage (v_gen st) [] st') = LIVE \<and>
       (\<forall>pkts. pkts \<noteq> [] \<longrightarrow>
         (let waiting = request_replied date_ms now NextPage (v_gen st) pkts st';
              es = expandToBufferEntriesAsync date_ms pkts;
              after = request_expanded later NextPage (v_gen st) es waiting
          in v_mode waiting = REPLAY \<and> Expanding NextPage (v_gen st) es \<in> set (v_pending waiting) \<and>
             v_mode after = LIVE \<and> v_playhead after = -1 \<and> v_armed after = None \<and>
             v_buffer after = v_buffer st @ es \<and> v_rendered after = v_rendered st')))"
proof -
  obtain st' where st': "(timer_fires ^^ length (replay_groups (v_buffer st))) (startReplay st) = st'"
    "v_rendered st' = v_rendered st @ map g_packets (replay_groups (v_buffer st))"
    "v_pending st' = v_pending st @ [if v_buffer st = [] then NoMore else AwaitReply NextPage (v_gen st)]"
    "v_mode st' = REPLAY" "v_armed st' = None" "v_buffer st' = v_buffer st" "v_gen st' = v_gen st"
    using startReplay_run [OF assms(2) vcr_reachable_inv [OF assms(1)]] by blast
  have "v_mode (no_more_page now st') = LIVE" "v_mode (request_failed now NextPage (v_gen st) st') = LIVE"
    "v_mode (request_replied date_ms now NextPage (v_gen st) [] st') = LIVE"
    by (simp_all add: no_more_page_def request_failed_def request_replied_def vcrResumeLive_def Let_def)
  moreover note next_page_expanded [OF st'(4,5), where now = now and later = later and date_ms = date_ms, unfolded st'(6,7) Let_def]
  ultimately show ?thesis
    unfolding Let_def st'(1) using st'(2,3) replay_groups_packets replay_groups_sorted by simp
qed

theorem replay_complete_witness:
  "mset (concat (map g_packets (replay_groups (v_buffer demo_vcr)))) = {#[(''hash'', JStr ''ab''), (''_ts'', JNum (Fin 5))]#} \<and>
   v_mode (request_expanded 40 NextPage 1 (expandToBufferEntriesAsync (\<lambda>_. Fin 5) [[]])
     (request_replied (\<lambda>_. Fin 5) 30 NextPage 1 [[]]
       ((timer_fires ^^ length (replay_groups (v_buffer demo_vcr))) (startReplay demo_vcr)))) = LIVE"
proof -
  have ne: "v_buffer demo_vcr \<noteq> []" using demo_vcr_mode(4) by auto
  note run = replay_complete [OF demo_vcr_reachable demo_vcr_mode(1), of 30 40, unfolded Let_def demo_vcr_mode(2)]
  have "mset (concat (map g_packets (replay_groups (v_buffer demo_vcr)))) = mset (map e_pkt (v_buffer demo_vcr))"
    using run by blast
  moreover have "v_mode (request_expanded 40 NextPage 1 (expandToBufferEntriesAsync (\<lambda>_. Fin 5) [[]])
     (request_replied (\<lambda>_. Fin 5) 30 NextPage 1 [[]]
       ((timer_fires ^^ length (replay_groups (v_buffer demo_vcr))) (startReplay demo_vcr)))) = LIVE"
    using run ne by (simp only: if_False) blast
  ultimately show ?thesis by (simp only: demo_vcr_mode) simp
qed

text \<open>
  C27: Outdated requests.  The packets of a scrub or rewind that is not of the current generation are thrown away:
  nothing but the list of requests changes.  A failure is not checked that way: when an outdated scrub
  request fails, the page leaves whatever replay is running and goes live.
\<close>

theorem outdated_requests:
  assumes "gen < v_gen st" "k \<noteq> NextPage"
  shows "request_expanded now k gen es st = st\<lparr>v_pending := remove1 (Expanding k gen es) (v_pending st)\<rparr> \<and>
    v_mode (request_failed now FromTs gen st) = LIVE"
  using assms by (cases k) (simp_all add: request_expanded_def request_failed_def drop_request_def vcrResumeLive_def Let_def)

text \<open>Two scrubs in a row, both requests in flight; the first one fails while the second replay is wanted.\<close>

definition demo_vcr2 :: vcr where
  "demo_vcr2 = scrubRelease 20 (scrub_start 20 0 demo_vcr)"

theorem outdated_requests_witness:
  "vcr_reachable (\<lambda>_. Fin 5) demo_vcr2 \<and> AwaitReply FromTs 1 \<in> set (v_pending demo_vcr2) \<and> v_mode demo_vcr2 = REPLAY \<and>
   v_mode (request_failed 30 FromTs 1 demo_vcr2) = LIVE"
proof -
  have r: "vcr_reachable (\<lambda>_. Fin 5) demo_vcr2"
    unfolding demo_vcr2_def
    by (intro vcr_reachable.step [OF _ vcr_step.release] vcr_reachable.step [OF _ vcr_step.press] demo_vcr_reachable)
  have m: "v_mode demo_vcr2 = REPLAY" "v_gen demo_vcr2 = 2" "AwaitReply FromTs 1 \<in> set (v_pending demo_vcr2)"
    by (simp_all add: demo_vcr2_def scrubRelease_def scrub_start_def scrubVisual_def vcrReplayFromTs_def Let_def demo_vcr_mode)
  show ?thesis using r m outdated_requests [of 1 demo_vcr2 FromTs 30] by simp
qed

end
