(* ===== verification/Customizer_Data.thy ===== *)
theory Customizer_Data
  imports Js_Json Url_State
begin

text \<open>
  The data of the theme customizer, \<^verbatim>\<open>src/public/customize-v2.js\<close>: the section tables and the theme
  presets, the validators of colours, opacities and links, the cleaning of an override delta before it is
  stored, and the check of an imported file.  A delta is an object from section to values.
\<close>

section \<open>Tables\<close>

definition OVERRIDES_KEY :: string where "OVERRIDES_KEY = ''cs-theme-overrides''"

definition LEGACY_KEYS :: "string list" where
  "LEGACY_KEYS = [''meshcore-user-theme'', ''meshcore-timestamp-mode'', ''meshcore-timestamp-timezone'',
     ''meshcore-timestamp-format'', ''meshcore-timestamp-custom-format'', ''meshcore-heatmap-opacity'',
     ''meshcore-live-heatmap-opacity'']"

definition VALID_SECTIONS :: "string list" where
  "VALID_SECTIONS = [''branding'', ''theme'', ''themeDark'', ''nodeColors'', ''typeColors'', ''home'', ''timestamps'',
     ''heatmapOpacity'', ''liveHeatmapOpacity'', ''distanceUnit'', ''favorites'', ''myNodes'', ''markerStroke'']"

definition OBJECT_SECTIONS :: "string list" where
  "OBJECT_SECTIONS = [''branding'', ''theme'', ''themeDark'', ''nodeColors'', ''typeColors'', ''home'', ''timestamps'', ''markerStroke'']"

definition SCALAR_SECTIONS :: "string list" where
  "SCALAR_SECTIONS = [''heatmapOpacity'', ''liveHeatmapOpacity'']"

definition DISTANCE_UNIT_VALUES :: "string list" where
  "DISTANCE_UNIT_VALUES = [''km'', ''mi'', ''auto'']"

definition COLOR_SECTIONS :: "string list" where
  "COLOR_SECTIONS = [''theme'', ''themeDark'', ''nodeColors'', ''typeColors'']"

definition TS_ENUMS :: "string list obj" where
  "TS_ENUMS = [(''defaultMode'', [''ago'', ''absolute'']), (''timezone'', [''local'', ''utc'']),
     (''formatPreset'', [''iso'', ''iso-seconds'', ''locale''])]"

definition THEME_CSS_MAP :: "(string \<times> string) list" where
  "THEME_CSS_MAP =
    [(''accent'', ''--accent''), (''accentHover'', ''--accent-hover''), (''navBg'', ''--nav-bg''), (''navBg2'', 
    ''--nav-bg2''), (''navText'', ''--nav-text''), (''navTextMuted'', ''--nav-text-muted''), (''navActiveBg'', 
    ''--nav-active-bg''), (''background'', ''--surface-0''), (''text'', ''--text''), (''textMuted'', ''--text-muted''), 
    (''border'', ''--border''), (''statusGreen'', ''--status-green''), (''statusYellow'', ''--status-yellow''), 
    (''statusRed'', ''--status-red''), (''surface1'', ''--surface-1''), (''surface2'', ''--surface-2''), (''surface3'', 
    ''--surface-3''), (''sectionBg'', ''--section-bg''), (''cardBg'', ''--card-bg''), (''contentBg'', ''--content-bg''), 
    (''detailBg'', ''--detail-bg''), (''inputBg'', ''--input-bg''), (''rowStripe'', ''--row-stripe''), (''rowHover'', 
    ''--row-hover''), (''selectedBg'', ''--selected-bg''), (''font'', ''--font''), (''mono'', ''--mono'')]"

definition THEME_COLOR_KEYS :: "string list" where
  "THEME_COLOR_KEYS = filter (\<lambda>k. k \<noteq> ''font'' \<and> k \<noteq> ''mono'') (map fst THEME_CSS_MAP)"

definition NAMED_COLORS :: "string list" where
  "NAMED_COLORS =
    [''aliceblue'', ''antiquewhite'', ''aqua'', ''aquamarine'', ''azure'', ''beige'', ''bisque'',
     ''black'', ''blanchedalmond'', ''blue'', ''blueviolet'', ''brown'', ''burlywood'', ''cadetblue'',
     ''chartreuse'', ''chocolate'', ''coral'', ''cornflowerblue'', ''cornsilk'', ''crimson'', ''cyan'',
     ''darkblue'', ''darkcyan'', ''darkgoldenrod'', ''darkgray'', ''darkgreen'', ''darkgrey'',
     ''darkkhaki'', ''darkmagenta'', ''darkolivegreen'', ''darkorange'', ''darkorchid'', ''darkred'',
     ''darksalmon'', ''darkseagreen'', ''darkslateblue'', ''darkslategray'', ''darkslategrey'',
     ''darkturquoise'', ''darkviolet'', ''deeppink'', ''deepskyblue'', ''dimgray'', ''dimgrey'',
     ''dodgerblue'', ''firebrick'', ''floralwhite'', ''forestgreen'', ''fuchsia'', ''gainsboro'',
     ''ghostwhite'', ''gold'', ''goldenrod'', ''gray'', ''green'', ''greenyellow'', ''grey'',
     ''honeydew'', ''hotpink'', ''indianred'', ''indigo'', ''ivory'', ''khaki'', ''lavender'',
     ''lavenderblush'', ''lawngreen'', ''lemonchiffon'', ''lightblue'', ''lightcoral'', ''lightcyan'',
     ''lightgoldenrodyellow'', ''lightgray'', ''lightgreen'', ''lightgrey'', ''lightpink'',
     ''lightsalmon'', ''lightseagreen'', ''lightskyblue'', ''lightslategray'', ''lightslategrey'',
     ''lightsteelblue'', ''lightyellow'', ''lime'', ''limegreen'', ''linen'', ''magenta'', ''maroon'',
     ''mediumaquamarine'', ''mediumblue'', ''mediumorchid'', ''mediumpurple'', ''mediumseagreen'',
     ''mediumslateblue'', ''mediumspringgreen'', ''mediumturquoise'', ''mediumvioletred'',
     ''midnightblue'', ''mintcream'', ''mistyrose'', ''moccasin'', ''navajowhite'', ''navy'',
     ''oldlace'', ''olive'', ''olivedrab'', ''orange'', ''orangered'', ''orchid'', ''palegoldenrod'',
     ''palegreen'', ''paleturquoise'', ''palevioletred'', ''papayawhip'', ''peachpuff'', ''peru'',
     ''pink'', ''plum'', ''powderblue'', ''purple'', ''rebeccapurple'', ''red'', ''rosybrown'',
     ''royalblue'', ''saddlebrown'', ''salmon'', ''sandybrown'', ''seagreen'', ''seashell'', ''sienna'',
     ''silver'', ''skyblue'', ''slateblue'', ''slategray'', ''slategrey'', ''snow'', ''springgreen'',
     ''steelblue'', ''tan'', ''teal'', ''thistle'', ''tomato'', ''turquoise'', ''violet'', ''wheat'',
     ''white'', ''whitesmoke'', ''yellow'', ''yellowgreen'', ''transparent'', ''currentcolor'',
     ''inherit'']"

section \<open>Presets\<close>

definition preset_default :: "jsval obj" where
  "preset_default =
   [(''name'', JStr ''Default''),
    (''desc'', JStr ''MeshCore blue''),
    (''preview'', JArr [JStr ''#4a9eff'', JStr ''#0f0f23'', JStr ''#f4f5f7'', JStr ''#1a1a2e'', JStr ''#22c55e'']),
    (''theme'', JObj [
      (''accent'', JStr ''#4a9eff''), (''navBg'', JStr ''#0f0f23''), (''navText'', JStr ''#ffffff''),
      (''background'', JStr ''#f4f5f7''), (''text'', JStr ''#1a1a2e''),
      (''statusGreen'', JStr ''#22c55e''), (''statusYellow'', JStr ''#eab308''),
      (''statusRed'', JStr ''#ef4444''), (''accentHover'', JStr ''#6db3ff''),
      (''navBg2'', JStr ''#1a1a2e''), (''navTextMuted'', JStr ''#cbd5e1''),
      (''navActiveBg'', JStr ''rgba(74,158,255,0.15)''), (''textMuted'', JStr ''#5b6370''),
      (''border'', JStr ''#e2e5ea''), (''surface1'', JStr ''#ffffff''), (''surface2'', JStr ''#ffffff''),
      (''cardBg'', JStr ''#ffffff''), (''contentBg'', JStr ''#f4f5f7''),
      (''detailBg'', JStr ''#ffffff''), (''inputBg'', JStr ''#ffffff''),
      (''rowStripe'', JStr ''#f9fafb''), (''rowHover'', JStr ''#eef2ff''),
      (''selectedBg'', JStr ''#dbeafe''), (''surface3'', JStr ''#ffffff''),
      (''sectionBg'', JStr ''#eef2ff'')]),
    (''themeDark'', JObj [
      (''accent'', JStr ''#4a9eff''), (''navBg'', JStr ''#0f0f23''), (''navText'', JStr ''#ffffff''),
      (''background'', JStr ''#0f0f23''), (''text'', JStr ''#e2e8f0''),
      (''statusGreen'', JStr ''#22c55e''), (''statusYellow'', JStr ''#eab308''),
      (''statusRed'', JStr ''#ef4444''), (''accentHover'', JStr ''#6db3ff''),
      (''navBg2'', JStr ''#1a1a2e''), (''navTextMuted'', JStr ''#cbd5e1''),
      (''navActiveBg'', JStr ''rgba(74,158,255,0.18)''), (''textMuted'', JStr ''#a8b8cc''),
      (''border'', JStr ''#334155''), (''surface1'', JStr ''#1a1a2e''), (''surface2'', JStr ''#232340''),
      (''cardBg'', JStr ''#1a1a2e''), (''contentBg'', JStr ''#0f0f23''),
      (''detailBg'', JStr ''#232340''), (''inputBg'', JStr ''#1e1e34''),
      (''rowStripe'', JStr ''#1e1e34''), (''rowHover'', JStr ''#2d2d50''),
      (''selectedBg'', JStr ''#1e3a5f''), (''surface3'', JStr ''#2d2d50''),
      (''sectionBg'', JStr ''#1e1e34'')])]"

definition preset_ocean :: "jsval obj" where
  "preset_ocean =
   [(''name'', JStr ''Ocean''),
    (''desc'', JStr ''Deep blues & teals''),
    (''preview'', JArr [JStr ''#0077b6'', JStr ''#03045e'', JStr ''#f0f7fa'', JStr ''#48cae4'', JStr ''#15803d'']),
    (''theme'', JObj [
      (''accent'', JStr ''#0077b6''), (''navBg'', JStr ''#03045e''), (''navText'', JStr ''#ffffff''),
      (''background'', JStr ''#f0f7fa''), (''text'', JStr ''#0a1628''),
      (''statusGreen'', JStr ''#15803d''), (''statusYellow'', JStr ''#a16207''),
      (''statusRed'', JStr ''#dc2626''), (''accentHover'', JStr ''#0096d6''),
      (''navBg2'', JStr ''#023e8a''), (''navTextMuted'', JStr ''#90caf9''),
      (''textMuted'', JStr ''#4a6580''), (''border'', JStr ''#c8dce8''),
      (''surface1'', JStr ''#ffffff''), (''surface2'', JStr ''#e8f4f8''), (''cardBg'', JStr ''#ffffff''),
      (''contentBg'', JStr ''#f0f7fa''), (''detailBg'', JStr ''#ffffff''),
      (''inputBg'', JStr ''#ffffff''), (''rowStripe'', JStr ''#f5fafd''),
      (''rowHover'', JStr ''#e0f0f8''), (''selectedBg'', JStr ''#bde0fe''),
      (''surface3'', JStr ''#f5fafd''), (''sectionBg'', JStr ''#e0f0f8'')]),
    (''themeDark'', JObj [
      (''accent'', JStr ''#48cae4''), (''navBg'', JStr ''#03045e''), (''navText'', JStr ''#ffffff''),
      (''background'', JStr ''#0a1929''), (''text'', JStr ''#e0e7ef''),
      (''statusGreen'', JStr ''#4ade80''), (''statusYellow'', JStr ''#facc15''),
      (''statusRed'', JStr ''#f87171''), (''accentHover'', JStr ''#76d7ea''),
      (''navBg2'', JStr ''#012a4a''), (''navTextMuted'', JStr ''#90caf9''),
      (''textMuted'', JStr ''#8eafc4''), (''border'', JStr ''#1e3a5f''),
      (''surface1'', JStr ''#0d2137''), (''surface2'', JStr ''#122d4a''), (''cardBg'', JStr ''#0d2137''),
      (''contentBg'', JStr ''#0a1929''), (''detailBg'', JStr ''#122d4a''),
      (''inputBg'', JStr ''#0d2137''), (''rowStripe'', JStr ''#0d2137''),
      (''rowHover'', JStr ''#153450''), (''selectedBg'', JStr ''#1a4570''),
      (''surface3'', JStr ''#153450''), (''sectionBg'', JStr ''#0d2137'')])]"

definition preset_forest :: "jsval obj" where
  "preset_forest =
   [(''name'', JStr ''Forest''),
    (''desc'', JStr ''Greens & earth tones''),
    (''preview'', JArr [JStr ''#2d6a4f'', JStr ''#1b3a2d'', JStr ''#f2f7f4'', JStr ''#52b788'', JStr ''#15803d'']),
    (''theme'', JObj [
      (''accent'', JStr ''#2d6a4f''), (''navBg'', JStr ''#1b3a2d''), (''navText'', JStr ''#ffffff''),
      (''background'', JStr ''#f2f7f4''), (''text'', JStr ''#1a2e24''),
      (''statusGreen'', JStr ''#15803d''), (''statusYellow'', JStr ''#a16207''),
      (''statusRed'', JStr ''#dc2626''), (''accentHover'', JStr ''#40916c''),
      (''navBg2'', JStr ''#2d6a4f''), (''navTextMuted'', JStr ''#a3c4b5''),
      (''textMuted'', JStr ''#557063''), (''border'', JStr ''#c8dcd2''),
      (''surface1'', JStr ''#ffffff''), (''surface2'', JStr ''#e8f0eb''), (''cardBg'', JStr ''#ffffff''),
      (''contentBg'', JStr ''#f2f7f4''), (''detailBg'', JStr ''#ffffff''),
      (''inputBg'', JStr ''#ffffff''), (''rowStripe'', JStr ''#f5faf7''),
      (''rowHover'', JStr ''#e4f0e8''), (''selectedBg'', JStr ''#c2e0cc''),
      (''surface3'', JStr ''#f5faf7''), (''sectionBg'', JStr ''#e4f0e8'')]),
    (''themeDark'', JObj [
      (''accent'', JStr ''#52b788''), (''navBg'', JStr ''#1b3a2d''), (''navText'', JStr ''#ffffff''),
      (''background'', JStr ''#0d1f17''), (''text'', JStr ''#d8e8df''),
      (''statusGreen'', JStr ''#4ade80''), (''statusYellow'', JStr ''#facc15''),
      (''statusRed'', JStr ''#f87171''), (''accentHover'', JStr ''#74c69d''),
      (''navBg2'', JStr ''#14532d''), (''navTextMuted'', JStr ''#86b89a''),
      (''textMuted'', JStr ''#8aac9a''), (''border'', JStr ''#2d4a3a''),
      (''surface1'', JStr ''#162e23''), (''surface2'', JStr ''#1d3a2d''), (''cardBg'', JStr ''#162e23''),
      (''contentBg'', JStr ''#0d1f17''), (''detailBg'', JStr ''#1d3a2d''),
      (''inputBg'', JStr ''#162e23''), (''rowStripe'', JStr ''#162e23''),
      (''rowHover'', JStr ''#1f4030''), (''selectedBg'', JStr ''#265940''),
      (''surface3'', JStr ''#1f4030''), (''sectionBg'', JStr ''#162e23'')])]"

definition preset_sunset :: "jsval obj" where
  "preset_sunset =
   [(''name'', JStr ''Sunset''),
    (''desc'', JStr ''Warm oranges & ambers''),
    (''preview'', JArr [JStr ''#c2410c'', JStr ''#431407'', JStr ''#fef7f2'', JStr ''#fb923c'', JStr ''#dc2626'']),
    (''theme'', JObj [
      (''accent'', JStr ''#c2410c''), (''navBg'', JStr ''#431407''), (''navText'', JStr ''#ffffff''),
      (''background'', JStr ''#fef7f2''), (''text'', JStr ''#1c0f06''),
      (''statusGreen'', JStr ''#15803d''), (''statusYellow'', JStr ''#a16207''),
      (''statusRed'', JStr ''#dc2626''), (''accentHover'', JStr ''#ea580c''),
      (''navBg2'', JStr ''#7c2d12''), (''navTextMuted'', JStr ''#fdba74''),
      (''textMuted'', JStr ''#6b5344''), (''border'', JStr ''#e8d5c8''),
      (''surface1'', JStr ''#ffffff''), (''surface2'', JStr ''#fef0e6''), (''cardBg'', JStr ''#ffffff''),
      (''contentBg'', JStr ''#fef7f2''), (''detailBg'', JStr ''#ffffff''),
      (''inputBg'', JStr ''#ffffff''), (''rowStripe'', JStr ''#fefaf7''),
      (''rowHover'', JStr ''#fef0e0''), (''selectedBg'', JStr ''#fed7aa''),
      (''surface3'', JStr ''#fefaf7''), (''sectionBg'', JStr ''#fef0e0'')]),
    (''themeDark'', JObj [
      (''accent'', JStr ''#fb923c''), (''navBg'', JStr ''#431407''), (''navText'', JStr ''#ffffff''),
      (''background'', JStr ''#1a0f08''), (''text'', JStr ''#f0ddd0''),
      (''statusGreen'', JStr ''#4ade80''), (''statusYellow'', JStr ''#facc15''),
      (''statusRed'', JStr ''#f87171''), (''accentHover'', JStr ''#fdba74''),
      (''navBg2'', JStr ''#7c2d12''), (''navTextMuted'', JStr ''#c2855a''),
      (''textMuted'', JStr ''#b09080''), (''border'', JStr ''#4a2a18''),
      (''surface1'', JStr ''#261a10''), (''surface2'', JStr ''#332214''), (''cardBg'', JStr ''#261a10''),
      (''contentBg'', JStr ''#1a0f08''), (''detailBg'', JStr ''#332214''),
      (''inputBg'', JStr ''#261a10''), (''rowStripe'', JStr ''#261a10''),
      (''rowHover'', JStr ''#3a2818''), (''selectedBg'', JStr ''#5c3518''),
      (''surface3'', JStr ''#3a2818''), (''sectionBg'', JStr ''#261a10'')])]"

definition preset_mono :: "jsval obj" where
  "preset_mono =
   [(''name'', JStr ''Monochrome''),
    (''desc'', JStr ''Pure grays, no color''),
    (''preview'', JArr [JStr ''#525252'', JStr ''#171717'', JStr ''#f5f5f5'', JStr ''#a3a3a3'', JStr ''#737373'']),
    (''theme'', JObj [
      (''accent'', JStr ''#525252''), (''navBg'', JStr ''#171717''), (''navText'', JStr ''#ffffff''),
      (''background'', JStr ''#f5f5f5''), (''text'', JStr ''#171717''),
      (''statusGreen'', JStr ''#15803d''), (''statusYellow'', JStr ''#a16207''),
      (''statusRed'', JStr ''#dc2626''), (''accentHover'', JStr ''#737373''),
      (''navBg2'', JStr ''#262626''), (''navTextMuted'', JStr ''#a3a3a3''),
      (''textMuted'', JStr ''#525252''), (''border'', JStr ''#d4d4d4''),
      (''surface1'', JStr ''#ffffff''), (''surface2'', JStr ''#fafafa''), (''cardBg'', JStr ''#ffffff''),
      (''contentBg'', JStr ''#f5f5f5''), (''detailBg'', JStr ''#ffffff''),
      (''inputBg'', JStr ''#ffffff''), (''rowStripe'', JStr ''#fafafa''),
      (''rowHover'', JStr ''#efefef''), (''selectedBg'', JStr ''#e5e5e5''),
      (''surface3'', JStr ''#fafafa''), (''sectionBg'', JStr ''#efefef'')]),
    (''themeDark'', JObj [
      (''accent'', JStr ''#a3a3a3''), (''navBg'', JStr ''#171717''), (''navText'', JStr ''#ffffff''),
      (''background'', JStr ''#0a0a0a''), (''text'', JStr ''#e5e5e5''),
      (''statusGreen'', JStr ''#4ade80''), (''statusYellow'', JStr ''#facc15''),
      (''statusRed'', JStr ''#f87171''), (''accentHover'', JStr ''#d4d4d4''),
      (''navBg2'', JStr ''#1a1a1a''), (''navTextMuted'', JStr ''#737373''),
      (''textMuted'', JStr ''#a3a3a3''), (''border'', JStr ''#333333''),
      (''surface1'', JStr ''#171717''), (''surface2'', JStr ''#1f1f1f''), (''cardBg'', JStr ''#171717''),
      (''contentBg'', JStr ''#0a0a0a''), (''detailBg'', JStr ''#1f1f1f''),
      (''inputBg'', JStr ''#171717''), (''rowStripe'', JStr ''#141414''),
      (''rowHover'', JStr ''#222222''), (''selectedBg'', JStr ''#2a2a2a''),
      (''surface3'', JStr ''#222222''), (''sectionBg'', JStr ''#171717'')])]"

definition preset_highContrast :: "jsval obj" where
  "preset_highContrast =
   [(''name'', JStr ''High Contrast''),
    (''desc'', JStr ''WCAG AAA, max readability''),
    (''preview'', JArr [JStr ''#0050a0'', JStr ''#000000'', JStr ''#ffffff'', JStr ''#66b3ff'', JStr ''#006400'']),
    (''theme'', JObj [
      (''accent'', JStr ''#0050a0''), (''navBg'', JStr ''#000000''), (''navText'', JStr ''#ffffff''),
      (''background'', JStr ''#ffffff''), (''text'', JStr ''#000000''),
      (''statusGreen'', JStr ''#006400''), (''statusYellow'', JStr ''#7a5900''),
      (''statusRed'', JStr ''#b30000''), (''accentHover'', JStr ''#0068cc''),
      (''navBg2'', JStr ''#1a1a1a''), (''navTextMuted'', JStr ''#e0e0e0''),
      (''textMuted'', JStr ''#333333''), (''border'', JStr ''#000000''),
      (''surface1'', JStr ''#ffffff''), (''surface2'', JStr ''#f0f0f0''), (''cardBg'', JStr ''#ffffff''),
      (''contentBg'', JStr ''#ffffff''), (''detailBg'', JStr ''#ffffff''),
      (''inputBg'', JStr ''#ffffff''), (''rowStripe'', JStr ''#f0f0f0''),
      (''rowHover'', JStr ''#e0e8f5''), (''selectedBg'', JStr ''#cce0ff''),
      (''surface3'', JStr ''#f0f0f0''), (''sectionBg'', JStr ''#e0e8f5'')]),
    (''themeDark'', JObj [
      (''accent'', JStr ''#66b3ff''), (''navBg'', JStr ''#000000''), (''navText'', JStr ''#ffffff''),
      (''background'', JStr ''#000000''), (''text'', JStr ''#ffffff''),
      (''statusGreen'', JStr ''#66ff66''), (''statusYellow'', JStr ''#ffff00''),
      (''statusRed'', JStr ''#ff6666''), (''accentHover'', JStr ''#99ccff''),
      (''navBg2'', JStr ''#0a0a0a''), (''navTextMuted'', JStr ''#cccccc''),
      (''textMuted'', JStr ''#cccccc''), (''border'', JStr ''#ffffff''),
      (''surface1'', JStr ''#111111''), (''surface2'', JStr ''#1a1a1a''), (''cardBg'', JStr ''#111111''),
      (''contentBg'', JStr ''#000000''), (''detailBg'', JStr ''#1a1a1a''),
      (''inputBg'', JStr ''#111111''), (''rowStripe'', JStr ''#0d0d0d''),
      (''rowHover'', JStr ''#1a2a3a''), (''selectedBg'', JStr ''#003366''),
      (''surface3'', JStr ''#1a2a3a''), (''sectionBg'', JStr ''#111111'')]),
    (''nodeColors'', JObj [
      (''repeater'', JStr ''#ff0000''), (''companion'', JStr ''#0066ff''), (''room'', JStr ''#009900''),
      (''sensor'', JStr ''#cc8800''), (''observer'', JStr ''#9933ff'')]),
    (''typeColors'', JObj [
      (''ADVERT'', JStr ''#009900''), (''GRP_TXT'', JStr ''#0066ff''), (''TXT_MSG'', JStr ''#cc8800''),
      (''ACK'', JStr ''#666666''), (''REQ'', JStr ''#9933ff''), (''RESPONSE'', JStr ''#0099cc''),
      (''TRACE'', JStr ''#cc0066''), (''PATH'', JStr ''#009999''), (''ANON_REQ'', JStr ''#cc3355'')])]"

definition preset_midnight :: "jsval obj" where
  "preset_midnight =
   [(''name'', JStr ''Midnight''),
    (''desc'', JStr ''Deep purples & indigos''),
    (''preview'', JArr [JStr ''#7c3aed'', JStr ''#1e1045'', JStr ''#f5f3ff'', JStr ''#a78bfa'', JStr ''#15803d'']),
    (''theme'', JObj [
      (''accent'', JStr ''#7c3aed''), (''navBg'', JStr ''#1e1045''), (''navText'', JStr ''#ffffff''),
      (''background'', JStr ''#f5f3ff''), (''text'', JStr ''#1a1040''),
      (''statusGreen'', JStr ''#15803d''), (''statusYellow'', JStr ''#a16207''),
      (''statusRed'', JStr ''#dc2626''), (''accentHover'', JStr ''#8b5cf6''),
      (''navBg2'', JStr ''#2e1065''), (''navTextMuted'', JStr ''#c4b5fd''),
      (''textMuted'', JStr ''#5b5075''), (''border'', JStr ''#d8d0e8''),
      (''surface1'', JStr ''#ffffff''), (''surface2'', JStr ''#ede9fe''), (''cardBg'', JStr ''#ffffff''),
      (''contentBg'', JStr ''#f5f3ff''), (''detailBg'', JStr ''#ffffff''),
      (''inputBg'', JStr ''#ffffff''), (''rowStripe'', JStr ''#faf8ff''),
      (''rowHover'', JStr ''#ede9fe''), (''selectedBg'', JStr ''#ddd6fe''),
      (''surface3'', JStr ''#faf8ff''), (''sectionBg'', JStr ''#ede9fe'')]),
    (''themeDark'', JObj [
      (''accent'', JStr ''#a78bfa''), (''navBg'', JStr ''#1e1045''), (''navText'', JStr ''#ffffff''),
      (''background'', JStr ''#0f0a24''), (''text'', JStr ''#e2ddf0''),
      (''statusGreen'', JStr ''#4ade80''), (''statusYellow'', JStr ''#facc15''),
      (''statusRed'', JStr ''#f87171''), (''accentHover'', JStr ''#c4b5fd''),
      (''navBg2'', JStr ''#2e1065''), (''navTextMuted'', JStr ''#9d8abf''),
      (''textMuted'', JStr ''#9a90b0''), (''border'', JStr ''#352a55''),
      (''surface1'', JStr ''#1a1338''), (''surface2'', JStr ''#221a48''), (''cardBg'', JStr ''#1a1338''),
      (''contentBg'', JStr ''#0f0a24''), (''detailBg'', JStr ''#221a48''),
      (''inputBg'', JStr ''#1a1338''), (''rowStripe'', JStr ''#1a1338''),
      (''rowHover'', JStr ''#2a2050''), (''selectedBg'', JStr ''#352a6a''),
      (''surface3'', JStr ''#2a2050''), (''sectionBg'', JStr ''#1a1338'')])]"

definition preset_ember :: "jsval obj" where
  "preset_ember =
   [(''name'', JStr ''Ember''),
    (''desc'', JStr ''Warm red/orange, cyberpunk''),
    (''preview'', JArr [JStr ''#dc2626'', JStr ''#1a0a0a'', JStr ''#faf5f5'', JStr ''#ef4444'', JStr ''#15803d'']),
    (''theme'', JObj [
      (''accent'', JStr ''#dc2626''), (''navBg'', JStr ''#1a0a0a''), (''navText'', JStr ''#ffffff''),
      (''background'', JStr ''#faf5f5''), (''text'', JStr ''#1a0a0a''),
      (''statusGreen'', JStr ''#15803d''), (''statusYellow'', JStr ''#a16207''),
      (''statusRed'', JStr ''#dc2626''), (''accentHover'', JStr ''#ef4444''),
      (''navBg2'', JStr ''#2a1010''), (''navTextMuted'', JStr ''#f0a0a0''),
      (''textMuted'', JStr ''#6b4444''), (''border'', JStr ''#e0c8c8''),
      (''surface1'', JStr ''#ffffff''), (''surface2'', JStr ''#faf0f0''), (''cardBg'', JStr ''#ffffff''),
      (''contentBg'', JStr ''#faf5f5''), (''detailBg'', JStr ''#ffffff''),
      (''inputBg'', JStr ''#ffffff''), (''rowStripe'', JStr ''#fdf8f8''),
      (''rowHover'', JStr ''#fce8e8''), (''selectedBg'', JStr ''#fecaca''),
      (''surface3'', JStr ''#fdf8f8''), (''sectionBg'', JStr ''#fce8e8'')]),
    (''themeDark'', JObj [
      (''accent'', JStr ''#ef4444''), (''navBg'', JStr ''#1a0505''), (''navText'', JStr ''#ffffff''),
      (''background'', JStr ''#0d0505''), (''text'', JStr ''#f0dada''),
      (''statusGreen'', JStr ''#4ade80''), (''statusYellow'', JStr ''#facc15''),
      (''statusRed'', JStr ''#f87171''), (''accentHover'', JStr ''#f87171''),
      (''navBg2'', JStr ''#2a0a0a''), (''navTextMuted'', JStr ''#c07070''),
      (''textMuted'', JStr ''#b09090''), (''border'', JStr ''#4a2020''),
      (''surface1'', JStr ''#1a0d0d''), (''surface2'', JStr ''#261414''), (''cardBg'', JStr ''#1a0d0d''),
      (''contentBg'', JStr ''#0d0505''), (''detailBg'', JStr ''#261414''),
      (''inputBg'', JStr ''#1a0d0d''), (''rowStripe'', JStr ''#1a0d0d''),
      (''rowHover'', JStr ''#301818''), (''selectedBg'', JStr ''#4a1a1a''),
      (''surface3'', JStr ''#301818''), (''sectionBg'', JStr ''#1a0d0d'')])]"

definition PRESETS :: "(string \<times> jsval obj) list" where
  "PRESETS = [(''default'', preset_default), (''ocean'', preset_ocean), (''forest'', preset_forest), (''sunset'', preset_sunset), (''mono'', preset_mono), (''highContrast'', preset_highContrast), (''midnight'', preset_midnight), (''ember'', preset_ember)]"

section \<open>Validators\<close>

text \<open>\<^verbatim>\<open>/^#(?:[0-9a-fA-F]{3,4}|[0-9a-fA-F]{6}|[0-9a-fA-F]{8})$/\<close>.\<close>

definition color_re :: "string \<Rightarrow> bool" where
  "color_re s = (case s of c # r \<Rightarrow> c = CHR ''#'' \<and> list_all is_hex r \<and> length r \<in> {3, 4, 6, 8} | [] \<Rightarrow> False)"

text \<open>\<^verbatim>\<open>/^(?:rgb|rgba|hsl|hsla)\s*\(.*\)$/i\<close>; the dot does not match a line break.\<close>

definition line_break :: "char \<Rightarrow> bool" where
  "line_break c = (code c = 10 \<or> code c = 13)"

definition css_func_re :: "string \<Rightarrow> bool" where
  "css_func_re s =
     list_ex (\<lambda>f. toLowerCase (take (length f) s) = f \<and>
       (case dropWhile is_ws (drop (length f) s) of
          c # r \<Rightarrow> c = CHR ''('' \<and> r \<noteq> [] \<and> last r = CHR '')'' \<and> \<not> list_ex line_break (butlast r)
        | [] \<Rightarrow> False)) [''rgb'', ''rgba'', ''hsl'', ''hsla'']"

definition valid_color_str :: "string \<Rightarrow> bool" where
  "valid_color_str s = (color_re s \<or> css_func_re s \<or> trim (toLowerCase s) \<in> set NAMED_COLORS)"

definition isValidColor :: "jsval \<Rightarrow> bool" where
  "isValidColor v = (case v of JStr s \<Rightarrow> valid_color_str s | _ \<Rightarrow> False)"

definition isValidOpacity :: "jsval \<Rightarrow> bool" where
  "isValidOpacity v = (case v of JNum (Fin q) \<Rightarrow> 0 \<le> q \<and> q \<le> 1 | _ \<Rightarrow> False)"

definition isValidHomeUrl :: "jsval \<Rightarrow> bool" where
  "isValidHomeUrl v =
     (case v of
        JStr val \<Rightarrow>
          (let trimmed = dropWhile is_ws val in
           if length trimmed = 0 then False
           else if hd trimmed = CHR ''#'' then True
           else case index_of '':'' trimmed of
                  None \<Rightarrow> False
                | Some colonIdx \<Rightarrow>
                    (let schemeClean = toLowerCase (filter (\<lambda>c. \<not> is_ws c) (take colonIdx trimmed)) in
                     if schemeClean \<noteq> ''http'' \<and> schemeClean \<noteq> ''https'' then False
                     else toLowerCase (take 7 trimmed) = ''http://'' \<or> toLowerCase (take 8 trimmed) = ''https://''))
      | _ \<Rightarrow> False)"

text \<open>The link of the navigation bar: a value that is not valid falls back to the start page.\<close>

definition setBrandHomeUrl :: "jsval \<Rightarrow> string" where
  "setBrandHomeUrl url = (case url of JStr s \<Rightarrow> if s \<noteq> [] \<and> isValidHomeUrl url then s else ''#/'' | _ \<Rightarrow> ''#/'')"

section \<open>Cleaning a delta\<close>

text \<open>The own enumerable entries of an object or array (the loop \<^verbatim>\<open>for (k in v)\<close>).\<close>

fun obj_entries :: "jsval \<Rightarrow> jsval obj" where
  "obj_entries (JObj ob) = ob"
| "obj_entries (JArr vs) = zip (map nat_to_dec [0..<length vs]) vs"
| "obj_entries _ = []"

definition is_font_key :: "string \<Rightarrow> string \<Rightarrow> bool" where
  "is_font_key sec k = ((sec = ''theme'' \<or> sec = ''themeDark'') \<and> (k = ''font'' \<or> k = ''mono''))"

definition real_object :: "jsval \<Rightarrow> bool" where
  "real_object v = (is_object v \<and> v \<noteq> JNull)"

definition keep_color :: "string \<Rightarrow> string \<times> jsval \<Rightarrow> bool" where
  "keep_color sec kv = (case kv of (k, v) \<Rightarrow> if is_font_key sec k then is_str v else isValidColor v)"

definition clean_colors :: "string \<Rightarrow> jsval \<Rightarrow> jsval obj" where
  "clean_colors sec src = foldl (\<lambda>s (k, v). if keep_color sec (k, v) then set_param s k v else s) [] (obj_entries src)"

text \<open>\<^verbatim>\<open>typeof v === 'string' ? parseFloat(v) : v\<close>.\<close>

definition as_number :: "jsval \<Rightarrow> jsval" where
  "as_number v = (case v of JStr s \<Rightarrow> JNum (parseFloat s) | _ \<Rightarrow> v)"

text \<open>\<^verbatim>\<open>isFinite(v) && v >= 0 && v <= 10\<close> for a number; other kinds of value are outside the model and rejected.\<close>

definition valid_width :: "jsval \<Rightarrow> bool" where
  "valid_width v = (case v of JNum (Fin q) \<Rightarrow> 0 \<le> q \<and> q \<le> 10 | _ \<Rightarrow> False)"

definition clean_stroke :: "jsval \<Rightarrow> jsval obj" where
  "clean_stroke msIn =
     (let c = js_prop msIn ''color''; w = js_prop msIn ''width''; op = js_prop msIn ''opacity'';
          o1 = (if isValidColor c then [(''color'', c)] else []);
          o2 = (if \<not> nullish w \<and> valid_width (as_number w) then obj_set o1 ''width'' (as_number w) else o1)
      in if \<not> nullish op \<and> isValidOpacity (as_number op) then obj_set o2 ''opacity'' (as_number op) else o2)"

definition enum_ok :: "string \<Rightarrow> jsval \<Rightarrow> bool" where
  "enum_ok k v = (case obj_get TS_ENUMS k of Some vs \<Rightarrow> v \<in> set (map JStr vs) | None \<Rightarrow> True)"

text \<open>
  The time stamp sections have no key of \<^verbatim>\<open>Object.prototype\<close>: for \<^verbatim>\<open>constructor\<close> the test of the
  enumeration would throw, where \<open>keep_ts\<close> passes it like an unknown key.
\<close>

definition keep_ts :: "string \<times> jsval \<Rightarrow> bool" where
  "keep_ts kv = (case kv of (k, v) \<Rightarrow>
     (case obj_get TS_ENUMS k of Some vs \<Rightarrow> v \<in> set (map JStr vs) | None \<Rightarrow> if k = ''customFormat'' then is_str v else True))"

definition clean_ts :: "jsval \<Rightarrow> jsval obj" where
  "clean_ts src = foldl (\<lambda>s (k, v). if keep_ts (k, v) then set_param s k v else s) [] (obj_entries src)"

text \<open>\<^verbatim>\<open>JSON.parse(JSON.stringify(v))\<close>.\<close>

definition json_clone :: "jsval \<Rightarrow> jsval" where
  "json_clone v = (case json_stringify v of
      Some t \<Rightarrow> (case json_parse t of Some w \<Rightarrow> w | None \<Rightarrow> JUndef) | None \<Rightarrow> JUndef)"

text \<open>What one entry of the delta becomes; \<open>None\<close> when it is left out.\<close>

definition non_empty :: "jsval obj \<Rightarrow> jsval option" where
  "non_empty ob = (if length ob = 0 then None else Some (JObj ob))"

definition clean_entry :: "string \<Rightarrow> jsval \<Rightarrow> jsval option" where
  "clean_entry key v =
     (if key \<in> set COLOR_SECTIONS \<and> real_object v then non_empty (clean_colors key v)
      else if key = ''heatmapOpacity'' \<or> key = ''liveHeatmapOpacity'' then
        (if isValidOpacity (as_number v) then Some (as_number v) else None)
      else if key = ''markerStroke'' \<and> real_object v then non_empty (clean_stroke v)
      else if key = ''timestamps'' \<and> real_object v then non_empty (clean_ts v)
      else if key = ''branding'' \<or> key = ''home'' then (if real_object v then Some (json_clone v) else None)
      else Some v)"

definition validateDelta :: "jsval obj \<Rightarrow> jsval obj" where
  "validateDelta delta =
     foldl (\<lambda>clean (k, v). case clean_entry k v of Some w \<Rightarrow> set_param clean k w | None \<Rightarrow> clean) [] delta"

section \<open>Checking an import\<close>

definition quote_str :: "string \<Rightarrow> string" where
  "quote_str s = [CHR 0x22] @ s @ [CHR 0x22]"

definition color_errors :: "string \<Rightarrow> jsval \<Rightarrow> string list" where
  "color_errors key v =
     concat (map (\<lambda>(ck, x). if is_font_key key ck then []
                            else if is_str x \<and> \<not> isValidColor x
                            then [''Invalid color: '' @ key @ ''.'' @ ck @ '' = '' @ quote_str (js_String x)] else [])
                 (obj_entries v))"

definition ts_errors :: "jsval \<Rightarrow> string list" where
  "ts_errors v =
     concat (map (\<lambda>(tk, x). if enum_ok tk x then [] else [''Invalid timestamp enum: '' @ tk @ '' = '' @ quote_str (js_String x)])
                 (obj_entries v))"

definition section_errors :: "string \<Rightarrow> jsval \<Rightarrow> string list" where
  "section_errors key v =
     (if key \<notin> set VALID_SECTIONS then []
      else if key \<in> set OBJECT_SECTIONS \<and> (\<not> real_object v \<or> is_arr v) then [''Section '' @ quote_str key @ '' must be an object'']
      else if key \<in> set SCALAR_SECTIONS then
        (if isValidOpacity (as_number v) then [] else [quote_str key @ '' must be a number between 0 and 1''])
      else (if key \<in> set COLOR_SECTIONS \<and> is_object v then color_errors key v else []) @
           (if key = ''timestamps'' \<and> is_object v then ts_errors v else []) @
           (if key = ''distanceUnit'' \<and> v \<notin> set (map JStr DISTANCE_UNIT_VALUES)
            then [''Invalid distanceUnit: '' @ quote_str (js_String v) @ '' - must be km, mi, or auto''] else []) @
           (if key = ''favorites'' \<and> \<not> is_arr v then [quote_str ''favorites'' @ '' must be an array of public key strings''] else []) @
           (if key = ''myNodes'' \<and> \<not> is_arr v then [quote_str ''myNodes'' @ '' must be an array of node objects''] else []))"

definition validateShape :: "jsval \<Rightarrow> bool \<times> string list" where
  "validateShape obj =
     (case obj of
        JObj ob \<Rightarrow> (let errors = concat (map (\<lambda>(k, v). section_errors k v) ob) in (errors = [], errors))
      | _ \<Rightarrow> (False, [''Input must be a plain object'']))"

section \<open>Links\<close>

lemma lower_char_eq: "lower_char c = d \<Longrightarrow> \<not> is_lower d \<Longrightarrow> c = d"
  by (auto simp: lower_char_def is_lower_def is_upper_def of_char_of split: if_splits)

lemma starts_with_take: "starts_with p s \<Longrightarrow> take (length p) s = p"
  by (simp add: starts_with_def)

lemma scheme_colon:
  assumes "toLowerCase (take (n + 3) t) = p @ ''://''" "list_all is_lower p" and n: "length p = n"
  shows "index_of '':'' t = Some n \<and> toLowerCase (filter (\<lambda>c. \<not> is_ws c) (take n t)) = p"
proof -
  let ?a = "take (length p) t" and ?b = "take 3 (drop (length p) t)"
  note assms = assms [unfolded n [symmetric]]
  have "toLowerCase (?a @ ?b) = p @ ''://''" using assms(1) by (simp add: take_add)
  then have ab: "map lower_char ?a @ map lower_char ?b = p @ ''://''" by (simp add: toLowerCase_def)
  moreover have len: "length ?a = length p"
    using arg_cong [OF assms(1), of length] by (simp add: min_def split: if_splits)
  ultimately have a: "map lower_char ?a = p" and b: "map lower_char ?b = ''://''" by simp_all
  have "c \<noteq> CHR '':'' \<and> \<not> is_ws c" if "c \<in> set ?a" for c
  proof -
    have "lower_char c \<in> set p" using that a by (metis image_eqI list.set_map)
    then have l: "is_lower (lower_char c)" using assms(2) by (auto simp: list_all_iff)
    then show ?thesis by (auto simp: lower_char_def char_class_defs of_char_of split: if_splits)
  qed
  note fa = this
  then have "filter (\<lambda>c. \<not> is_ws c) ?a = ?a" by (simp add: filter_id_conv)
  moreover obtain x r where xr: "?b = x # r" "lower_char x = CHR '':''" using b by (cases ?b) auto
  have "x = CHR '':''" using lower_char_eq [OF xr(2)] by (simp add: is_lower_def)
  with xr have "drop (length p) t = CHR '':'' # drop (Suc (length p)) t" by (cases "drop (length p) t") (auto, metis drop_Suc list.sel(3) tl_drop)
  then have "t = ?a @ CHR '':'' # drop (Suc (length p)) t" by (metis append_take_drop_id)
  moreover have "CHR '':'' \<notin> set ?a" using fa by blast
  ultimately show ?thesis
    using a len n index_of_char [of "CHR '':''" ?a "drop (Suc (length p)) t"] by (simp add: toLowerCase_def)
qed

lemma isValidHomeUrl_iff:
  "isValidHomeUrl (JStr val) \<longleftrightarrow>
     (let t = dropWhile is_ws val in
      starts_with ''#'' t \<or> starts_with ''http://'' (toLowerCase t) \<or> starts_with ''https://'' (toLowerCase t))"
proof -
  define t where "t = dropWhile is_ws val"
  have sw: "starts_with p (toLowerCase t) \<longleftrightarrow> toLowerCase (take (length p) t) = p" for p
    by (auto simp: starts_with_def toLowerCase_take)
  have l: "length ''http://'' = 7" "length ''https://'' = 8" by simp_all
  note iff = sw [of "''http://''", unfolded l, symmetric] sw [of "''https://''", unfolded l, symmetric]
  have h: "starts_with ''http://'' (toLowerCase t) \<Longrightarrow> index_of '':'' t = Some 4 \<and>
      toLowerCase (filter (\<lambda>c. \<not> is_ws c) (take 4 t)) = ''http''"
    using scheme_colon [of 4 t "''http''"] unfolding iff [symmetric] by (simp add: is_lower_def)
  have hs: "starts_with ''https://'' (toLowerCase t) \<Longrightarrow> index_of '':'' t = Some 5 \<and>
      toLowerCase (filter (\<lambda>c. \<not> is_ws c) (take 5 t)) = ''https''"
    using scheme_colon [of 5 t "''https''"] unfolding iff [symmetric] by (simp add: is_lower_def)
  have hash: "starts_with ''#'' t \<longleftrightarrow> t \<noteq> [] \<and> hd t = CHR ''#''" by (cases t) (auto simp: starts_with_def)
  have ne: "t = [] \<Longrightarrow> \<not> starts_with ''http://'' (toLowerCase t) \<and> \<not> starts_with ''https://'' (toLowerCase t)"
    by (simp add: starts_with_def toLowerCase_def)
  show ?thesis
    unfolding isValidHomeUrl_def jsval.case Let_def t_def [symmetric] iff hash
    using h hs ne by (cases "index_of '':'' t") auto
qed

section \<open>Filtering folds\<close>

lemma foldl_set_param_filter:
  "distinct (obj_keys (acc @ ob)) \<Longrightarrow> ''__proto__'' \<notin> fst ` set ob \<Longrightarrow>
   foldl (\<lambda>s (k, v). if P (k, v) then set_param s k v else s) acc ob = acc @ filter P ob"
proof (induction ob arbitrary: acc)
  case (Cons kv ob)
  obtain k v where kv: "kv = (k, v)" by (cases kv)
  have "k \<notin> fst ` set acc" using Cons.prems by (auto simp: kv)
  then have "set_param acc k v = acc @ [(k, v)]" using Cons.prems by (auto simp: kv set_param_def obj_set_new)
  with Cons.IH [of "acc @ [(k, v)]"] Cons.IH [of acc] Cons.prems show ?case by (simp add: kv)
qed simp

lemma foldl_clean:
  "distinct (obj_keys (acc @ ob)) \<Longrightarrow> ''__proto__'' \<notin> fst ` set ob \<Longrightarrow>
   foldl (\<lambda>clean (k, v). case f k v of Some w \<Rightarrow> set_param clean k w | None \<Rightarrow> clean) acc ob =
     acc @ List.map_filter (\<lambda>(k, v). map_option (Pair k) (f k v)) ob"
proof (induction ob arbitrary: acc)
  case (Cons kv ob)
  obtain k v where kv: "kv = (k, v)" by (cases kv)
  have k: "k \<notin> fst ` set acc" using Cons.prems by (auto simp: kv)
  show ?case
  proof (cases "f k v")
    case None
    with Cons.IH [of acc] Cons.prems show ?thesis by (simp add: kv List.map_filter_def)
  next
    case (Some w)
    have "set_param acc k w = acc @ [(k, w)]" using Cons.prems k by (auto simp: kv set_param_def obj_set_new)
    with Cons.IH [of "acc @ [(k, w)]"] Cons.prems Some show ?thesis by (simp add: kv List.map_filter_def)
  qed
qed (simp add: List.map_filter_def)

section \<open>What a cleaned delta satisfies\<close>

text \<open>Deltas as the page has them: values that JSON can carry, no key \<^verbatim>\<open>__proto__\<close>.\<close>

definition delta_ok :: "jsval obj \<Rightarrow> bool" where
  "delta_ok d = (proto_free d \<and> list_all (\<lambda>(k, v). json_ok v \<and> proto_free (obj_entries v)) d)"

lemma proto_free_index: "proto_free (zip (map nat_to_dec [0..<length vs]) vs)"
proof -
  have "distinct (map nat_to_dec [0..<length vs])" by (simp add: distinct_map inj_on_def nat_to_dec_inj)
  moreover have "''__proto__'' \<notin> set (map nat_to_dec [0..<length vs])"
  proof
    assume "''__proto__'' \<in> set (map nat_to_dec [0..<length vs])"
    then obtain n where "nat_to_dec n = ''__proto__''" by auto
    then show False using nat_to_dec_digits [of "CHR ''_''" n] by (simp add: is_digit_def)
  qed
  ultimately show ?thesis by (auto simp: proto_free_def obj_wf_def dest: set_zip_leftD)
qed

lemma proto_free_filter: "proto_free ob \<Longrightarrow> proto_free (filter P ob)"
  by (auto simp: proto_free_def obj_wf_def intro: distinct_map_filter)

lemma clean_colors_filter: "proto_free (obj_entries v) \<Longrightarrow> clean_colors sec v = filter (keep_color sec) (obj_entries v)"
  using foldl_set_param_filter [of "[]" "obj_entries v" "keep_color sec"] by (simp add: clean_colors_def proto_free_def obj_wf_def)

lemma clean_ts_filter: "proto_free (obj_entries v) \<Longrightarrow> clean_ts v = filter keep_ts (obj_entries v)"
  using foldl_set_param_filter [of "[]" "obj_entries v" keep_ts] by (simp add: clean_ts_def proto_free_def obj_wf_def)

lemma validateDelta_map_filter:
  "proto_free d \<Longrightarrow> validateDelta d = List.map_filter (\<lambda>(k, v). map_option (Pair k) (clean_entry k v)) d"
  using foldl_clean [of "[]" d clean_entry] by (simp add: validateDelta_def proto_free_def obj_wf_def)

lemma json_clone_ok: "json_ok v \<Longrightarrow> json_clone v = v"
  by (simp add: json_clone_def json_stringify_def json_ok_not_omit json_parse_text)

text \<open>
  The sections after cleaning: the colours of a colour section, the numbers of the opacities, the fields of
  the marker stroke, the enumerations of the time stamps; branding and home are objects.
\<close>

definition stroke_field :: "string \<times> jsval \<Rightarrow> bool" where
  "stroke_field kv = (case kv of (f, x) \<Rightarrow>
     (f = ''color'' \<and> isValidColor x) \<or>
     (f = ''width'' \<and> (\<exists>q. x = JNum (Fin q) \<and> 0 \<le> q \<and> q \<le> 10)) \<or>
     (f = ''opacity'' \<and> (\<exists>q. x = JNum (Fin q) \<and> 0 \<le> q \<and> q \<le> 1)))"

definition section_clean :: "string \<Rightarrow> jsval \<Rightarrow> bool" where
  "section_clean k v =
     ((k \<in> set COLOR_SECTIONS \<and> real_object v \<longrightarrow> obj_entries v \<noteq> [] \<and> list_all (keep_color k) (obj_entries v)) \<and>
      (k \<in> set SCALAR_SECTIONS \<longrightarrow> isValidOpacity v) \<and>
      (k = ''markerStroke'' \<and> real_object v \<longrightarrow> obj_entries v \<noteq> [] \<and> list_all stroke_field (obj_entries v)) \<and>
      (k = ''timestamps'' \<and> real_object v \<longrightarrow> obj_entries v \<noteq> [] \<and> list_all keep_ts (obj_entries v)) \<and>
      (k = ''branding'' \<or> k = ''home'' \<longrightarrow> real_object v))"

text \<open>The sections the cleaning looks into only when they are objects, and the keys it does not know.\<close>

definition opaque_section :: "string \<Rightarrow> jsval \<Rightarrow> bool" where
  "opaque_section k v =
     (if k \<in> set COLOR_SECTIONS \<or> k = ''markerStroke'' \<or> k = ''timestamps'' then \<not> real_object v
      else k \<notin> set SCALAR_SECTIONS \<and> k \<noteq> ''branding'' \<and> k \<noteq> ''home'')"

lemma as_number_num: "isValidOpacity (as_number v) \<Longrightarrow> as_number (as_number v) = as_number v"
  by (cases v) (auto simp: as_number_def isValidOpacity_def)

lemma clean_stroke_eq:
  "clean_stroke v =
     (if isValidColor (js_prop v ''color'') then [(''color'', js_prop v ''color'')] else []) @
     (if \<not> nullish (js_prop v ''width'') \<and> valid_width (as_number (js_prop v ''width''))
      then [(''width'', as_number (js_prop v ''width''))] else []) @
     (if \<not> nullish (js_prop v ''opacity'') \<and> isValidOpacity (as_number (js_prop v ''opacity''))
      then [(''opacity'', as_number (js_prop v ''opacity''))] else [])"
  by (simp add: clean_stroke_def Let_def)

lemma stroke_props:
  "js_prop (JObj ((if a then [(''color'', c)] else []) @ (if b then [(''width'', w)] else []) @ (if d then [(''opacity'', x)] else []))) ''color''
     = (if a then c else JUndef)"
  "js_prop (JObj ((if a then [(''color'', c)] else []) @ (if b then [(''width'', w)] else []) @ (if d then [(''opacity'', x)] else []))) ''width''
     = (if b then w else JUndef)"
  "js_prop (JObj ((if a then [(''color'', c)] else []) @ (if b then [(''width'', w)] else []) @ (if d then [(''opacity'', x)] else []))) ''opacity''
     = (if d then x else JUndef)"
  by (simp_all add: js_prop_def table_get_def object_proto_def)

lemma clean_stroke_idem: "clean_stroke (JObj (clean_stroke v)) = clean_stroke v"
proof -
  have w: "valid_width (as_number x) \<Longrightarrow> as_number (as_number x) = as_number x \<and> \<not> nullish (as_number x)"
    "isValidOpacity (as_number x) \<Longrightarrow> as_number (as_number x) = as_number x \<and> \<not> nullish (as_number x)" for x
    by (cases x; auto simp: as_number_def valid_width_def isValidOpacity_def)+
  have u: "\<not> isValidColor JUndef" by (simp add: isValidColor_def)
  show ?thesis
    unfolding clean_stroke_eq [of "JObj (clean_stroke v)"] unfolding clean_stroke_eq [of v] stroke_props
    using w u by simp
qed

lemma clean_stroke_fields: "list_all stroke_field (clean_stroke v)"
  unfolding clean_stroke_eq by (auto simp: stroke_field_def valid_width_def isValidOpacity_def split: jsval.splits jsnum.splits)

lemma color_sections_simps: "''heatmapOpacity'' \<notin> set COLOR_SECTIONS" "''liveHeatmapOpacity'' \<notin> set COLOR_SECTIONS"
  "''markerStroke'' \<notin> set COLOR_SECTIONS" "''timestamps'' \<notin> set COLOR_SECTIONS" "''branding'' \<notin> set COLOR_SECTIONS" "''home'' \<notin> set COLOR_SECTIONS"
  by (simp_all add: COLOR_SECTIONS_def)

lemma clean_entry_clean:
  assumes v: "json_ok v" "proto_free (obj_entries v)" and c: "clean_entry k v = Some w"
  shows "clean_entry k w = Some w \<and> section_clean k w \<and> (k \<noteq> ''markerStroke'' \<longrightarrow> proto_free (obj_entries w))"
proof -
  have ro: "real_object (JObj ob)" for ob by (simp add: real_object_def)
  consider (color) "k \<in> set COLOR_SECTIONS" "real_object v"
    | (opacity) "k = ''heatmapOpacity'' \<or> k = ''liveHeatmapOpacity''"
    | (stroke) "k = ''markerStroke''" "real_object v" | (ts) "k = ''timestamps''" "real_object v"
    | (brand) "k = ''branding'' \<or> k = ''home''"
    | (other) "\<not> (k \<in> set COLOR_SECTIONS \<and> real_object v)" "k \<noteq> ''heatmapOpacity'' \<and> k \<noteq> ''liveHeatmapOpacity''"
        "\<not> (k = ''markerStroke'' \<and> real_object v)" "\<not> (k = ''timestamps'' \<and> real_object v)" "k \<noteq> ''branding'' \<and> k \<noteq> ''home''" by argo
  then show ?thesis
  proof cases
    case color
    let ?f = "filter (keep_color k) (obj_entries v)"
    have w: "w = JObj ?f" "?f \<noteq> []"
      using c color clean_colors_filter [OF v(2)] by (auto simp: clean_entry_def non_empty_def split: if_splits)
    have pf: "proto_free (obj_entries (JObj ?f))" using proto_free_filter [OF v(2)] by simp
    have "clean_colors k (JObj ?f) = ?f" using clean_colors_filter [OF pf] by simp
    moreover have "k \<notin> set SCALAR_SECTIONS" "k \<noteq> ''timestamps''" "k \<noteq> ''markerStroke''" "k \<noteq> ''branding''" "k \<noteq> ''home''"
      using color color_sections_simps by (auto simp: SCALAR_SECTIONS_def)
    ultimately show ?thesis
      using color(1) w pf ro by (auto simp: clean_entry_def non_empty_def section_clean_def list_all_iff)
  next
    case opacity
    with c have w: "w = as_number v" "isValidOpacity w"
      using color_sections_simps by (auto simp: clean_entry_def split: if_splits)
    then obtain q where q: "w = JNum (Fin q)" by (auto simp: isValidOpacity_def split: jsval.splits jsnum.splits)
    have "as_number w = w" "\<not> real_object w" "obj_entries w = []" by (simp_all add: q as_number_def real_object_def)
    with w(2) opacity color_sections_simps show ?thesis by (auto simp: clean_entry_def section_clean_def)
  next
    case stroke
    have w: "w = JObj (clean_stroke v)" "clean_stroke v \<noteq> []"
      using c stroke color_sections_simps by (auto simp: clean_entry_def non_empty_def split: if_splits)
    then show ?thesis
      using stroke clean_stroke_idem clean_stroke_fields color_sections_simps ro
      by (simp add: clean_entry_def non_empty_def section_clean_def SCALAR_SECTIONS_def)
  next
    case ts
    let ?f = "filter keep_ts (obj_entries v)"
    have w: "w = JObj ?f" "?f \<noteq> []"
      using c ts clean_ts_filter [OF v(2)] color_sections_simps by (auto simp: clean_entry_def non_empty_def split: if_splits)
    have pf: "proto_free (obj_entries (JObj ?f))" using proto_free_filter [OF v(2)] by simp
    have "clean_ts (JObj ?f) = ?f" using clean_ts_filter [OF pf] by simp
    then show ?thesis
      using ts w pf ro color_sections_simps by (auto simp: clean_entry_def non_empty_def section_clean_def SCALAR_SECTIONS_def list_all_iff)
  next
    case brand
    with c have "w = v" "real_object v" using color_sections_simps json_clone_ok [OF v(1)]
      by (auto simp: clean_entry_def split: if_splits)
    with brand v json_clone_ok [OF v(1)] color_sections_simps show ?thesis
      by (auto simp: clean_entry_def section_clean_def SCALAR_SECTIONS_def)
  next
    case other
    with c have "w = v" by (auto simp: clean_entry_def)
    with other c v show ?thesis by (auto simp: section_clean_def SCALAR_SECTIONS_def)
  qed
qed

lemma validateDelta_get:
  assumes "proto_free d"
  shows "proto_free (validateDelta d) \<and>
    obj_get (validateDelta d) k = (case obj_get d k of Some v \<Rightarrow> clean_entry k v | None \<Rightarrow> None)"
proof -
  let ?f = "\<lambda>(k, v). map_option (Pair k) (clean_entry k v)"
  have keys: "fst ` set (List.map_filter ?f d) \<subseteq> fst ` set d" for d
    by (auto simp: List.map_filter_def) force
  have "distinct (map fst d) \<Longrightarrow> distinct (map fst (List.map_filter ?f d)) \<and>
      obj_get (List.map_filter ?f d) k = (case obj_get d k of Some v \<Rightarrow> clean_entry k v | None \<Rightarrow> None)" for d
  proof (induction d)
    case (Cons kv d)
    obtain a b where kv: "kv = (a, b)" by (cases kv)
    with Cons.prems have a: "a \<notin> fst ` set d" "distinct (map fst d)" by auto
    then have "a \<notin> fst ` set (List.map_filter ?f d)" "obj_get d a = None" using keys [of d] by (auto simp: map_of_eq_None_iff)
    with Cons.IH [OF a(2)] a show ?case
      by (cases "clean_entry a b") (auto simp: kv List.map_filter_simps split: option.splits)
  qed (simp add: List.map_filter_simps)
  with assms keys [of d] show ?thesis unfolding validateDelta_map_filter [OF assms] by (auto simp: proto_free_def obj_wf_def)
qed

lemma validateDelta_entries:
  assumes "delta_ok d" "(k, w) \<in> set (validateDelta d)"
  shows "clean_entry k w = Some w \<and> section_clean k w"
proof -
  have pf: "proto_free d" using assms(1) by (simp add: delta_ok_def)
  from assms(2) obtain v where v: "(k, v) \<in> set d" "clean_entry k v = Some w"
    unfolding validateDelta_map_filter [OF pf] by (auto simp: List.map_filter_def)
  then have "json_ok v" "proto_free (obj_entries v)" using assms(1) by (auto simp: delta_ok_def list_all_iff)
  from clean_entry_clean [OF this v(2)] show ?thesis by simp
qed

lemma clean_entry_opaque: "opaque_section k v \<Longrightarrow> clean_entry k v = Some v"
proof (cases "k \<in> set COLOR_SECTIONS \<or> k = ''markerStroke'' \<or> k = ''timestamps''")
  case True
  assume "opaque_section k v"
  with True have "\<not> real_object v" by (simp add: opaque_section_def)
  moreover have "k \<noteq> ''heatmapOpacity''" "k \<noteq> ''liveHeatmapOpacity''" "k \<noteq> ''branding''" "k \<noteq> ''home''"
    using True color_sections_simps by auto
  ultimately show ?thesis by (simp only: clean_entry_def) simp
next
  case False
  assume "opaque_section k v"
  with False have "k \<noteq> ''heatmapOpacity''" "k \<noteq> ''liveHeatmapOpacity''" "k \<noteq> ''branding''" "k \<noteq> ''home''"
    by (simp_all add: opaque_section_def SCALAR_SECTIONS_def)
  with False show ?thesis by (simp add: clean_entry_def)
qed

text \<open>Nothing valid is lost.\<close>

lemma clean_entry_keeps:
  assumes "proto_free (obj_entries v)" "real_object v"
  shows "k \<in> set COLOR_SECTIONS \<Longrightarrow> filter (keep_color k) (obj_entries v) \<noteq> [] \<Longrightarrow>
      clean_entry k v = Some (JObj (filter (keep_color k) (obj_entries v)))"
    and "k = ''timestamps'' \<Longrightarrow> filter keep_ts (obj_entries v) \<noteq> [] \<Longrightarrow>
      clean_entry k v = Some (JObj (filter keep_ts (obj_entries v)))"
  by (simp_all add: clean_entry_def non_empty_def assms clean_colors_filter [OF assms(1)] clean_ts_filter [OF assms(1)] color_sections_simps)

lemma validateDelta_id:
  assumes "proto_free d" "\<forall>(k, v)\<in>set d. clean_entry k v = Some v"
  shows "validateDelta d = d"
proof -
  have "List.map_filter (\<lambda>(k, v). map_option (Pair k) (clean_entry k v)) d = d"
    using assms(2) by (induction d) (auto simp: List.map_filter_def)
  then show ?thesis by (simp only: validateDelta_map_filter [OF assms(1)])
qed

section \<open>Presets\<close>

text \<open>The delta a preset button stores (\<^verbatim>\<open>default\<close> stores none).\<close>

definition preset_delta :: "jsval obj \<Rightarrow> jsval obj" where
  "preset_delta p =
     concat (map (\<lambda>k. case obj_get p k of Some v \<Rightarrow> if truthy v then [(k, json_clone v)] else [] | None \<Rightarrow> [])
       [''theme'', ''themeDark'', ''nodeColors'', ''typeColors''])"

text \<open>A check that is cheap to evaluate: every value is a hexadecimal or functional colour.\<close>

definition plain_color :: "string \<times> jsval \<Rightarrow> bool" where
  "plain_color kv = (case kv of (sk, x) \<Rightarrow> sk \<noteq> ''font'' \<and> sk \<noteq> ''mono'' \<and> sk \<noteq> ''__proto__'' \<and>
     (case x of JStr s \<Rightarrow> if color_re s then True else css_func_re s | _ \<Rightarrow> False))"

definition plain_colors :: "string \<times> jsval \<Rightarrow> bool" where
  "plain_colors kv = (case kv of (k, v) \<Rightarrow> obj_entries v \<noteq> [] \<and> distinct (map fst (obj_entries v)) \<and>
     list_all plain_color (obj_entries v))"

lemma plain_colors_clean:
  assumes "plain_colors (k, JObj ob)" "k \<in> set COLOR_SECTIONS"
  shows "clean_entry k (JObj ob) = Some (JObj ob)" and "json_ok (JObj ob)" and "proto_free ob"
proof -
  have d: "distinct (map fst ob)" "ob \<noteq> []" using assms(1) by (simp_all add: plain_colors_def)
  have e: "\<exists>s. x = JStr s \<and> valid_color_str s" "sk \<noteq> ''font''" "sk \<noteq> ''mono''" "sk \<noteq> ''__proto__''"
    if "(sk, x) \<in> set ob" for sk x
  proof -
    have "plain_color (sk, x)" using assms(1) that by (auto simp: plain_colors_def list_all_iff)
    then show "\<exists>s. x = JStr s \<and> valid_color_str s" "sk \<noteq> ''font''" "sk \<noteq> ''mono''" "sk \<noteq> ''__proto__''"
      by (auto simp: plain_color_def valid_color_str_def split: jsval.splits if_splits)
  qed
  have "''__proto__'' \<notin> fst ` set ob"
  proof
    assume "''__proto__'' \<in> fst ` set ob"
    then obtain x where "(''__proto__'', x) \<in> set ob" by auto
    from e(4) [OF this] show False by simp
  qed
  then show pf: "proto_free ob" using d by (simp add: proto_free_def obj_wf_def)
  have "keep_color k (sk, x)" if "(sk, x) \<in> set ob" for sk x
    using e(1) [OF that] by (auto simp: keep_color_def isValidColor_def)
  then have "filter (keep_color k) ob = ob" by (auto simp: filter_id_conv)
  then have "clean_colors k (JObj ob) = ob" using clean_colors_filter [of "JObj ob"] pf by simp
  then show "clean_entry k (JObj ob) = Some (JObj ob)"
    using assms(2) d(2) by (simp add: clean_entry_def real_object_def non_empty_def)
  have "json_ok x" if "(sk, x) \<in> set ob" for sk x using e(1) [OF that] by auto
  then show "json_ok (JObj ob)" using d(1) by auto
qed

definition preset_fine :: "jsval obj \<Rightarrow> bool" where
  "preset_fine p = list_all (\<lambda>k. case obj_get p k of Some (JObj ob) \<Rightarrow> plain_colors (k, JObj ob) | None \<Rightarrow> True | _ \<Rightarrow> False)
     COLOR_SECTIONS"

lemmas preset_eval = preset_fine_def COLOR_SECTIONS_def plain_colors_def plain_color_def color_re_def hex_literals

lemma navActive_color: "css_func_re ''rgba(74,158,255,0.15)''" "css_func_re ''rgba(74,158,255,0.18)''"
  by code_simp+

lemma presets_fine:
  "preset_fine preset_default" "preset_fine preset_ocean" "preset_fine preset_forest" "preset_fine preset_sunset"
  "preset_fine preset_mono" "preset_fine preset_highContrast" "preset_fine preset_midnight" "preset_fine preset_ember"
  by (simp_all add: preset_eval navActive_color preset_default_def preset_ocean_def preset_forest_def preset_sunset_def
    preset_mono_def preset_highContrast_def preset_midnight_def preset_ember_def)

lemma PRESETS_fine: "(nm, p) \<in> set PRESETS \<Longrightarrow> preset_fine p"
  using presets_fine by (auto simp: PRESETS_def)

lemma preset_delta_entry:
  assumes "preset_fine p" "(k, v) \<in> set (preset_delta p)"
  shows "k \<in> set COLOR_SECTIONS \<and> (\<exists>ob. v = JObj ob \<and> obj_get p k = Some (JObj ob) \<and> plain_colors (k, JObj ob))"
proof -
  from assms(2) have "k \<in> set COLOR_SECTIONS \<and> (\<exists>w. obj_get p k = Some w \<and> v = json_clone w)"
    by (auto simp: preset_delta_def COLOR_SECTIONS_def split: option.splits if_splits) (metis+)
  then obtain w where w: "k \<in> set COLOR_SECTIONS" "obj_get p k = Some w" "v = json_clone w" by blast
  with assms(1) obtain ob where ob: "w = JObj ob" "plain_colors (k, JObj ob)"
    by (auto simp: preset_fine_def list_all_iff split: jsval.splits)
  with w plain_colors_clean(2) [OF ob(2) w(1)] show ?thesis by (simp add: json_clone_ok)
qed

lemma preset_delta_ok:
  assumes "preset_fine p"
  shows "proto_free (preset_delta p)" "validateDelta (preset_delta p) = preset_delta p" "json_ok (JObj (preset_delta p))"
proof -
  have keys: "map fst (preset_delta p) = filter (\<lambda>k. case obj_get p k of Some v \<Rightarrow> truthy v | None \<Rightarrow> False)
      [''theme'', ''themeDark'', ''nodeColors'', ''typeColors'']"
    by (simp add: preset_delta_def split: option.split)
  then have d: "distinct (map fst (preset_delta p))" by (simp only: distinct_filter) simp
  moreover have "''__proto__'' \<notin> set (map fst (preset_delta p))" unfolding keys by simp
  ultimately show pf: "proto_free (preset_delta p)" by (auto simp: proto_free_def obj_wf_def)
  have "clean_entry k v = Some v \<and> json_ok v" if "(k, v) \<in> set (preset_delta p)" for k v
    using preset_delta_entry [OF assms that] plain_colors_clean by blast
  then show "validateDelta (preset_delta p) = preset_delta p" "json_ok (JObj (preset_delta p))"
    using pf d by (auto intro!: validateDelta_id)
qed

section \<open>Properties\<close>

text \<open>
  Links of the navigation bar are safe.  A value is accepted as link exactly when, after leading white space, it is
  a hash route or starts with http:// or https:// in any case; so the link that is set is the start page,
  or such a value, and never a script or data address.
\<close>

theorem home_url_safe:
  "let link = dropWhile is_ws (setBrandHomeUrl url) in
     starts_with ''#'' link \<or> starts_with ''http://'' (toLowerCase link) \<or> starts_with ''https://'' (toLowerCase link)"
proof (cases "\<exists>s. url = JStr s \<and> s \<noteq> [] \<and> isValidHomeUrl url")
  case True
  then obtain s where "url = JStr s" "setBrandHomeUrl url = s" "isValidHomeUrl (JStr s)" by (auto simp: setBrandHomeUrl_def)
  then show ?thesis by (simp only: isValidHomeUrl_iff)
next
  case False
  then have "setBrandHomeUrl url = ''#/''" by (auto simp: setBrandHomeUrl_def split: jsval.split)
  then show ?thesis by (simp add: is_ws_def starts_with_def)
qed



text \<open>
  An import that passes the check loses no text.  If the shape of a file is accepted, then every text in one of
  its colour sections is stored as it is by the cleaning, under the same section and name.
\<close>

theorem import_keeps_text:
  assumes "delta_ok d" "fst (validateShape (JObj d))" "obj_get d k = Some (JObj ob)" "k \<in> set COLOR_SECTIONS"
    and "(sk, JStr s) \<in> set ob"
  shows "\<exists>ob'. obj_get (validateDelta d) k = Some (JObj ob') \<and> (sk, JStr s) \<in> set ob'"
proof -
  have "(k, JObj ob) \<in> set d" using assms(3) by (rule map_of_SomeD)
  then have pf: "proto_free ob" and err: "section_errors k (JObj ob) = []"
    using assms(1,2) by (auto simp: delta_ok_def list_all_iff validateShape_def Let_def)
  have "k \<in> set VALID_SECTIONS" "k \<in> set OBJECT_SECTIONS" "k \<notin> set SCALAR_SECTIONS"
    using assms(4) by (auto simp: COLOR_SECTIONS_def VALID_SECTIONS_def OBJECT_SECTIONS_def SCALAR_SECTIONS_def)
  with err assms(4) have "color_errors k (JObj ob) = []" by (auto simp: section_errors_def real_object_def)
  then have "keep_color k (sk, JStr s)"
    using assms(5) by (fastforce simp: color_errors_def keep_color_def split: if_splits)
  with assms(5) have m: "(sk, JStr s) \<in> set (clean_colors k (JObj ob))"
    using clean_colors_filter [of "JObj ob" k] pf by simp
  then have "clean_entry k (JObj ob) = Some (JObj (clean_colors k (JObj ob)))"
    using assms(4) by (auto simp: clean_entry_def real_object_def non_empty_def)
  moreover have "proto_free d" using assms(1) by (simp add: delta_ok_def)
  ultimately show ?thesis using validateDelta_get [of d k] assms(3) m by simp
qed

theorem import_keeps_text_witness:
  "\<exists>ob'. obj_get (validateDelta [(''nodeColors'', JObj [(''room'', JStr ''#abc'')])]) ''nodeColors'' = Some (JObj ob') \<and>
     (''room'', JStr ''#abc'') \<in> set ob'"
proof -
  have "isValidColor (JStr ''#abc'')" by (simp add: isValidColor_def valid_color_str_def color_re_def is_hex_def is_digit_def)
  then have "fst (validateShape (JObj [(''nodeColors'', JObj [(''room'', JStr ''#abc'')])]))"
    by (simp add: validateShape_def section_errors_def VALID_SECTIONS_def OBJECT_SECTIONS_def SCALAR_SECTIONS_def COLOR_SECTIONS_def
        real_object_def color_errors_def)
  then show ?thesis
    by (intro import_keeps_text [of _ _ "[(''room'', JStr ''#abc'')]"])
      (simp_all add: delta_ok_def proto_free_def obj_wf_def COLOR_SECTIONS_def)
qed

end
