(* ===== verification/Customizer.thy ===== *)
theory Customizer
  imports Customizer_Data
begin

text \<open>
  The theme customizer, \<^verbatim>\<open>src/public/customize-v2.js\<close>: the overrides in \<^verbatim>\<open>localStorage\<close>, the merge with
  the server configuration, the debounced and immediate writes, presets, migration of the old keys and
  what \<^verbatim>\<open>applyCSS\<close> sets on the page.  \<open>fits\<close> tells whether a storage content is within the quota;
  \<open>home0\<close> is the built-in home page configuration (a text constant).
\<close>

section \<open>Reading and writing overrides\<close>

record customizer =
  c_ls :: "string obj"
  c_server :: "jsval obj option"
  c_site :: "jsval obj"
  c_status :: string
  c_pending :: "jsval obj"
  c_timer :: bool

definition obj_of :: "jsval \<Rightarrow> jsval obj" where
  "obj_of v = (case v of JObj ob \<Rightarrow> ob | _ \<Rightarrow> [])"

definition oprop :: "jsval obj \<Rightarrow> string \<Rightarrow> jsval" where
  "oprop ob k = table_get ob k"

text \<open>\<^verbatim>\<open>JSON.parse(localStorage.getItem(key) || '[]')\<close> when it is an array with elements.\<close>

definition stored_list :: "string obj \<Rightarrow> string \<Rightarrow> jsval list option" where
  "stored_list ls key =
     (case json_parse (case obj_get ls key of Some t \<Rightarrow> if t = [] then ''[]'' else t | None \<Rightarrow> ''[]'') of
        Some (JArr vs) \<Rightarrow> if 0 < length vs then Some vs else None
      | _ \<Rightarrow> None)"

definition with_list :: "string obj \<Rightarrow> string \<Rightarrow> string \<Rightarrow> jsval obj \<Rightarrow> jsval obj" where
  "with_list ls key name ob = (case stored_list ls key of Some vs \<Rightarrow> obj_set ob name (JArr vs) | None \<Rightarrow> ob)"

definition readOverrides :: "string obj \<Rightarrow> jsval obj" where
  "readOverrides ls =
     (case (case obj_get ls OVERRIDES_KEY of Some raw \<Rightarrow> json_parse raw | None \<Rightarrow> Some (JObj [])) of
        None \<Rightarrow> []
      | Some parsed \<Rightarrow>
          with_list ls ''meshcore-my-nodes'' ''myNodes'' (with_list ls ''meshcore-favorites'' ''favorites'' (obj_of parsed)))"

definition ls_put :: "(string obj \<Rightarrow> bool) \<Rightarrow> string \<Rightarrow> string \<Rightarrow> string obj \<Rightarrow> string obj" where
  "ls_put fits k t ls = (if fits (obj_set ls k t) then obj_set ls k t else ls)"

definition put_list :: "(string obj \<Rightarrow> bool) \<Rightarrow> string \<Rightarrow> jsval \<Rightarrow> string obj \<Rightarrow> string obj" where
  "put_list fits key v ls = (if is_arr v then ls_put fits key (json_text v) ls else ls)"

definition theme_delta :: "jsval obj \<Rightarrow> jsval obj" where
  "theme_delta delta = filter (\<lambda>(k, v). k \<noteq> ''favorites'' \<and> k \<noteq> ''myNodes'') delta"

definition writeOverrides :: "(string obj \<Rightarrow> bool) \<Rightarrow> jsval obj \<Rightarrow> customizer \<Rightarrow> customizer" where
  "writeOverrides fits delta st =
     (let ls1 = put_list fits ''meshcore-favorites'' (oprop delta ''favorites'') (c_ls st);
          ls2 = put_list fits ''meshcore-my-nodes'' (oprop delta ''myNodes'') ls1;
          themeDelta = theme_delta delta
      in if length themeDelta = 0 then st\<lparr>c_ls := obj_del ls2 OVERRIDES_KEY, c_status := ''saved''\<rparr>
         else let text = json_text (JObj (validateDelta themeDelta)) in
              if fits (obj_set ls2 OVERRIDES_KEY text) then st\<lparr>c_ls := obj_set ls2 OVERRIDES_KEY text, c_status := ''saved''\<rparr>
              else st\<lparr>c_ls := ls2, c_status := ''error''\<rparr>)"

section \<open>The effective configuration\<close>

definition clone_arr :: "jsval \<Rightarrow> jsval" where
  "clone_arr v = (if is_arr v then json_clone v else v)"

text \<open>
  A section of the server that an override section merges into is an object, not an array (which would keep its
  array form in the source).
\<close>

definition merge_entry :: "jsval obj \<Rightarrow> string \<times> jsval \<Rightarrow> jsval obj" where
  "merge_entry eff kv =
     (case kv of (key, uv) \<Rightarrow>
        if real_object uv \<and> \<not> is_arr uv then
          (let base = (let e = oprop eff key in if \<not> truthy e \<or> \<not> is_object e then [] else obj_entries e)
           in set_param eff key (JObj (foldl (\<lambda>s (sk, x). set_param s sk (clone_arr x)) base (obj_entries uv))))
        else set_param eff key (clone_arr uv))"

definition computeEffective :: "jsval \<Rightarrow> jsval obj option \<Rightarrow> jsval obj \<Rightarrow> jsval obj" where
  "computeEffective home0 serverConfig userOverrides =
     (let eff = obj_of (json_clone (JObj (case serverConfig of Some s \<Rightarrow> s | None \<Rightarrow> [])));
          home = oprop eff ''home'';
          eff1 = (if \<not> truthy home \<or> \<not> is_object home then obj_set eff ''home'' (json_clone home0) else eff)
      in foldl merge_entry eff1 userOverrides)"

definition runPipeline :: "jsval \<Rightarrow> customizer \<Rightarrow> customizer" where
  "runPipeline home0 st = st\<lparr>c_site := computeEffective home0 (c_server st) (readOverrides (c_ls st))\<rparr>"

section \<open>Single overrides\<close>

definition section_set :: "jsval obj \<Rightarrow> string \<Rightarrow> string \<Rightarrow> jsval \<Rightarrow> jsval obj" where
  "section_set ob sec k v =
     (let s = oprop ob sec in set_param ob sec (JObj (set_param (if truthy s then obj_entries s else []) k v)))"

text \<open>\<open>section = None\<close> is a setting outside the sections.\<close>

definition setOverride :: "string option \<Rightarrow> string \<Rightarrow> jsval \<Rightarrow> customizer \<Rightarrow> customizer" where
  "setOverride sec key value st =
     st\<lparr>c_pending := (case sec of Some s \<Rightarrow> section_set (c_pending st) s key value | None \<Rightarrow> set_param (c_pending st) key value),
        c_status := ''saving'', c_timer := True\<rparr>"

text \<open>Deleting a key of a section, and the section when it is empty then.\<close>

definition section_del :: "jsval obj \<Rightarrow> string \<Rightarrow> string \<Rightarrow> jsval obj" where
  "section_del ob sec k =
     (let s = oprop ob sec in
      if truthy s then
        (let s' = obj_del (obj_entries s) k in if length s' = 0 then obj_del ob sec else obj_set ob sec (JObj s'))
      else ob)"

definition clearOverride :: "(string obj \<Rightarrow> bool) \<Rightarrow> jsval \<Rightarrow> string option \<Rightarrow> string \<Rightarrow> customizer \<Rightarrow> customizer" where
  "clearOverride fits home0 sec key st =
     (let remove = (\<lambda>ob. case sec of Some s \<Rightarrow> section_del ob s key | None \<Rightarrow> obj_del ob key);
          delta = remove (readOverrides (c_ls st))
      in runPipeline home0 (writeOverrides fits delta (st\<lparr>c_pending := remove (c_pending st)\<rparr>)))"

definition merge_pending :: "jsval obj \<Rightarrow> string \<times> jsval \<Rightarrow> jsval obj" where
  "merge_pending delta kv =
     (case kv of (sec, v) \<Rightarrow>
        if real_object v then
          set_param delta sec
            (JObj (foldl (\<lambda>s (k, x). set_param s k x) (let s = oprop delta sec in if truthy s then obj_entries s else []) (obj_entries v)))
        else set_param delta sec v)"

text \<open>Equality with the server value: as JSON when one of them is an object (or null).\<close>

definition same_value :: "jsval \<Rightarrow> jsval \<Rightarrow> bool" where
  "same_value ov sv = (if is_object ov \<or> is_object sv then json_stringify ov = json_stringify sv else strict_eq ov sv)"

definition server_section :: "jsval obj option \<Rightarrow> string \<Rightarrow> jsval obj" where
  "server_section server sec = (let s = oprop (case server of Some ob \<Rightarrow> ob | None \<Rightarrow> []) sec in if truthy s then obj_entries s else [])"

text \<open>A value just written that equals the server default is not stored.\<close>

definition drop_redundant :: "jsval obj option \<Rightarrow> jsval obj \<Rightarrow> string \<times> jsval \<Rightarrow> jsval obj" where
  "drop_redundant server delta kv =
     (case kv of (ps, v) \<Rightarrow>
        if real_object v \<and> ps \<in> set OBJECT_SECTIONS then
          (let d = oprop delta ps in
           if truthy d then
             (let d' = foldl (\<lambda>s (pk, x). if same_value (oprop s pk) (oprop (server_section server ps) pk) then obj_del s pk else s)
                         (obj_entries d) (obj_entries v)
              in if length d' = 0 then obj_del delta ps else obj_set delta ps (JObj d'))
           else delta)
        else if ps \<in> set SCALAR_SECTIONS \<and>
             strict_eq (oprop delta ps) (oprop (case server of Some ob \<Rightarrow> ob | None \<Rightarrow> []) ps) then obj_del delta ps
        else delta)"

definition debounce_fires :: "(string obj \<Rightarrow> bool) \<Rightarrow> jsval \<Rightarrow> customizer \<Rightarrow> customizer" where
  "debounce_fires fits home0 st =
     (if \<not> c_timer st then st
      else let pending = c_pending st;
               delta = foldl merge_pending (readOverrides (c_ls st)) pending;
               delta' = foldl (drop_redundant (c_server st)) delta pending
           in runPipeline home0 (writeOverrides fits delta' (st\<lparr>c_timer := False, c_pending := []\<rparr>)))"

definition isOverridden :: "customizer \<Rightarrow> string option \<Rightarrow> string \<Rightarrow> bool" where
  "isOverridden st sec key =
     (let ov = readOverrides (c_ls st); server = (case c_server st of Some ob \<Rightarrow> ob | None \<Rightarrow> []) in
      case sec of
        Some s \<Rightarrow>
          (let os = oprop ov s in
           if \<not> truthy os then False
           else case obj_get (obj_entries os) key of
                  None \<Rightarrow> False
                | Some v \<Rightarrow> \<not> same_value v (oprop (server_section (c_server st) s) key))
      | None \<Rightarrow> (case obj_get ov key of None \<Rightarrow> False | Some v \<Rightarrow> \<not> same_value v (oprop server key)))"

definition countOverrides :: "customizer \<Rightarrow> string \<Rightarrow> nat" where
  "countOverrides st sec =
     (let os = oprop (readOverrides (c_ls st)) sec in
      if \<not> truthy os \<or> \<not> is_object os then 0
      else length (filter (\<lambda>k. isOverridden st (Some sec) k) (map fst (obj_entries os))))"

section \<open>Phantom overrides and migration\<close>

definition phantom :: "jsval \<Rightarrow> bool" where
  "phantom v = (case v of JArr vs \<Rightarrow> vs = [] | JObj ob \<Rightarrow> ob = [] | _ \<Rightarrow> False)"

definition clean_section :: "jsval obj option \<Rightarrow> jsval obj \<Rightarrow> string \<Rightarrow> jsval obj" where
  "clean_section server delta sec =
     (let d = oprop delta sec in
      if \<not> truthy d \<or> \<not> is_object d then delta
      else let serverSec = oprop (case server of Some ob \<Rightarrow> ob | None \<Rightarrow> []) sec;
               d' = (if \<not> truthy serverSec then filter (\<lambda>(k, v). \<not> phantom v) (obj_entries d)
                     else filter (\<lambda>(k, v). \<not> same_value v (js_prop serverSec k)) (obj_entries d))
           in if length d' = 0 then obj_del delta sec
              else if d' = obj_entries d then delta else obj_set delta sec (JObj d'))"

definition clean_scalar :: "jsval obj option \<Rightarrow> jsval obj \<Rightarrow> string \<Rightarrow> jsval obj" where
  "clean_scalar server delta sk =
     (case obj_get delta sk of
        Some v \<Rightarrow> if strict_eq v (oprop (case server of Some ob \<Rightarrow> ob | None \<Rightarrow> []) sk) then obj_del delta sk else delta
      | None \<Rightarrow> delta)"

definition cleanPhantomOverrides :: "(string obj \<Rightarrow> bool) \<Rightarrow> customizer \<Rightarrow> customizer" where
  "cleanPhantomOverrides fits st =
     (let delta = readOverrides (c_ls st) in
      if length delta = 0 then st
      else let delta' = foldl (clean_scalar (c_server st)) (foldl (clean_section (c_server st)) delta OBJECT_SECTIONS) SCALAR_SECTIONS
           in if delta' \<noteq> delta then writeOverrides fits delta' st else st)"

definition legacy_theme :: "string obj \<Rightarrow> jsval obj" where
  "legacy_theme ls =
     (case obj_get ls ''meshcore-user-theme'' of
        None \<Rightarrow> []
      | Some raw \<Rightarrow>
          if raw = [] then []
          else case json_parse raw of
                 None \<Rightarrow> []
               | Some parsed \<Rightarrow>
                   if truthy parsed \<and> is_object parsed then
                     concat (map (\<lambda>k. let v = js_prop parsed k in if truthy v \<and> is_object v then [(k, json_clone v)] else [])
                       [''branding'', ''theme'', ''themeDark'', ''nodeColors'', ''typeColors'', ''home''])
                   else [])"

definition legacy_text :: "string obj \<Rightarrow> string \<Rightarrow> string" where
  "legacy_text ls k = (case obj_get ls k of Some t \<Rightarrow> t | None \<Rightarrow> [])"

definition legacy_timestamps :: "string obj \<Rightarrow> jsval obj" where
  "legacy_timestamps ls =
     (let tsMode = legacy_text ls ''meshcore-timestamp-mode''; tsTz = legacy_text ls ''meshcore-timestamp-timezone'';
          tsFmt = legacy_text ls ''meshcore-timestamp-format''; tsCustom = legacy_text ls ''meshcore-timestamp-custom-format''
      in (if tsMode = ''ago'' \<or> tsMode = ''absolute'' then [(''defaultMode'', JStr tsMode)] else []) @
         (if tsTz = ''local'' \<or> tsTz = ''utc'' then [(''timezone'', JStr tsTz)] else []) @
         (if tsFmt = ''iso'' \<or> tsFmt = ''iso-seconds'' \<or> tsFmt = ''locale'' then [(''formatPreset'', JStr tsFmt)] else []) @
         (if tsCustom \<noteq> [] then [(''customFormat'', JStr tsCustom)] else []))"

definition legacy_opacity :: "string obj \<Rightarrow> string \<Rightarrow> string \<Rightarrow> jsval obj" where
  "legacy_opacity ls key name =
     (let raw = legacy_text ls key in
      if raw = [] then []
      else case parseFloat raw of Fin q \<Rightarrow> [(name, JNum (Fin (max 0 (min 1 q))))] | _ \<Rightarrow> [])"

definition migrateOldKeys :: "(string obj \<Rightarrow> bool) \<Rightarrow> customizer \<Rightarrow> customizer \<times> jsval obj option" where
  "migrateOldKeys fits st =
     (let ls = c_ls st in
      if obj_get ls OVERRIDES_KEY \<noteq> None then (st, None)
      else if \<not> list_ex (\<lambda>k. obj_get ls k \<noteq> None) LEGACY_KEYS then (st, None)
      else let ts = legacy_timestamps ls;
               delta = legacy_theme ls @ (if ts = [] then [] else [(''timestamps'', JObj ts)]) @
                 legacy_opacity ls ''meshcore-heatmap-opacity'' ''heatmapOpacity'' @
                 legacy_opacity ls ''meshcore-live-heatmap-opacity'' ''liveHeatmapOpacity'';
               st1 = writeOverrides fits delta st
           in (st1\<lparr>c_ls := foldl obj_del (c_ls st1) LEGACY_KEYS\<rparr>, Some delta))"

section \<open>Presets\<close>

definition preset_click :: "(string obj \<Rightarrow> bool) \<Rightarrow> jsval \<Rightarrow> string \<Rightarrow> customizer \<Rightarrow> customizer" where
  "preset_click fits home0 nm st =
     (case obj_get PRESETS nm of
        None \<Rightarrow> st
      | Some p \<Rightarrow>
          runPipeline home0
            (if nm = ''default'' then st\<lparr>c_ls := obj_del (c_ls st) OVERRIDES_KEY\<rparr> else writeOverrides fits (preset_delta p) st))"

text \<open>A key set on the page must be the one of the preset (objects are never equal); then the role and type colours.\<close>

definition differs :: "jsval \<Rightarrow> jsval \<Rightarrow> bool" where
  "differs e p = (e \<noteq> JUndef \<and> \<not> strict_eq e p)"

definition section_or_empty :: "jsval obj \<Rightarrow> string \<Rightarrow> jsval" where
  "section_or_empty ob k = js_or (oprop ob k) (JObj [])"

definition preset_matches :: "jsval obj \<Rightarrow> jsval obj \<Rightarrow> bool" where
  "preset_matches eff p =
     (let colours = (\<lambda>k. let pc = oprop p k; ec = oprop eff k in
            \<not> (truthy pc \<and> truthy ec) \<or> list_all (\<lambda>(nk, x). \<not> differs (js_prop ec nk) x) (obj_entries pc))
      in list_all (\<lambda>k. \<not> differs (js_prop (section_or_empty eff ''theme'') k) (js_prop (section_or_empty p ''theme'') k) \<and>
                      \<not> differs (js_prop (section_or_empty eff ''themeDark'') k) (js_prop (section_or_empty p ''themeDark'') k))
           THEME_COLOR_KEYS \<and> colours ''nodeColors'' \<and> colours ''typeColors'')"

definition detectActivePreset :: "jsval obj \<Rightarrow> string option" where
  "detectActivePreset eff = map_option fst (find (\<lambda>(nm, p). preset_matches eff p) PRESETS)"

section \<open>What is stored is read back\<close>

lemma ls_put_other: "k \<noteq> j \<Longrightarrow> obj_get (ls_put fits j t ls) k = obj_get ls k"
  by (simp add: ls_put_def obj_get_set)

lemma put_list_other: "k \<noteq> j \<Longrightarrow> obj_get (put_list fits j v ls) k = obj_get ls k"
  by (simp add: put_list_def ls_put_other)

text \<open>The part of the overrides that lies under the key of the customizer.\<close>

definition stored_theme :: "string obj \<Rightarrow> jsval obj" where
  "stored_theme ls = (case (case obj_get ls OVERRIDES_KEY of Some raw \<Rightarrow> json_parse raw | None \<Rightarrow> Some (JObj [])) of
     None \<Rightarrow> [] | Some parsed \<Rightarrow> obj_of parsed)"

definition save_theme :: "jsval obj \<Rightarrow> string obj \<Rightarrow> string obj" where
  "save_theme d ls = obj_set ls OVERRIDES_KEY (json_text (JObj d))"

interpretation theme_store: persisted OVERRIDES_KEY stored_theme save_theme "\<lambda>d. json_ok (JObj d)"
proof
  show "stored_theme (save_theme v ls) = v" if "json_ok (JObj v)" for v ls
    using that json_parse_text [OF that] by (simp only: stored_theme_def save_theme_def obj_get_set) (simp add: obj_of_def)
qed (simp_all add: stored_theme_def save_theme_def obj_get_set)

lemma json_ok_obj: "json_ok (JObj d) \<longleftrightarrow> distinct (map fst d) \<and> list_all (\<lambda>(k, v). json_ok v) d"
  by (auto simp: list_all_iff)

lemma delta_ok_json: "delta_ok d \<Longrightarrow> json_ok (JObj d)"
  unfolding json_ok_obj by (auto simp: delta_ok_def proto_free_def obj_wf_def list_all_iff)

text \<open>The lists of favourites and of own nodes have keys of their own.\<close>

definition list_of :: "jsval \<Rightarrow> jsval list option" where
  "list_of v = (case v of JArr vs \<Rightarrow> if vs = [] then None else Some vs | _ \<Rightarrow> None)"

lemma stored_list_put:
  assumes "is_arr v \<longrightarrow> json_ok v" "fits (obj_set ls key (json_text v))"
  shows "stored_list (put_list fits key v ls) key = (if is_arr v then list_of v else stored_list ls key)"
proof (cases v)
  case (JArr vs)
  have "json_parse (json_text v) = Some (JArr vs)" "json_text v \<noteq> []"
    using json_parse_text [of v] json_text_not_Nil [of v] JArr assms(1) by simp_all
  with assms(2) JArr have "stored_list (put_list fits key v ls) key = (if 0 < length vs then Some vs else None)"
    by (simp add: put_list_def ls_put_def stored_list_def obj_get_set del: json_text.simps)
  with JArr show ?thesis by (simp add: list_of_def)
qed (simp_all add: put_list_def)

lemma stored_list_cong: "obj_get ls key = obj_get ls' key \<Longrightarrow> stored_list ls key = stored_list ls' key"
  by (simp add: stored_list_def)

lemma with_list_get:
  "obj_get (with_list ls key name ob) k =
     (if k = name \<and> stored_list ls key \<noteq> None then map_option JArr (stored_list ls key) else obj_get ob k)"
  by (auto simp: with_list_def obj_get_set split: option.split)

lemma readOverrides_get:
  "obj_get (readOverrides ls) k =
     (if Option.is_none (json_parse (case obj_get ls OVERRIDES_KEY of Some raw \<Rightarrow> raw | None \<Rightarrow> ''{}'')) then None
      else if k = ''myNodes'' \<and> stored_list ls ''meshcore-my-nodes'' \<noteq> None then map_option JArr (stored_list ls ''meshcore-my-nodes'')
      else if k = ''favorites'' \<and> stored_list ls ''meshcore-favorites'' \<noteq> None then map_option JArr (stored_list ls ''meshcore-favorites'')
      else obj_get (stored_theme ls) k)"
proof -
  have e: "json_parse ''{}'' = Some (JObj [])" using json_parse_text [of "JObj []"] by simp
  show ?thesis
    by (auto simp: readOverrides_def stored_theme_def with_list_get e Option.is_none_def split: option.split)
qed

lemma theme_delta_get:
  "obj_get (theme_delta d) k = (if k = ''favorites'' \<or> k = ''myNodes'' then None else obj_get d k)"
  by (induction d) (auto simp: theme_delta_def)

lemma theme_delta_ok: "delta_ok d \<Longrightarrow> delta_ok (theme_delta d)"
  by (auto simp: delta_ok_def theme_delta_def proto_free_filter list_all_iff)


text \<open>What the three keys hold after a write.\<close>

lemma write_other:
  assumes "k \<notin> {OVERRIDES_KEY, ''meshcore-favorites'', ''meshcore-my-nodes''}"
  shows "obj_get (c_ls (writeOverrides fits d st)) k = obj_get (c_ls st) k"
  using assms by (simp add: writeOverrides_def Let_def obj_get_del obj_get_set put_list_other)

lemma keys_distinct:
  "OVERRIDES_KEY \<noteq> ''meshcore-favorites''" "OVERRIDES_KEY \<noteq> ''meshcore-my-nodes''" "''meshcore-favorites'' \<noteq> OVERRIDES_KEY"
  "''meshcore-my-nodes'' \<noteq> OVERRIDES_KEY"
  by (simp_all add: OVERRIDES_KEY_def)

lemma write_theme:
  "(c_status (writeOverrides fits d st) = ''error'' \<longrightarrow>
      obj_get (c_ls (writeOverrides fits d st)) OVERRIDES_KEY = obj_get (c_ls st) OVERRIDES_KEY) \<and>
   (c_status (writeOverrides fits d st) \<noteq> ''error'' \<longrightarrow>
      obj_get (c_ls (writeOverrides fits d st)) OVERRIDES_KEY =
        (if theme_delta d = [] then None else Some (json_text (JObj (validateDelta (theme_delta d))))))"
  by (simp add: writeOverrides_def Let_def obj_get_del obj_get_set put_list_other keys_distinct)

lemma write_lists:
  assumes "\<forall>ls. fits ls" "is_arr (oprop d ''favorites'') \<longrightarrow> json_ok (oprop d ''favorites'')"
    "is_arr (oprop d ''myNodes'') \<longrightarrow> json_ok (oprop d ''myNodes'')"
  shows "stored_list (c_ls (writeOverrides fits d st)) ''meshcore-favorites'' =
      (if is_arr (oprop d ''favorites'') then list_of (oprop d ''favorites'') else stored_list (c_ls st) ''meshcore-favorites'')"
    and "stored_list (c_ls (writeOverrides fits d st)) ''meshcore-my-nodes'' =
      (if is_arr (oprop d ''myNodes'') then list_of (oprop d ''myNodes'') else stored_list (c_ls st) ''meshcore-my-nodes'')"
proof -
  let ?l1 = "put_list fits ''meshcore-favorites'' (oprop d ''favorites'') (c_ls st)"
  let ?l2 = "put_list fits ''meshcore-my-nodes'' (oprop d ''myNodes'') ?l1"
  have o: "obj_get (c_ls (writeOverrides fits d st)) k = obj_get ?l2 k" if "k \<noteq> OVERRIDES_KEY" for k
    using that by (simp add: writeOverrides_def Let_def obj_get_del obj_get_set)
  have "stored_list ?l2 ''meshcore-favorites'' = stored_list ?l1 ''meshcore-favorites''"
    by (rule stored_list_cong) (simp add: put_list_other)
  then show "stored_list (c_ls (writeOverrides fits d st)) ''meshcore-favorites'' =
      (if is_arr (oprop d ''favorites'') then list_of (oprop d ''favorites'') else stored_list (c_ls st) ''meshcore-favorites'')"
    using stored_list_cong [OF o] stored_list_put [OF assms(2)] assms(1) keys_distinct by simp
  have "stored_list ?l1 ''meshcore-my-nodes'' = stored_list (c_ls st) ''meshcore-my-nodes''"
    by (rule stored_list_cong) (simp add: put_list_other)
  then show "stored_list (c_ls (writeOverrides fits d st)) ''meshcore-my-nodes'' =
      (if is_arr (oprop d ''myNodes'') then list_of (oprop d ''myNodes'') else stored_list (c_ls st) ''meshcore-my-nodes'')"
    using stored_list_cong [OF o] stored_list_put [OF assms(3)] assms(1) keys_distinct by simp
qed

lemma stored_empty: "obj_get ls OVERRIDES_KEY = None \<Longrightarrow> stored_theme ls = []"
  by (simp add: stored_theme_def obj_of_def)

lemma oprop_list: "k = ''favorites'' \<or> k = ''myNodes'' \<Longrightarrow> oprop d k = (case obj_get d k of Some v \<Rightarrow> v | None \<Rightarrow> JUndef)"
proof -
  have "''favorites'' \<notin> set object_proto" "''myNodes'' \<notin> set object_proto" by (simp_all add: object_proto_def)
  then show "k = ''favorites'' \<or> k = ''myNodes'' \<Longrightarrow> ?thesis"
    by (elim disjE) (simp_all add: oprop_def table_get_def split: option.split)
qed

lemma delta_ok_get: "delta_ok d \<Longrightarrow> obj_get d k = Some v \<Longrightarrow> json_ok v \<and> proto_free (obj_entries v)"
  by (auto simp: delta_ok_def list_all_iff dest!: map_of_SomeD)

lemma list_arg_ok: "delta_ok d \<Longrightarrow> k = ''favorites'' \<or> k = ''myNodes'' \<Longrightarrow> is_arr (oprop d k) \<longrightarrow> json_ok (oprop d k)"
  by (auto simp: oprop_list delta_ok_get split: option.splits)

lemma stored_after_write:
  assumes "c_status (writeOverrides fits d st) \<noteq> ''error''" "json_ok (JObj (validateDelta (theme_delta d)))"
  shows "stored_theme (c_ls (writeOverrides fits d st)) = validateDelta (theme_delta d)" (is ?T)
    and "\<not> Option.is_none (json_parse (case obj_get (c_ls (writeOverrides fits d st)) OVERRIDES_KEY of Some raw \<Rightarrow> raw | None \<Rightarrow> ''{}''))" (is ?P)
proof -
  have g: "obj_get (c_ls (writeOverrides fits d st)) OVERRIDES_KEY =
      (if theme_delta d = [] then None else Some (json_text (JObj (validateDelta (theme_delta d)))))"
    using write_theme [of fits d st] assms(1) by blast
  have e: "json_parse ''{}'' = Some (JObj [])" using json_parse_text [of "JObj []"] by simp
  have t: "json_parse (json_text (JObj (validateDelta (theme_delta d)))) = Some (JObj (validateDelta (theme_delta d)))" by (rule json_parse_text [OF assms(2)])
  have "?T \<and> ?P"
  proof (cases "theme_delta d = []")
    case True
    then have "validateDelta (theme_delta d) = []" by (simp add: validateDelta_def)
    with True g e show ?thesis by (simp add: stored_empty)
  next
    case False
    with g have g': "obj_get (c_ls (writeOverrides fits d st)) OVERRIDES_KEY =
        obj_get (save_theme (validateDelta (theme_delta d)) []) OVERRIDES_KEY"
      by (simp only: save_theme_def obj_get_set) simp
    from theme_store.load_cong [OF g'] theme_store.load_save [OF assms(2)] g False t show ?thesis
      by (simp del: json_text.simps)
  qed
  then show ?T ?P by simp_all
qed

text \<open>
  C29: Overrides are stored.  A write that reports success is read back: every setting comes back as the
  cleaning left it, and the lists of favourites and own nodes come back when the delta has such a list;
  on a full storage the status is an error and the overrides from before are still there, and no
  other key of the storage is ever touched.
\<close>

theorem overrides_stored:
  assumes "delta_ok d" "json_ok (JObj (validateDelta (theme_delta d)))"
  shows "let st' = writeOverrides fits d st; lists = {''favorites'', ''myNodes''} in
     (c_status st' = ''saved'' \<longrightarrow> (\<forall>k. k \<notin> lists \<longrightarrow>
        obj_get (readOverrides (c_ls st')) k = (case obj_get d k of Some v \<Rightarrow> clean_entry k v | None \<Rightarrow> None))) \<and>
     (c_status st' \<noteq> ''saved'' \<longrightarrow> c_status st' = ''error'' \<and>
        obj_get (c_ls st') OVERRIDES_KEY = obj_get (c_ls st) OVERRIDES_KEY) \<and>
     ((\<forall>ls. fits ls) \<longrightarrow> c_status st' = ''saved'' \<and> (\<forall>k\<in>lists. \<forall>vs. vs \<noteq> [] \<longrightarrow> obj_get d k = Some (JArr vs) \<longrightarrow>
        obj_get (readOverrides (c_ls st')) k = Some (JArr vs))) \<and>
     (\<forall>k. k \<notin> {OVERRIDES_KEY, ''meshcore-favorites'', ''meshcore-my-nodes''} \<longrightarrow> obj_get (c_ls st') k = obj_get (c_ls st) k)"
proof -
  let ?st' = "writeOverrides fits d st"
  have status: "c_status ?st' = ''saved'' \<or> c_status ?st' = ''error''" by (simp add: writeOverrides_def Let_def)
  have fit: "c_status ?st' = ''saved''" if "\<forall>ls. fits ls" using that by (simp add: writeOverrides_def Let_def)
  have ne: "c_status ?st' = ''saved'' \<Longrightarrow> c_status ?st' \<noteq> ''error''" by simp
  have tok: "proto_free (theme_delta d)" using theme_delta_ok [OF assms(1)] by (simp add: delta_ok_def)
  have a: "obj_get (readOverrides (c_ls ?st')) k = (case obj_get d k of Some v \<Rightarrow> clean_entry k v | None \<Rightarrow> None)"
    if s: "c_status ?st' = ''saved''" and k: "k \<notin> {''favorites'', ''myNodes''}" for k
    using k stored_after_write [OF ne [OF s] assms(2)] validateDelta_get [OF tok, of k]
    by (simp add: readOverrides_get theme_delta_get)
  have b: "c_status ?st' = ''error'' \<and> obj_get (c_ls ?st') OVERRIDES_KEY = obj_get (c_ls st) OVERRIDES_KEY"
    if "c_status ?st' \<noteq> ''saved''" using that status write_theme [of fits d st] by simp
  have c: "obj_get (readOverrides (c_ls ?st')) k = Some (JArr vs)"
    if f: "\<forall>ls. fits ls" and k: "k \<in> {''favorites'', ''myNodes''}" "vs \<noteq> []" "obj_get d k = Some (JArr vs)" for k vs
    using k write_lists [OF f list_arg_ok [OF assms(1)] list_arg_ok [OF assms(1)]]
      stored_after_write(2) [OF ne [OF fit [OF f]] assms(2)]
    by (auto simp: readOverrides_get oprop_list list_of_def)
  show ?thesis unfolding Let_def
    by (intro conjI allI impI ballI)
      (erule (1) a | erule b [THEN conjunct1] | erule b [THEN conjunct2] | erule fit | erule (3) c | erule write_other)+
qed

theorem overrides_stored_witness:
  "obj_get (readOverrides (c_ls (writeOverrides (\<lambda>_. True) [(''heatmapOpacity'', JStr ''0.5'')]
     \<lparr>c_ls = [], c_server = None, c_site = [], c_status = ''saved'', c_pending = [], c_timer = False\<rparr>))) ''heatmapOpacity'' =
   Some (JNum (Fin (1 / 2)))"
proof -
  have d: "delta_ok [(''heatmapOpacity'', JStr ''0.5'')]" by (simp add: delta_ok_def proto_free_def obj_wf_def)
  have c: "clean_entry ''heatmapOpacity'' (JStr ''0.5'') = Some (JNum (Fin (1 / 2)))" by code_simp
  then have v: "validateDelta (theme_delta [(''heatmapOpacity'', JStr ''0.5'')]) = [(''heatmapOpacity'', JNum (Fin (1 / 2)))]"
    by (simp add: theme_delta_def validateDelta_def set_param_def)
  have "dec_num (1 / 2)" unfolding dec_num_def using Ints_of_int [of 50000000000000000] by simp
  then have j: "json_ok (JObj (validateDelta (theme_delta [(''heatmapOpacity'', JStr ''0.5'')])))" by (simp add: v)
  from overrides_stored [OF d j, of "\<lambda>_. True"
    "\<lparr>c_ls = [], c_server = None, c_site = [], c_status = ''saved'', c_pending = [], c_timer = False\<rparr>"]
  show ?thesis using c by (simp add: Let_def)
qed

section \<open>Merging\<close>

text \<open>The value a merge leaves under the key of an override.\<close>

definition merged :: "jsval \<Rightarrow> jsval \<Rightarrow> jsval" where
  "merged e uv =
     (if real_object uv \<and> \<not> is_arr uv
      then JObj (foldl (\<lambda>s (sk, x). set_param s sk (clone_arr x)) (if \<not> truthy e \<or> \<not> is_object e then [] else obj_entries e) (obj_entries uv))
      else clone_arr uv)"

lemma merge_entry_get:
  assumes "key \<noteq> ''__proto__''"
  shows "obj_get (merge_entry eff (key, uv)) k = (if k = key then Some (merged (oprop eff key) uv) else obj_get eff k)"
  using assms by (simp add: merge_entry_def merged_def set_param_def obj_get_set Let_def)

lemma oprop_cong: "obj_get a k = obj_get b k \<Longrightarrow> oprop a k = oprop b k"
  by (simp add: oprop_def table_get_def)

lemma foldl_merge_get:
  "proto_free ov \<Longrightarrow>
   obj_get (foldl merge_entry eff ov) k = (case obj_get ov k of Some uv \<Rightarrow> Some (merged (oprop eff k) uv) | None \<Rightarrow> obj_get eff k)"
proof (induction ov arbitrary: eff)
  case (Cons kv ov)
  obtain a u where kv: "kv = (a, u)" by (cases kv)
  with Cons.prems have p: "proto_free ov" "a \<noteq> ''__proto__''" "obj_get ov a = None"
    by (auto simp: proto_free_def obj_wf_def map_of_eq_None_iff)
  note g = merge_entry_get [OF p(2), of eff u]
  have "oprop (merge_entry eff (a, u)) k = oprop eff k" if "k \<noteq> a" using g that by (intro oprop_cong) simp
  with Cons.IH [OF p(1), of "merge_entry eff (a, u)"] g p(3) show ?case by (auto simp: kv split: option.split)
qed simp

lemma foldl_params_get:
  "proto_free ob \<Longrightarrow>
   obj_get (foldl (\<lambda>s (k, x). set_param s k (f x)) acc ob) k = (case obj_get ob k of Some x \<Rightarrow> Some (f x) | None \<Rightarrow> obj_get acc k)"
proof (induction ob arbitrary: acc)
  case (Cons kv ob)
  obtain a u where kv: "kv = (a, u)" by (cases kv)
  with Cons.prems have "proto_free ob" "a \<noteq> ''__proto__''" "obj_get ob a = None"
    by (auto simp: proto_free_def obj_wf_def map_of_eq_None_iff)
  with Cons.IH [of "set_param acc a (f u)"] show ?case
    by (auto simp: kv set_param_def obj_get_set split: option.split)
qed simp

lemma clone_arr_ok: "json_ok v \<Longrightarrow> clone_arr v = v"
  by (simp add: clone_arr_def json_clone_ok)

lemma merged_obj:
  assumes "proto_free ob" "\<And>sk x. obj_get ob sk = Some x \<Longrightarrow> clone_arr x = x"
  shows "\<exists>ob'. merged e (JObj ob) = JObj ob' \<and>
      (\<forall>sk. obj_get ob' sk = (case obj_get ob sk of Some x \<Rightarrow> Some x
         | None \<Rightarrow> (let e = e in if truthy e \<and> is_object e then obj_get (obj_entries e) sk else None)))"
  using assms by (cases "truthy e \<and> is_object e") (auto simp: merged_def real_object_def foldl_params_get split: option.split)

text \<open>The configuration the overrides are merged into.\<close>

definition server_base :: "jsval \<Rightarrow> jsval obj \<Rightarrow> jsval obj" where
  "server_base home0 server =
     (let home = oprop server ''home''
      in if \<not> truthy home \<or> \<not> is_object home then obj_set server ''home'' home0 else server)"

lemma computeEffective_merge:
  assumes "json_ok (JObj (case server of Some s \<Rightarrow> s | None \<Rightarrow> []))" "json_ok home0"
  shows "computeEffective home0 server ov = foldl merge_entry (server_base home0 (case server of Some s \<Rightarrow> s | None \<Rightarrow> [])) ov"
  using json_clone_ok [OF assms(1)] json_clone_ok [OF assms(2)]
  by (simp only: computeEffective_def server_base_def Let_def) (simp add: obj_of_def)

lemma server_base_get: "k \<noteq> ''home'' \<Longrightarrow> obj_get (server_base home0 s) k = obj_get s k"
  by (simp add: server_base_def Let_def obj_get_set)

text \<open>
  C30: The effective configuration.  A section without override is the one of the server (the built-in home
  page when the server has none); a plain override replaces the value; a section with overrides takes each
  overridden setting from the user and every other one from the server.
\<close>

theorem override_effective:
  assumes "json_ok (JObj (case server of Some s \<Rightarrow> s | None \<Rightarrow> []))" "json_ok home0" "delta_ok ov"
  shows "let eff = computeEffective home0 server ov; base = server_base home0 (case server of Some s \<Rightarrow> s | None \<Rightarrow> []) in
     (\<forall>k. obj_get ov k = None \<longrightarrow> obj_get eff k = obj_get base k) \<and>
     (\<forall>k v. obj_get ov k = Some v \<and> (\<forall>ob. v \<noteq> JObj ob) \<longrightarrow> obj_get eff k = Some v) \<and>
     (\<forall>k ob. obj_get ov k = Some (JObj ob) \<longrightarrow>
        (\<exists>ob'. obj_get eff k = Some (JObj ob') \<and>
          (\<forall>sk. obj_get ob' sk = (case obj_get ob sk of Some x \<Rightarrow> Some x
             | None \<Rightarrow> (let e = oprop base k in if truthy e \<and> is_object e then obj_get (obj_entries e) sk else None)))))"
proof -
  let ?b = "server_base home0 (case server of Some s \<Rightarrow> s | None \<Rightarrow> [])" and ?e = "computeEffective home0 server ov"
  have pf: "proto_free ov" using assms(3) by (simp add: delta_ok_def)
  have g: "obj_get ?e k = (case obj_get ov k of Some uv \<Rightarrow> Some (merged (oprop ?b k) uv) | None \<Rightarrow> obj_get ?b k)" for k
    unfolding computeEffective_merge [OF assms(1,2)] by (rule foldl_merge_get [OF pf])
  have plain: "obj_get ?e k = Some v" if v: "obj_get ov k = Some v" "\<forall>ob. v \<noteq> JObj ob" for k v
  proof -
    have j: "json_ok v" using delta_ok_get [OF assms(3) v(1)] by simp
    then have "\<not> (real_object v \<and> \<not> is_arr v)" using v(2) by (cases v) (auto simp: real_object_def)
    with g [of k] v(1) clone_arr_ok [OF j] show ?thesis by (simp add: merged_def)
  qed
  have obj: "\<exists>ob'. obj_get ?e k = Some (JObj ob') \<and>
      (\<forall>sk. obj_get ob' sk = (case obj_get ob sk of Some x \<Rightarrow> Some x
         | None \<Rightarrow> (let e = oprop ?b k in if truthy e \<and> is_object e then obj_get (obj_entries e) sk else None)))"
    if ob: "obj_get ov k = Some (JObj ob)" for k ob
  proof -
    note ok = delta_ok_get [OF assms(3) ob]
    then have p: "proto_free ob" by simp
    have "clone_arr x = x" if "obj_get ob sk = Some x" for sk x
      using ok that by (intro clone_arr_ok) (auto dest!: map_of_SomeD)
    note m = merged_obj [OF p this, where e = "oprop ?b k"]
    have e: "obj_get ?e k = Some (merged (oprop ?b k) (JObj ob))" using g [of k] ob by simp
    from m show ?thesis unfolding e option.inject .
  qed
  show ?thesis unfolding Let_def using g plain obj [unfolded Let_def]
    by (intro conjI allI impI) (simp, blast, blast)
qed

theorem override_effective_witness:
  "obj_get (computeEffective JNull (Some [(''distanceUnit'', JStr ''km'')]) [(''distanceUnit'', JStr ''mi'')]) ''distanceUnit'' = Some (JStr ''mi'')"
  using override_effective [of "Some [(''distanceUnit'', JStr ''km'')]" JNull "[(''distanceUnit'', JStr ''mi'')]"]
  by (simp add: Let_def delta_ok_def proto_free_def obj_wf_def)

section \<open>Presets are recognised\<close>

lemma find_unique:
  assumes "x \<in> set xs" "P x" and u: "\<And>y. y \<in> set xs \<Longrightarrow> P y \<Longrightarrow> y = x"
  shows "find P xs = Some x"
proof (cases "find P xs")
  case None
  with assms(1,2) show ?thesis by (auto simp: find_None_iff)
next
  case (Some y)
  then have "y \<in> set xs" "P y" by (auto simp: find_Some_iff)
  with u [OF this] Some show ?thesis by (simp only:)
qed

definition accent_of :: "jsval obj \<Rightarrow> jsval" where
  "accent_of p = js_prop (section_or_empty p ''theme'') ''accent''"

lemma accent_first:
  assumes "fst a \<noteq> ''theme''" "fst b \<noteq> ''theme''" "fst c \<noteq> ''theme''"
  shows "accent_of (a # b # c # (''theme'', JObj ((''accent'', v) # r)) # rest) = v"
  using assms by (simp add: accent_of_def section_or_empty_def js_or_def oprop_def table_get_def js_prop_def)

lemma preset_accents:
  "accent_of preset_default = JStr ''#4a9eff''" "accent_of preset_ocean = JStr ''#0077b6''"
  "accent_of preset_forest = JStr ''#2d6a4f''" "accent_of preset_sunset = JStr ''#c2410c''"
  "accent_of preset_mono = JStr ''#525252''" "accent_of preset_highContrast = JStr ''#0050a0''"
  "accent_of preset_midnight = JStr ''#7c3aed''" "accent_of preset_ember = JStr ''#dc2626''"
  unfolding preset_default_def preset_ocean_def preset_forest_def preset_sunset_def
    preset_mono_def preset_highContrast_def preset_midnight_def preset_ember_def
  by (rule accent_first, simp_all only: fst_conv, simp_all)+

lemma PRESETS_accents:
  "(nm, p) \<in> set PRESETS \<Longrightarrow> (nm', q) \<in> set PRESETS \<Longrightarrow> accent_of p = accent_of q \<Longrightarrow> nm = nm' \<and> p = q"
proof -
  have "map (accent_of \<circ> snd) PRESETS =
     map JStr [''#4a9eff'', ''#0077b6'', ''#2d6a4f'', ''#c2410c'', ''#525252'', ''#0050a0'', ''#7c3aed'', ''#dc2626'']"
    by (simp add: PRESETS_def preset_accents)
  then have "distinct (map (accent_of \<circ> snd) PRESETS)" by simp
  then have "inj_on (accent_of \<circ> snd) (set PRESETS)" by (simp add: distinct_map)
  then show "(nm, p) \<in> set PRESETS \<Longrightarrow> (nm', q) \<in> set PRESETS \<Longrightarrow> accent_of p = accent_of q \<Longrightarrow> nm = nm' \<and> p = q"
    by (auto dest!: inj_onD [of _ _ "(nm, p)" "(nm', q)"])
qed

lemma accent_str: "(nm, p) \<in> set PRESETS \<Longrightarrow> \<exists>s. accent_of p = JStr s"
  by (auto simp: PRESETS_def preset_accents)

lemma matches_accent: "preset_matches eff q \<Longrightarrow> \<not> differs (accent_of eff) (accent_of q)"
proof -
  have "''accent'' \<in> set THEME_COLOR_KEYS" by (simp add: THEME_COLOR_KEYS_def THEME_CSS_MAP_def)
  then show "preset_matches eff q \<Longrightarrow> \<not> differs (accent_of eff) (accent_of q)"
    by (simp only: preset_matches_def Let_def list_all_iff accent_of_def) blast
qed

text \<open>Only the colour sections of a configuration matter.\<close>

lemma preset_matches_cong:
  assumes "\<forall>k\<in>set COLOR_SECTIONS. oprop eff k = oprop eff' k"
  shows "preset_matches eff q = preset_matches eff' q" "accent_of eff = accent_of eff'"
proof -
  have "oprop eff ''theme'' = oprop eff' ''theme''" "oprop eff ''themeDark'' = oprop eff' ''themeDark''"
    "oprop eff ''nodeColors'' = oprop eff' ''nodeColors''" "oprop eff ''typeColors'' = oprop eff' ''typeColors''"
    using assms by (simp_all add: COLOR_SECTIONS_def)
  then show "preset_matches eff q = preset_matches eff' q" "accent_of eff = accent_of eff'"
    by (simp_all only: preset_matches_def section_or_empty_def accent_of_def Let_def)
qed

lemma color_section_of:
  assumes "preset_fine p" "k \<in> set COLOR_SECTIONS"
  obtains "obj_get p k = None" "oprop p k = JUndef"
  | ob where "obj_get p k = Some (JObj ob)" "oprop p k = JObj ob" "plain_colors (k, JObj ob)" "proto_free ob"
proof (cases "obj_get p k")
  case None
  have "k \<notin> set object_proto" using assms(2) by (auto simp: COLOR_SECTIONS_def object_proto_def)
  with None that(1) show ?thesis by (simp add: oprop_def table_get_def)
next
  case (Some v)
  with assms obtain ob where "v = JObj ob" "plain_colors (k, JObj ob)"
    by (auto simp: preset_fine_def list_all_iff split: jsval.splits)
  with Some that(2) plain_colors_clean(3) [OF this(2) assms(2)] show ?thesis by (simp add: oprop_def table_get_def)
qed

lemma plain_values: "plain_colors (k, JObj ob) \<Longrightarrow> (nk, x) \<in> set ob \<Longrightarrow> \<exists>s. x = JStr s"
  by (cases x) (fastforce simp: plain_colors_def plain_color_def list_all_iff)+

lemma plain_prop:
  assumes "plain_colors (k, JObj ob)" "nk \<notin> set object_proto"
  shows "\<not> differs (js_prop (JObj ob) nk) (js_prop (JObj ob) nk)"
proof (cases "obj_get ob nk")
  case None
  with assms(2) show ?thesis by (simp add: js_prop_def table_get_def differs_def)
next
  case (Some x)
  with plain_values [OF assms(1) map_of_SomeD [OF Some]] show ?thesis by (auto simp: js_prop_def table_get_def differs_def)
qed

lemma preset_matches_self:
  assumes "preset_fine p"
  shows "preset_matches p p"
proof -
  have t: "\<not> differs (js_prop (section_or_empty p sec) k) (js_prop (section_or_empty p sec) k)"
    if "sec \<in> set COLOR_SECTIONS" "k \<in> set THEME_COLOR_KEYS" for sec k
  proof -
    have k: "k \<notin> set object_proto" using that(2) by (auto simp: THEME_COLOR_KEYS_def THEME_CSS_MAP_def object_proto_def)
    from assms that(1) show ?thesis
    proof (cases rule: color_section_of)
      case 1
      with k show ?thesis by (simp add: section_or_empty_def js_or_def js_prop_def table_get_def differs_def)
    next
      case (2 ob)
      with plain_prop [OF 2(3) k] show ?thesis by (simp add: section_or_empty_def js_or_def)
    qed
  qed
  have c: "list_all (\<lambda>(nk, x). \<not> differs (js_prop (oprop p sec) nk) x) (obj_entries (oprop p sec))"
    if "sec \<in> set COLOR_SECTIONS" for sec
    using assms that
  proof (cases rule: color_section_of)
    case (2 ob)
    have "\<not> differs (js_prop (JObj ob) nk) x" if m: "(nk, x) \<in> set ob" for nk x
    proof -
      have "obj_get ob nk = Some x" using m 2(4) by (simp add: proto_free_def obj_wf_def)
      with plain_values [OF 2(3) m] show ?thesis by (auto simp: js_prop_def table_get_def differs_def)
    qed
    with 2 show ?thesis by (auto simp: list_all_iff)
  qed simp
  have s: "''theme'' \<in> set COLOR_SECTIONS" "''themeDark'' \<in> set COLOR_SECTIONS" "''nodeColors'' \<in> set COLOR_SECTIONS" "''typeColors'' \<in> set COLOR_SECTIONS"
    by (simp_all add: COLOR_SECTIONS_def)
  have "list_all (\<lambda>k. \<not> differs (js_prop (section_or_empty p ''theme'') k) (js_prop (section_or_empty p ''theme'') k) \<and>
      \<not> differs (js_prop (section_or_empty p ''themeDark'') k) (js_prop (section_or_empty p ''themeDark'') k)) THEME_COLOR_KEYS"
    using t s by (simp add: list_all_iff)
  with c [OF s(3)] c [OF s(4)] show ?thesis by (simp only: preset_matches_def Let_def) simp
qed

lemma preset_detect:
  assumes "(nm, p) \<in> set PRESETS" "\<forall>k\<in>set COLOR_SECTIONS. oprop eff k = oprop p k"
  shows "detectActivePreset eff = Some nm"
proof -
  note cong = preset_matches_cong [OF assms(2)]
  have "find (\<lambda>(nm, q). preset_matches eff q) PRESETS = Some (nm, p)"
  proof (rule find_unique)
    show "case (nm, p) of (nm, q) \<Rightarrow> preset_matches eff q"
      using preset_matches_self [OF PRESETS_fine [OF assms(1)]] by (simp add: cong)
    fix y assume y: "y \<in> set PRESETS" "case y of (nm, q) \<Rightarrow> preset_matches eff q"
    show "y = (nm, p)"
    proof (cases y)
      case (Pair nm' q)
      with y have q: "(nm', q) \<in> set PRESETS" "preset_matches eff q" by simp_all
      obtain s t where "accent_of p = JStr s" "accent_of q = JStr t" using accent_str assms(1) q(1) by metis
      with matches_accent [OF q(2)] have "accent_of p = accent_of q" by (simp add: cong(2) differs_def)
      from PRESETS_accents [OF assms(1) q(1) this] show ?thesis by (simp add: Pair)
    qed
  qed (rule assms(1))
  then show ?thesis by (simp add: detectActivePreset_def)
qed

lemma server_base_color: "k \<in> set COLOR_SECTIONS \<Longrightarrow> obj_get (server_base home0 s) k = obj_get s k"
  using color_sections_simps by (intro server_base_get) auto

lemma merged_fresh: "proto_free ob \<Longrightarrow> json_ok (JObj ob) \<Longrightarrow> merged JUndef (JObj ob) = JObj ob"
proof -
  assume a: "proto_free ob" "json_ok (JObj ob)"
  have "foldl (\<lambda>s (sk, x). set_param s sk (clone_arr x)) [] ob = foldl (\<lambda>s (sk, x). set_param s sk x) [] ob"
    using a(2) by (intro foldl_cong) (auto simp: clone_arr_ok)
  also have "\<dots> = ob" using foldl_set_param [of "[]" ob] a(1) by (simp add: proto_free_def obj_wf_def)
  finally show ?thesis by (simp add: merged_def real_object_def)
qed

lemma color_not_proto: "k \<in> set COLOR_SECTIONS \<Longrightarrow> k \<notin> set object_proto \<and> k \<noteq> ''favorites'' \<and> k \<noteq> ''myNodes''"
  by (auto simp: COLOR_SECTIONS_def object_proto_def)

text \<open>The colour sections of the effective configuration when the server has none.\<close>

lemma effective_colors:
  assumes "json_ok (JObj (case server of Some s \<Rightarrow> s | None \<Rightarrow> []))" "json_ok home0"
    and "\<forall>k\<in>set COLOR_SECTIONS. obj_get (case server of Some s \<Rightarrow> s | None \<Rightarrow> []) k = None"
    and "proto_free ov" and k: "k \<in> set COLOR_SECTIONS"
    and "obj_get ov k = None \<or> (\<exists>ob. obj_get ov k = Some (JObj ob) \<and> proto_free ob \<and> json_ok (JObj ob))"
  shows "oprop (computeEffective home0 server ov) k = (case obj_get ov k of Some v \<Rightarrow> v | None \<Rightarrow> JUndef)"
proof -
  let ?s = "case server of Some s \<Rightarrow> s | None \<Rightarrow> []"
  have b: "obj_get (server_base home0 ?s) k = None" using assms(3) k server_base_color [OF k] by simp
  then have "oprop (server_base home0 ?s) k = JUndef" using color_not_proto [OF k] by (simp add: oprop_def table_get_def)
  with b have "obj_get (computeEffective home0 server ov) k = (case obj_get ov k of Some v \<Rightarrow> Some (merged JUndef v) | None \<Rightarrow> None)"
    unfolding computeEffective_merge [OF assms(1,2)] foldl_merge_get [OF assms(4)] by (cases "obj_get ov k") simp_all
  with assms(6) color_not_proto [OF k] show ?thesis by (auto simp: oprop_def table_get_def merged_fresh)
qed

lemma present_get:
  "obj_get (concat (map (\<lambda>j. case g j of Some v \<Rightarrow> [(j, v)] | None \<Rightarrow> []) ks)) k = (if k \<in> set ks then g k else None)"
  by (induction ks) (auto simp: map_add_def split: option.split)

lemma preset_delta_get: "k \<in> set COLOR_SECTIONS \<Longrightarrow> preset_fine p \<Longrightarrow> obj_get (preset_delta p) k = obj_get p k"
proof -
  assume k: "k \<in> set COLOR_SECTIONS" and p: "preset_fine p"
  let ?f = "\<lambda>k. case obj_get p k of Some v \<Rightarrow> if truthy v then [(k, json_clone v)] else [] | None \<Rightarrow> []"
  have f: "?f j = (case obj_get p j of Some v \<Rightarrow> [(j, v)] | None \<Rightarrow> [])" if "j \<in> set COLOR_SECTIONS" for j
    using p that
  proof (cases rule: color_section_of)
    case (2 ob)
    with plain_colors_clean(2) [OF 2(3) that] show ?thesis by (simp add: json_clone_ok del: json_ok.simps)
  qed simp
  have "preset_delta p = concat (map (\<lambda>j. case obj_get p j of Some v \<Rightarrow> [(j, v)] | None \<Rightarrow> []) COLOR_SECTIONS)"
    using f by (simp add: preset_delta_def COLOR_SECTIONS_def)
  with k show ?thesis by (simp add: present_get)
qed

lemma readOverrides_lists:
  "readOverrides ls =
     (if Option.is_none (json_parse (case obj_get ls OVERRIDES_KEY of Some raw \<Rightarrow> raw | None \<Rightarrow> ''{}'')) then []
      else with_list ls ''meshcore-my-nodes'' ''myNodes'' (with_list ls ''meshcore-favorites'' ''favorites'' (stored_theme ls)))"
proof -
  have "json_parse ''{}'' = Some (JObj [])" using json_parse_text [of "JObj []"] by simp
  then show ?thesis by (simp add: readOverrides_def stored_theme_def Option.is_none_def split: option.split)
qed

lemma proto_free_with_list: "proto_free ob \<Longrightarrow> name \<noteq> ''__proto__'' \<Longrightarrow> proto_free (with_list ls key name ob)"
  using proto_free_set_param [of ob name] by (auto simp: with_list_def set_param_def split: option.split)

lemma proto_free_readOverrides: "proto_free (stored_theme ls) \<Longrightarrow> proto_free (readOverrides ls)"
  unfolding readOverrides_lists by (simp add: proto_free_with_list)

lemma readOverrides_color:
  "\<not> Option.is_none (json_parse (case obj_get ls OVERRIDES_KEY of Some raw \<Rightarrow> raw | None \<Rightarrow> ''{}'')) \<Longrightarrow> k \<in> set COLOR_SECTIONS \<Longrightarrow>
   obj_get (readOverrides ls) k = obj_get (stored_theme ls) k"
  using color_not_proto [of k] by (simp add: readOverrides_get)

lemma theme_delta_preset: "preset_fine p \<Longrightarrow> theme_delta (preset_delta p) = preset_delta p"
proof -
  assume p: "preset_fine p"
  have "k \<noteq> ''favorites'' \<and> k \<noteq> ''myNodes''" if "(k, v) \<in> set (preset_delta p)" for k v
    using preset_delta_entry [OF p that] color_not_proto by blast
  then show ?thesis by (auto simp: theme_delta_def filter_id_conv)
qed

text \<open>
  A preset is stored and recognised.  With a server configuration without colours, clicking a preset
  button stores exactly the colours of the preset (nothing for the default one), and the preset that is
  then found active from the effective configuration is the one that was clicked.
\<close>

theorem preset_detected:
  assumes "json_ok (JObj (case c_server st of Some s \<Rightarrow> s | None \<Rightarrow> []))" "json_ok home0"
    and "\<forall>k\<in>set COLOR_SECTIONS. obj_get (case c_server st of Some s \<Rightarrow> s | None \<Rightarrow> []) k = None"
    and "(nm, p) \<in> set PRESETS" and "\<forall>ls. fits ls"
  shows "detectActivePreset (c_site (preset_click fits home0 nm st)) = (Some nm) \<and>
    stored_theme (c_ls (preset_click fits home0 nm st)) = (if nm = ''default'' then [] else preset_delta p)"
proof -
  define st' where "st' = (if nm = ''default'' then st\<lparr>c_ls := obj_del (c_ls st) OVERRIDES_KEY\<rparr> else writeOverrides fits (preset_delta p) st)"
  have fine: "preset_fine p" using PRESETS_fine [OF assms(4)] .
  note ok = preset_delta_ok [OF fine]
  have "distinct (map fst PRESETS)" by (simp add: PRESETS_def)
  then have "obj_get PRESETS nm = Some p" using assms(4) by simp
  then have click: "preset_click fits home0 nm st = runPipeline home0 st'" by (simp add: preset_click_def st'_def)
  have server: "c_server st' = c_server st" by (simp add: st'_def writeOverrides_def Let_def)
  have e: "json_parse ''{}'' = Some (JObj [])" using json_parse_text [of "JObj []"] by simp
  have vd: "json_ok (JObj (validateDelta (theme_delta (preset_delta p))))" unfolding theme_delta_preset [OF fine] ok(2) by (rule ok(3))
  have ne: "c_status (writeOverrides fits (preset_delta p) st) \<noteq> ''error''" using assms(5) by (simp add: writeOverrides_def Let_def)
  have stored: "stored_theme (c_ls st') = (if nm = ''default'' then [] else preset_delta p)" (is ?T)
    and parse: "\<not> Option.is_none (json_parse (case obj_get (c_ls st') OVERRIDES_KEY of Some raw \<Rightarrow> raw | None \<Rightarrow> ''{}''))"
    using stored_after_write [OF ne vd] e theme_delta_preset [OF fine] ok(2)
    by (simp_all add: st'_def stored_empty obj_get_del)
  then have pf: "proto_free (readOverrides (c_ls st'))" using ok(1) by (intro proto_free_readOverrides) simp
  have colours: "oprop (c_site (runPipeline home0 st')) k =
      (if nm = ''default'' then JUndef else oprop p k)" if k: "k \<in> set COLOR_SECTIONS" for k
  proof -
    have g: "obj_get (readOverrides (c_ls st')) k = (if nm = ''default'' then None else obj_get p k)"
      using readOverrides_color [OF parse k] stored preset_delta_get [OF k fine] by simp
    have "obj_get p k = None \<and> oprop p k = JUndef \<or>
        (\<exists>ob. obj_get p k = Some (JObj ob) \<and> oprop p k = JObj ob \<and> proto_free ob \<and> json_ok (JObj ob))"
      using fine k by (cases rule: color_section_of) (use plain_colors_clean(2) [OF _ k] in blast)+
    with g effective_colors [OF assms(1,2,3) pf k] show ?thesis
      by (cases "nm = ''default''") (auto simp: runPipeline_def server)
  qed
  have "detectActivePreset (c_site (runPipeline home0 st')) = Some nm"
  proof (cases "nm = ''default''")
    case False
    then show ?thesis using colours by (intro preset_detect [OF assms(4)]) simp
  next
    case True
    let ?eff = "c_site (runPipeline home0 st')"
    have s: "''theme'' \<in> set COLOR_SECTIONS" "''themeDark'' \<in> set COLOR_SECTIONS" "''nodeColors'' \<in> set COLOR_SECTIONS" "''typeColors'' \<in> set COLOR_SECTIONS"
      by (simp_all add: COLOR_SECTIONS_def)
    have "k \<notin> set object_proto" if "k \<in> set THEME_COLOR_KEYS" for k
      using that by (auto simp: THEME_COLOR_KEYS_def THEME_CSS_MAP_def object_proto_def)
    then have "\<not> differs (js_prop (JObj []) k) x" if "k \<in> set THEME_COLOR_KEYS" for k x
      using that by (simp add: js_prop_def table_get_def differs_def)
    then have "preset_matches ?eff q" for q
      using True colours s by (simp add: preset_matches_def section_or_empty_def js_or_def list_all_iff)
    then show ?thesis using True by (simp add: detectActivePreset_def PRESETS_def)
  qed
  with stored show ?thesis by (simp add: click) (simp add: runPipeline_def)
qed

theorem preset_detected_witness:
  "detectActivePreset (c_site (preset_click (\<lambda>_. True) JNull ''ocean''
     \<lparr>c_ls = [], c_server = None, c_site = [], c_status = ''saved'', c_pending = [], c_timer = False\<rparr>)) = Some ''ocean''"
  using preset_detected [of "\<lparr>c_ls = [], c_server = None, c_site = [], c_status = ''saved'', c_pending = [], c_timer = False\<rparr>"
    JNull "''ocean''" preset_ocean "\<lambda>_. True"] by (simp add: PRESETS_def)

end
