(* ===== verification/Cb_Presets.thy ===== *)
theory Cb_Presets
  imports Js_Json Complex_Main
begin

text \<open>
  The colour-blind presets, \<^verbatim>\<open>src/public/cb-presets.js\<close>: the registry, applying and clearing a preset on the page, the
  stored choice, and the WCAG contrast helper.  The page is a record of what the scripts write: \<open>pg_root\<close> are the
  custom properties in the style attribute of the root element, \<open>pg_body\<close> those of the body, \<open>pg_cb\<close> is the
  attribute \<^verbatim>\<open>data-cb-preset\<close> and \<open>pg_ls\<close> is \<^verbatim>\<open>localStorage\<close>.  Numbers of the contrast helper are real numbers, since
  \<^verbatim>\<open>Math.pow(x, 2.4)\<close> is not rational.
\<close>

section \<open>Registry\<close>

record cb_preset =
  cb_id :: string
  cb_label :: string
  cb_description :: string
  cb_roles :: "string obj"
  cb_text :: "string obj"
  cb_mb :: "string obj"
  cb_ramp :: "string list"

definition cb_default :: cb_preset where
  "cb_default = \<lparr>cb_id = ''default'', cb_label = ''Default (Wong 2011)'',
     cb_description = ''Wong'' @ [CHR 0x27] @ ''s 8-class colorblind-safe palette - the project default.'',
     cb_roles = [(''repeater'', ''#D55E00''), (''companion'', ''#56B4E9''), (''room'', ''#009E73''),
       (''sensor'', ''#F0E442''), (''observer'', ''#CC79A7'')],
     cb_text = [(''repeater'', ''#1a1a1a''), (''companion'', ''#1a1a1a''), (''room'', ''#1a1a1a''),
       (''sensor'', ''#1a1a1a''), (''observer'', ''#1a1a1a'')],
     cb_mb = [(''confirmed'', ''#56F0A0''), (''suspected'', ''#FFD966''), (''unknown'', ''#FF8888'')],
     cb_ramp = [''#440154'', ''#3b528b'', ''#21918c'', ''#5ec962'', ''#fde725'']\<rparr>"

definition cb_deut :: cb_preset where
  "cb_deut = \<lparr>cb_id = ''deut'', cb_label = ''Deuteranopia-tuned'',
     cb_description = ''IBM 5-class palette - anchors shifted away from red/green collision.'',
     cb_roles = [(''repeater'', ''#FE6100''), (''companion'', ''#648FFF''), (''room'', ''#785EF0''),
       (''sensor'', ''#FFB000''), (''observer'', ''#DC267F'')],
     cb_text = [(''repeater'', ''#1a1a1a''), (''companion'', ''#1a1a1a''), (''room'', ''#ffffff''),
       (''sensor'', ''#1a1a1a''), (''observer'', ''#ffffff'')],
     cb_mb = [(''confirmed'', ''#648FFF''), (''suspected'', ''#FFB000''), (''unknown'', ''#DC267F'')],
     cb_ramp = [''#0d0887'', ''#7e03a8'', ''#cc4778'', ''#f89540'', ''#f0f921'']\<rparr>"

definition cb_prot :: cb_preset where
  "cb_prot = \<lparr>cb_id = ''prot'', cb_label = ''Protanopia-tuned'',
     cb_description = ''IBM 5-class with amber-shifted repeater anchor (protan-safe luminance).'',
     cb_roles = [(''repeater'', ''#FFB000''), (''companion'', ''#648FFF''), (''room'', ''#785EF0''),
       (''sensor'', ''#FE6100''), (''observer'', ''#DC267F'')],
     cb_text = [(''repeater'', ''#1a1a1a''), (''companion'', ''#1a1a1a''), (''room'', ''#ffffff''),
       (''sensor'', ''#1a1a1a''), (''observer'', ''#ffffff'')],
     cb_mb = [(''confirmed'', ''#648FFF''), (''suspected'', ''#FFB000''), (''unknown'', ''#DC267F'')],
     cb_ramp = [''#0d0887'', ''#7e03a8'', ''#cc4778'', ''#f89540'', ''#f0f921'']\<rparr>"

definition cb_trit :: cb_preset where
  "cb_trit = \<lparr>cb_id = ''trit'', cb_label = ''Tritanopia-tuned'',
     cb_description = ''Tol muted palette - avoids blue/yellow confusion zone.'',
     cb_roles = [(''repeater'', ''#CC6677''), (''companion'', ''#117733''), (''room'', ''#882255''),
       (''sensor'', ''#DDCC77''), (''observer'', ''#AA4499'')],
     cb_text = [(''repeater'', ''#1a1a1a''), (''companion'', ''#ffffff''), (''room'', ''#ffffff''),
       (''sensor'', ''#1a1a1a''), (''observer'', ''#ffffff'')],
     cb_mb = [(''confirmed'', ''#117733''), (''suspected'', ''#DDCC77''), (''unknown'', ''#CC6677'')],
     cb_ramp = [''#440154'', ''#3b528b'', ''#21918c'', ''#5ec962'', ''#fde725'']\<rparr>"

definition cb_achromat :: cb_preset where
  "cb_achromat = \<lparr>cb_id = ''achromat'', cb_label = ''Achromatopsia (monochrome)'',
     cb_description = ''Pure luminance ramp - relies on shape/letter/glyph carriers from #1356/#1357.'',
     cb_roles = [(''repeater'', ''#333333''), (''companion'', ''#595959''), (''room'', ''#808080''),
       (''sensor'', ''#b3b3b3''), (''observer'', ''#e6e6e6'')],
     cb_text = [(''repeater'', ''#ffffff''), (''companion'', ''#ffffff''), (''room'', ''#000000''),
       (''sensor'', ''#1a1a1a''), (''observer'', ''#1a1a1a'')],
     cb_mb = [(''confirmed'', ''#b3b3b3''), (''suspected'', ''#808080''), (''unknown'', ''#595959'')],
     cb_ramp = [''#222222'', ''#555555'', ''#888888'', ''#bbbbbb'', ''#eeeeee'']\<rparr>"

definition CB_PRESETS :: "cb_preset list" where
  "CB_PRESETS = [cb_default, cb_deut, cb_prot, cb_trit, cb_achromat]"

definition byId :: "string \<Rightarrow> cb_preset option" where
  "byId i = find (\<lambda>p. cb_id p = i) CB_PRESETS"

section \<open>The page\<close>

record page =
  pg_ls :: "string obj"
  pg_cb :: "string option"
  pg_root :: "string obj"
  pg_body :: "string obj"

definition CB_KEY :: string where "CB_KEY = ''meshcore-cb-preset''"

definition CB_ROLES :: "string list" where
  "CB_ROLES = [''repeater'', ''companion'', ''room'', ''sensor'', ''observer'']"

definition CB_MB :: "string list" where "CB_MB = [''confirmed'', ''suspected'', ''unknown'']"

definition role_var :: "string \<Rightarrow> string" where "role_var role = ''--mc-role-'' @ role"
definition text_var :: "string \<Rightarrow> string" where "text_var role = ''--mc-role-'' @ role @ ''-text''"
definition mb_var :: "string \<Rightarrow> string" where "mb_var k = ''--mc-mb-'' @ k"
definition ramp_var :: "nat \<Rightarrow> string" where "ramp_var i = ''--mc-rt-ramp-'' @ nat_to_dec i"

text \<open>\<^verbatim>\<open>style.setProperty(name, text)\<close>: the empty text removes the property.\<close>

definition css_put :: "string obj \<Rightarrow> string \<Rightarrow> string \<Rightarrow> string obj" where
  "css_put st name text = (if text = [] then obj_del st name else obj_set st name text)"

definition ramp_stop :: "string list \<Rightarrow> nat \<Rightarrow> string" where
  "ramp_stop rr i = (if i < length rr \<and> rr ! i \<noteq> [] then rr ! i else if rr = [] then ''undefined'' else last rr)"

text \<open>The text colour a preset gives to a role.\<close>

definition text_of :: "cb_preset \<Rightarrow> string \<Rightarrow> string" where
  "text_of p role = (case obj_get (cb_text p) role of Some c \<Rightarrow> if c = [] then ''#1a1a1a'' else c | None \<Rightarrow> ''#1a1a1a'')"

text \<open>The properties a preset writes, in the order of the writes.\<close>

definition preset_writes :: "cb_preset \<Rightarrow> string obj" where
  "preset_writes p =
     map (\<lambda>(role, c). (role_var role, c)) (cb_roles p) @
     map (\<lambda>role. (text_var role, text_of p role)) CB_ROLES @
     map (\<lambda>(k, c). (mb_var k, c)) (cb_mb p) @
     map (\<lambda>i. (ramp_var i, ramp_stop (cb_ramp p) i)) [0..<5]"

text \<open>\<open>fits\<close> tells whether a storage content is within the quota; a failing write is ignored.  The event
  \<^verbatim>\<open>cb-preset-changed\<close> that ends it is composed where its listener is modelled (\<open>choose_cb\<close> in \<open>Customizer_Css\<close>).\<close>

definition applyPreset :: "(string obj \<Rightarrow> bool) \<Rightarrow> string \<Rightarrow> bool \<Rightarrow> page \<Rightarrow> bool \<times> page" where
  "applyPreset fits i skipPersist pg =
     (case byId i of
        None \<Rightarrow> (False, pg)
      | Some p \<Rightarrow>
          (let ls = obj_set (pg_ls pg) CB_KEY (cb_id p) in
           (True, pg\<lparr>pg_cb := Some (cb_id p),
                     pg_root := foldl (\<lambda>st (k, v). css_put st k v) (pg_root pg) (preset_writes p),
                     pg_ls := (if \<not> skipPersist \<and> fits ls then ls else pg_ls pg)\<rparr>)))"

definition currentPreset :: "string obj \<Rightarrow> string option" where
  "currentPreset ls =
     (case obj_get ls CB_KEY of
        Some v \<Rightarrow> if v \<noteq> [] \<and> byId v \<noteq> None then Some v else None
      | None \<Rightarrow> None)"

definition cleared_vars :: "string list" where
  "cleared_vars = concat (map (\<lambda>role. [role_var role, text_var role]) CB_ROLES) @ map mb_var CB_MB @ map ramp_var [0..<5]"

definition clearPreset :: "page \<Rightarrow> page" where
  "clearPreset pg = pg\<lparr>pg_ls := obj_del (pg_ls pg) CB_KEY, pg_cb := None, pg_root := foldl obj_del (pg_root pg) cleared_vars\<rparr>"

definition initFromStorage :: "(string obj \<Rightarrow> bool) \<Rightarrow> page \<Rightarrow> page" where
  "initFromStorage fits pg = (case currentPreset (pg_ls pg) of Some i \<Rightarrow> snd (applyPreset fits i True pg) | None \<Rightarrow> pg)"

text \<open>Another tab changed the storage: the key and its new value.\<close>

definition onStorage :: "(string obj \<Rightarrow> bool) \<Rightarrow> string \<Rightarrow> string option \<Rightarrow> page \<Rightarrow> page" where
  "onStorage fits key newValue pg =
     (if key \<noteq> CB_KEY then pg
      else case newValue of
             None \<Rightarrow> pg
           | Some i \<Rightarrow> if i = [] \<or> byId i = None then pg else snd (applyPreset fits i True pg))"

section \<open>Contrast\<close>

text \<open>\<open>None\<close> for a channel is the \<^verbatim>\<open>NaN\<close> of \<^verbatim>\<open>parseInt\<close>.\<close>

definition hexToRgb :: "string \<Rightarrow> (int option \<times> int option \<times> int option) option" where
  "hexToRgb hex =
     (if hex = [] \<or> hd hex \<noteq> CHR ''#'' \<or> length hex \<noteq> 7 then None
      else Some (parseInt16 (take 2 (drop 1 hex)), parseInt16 (take 2 (drop 3 hex)), parseInt16 (take 2 (drop 5 hex))))"

definition channelLin :: "int \<Rightarrow> real" where
  "channelLin c = (let s = of_int c / 255 in if s \<le> 0.03928 then s / 12.92 else ((s + 0.055) / 1.055) powr 2.4)"

definition relativeLuminance :: "string \<Rightarrow> real option" where
  "relativeLuminance hex =
     (case hexToRgb hex of
        None \<Rightarrow> Some 0
      | Some (Some r, Some g, Some b) \<Rightarrow> Some (0.2126 * channelLin r + 0.7152 * channelLin g + 0.0722 * channelLin b)
      | _ \<Rightarrow> None)"

definition contrast :: "string \<Rightarrow> string \<Rightarrow> real option" where
  "contrast fg bg =
     (case (relativeLuminance fg, relativeLuminance bg) of
        (Some L1, Some L2) \<Rightarrow> Some ((max L1 L2 + 0.05) / (min L1 L2 + 0.05))
      | _ \<Rightarrow> None)"

definition TILE_LIGHT :: string where "TILE_LIGHT = ''#f2efe9''"
definition TILE_DARK :: string where "TILE_DARK = ''#1a1a1a''"

definition passes :: "real option \<Rightarrow> bool" where
  "passes v = (case v of Some x \<Rightarrow> 3 \<le> x | None \<Rightarrow> False)"

definition validatePreset :: "string \<Rightarrow> (string \<times> string \<times> real option \<times> real option \<times> bool \<times> bool) list" where
  "validatePreset i =
     (case filter (\<lambda>p. cb_id p = i) CB_PRESETS of
        [] \<Rightarrow> []
      | p # _ \<Rightarrow> map (\<lambda>(role, c). (let vL = contrast c TILE_LIGHT; vD = contrast c TILE_DARK
                                  in (role, c, vL, vD, passes vL, passes vD))) (cb_roles p))"

section \<open>Bounds for the contrast\<close>

lemma root5_bounds:
  assumes "0 < x" "0 \<le> z" "z ^ 5 \<le> x ^ 2" "x ^ 2 \<le> w ^ 5" "0 \<le> (w :: real)"
  shows "z \<le> x powr (2 / 5) \<and> x powr (2 / 5) \<le> w"
proof -
  have "(x powr (2 / 5)) ^ 5 = (x powr (2 / 5)) powr (of_nat 5)" using assms(1) by (intro powr_realpow [symmetric]) simp
  also have "\<dots> = x powr (of_nat 2)" by (simp add: powr_powr)
  also have "\<dots> = x ^ 2" using assms(1) by (rule powr_realpow)
  finally have e: "(x powr (2 / 5)) ^ 5 = x ^ 2" .
  have "z ^ Suc 4 \<le> (x powr (2 / 5)) ^ Suc 4" "(x powr (2 / 5)) ^ Suc 4 \<le> w ^ Suc 4" using assms(3,4) e by simp_all
  then show ?thesis using assms(5) power_le_imp_le_base [of z 4] power_le_imp_le_base [of _ 4 w] powr_ge_zero [of x "2 / 5"] by blast
qed

lemma powr_24: "0 < x \<Longrightarrow> x powr 2.4 = x ^ 2 * x powr (2 / 5)" for x :: real
proof -
  assume x: "0 < x"
  have "x powr 2.4 = x powr (of_nat 2 + 2 / 5)" by simp
  also have "\<dots> = x powr (of_nat 2) * x powr (2 / 5)" by (rule powr_add)
  finally show ?thesis using powr_realpow [OF x, of 2] by simp
qed

text \<open>
  Table of channel values \<open>c\<close> with bounds \<open>a\<close>, \<open>b\<close> in units of \<open>10 ^ -7\<close>; \<open>z\<close> is the fifth root of the
  square in units of \<open>10 ^ -5\<close>.
\<close>

definition lin_bound :: "int \<times> int \<times> int \<times> int \<Rightarrow> bool" where
  "lin_bound e = (case e of (c, z, a, b) \<Rightarrow>
     11 \<le> c \<and> 0 \<le> z \<and> z ^ 5 * 115799121 \<le> (40 * c + 561) ^ 2 * 10 ^ 25 \<and>
     (40 * c + 561) ^ 2 * 10 ^ 25 \<le> (z + 1) ^ 5 * 115799121 \<and>
     a * 11579912100000 \<le> (40 * c + 561) ^ 2 * z * 10 ^ 7 \<and>
     (40 * c + 561) ^ 2 * (z + 1) * 10 ^ 7 \<le> b * 11579912100000)"

lemma channelLin_bounds:
  assumes "lin_bound (c, z, a, b)"
  shows "of_int a / 10 ^ 7 \<le> channelLin c \<and> channelLin c \<le> of_int b / 10 ^ 7"
proof -
  have c: "11 \<le> c" "0 \<le> z" using assms by (simp_all add: lin_bound_def)
  define X :: real where "X = of_int ((40 * c + 561) ^ 2)"
  define x :: real where "x = of_int (40 * c + 561) / 10761"
  have x: "0 < x" "x ^ 2 = X / 115799121" using c(1) by (simp_all add: x_def X_def power_divide)
  define r where "r = x powr (2 / 5)"
  have l: "channelLin c = X / 115799121 * r"
  proof -
    have "(of_int c / 255 + 0.055) / 1.055 = x" by (simp add: x_def field_simps)
    moreover have "\<not> of_int c / 255 \<le> (0.03928 :: real)" using c(1) by simp
    ultimately show ?thesis using powr_24 [OF x(1)] by (simp only: channelLin_def Let_def if_False x(2) r_def)
  qed
  have "of_int (z ^ 5 * 115799121) \<le> (of_int ((40 * c + 561) ^ 2 * 10 ^ 25) :: real)"
    "of_int ((40 * c + 561) ^ 2 * 10 ^ 25) \<le> (of_int ((z + 1) ^ 5 * 115799121) :: real)"
    "of_int (a * 11579912100000) \<le> (of_int ((40 * c + 561) ^ 2 * z * 10 ^ 7) :: real)"
    "of_int ((40 * c + 561) ^ 2 * (z + 1) * 10 ^ 7) \<le> (of_int (b * 11579912100000) :: real)"
    using assms unfolding lin_bound_def prod.case of_int_le_iff by blast+
  then have i: "of_int z ^ 5 * 115799121 \<le> X * 10 ^ 25" "X * 10 ^ 25 \<le> (of_int z + 1) ^ 5 * 115799121"
    "of_int a * 11579912100000 \<le> X * of_int z * 10 ^ 7" "X * (of_int z + 1) * 10 ^ 7 \<le> of_int b * 11579912100000"
    unfolding X_def by simp_all
  have zr: "of_int z / 10 ^ 5 \<le> r \<and> r \<le> (of_int z + 1) / 10 ^ 5"
    unfolding r_def by (rule root5_bounds [OF x(1)]) (use i(1,2) c(2) in \<open>simp_all add: x(2) power_divide\<close>)
  have X: "0 \<le> X" by (simp add: X_def)
  have "X * (of_int z / 10 ^ 5) \<le> X * r" "X * r \<le> X * ((of_int z + 1) / 10 ^ 5)"
    by (rule mult_left_mono [OF conjunct1 [OF zr] X], rule mult_left_mono [OF conjunct2 [OF zr] X])
  with i(3,4) show ?thesis unfolding l by (simp add: field_simps)
qed

lemma channelLin_0: "channelLin 0 = 0" by (simp add: channelLin_def)

definition LIN_TABLE :: "(int \<times> int \<times> int \<times> int) list" where
  "LIN_TABLE =
    [(17, 42147, 56053, 56056), (26, 46667, 103296, 103300), (34, 50196, 159962, 159966), (38, 51828, 193822,
     193826), (51, 56665, 331047, 331054), (66, 61570, 544797, 544807), (68, 62181, 578049, 578059), (85, 67047,
     908413, 908428), (86, 67317, 930586, 930600), (89, 68117, 998976, 998992), (94, 69421, 1119319, 1119336), (97,
     70186, 1195382, 1195400), (100, 70938, 1274364, 1274383), (102, 71433, 1328668, 1328688), (115, 74533,
     1714395, 1714419), (119, 75449, 1844738, 1844763), (120, 75675, 1878186, 1878212), (121, 75901, 1912011,
     1912038), (127, 77232, 2122287, 2122315), (128, 77451, 2158595, 2158624), (136, 79167, 2461989, 2462021),
     (143, 80625, 2746768, 2746803), (153, 82640, 3185429, 3185468), (158, 83621, 3419111, 3419152), (167, 85345,
     3864291, 3864338), (170, 85908, 4019777, 4019824), (176, 87017, 4341505, 4341555), (179, 87564, 4507829,
     4507881), (180, 87745, 4564071, 4564124), (204, 91935, 6038209, 6038276), (213, 93435, 6653829, 6653901),
     (220, 94577, 7156896, 7156973), (221, 94738, 7230478, 7230556), (228, 95857, 7758164, 7758246), (230, 96173,
     7912915, 7912998), (233, 96644, 8148382, 8148468), (239, 97577, 8631555, 8631644), (240, 97731, 8713647,
     8713737), (242, 98038, 8879201, 8879293), (254, 99851, 9911006, 9911106), (255, 100000, 10000000, 10000100)]"

lemma lin_bound_table: "list_all lin_bound LIN_TABLE"
  by (simp add: lin_bound_def LIN_TABLE_def)

definition chan :: "int \<Rightarrow> (int \<times> int) option" where
  "chan c = (if c = 0 then Some (0, 0) else map_option snd (map_of LIN_TABLE c))"

lemma chan_bounds: "chan c = Some (a, b) \<Longrightarrow> of_int a / 10 ^ 7 \<le> channelLin c \<and> channelLin c \<le> of_int b / 10 ^ 7"
proof (cases "c = 0")
  case True
  then show "chan c = Some (a, b) \<Longrightarrow> ?thesis" by (simp add: chan_def channelLin_0)
next
  case False
  assume "chan c = Some (a, b)"
  with False obtain z where "(c, z, a, b) \<in> set LIN_TABLE" by (auto simp: chan_def dest: map_of_SomeD)
  with lin_bound_table have "lin_bound (c, z, a, b)" by (simp add: list_all_iff)
  then show ?thesis by (rule channelLin_bounds)
qed

text \<open>Bounds of the luminance of a colour in units of \<open>10 ^ -11\<close>.\<close>

definition lum_range :: "string \<Rightarrow> (int \<times> int) option" where
  "lum_range hex =
     (case hexToRgb hex of
        Some (Some r, Some g, Some b) \<Rightarrow>
          (case (chan r, chan g, chan b) of
             (Some (r0, r1), Some (g0, g1), Some (b0, b1)) \<Rightarrow>
               Some (2126 * r0 + 7152 * g0 + 722 * b0, 2126 * r1 + 7152 * g1 + 722 * b1)
           | _ \<Rightarrow> None)
      | _ \<Rightarrow> None)"

lemma lum_range:
  assumes "lum_range hex = Some (lo, hi)"
  obtains l where "relativeLuminance hex = Some l" "of_int lo \<le> 10 ^ 11 * l" "10 ^ 11 * l \<le> of_int hi"
proof -
  from assms obtain r g b r0 r1 g0 g1 b0 b1 where h: "hexToRgb hex = Some (Some r, Some g, Some b)"
    and c: "chan r = Some (r0, r1)" "chan g = Some (g0, g1)" "chan b = Some (b0, b1)"
    and lh: "lo = 2126 * r0 + 7152 * g0 + 722 * b0" "hi = 2126 * r1 + 7152 * g1 + 722 * b1"
    by (auto simp: lum_range_def split: option.splits)
  let ?l = "0.2126 * channelLin r + 0.7152 * channelLin g + 0.0722 * channelLin b"
  have "relativeLuminance hex = Some ?l" using h by (simp add: relativeLuminance_def)
  moreover have "of_int lo \<le> 10 ^ 11 * ?l" "10 ^ 11 * ?l \<le> of_int hi"
    using chan_bounds [OF c(1)] chan_bounds [OF c(2)] chan_bounds [OF c(3)] unfolding lh by simp_all
  ultimately show ?thesis by (rule that)
qed

text \<open>Checks in integers that a contrast is at least, or below, \<open>k\<close> tenths.\<close>

definition ratio_ge :: "int \<Rightarrow> string \<Rightarrow> string \<Rightarrow> bool" where
  "ratio_ge k hi lo =
     (case (lum_range hi, lum_range lo) of
        (Some (x, _), Some (y, y')) \<Rightarrow> 0 \<le> y \<and> k * (y' + 5000000000) \<le> 10 * (x + 5000000000)
      | _ \<Rightarrow> False)"

definition ratio_less :: "int \<Rightarrow> string \<Rightarrow> string \<Rightarrow> bool" where
  "ratio_less k hi lo =
     (case (lum_range hi, lum_range lo) of
        (Some (x, x'), Some (y, y')) \<Rightarrow> 0 \<le> y \<and> y' \<le> x \<and> 10 * (x' + 5000000000) < k * (y + 5000000000)
      | _ \<Rightarrow> False)"

lemma contrast_sym: "contrast a b = contrast b a"
  by (simp add: contrast_def max.commute min.commute split: option.split)

lemma contrast_ordered:
  assumes "relativeLuminance hi = Some a" "relativeLuminance lo = Some b" "b \<le> a"
  shows "contrast hi lo = Some ((a + 0.05) / (b + 0.05))"
  using assms by (simp add: contrast_def max_def min_def)

lemma lum_nonneg: "0 \<le> y \<Longrightarrow> of_int y \<le> 10 ^ 11 * (b :: real) \<Longrightarrow> 0 \<le> b"
proof -
  assume "0 \<le> y" "of_int y \<le> 10 ^ 11 * b"
  moreover from this(1) have "0 \<le> (of_int y :: real)" by simp
  ultimately show ?thesis by (simp add: zero_le_mult_iff)
qed

lemma ratio_ge:
  assumes "ratio_ge k hi lo" "10 \<le> k"
  shows "\<exists>v. contrast hi lo = Some v \<and> of_int k / 10 \<le> v"
proof -
  from assms(1) obtain x x' y y' where r: "lum_range hi = Some (x, x')" "lum_range lo = Some (y, y')" "0 \<le> y"
    and k: "k * (y' + 5000000000) \<le> 10 * (x + 5000000000)"
    by (auto simp: ratio_ge_def split: option.splits)
  obtain a where a: "relativeLuminance hi = Some a" "of_int x \<le> 10 ^ 11 * a" using lum_range [OF r(1)] by blast
  obtain b where b: "relativeLuminance lo = Some b" "of_int y \<le> 10 ^ 11 * b" "10 ^ 11 * b \<le> of_int y'" using lum_range [OF r(2)] by blast
  have "(of_int (k * (y' + 5000000000)) :: real) \<le> of_int (10 * (x + 5000000000))" using k by (simp only: of_int_le_iff)
  then have "of_int k * (of_int y' + 5000000000) \<le> (10 * (of_int x + 5000000000) :: real)" by simp
  moreover have "of_int k * (10 ^ 11 * b + 5000000000) \<le> of_int k * (of_int y' + 5000000000 :: real)"
    using b(3) assms(2) by (intro mult_left_mono) simp_all
  ultimately have m: "of_int k / 10 * (b + 0.05) \<le> a + 0.05" using a(2) by (simp add: field_simps)
  have b0: "0 \<le> b" using lum_nonneg [OF r(3) b(2)] .
  moreover have "1 * (b + 0.05) \<le> of_int k / 10 * (b + 0.05)" using assms(2) b0 by (intro mult_right_mono) simp_all
  ultimately have "b \<le> a" using m by simp
  moreover have "of_int k / 10 \<le> (a + 0.05) / (b + 0.05)" using m b0 by (simp add: pos_le_divide_eq)
  ultimately show ?thesis using contrast_ordered [OF a(1) b(1)] by blast
qed

lemma ratio_less:
  assumes "ratio_less k hi lo" "0 \<le> k"
  shows "\<exists>v. contrast hi lo = Some v \<and> v < of_int k / 10"
proof -
  from assms(1) obtain x x' y y' where r: "lum_range hi = Some (x, x')" "lum_range lo = Some (y, y')" "0 \<le> y" "y' \<le> x"
    and k: "10 * (x' + 5000000000) < k * (y + 5000000000)"
    by (auto simp: ratio_less_def split: option.splits)
  obtain a where a: "relativeLuminance hi = Some a" "of_int x \<le> 10 ^ 11 * a" "10 ^ 11 * a \<le> of_int x'" using lum_range [OF r(1)] by blast
  obtain b where b: "relativeLuminance lo = Some b" "of_int y \<le> 10 ^ 11 * b" "10 ^ 11 * b \<le> of_int y'" using lum_range [OF r(2)] by blast
  have b0: "0 \<le> b" using lum_nonneg [OF r(3) b(2)] .
  have "(of_int (10 * (x' + 5000000000)) :: real) < of_int (k * (y + 5000000000))" using k by (simp only: of_int_less_iff)
  then have "(10 * (of_int x' + 5000000000) :: real) < of_int k * (of_int y + 5000000000)" by simp
  also have "\<dots> \<le> of_int k * (10 ^ 11 * b + 5000000000)" using b(2) assms(2) by (intro mult_left_mono) simp_all
  finally have m: "a + 0.05 < of_int k / 10 * (b + 0.05)" using a(3) by (simp add: field_simps)
  have "of_int y' \<le> (of_int x :: real)" using r(4) by simp
  then have "b \<le> a" using a(2) b(3) by simp
  moreover have "(a + 0.05) / (b + 0.05) < of_int k / 10" using m b0 by (simp add: pos_divide_less_eq)
  ultimately show ?thesis using contrast_ordered [OF a(1) b(1)] by blast
qed

lemma hex_colors:
  "hexToRgb ''#f2efe9'' = Some (Some 242, Some 239, Some 233)"
  "hexToRgb ''#D55E00'' = Some (Some 213, Some 94, Some 0)"
  "hexToRgb ''#56B4E9'' = Some (Some 86, Some 180, Some 233)"
  "hexToRgb ''#009E73'' = Some (Some 0, Some 158, Some 115)"
  "hexToRgb ''#F0E442'' = Some (Some 240, Some 228, Some 66)"
  "hexToRgb ''#CC79A7'' = Some (Some 204, Some 121, Some 167)"
  "hexToRgb ''#1a1a1a'' = Some (Some 26, Some 26, Some 26)"
  "hexToRgb ''#FE6100'' = Some (Some 254, Some 97, Some 0)"
  "hexToRgb ''#648FFF'' = Some (Some 100, Some 143, Some 255)"
  "hexToRgb ''#785EF0'' = Some (Some 120, Some 94, Some 240)"
  "hexToRgb ''#FFB000'' = Some (Some 255, Some 176, Some 0)"
  "hexToRgb ''#DC267F'' = Some (Some 220, Some 38, Some 127)"
  "hexToRgb ''#ffffff'' = Some (Some 255, Some 255, Some 255)"
  "hexToRgb ''#CC6677'' = Some (Some 204, Some 102, Some 119)"
  "hexToRgb ''#117733'' = Some (Some 17, Some 119, Some 51)"
  "hexToRgb ''#882255'' = Some (Some 136, Some 34, Some 85)"
  "hexToRgb ''#DDCC77'' = Some (Some 221, Some 204, Some 119)"
  "hexToRgb ''#AA4499'' = Some (Some 170, Some 68, Some 153)"
  "hexToRgb ''#333333'' = Some (Some 51, Some 51, Some 51)"
  "hexToRgb ''#595959'' = Some (Some 89, Some 89, Some 89)"
  "hexToRgb ''#808080'' = Some (Some 128, Some 128, Some 128)"
  "hexToRgb ''#b3b3b3'' = Some (Some 179, Some 179, Some 179)"
  "hexToRgb ''#e6e6e6'' = Some (Some 230, Some 230, Some 230)"
  "hexToRgb ''#000000'' = Some (Some 0, Some 0, Some 0)"
  by (simp_all add: hexToRgb_def parseInt16_def parse_sign_def strip_0x_def is_ws_def hex_literals hex_value_def hex_val_def starts_with_def is_digit_def)

lemma color_ranges:
  "lum_range ''#f2efe9'' = Some (86493194490, 86494088702)"
  "lum_range ''#D55E00'' = Some (22151409942, 22151684598)"
  "lum_range ''#56B4E9'' = Some (40503793432, 40504264344)"
  "lum_range ''#009E73'' = Some (25691275062, 25691585622)"
  "lum_range ''#F0E442'' = Some (74404945884, 74405730908)"
  "lum_range ''#CC79A7'' = Some (29301953108, 29302322588)"
  "lum_range ''#1a1a1a'' = Some (1032960000, 1033000000)"
  "lum_range ''#FE6100'' = Some (29620170820, 29620512156)"
  "lum_range ''#648FFF'' = Some (29574182600, 29574545514)"
  "lum_range ''#785EF0'' = Some (18289646058, 18289887898)"
  "lum_range ''#FFB000'' = Some (52310443760, 52311013960)"
  "lum_range ''#DC267F'' = Some (18134067054, 18134279580)"
  "lum_range ''#ffffff'' = Some (100000000000, 100001000000)"
  "lum_range ''#CC6677'' = Some (23671766706, 23672070238)"
  "lum_range ''#117733'' = Some (13551750788, 13551941020)"
  "lum_range ''#882255'' = Some (7034111024, 7034218494)"
  "lum_range ''#DDCC77'' = Some (59889167832, 59889830894)"
  "lum_range ''#AA4499'' = Some (14980132088, 14980331688)"
  "lum_range ''#333333'' = Some (3310470000, 3310540000)"
  "lum_range ''#595959'' = Some (9989760000, 9989920000)"
  "lum_range ''#808080'' = Some (21585950000, 21586240000)"
  "lum_range ''#b3b3b3'' = Some (45078290000, 45078810000)"
  "lum_range ''#e6e6e6'' = Some (79129150000, 79129980000)"
  "lum_range ''#000000'' = Some (0, 0)"
  by (simp_all add: lum_range_def hex_colors chan_def LIN_TABLE_def)

definition at_least :: "real \<Rightarrow> string \<Rightarrow> string \<Rightarrow> bool" where
  "at_least k a b = (case contrast a b of Some v \<Rightarrow> k \<le> v | None \<Rightarrow> False)"

definition below :: "real \<Rightarrow> string \<Rightarrow> string \<Rightarrow> bool" where
  "below k a b = (case contrast a b of Some v \<Rightarrow> v < k | None \<Rightarrow> False)"

lemma at_leastI: "ratio_ge k a b \<or> ratio_ge k b a \<Longrightarrow> 10 \<le> k \<Longrightarrow> at_least (of_int k / 10) a b"
  using ratio_ge [of k a b] ratio_ge [of k b a] contrast_sym [of a b] by (auto simp: at_least_def)

lemma belowI: "ratio_less k a b \<or> ratio_less k b a \<Longrightarrow> 0 \<le> k \<Longrightarrow> below (of_int k / 10) a b"
  using ratio_less [of k a b] ratio_less [of k b a] contrast_sym [of a b] by (auto simp: below_def)

lemmas range_eval = color_ranges ratio_ge_def ratio_less_def

lemma text_fine:
  "p \<in> set CB_PRESETS \<Longrightarrow> list_all (\<lambda>(role, c). ratio_ge 45 (text_of p role) c \<or> ratio_ge 45 c (text_of p role)) (cb_roles p)"
  by (auto simp: CB_PRESETS_def cb_default_def cb_deut_def cb_prot_def cb_trit_def cb_achromat_def text_of_def range_eval)

lemma below_not_passes: "below 3 a b \<Longrightarrow> \<not> passes (contrast a b)"
  by (auto simp: below_def passes_def split: option.splits)

lemma tile_failures:
  "below 3 ''#56B4E9'' TILE_LIGHT" "below 3 ''#648FFF'' TILE_LIGHT" "below 3 ''#DDCC77'' TILE_LIGHT" "below 3 ''#333333'' TILE_DARK"
  using belowI [of 30 "''#56B4E9''" TILE_LIGHT] belowI [of 30 "''#648FFF''" TILE_LIGHT] belowI [of 30 "''#DDCC77''" TILE_LIGHT]
    belowI [of 30 "''#333333''" TILE_DARK]
  by (simp_all add: TILE_LIGHT_def TILE_DARK_def range_eval)

lemma preset_ids: "map cb_id CB_PRESETS = [''default'', ''deut'', ''prot'', ''trit'', ''achromat'']"
  by (simp add: CB_PRESETS_def cb_default_def cb_deut_def cb_prot_def cb_trit_def cb_achromat_def)

lemma filter_distinct: "distinct (map f xs) \<Longrightarrow> x \<in> set xs \<Longrightarrow> filter (\<lambda>y. f y = f x) xs = [x]"
proof (induction xs)
  case (Cons y ys)
  show ?case
  proof (cases "x = y")
    case True
    have "f z \<noteq> f y" if "z \<in> set ys" for z
    proof
      assume "f z = f y"
      with imageI [OF that, of f] Cons.prems(1) show False by simp
    qed
    then have "filter (\<lambda>z. f z = f y) ys = []" by (simp add: filter_empty_conv)
    with True show ?thesis by simp
  next
    case False
    then have "x \<in> set ys" using Cons.prems(2) by simp
    moreover from this have "f x \<in> f ` set ys" by (rule imageI)
    then have "f y \<noteq> f x" using Cons.prems(1) by (metis distinct.simps(2) list.set_map list.simps(9))
    ultimately show ?thesis using Cons by simp
  qed
qed simp

lemma filter_id: "p \<in> set CB_PRESETS \<Longrightarrow> filter (\<lambda>q. cb_id q = cb_id p) CB_PRESETS = [p]"
  by (rule filter_distinct) (simp_all add: preset_ids)

lemma some_role_fails:
  "p \<in> set CB_PRESETS \<Longrightarrow> list_ex (\<lambda>(role, c). below 3 c TILE_LIGHT \<or> below 3 c TILE_DARK) (cb_roles p)"
  using tile_failures by (auto simp: CB_PRESETS_def cb_default_def cb_deut_def cb_prot_def cb_trit_def cb_achromat_def)

text \<open>
  Contrast of the role colours.  The text of a role has a contrast of at least 4.5 : 1 to its
  background in every preset (WCAG 1.4.3, level AA); but no preset passes its own validation of 3 : 1 on both map
  tiles, and two of the ratios that the comments quote are wrong: 12.98 is less than 10.8 and 3.71 is less than 3.1.
\<close>

theorem role_text_contrast:
  "list_all (\<lambda>p. list_all (\<lambda>(role, c). at_least 4.5 (text_of p role) c) (cb_roles p) \<and>
     list_ex (\<lambda>(role, c, vL, vD, passLight, passDark). \<not> (passLight \<and> passDark)) (validatePreset (cb_id p))) CB_PRESETS \<and>
   below 10.8 ''#DDCC77'' ''#1a1a1a'' \<and> below 3.1 ''#117733'' ''#1a1a1a''"
proof -
  have "list_all (\<lambda>(role, c). at_least 4.5 (text_of p role) c) (cb_roles p)" if "p \<in> set CB_PRESETS" for p
    using text_fine [OF that] at_leastI [of 45] by (auto simp: list_all_iff)
  moreover have "list_ex (\<lambda>(role, c, vL, vD, passLight, passDark). \<not> (passLight \<and> passDark)) (validatePreset (cb_id p))"
    if "p \<in> set CB_PRESETS" for p
  proof -
    from some_role_fails [OF that] obtain role c where rc: "(role, c) \<in> set (cb_roles p)" "below 3 c TILE_LIGHT \<or> below 3 c TILE_DARK"
      by (auto simp: list_ex_iff)
    then have "\<not> (passes (contrast c TILE_LIGHT) \<and> passes (contrast c TILE_DARK))" using below_not_passes by blast
    with rc(1) show ?thesis by (force simp: validatePreset_def filter_id [OF that] list_ex_iff Let_def)
  qed
  moreover have "below 10.8 ''#DDCC77'' ''#1a1a1a''" "below 3.1 ''#117733'' ''#1a1a1a''"
    using belowI [of 108 "''#DDCC77''" "''#1a1a1a''"] belowI [of 31 "''#117733''" "''#1a1a1a''"] by (simp_all add: range_eval)
  ultimately show ?thesis by (simp add: list_all_iff)
qed

section \<open>Applying, clearing and reloading\<close>

lemma preset_tables:
  "p \<in> set CB_PRESETS \<Longrightarrow> map fst (cb_roles p) = CB_ROLES \<and> map fst (cb_mb p) = CB_MB \<and> length (cb_ramp p) = 5 \<and>
     [] \<notin> snd ` set (cb_roles p) \<union> snd ` set (cb_mb p) \<union> set (cb_ramp p)"
  by (auto simp: CB_PRESETS_def cb_default_def cb_deut_def cb_prot_def cb_trit_def cb_achromat_def CB_ROLES_def CB_MB_def)

definition preset_keys :: "string list" where
  "preset_keys = map role_var CB_ROLES @ map text_var CB_ROLES @ map mb_var CB_MB @ map ramp_var [0..<5]"

lemma preset_keys_eq:
  "preset_keys = [''--mc-role-repeater'', ''--mc-role-companion'', ''--mc-role-room'', ''--mc-role-sensor'', ''--mc-role-observer'',
     ''--mc-role-repeater-text'', ''--mc-role-companion-text'', ''--mc-role-room-text'', ''--mc-role-sensor-text'', ''--mc-role-observer-text'',
     ''--mc-mb-confirmed'', ''--mc-mb-suspected'', ''--mc-mb-unknown'',
     ''--mc-rt-ramp-0'', ''--mc-rt-ramp-1'', ''--mc-rt-ramp-2'', ''--mc-rt-ramp-3'', ''--mc-rt-ramp-4'']"
proof -
  have "map nat_to_dec [0..<5] = [''0'', ''1'', ''2'', ''3'', ''4'']" by code_simp
  then have "map ramp_var [0..<5] = map ((@) ''--mc-rt-ramp-'') [''0'', ''1'', ''2'', ''3'', ''4'']"
    unfolding ramp_var_def by (metis (no_types, lifting) map_map comp_def map_cong)
  then show ?thesis by (simp add: preset_keys_def CB_ROLES_def CB_MB_def role_var_def text_var_def mb_var_def)
qed


lemma preset_writes_keys:
  assumes "p \<in> set CB_PRESETS"
  shows "map fst (preset_writes p) = preset_keys" "[] \<notin> snd ` set (preset_writes p)"
proof -
  note t = preset_tables [OF assms]
  have m: "map (f \<circ> fst) xs = map f (map fst xs)" for f :: "string \<Rightarrow> string" and xs :: "string obj" by simp
  have "map fst (preset_writes p) = map role_var (map fst (cb_roles p)) @ map text_var CB_ROLES @ map mb_var (map fst (cb_mb p)) @ map ramp_var [0..<5]"
    by (simp add: preset_writes_def comp_def case_prod_beta)
  then show "map fst (preset_writes p) = preset_keys" using t by (simp add: preset_keys_def)
  have "[] \<notin> snd ` set (cb_roles p)" "[] \<notin> snd ` set (cb_mb p)" using t by auto
  moreover have "text_of p role \<noteq> []" for role by (simp add: text_of_def split: option.split)
  moreover have "ramp_stop (cb_ramp p) i \<noteq> []" if "i < 5" for i
  proof -
    have "cb_ramp p ! i \<in> set (cb_ramp p)" using t that by simp
    moreover have "[] \<notin> set (cb_ramp p)" using t by simp
    ultimately have "cb_ramp p ! i \<noteq> []" by metis
    with t that show ?thesis by (simp add: ramp_stop_def)
  qed
  moreover have "snd ` set (preset_writes p) = snd ` set (cb_roles p) \<union> text_of p ` set CB_ROLES \<union> snd ` set (cb_mb p) \<union>
      ramp_stop (cb_ramp p) ` {0..<5}"
    by (simp add: preset_writes_def image_Un image_image case_prod_beta Un_assoc)
  ultimately show "[] \<notin> snd ` set (preset_writes p)" by (simp only: Un_iff image_iff) (metis atLeastLessThan_iff)
qed

lemma preset_keys_distinct: "distinct preset_keys" "set cleared_vars = set preset_keys"
proof -
  show "distinct preset_keys" by (simp add: preset_keys_eq)
  show "set cleared_vars = set preset_keys" by (auto simp: cleared_vars_def preset_keys_def)
qed

lemma foldl_css_put:
  "[] \<notin> snd ` set kvs \<Longrightarrow> distinct (map fst kvs) \<Longrightarrow>
   obj_get (foldl (\<lambda>st (k, v). css_put st k v) st kvs) n = (case obj_get kvs n of Some v \<Rightarrow> Some v | None \<Rightarrow> obj_get st n)"
proof (induction kvs arbitrary: st)
  case (Cons kv kvs)
  obtain k v where kv: "kv = (k, v)" by (cases kv)
  with Cons.prems have "v \<noteq> []" "obj_get kvs k = None" by (auto simp: map_of_eq_None_iff)
  with Cons.IH [of "css_put st k v"] Cons.prems kv show ?case
    by (auto simp: css_put_def obj_get_set split: option.split)
qed simp

lemma foldl_del: "obj_get (foldl obj_del st ks) n = (if n \<in> set ks then None else obj_get st n)"
  by (induction ks arbitrary: st) (auto simp: obj_get_del)

lemma byId_Some: "byId i = Some p \<longleftrightarrow> p \<in> set CB_PRESETS \<and> cb_id p = i"
proof
  assume "byId i = Some p"
  then show "p \<in> set CB_PRESETS \<and> cb_id p = i" unfolding byId_def by (auto simp: find_Some_iff)
next
  assume p: "p \<in> set CB_PRESETS \<and> cb_id p = i"
  then have "p \<in> set CB_PRESETS" "cb_id p = i" by simp_all
  moreover from this(1) obtain q where "byId i = Some q"
    using \<open>cb_id p = i\<close> by (cases "byId i") (auto simp: byId_def find_None_iff)
  moreover from this have "q \<in> set CB_PRESETS" "cb_id q = i" unfolding byId_def by (auto simp: find_Some_iff)
  ultimately have "q \<in> set (filter (\<lambda>q. cb_id q = cb_id p) CB_PRESETS)" by simp
  with filter_id [of p] p \<open>byId i = Some q\<close> show "byId i = Some p" by simp
qed


lemma apply_root:
  assumes "byId i = Some p"
  shows "obj_get (pg_root (snd (applyPreset fits i skip pg))) v =
      (case obj_get (preset_writes p) v of Some c \<Rightarrow> Some c | None \<Rightarrow> obj_get (pg_root pg) v)"
proof -
  have p: "p \<in> set CB_PRESETS" using assms byId_Some by blast
  note k = preset_writes_keys [OF p]
  then have "distinct (map fst (preset_writes p))" using preset_keys_distinct(1) by simp
  from foldl_css_put [OF k(2) this] show ?thesis by (simp add: applyPreset_def assms Let_def)
qed

lemma writes_dom: "byId i = Some p \<Longrightarrow> obj_get (preset_writes p) v = None \<longleftrightarrow> v \<notin> set cleared_vars"
proof -
  assume "byId i = Some p"
  then have "p \<in> set CB_PRESETS" using byId_Some by blast
  from preset_writes_keys(1) [OF this] show ?thesis
    by (metis list.set_map map_of_eq_None_iff preset_keys_distinct(2))
qed

definition save_preset :: "string option \<Rightarrow> string obj \<Rightarrow> string obj" where
  "save_preset v ls = (case v of Some i \<Rightarrow> obj_set ls CB_KEY i | None \<Rightarrow> obj_del ls CB_KEY)"

lemma byId_not_Nil: "byId i \<noteq> None \<Longrightarrow> i \<noteq> []"
proof -
  assume "byId i \<noteq> None"
  then obtain p where "p \<in> set CB_PRESETS" "cb_id p = i" using byId_Some by blast
  then have "i \<in> set (map cb_id CB_PRESETS)" by auto
  then show ?thesis unfolding preset_ids by auto
qed

interpretation stored_preset: persisted CB_KEY currentPreset save_preset "\<lambda>v. case v of Some i \<Rightarrow> \<not> Option.is_none (byId i) | None \<Rightarrow> True"
proof
  fix v ls
  assume "case v of Some i \<Rightarrow> \<not> Option.is_none (byId i) | None \<Rightarrow> True"
  then show "currentPreset (save_preset v ls) = v"
    using byId_not_Nil by (cases v) (auto simp: currentPreset_def save_preset_def obj_get_set obj_get_del Option.is_none_def)
qed (simp_all add: currentPreset_def save_preset_def obj_get_set obj_get_del split: option.split)

text \<open>
  C31: A preset is applied, cleared and restored.  Applying a known preset sets exactly its own properties on the
  root element; clearing afterwards removes each of them again, with the attribute and the stored choice, and
  leaves every other property alone; when the choice was stored, a new page that initialises from the storage shows the
  same properties; an unknown preset changes nothing.
\<close>

theorem preset_apply_clear:
  "let (done, pg1) = applyPreset fits i skip pg; pg2 = clearPreset pg1; pg3 = initFromStorage fits fresh in
     (case byId i of
        None \<Rightarrow> \<not> done \<and> pg1 = pg
      | Some p \<Rightarrow>
          done \<and> pg_cb pg1 = Some i \<and> pg_body pg1 = pg_body pg \<and>
          (\<forall>v. obj_get (pg_root pg1) v = (if v \<in> set cleared_vars then obj_get (preset_writes p) v else obj_get (pg_root pg) v)) \<and>
          pg_cb pg2 = None \<and> currentPreset (pg_ls pg2) = None \<and>
          (\<forall>v. obj_get (pg_root pg2) v = (if v \<in> set cleared_vars then None else obj_get (pg_root pg) v)) \<and>
          (skip \<or> \<not> fits (obj_set (pg_ls pg) CB_KEY i) \<or> pg_ls fresh \<noteq> pg_ls pg1 \<or>
             pg_cb pg3 = Some i \<and> list_all (\<lambda>v. obj_get (pg_root pg3) v = obj_get (pg_root pg1) v) cleared_vars))"
proof (cases "byId i")
  case None
  then show ?thesis by (simp add: applyPreset_def)
next
  case (Some p)
  have id: "cb_id p = i" using Some byId_Some by blast
  define pg1 where "pg1 = snd (applyPreset fits i skip pg)"
  have a: "applyPreset fits i skip pg = (True, pg1)" using Some by (simp add: pg1_def applyPreset_def Let_def)
  have r1: "obj_get (pg_root pg1) v = (if v \<in> set cleared_vars then obj_get (preset_writes p) v else obj_get (pg_root pg) v)" for v
    unfolding pg1_def apply_root [OF Some] using writes_dom [OF Some, of v] by (cases "obj_get (preset_writes p) v") auto
  have r2: "obj_get (pg_root (clearPreset pg1)) v = (if v \<in> set cleared_vars then None else obj_get (pg_root pg) v)" for v
    by (simp add: clearPreset_def foldl_del r1)
  have c: "pg_cb pg1 = Some i" "pg_body pg1 = pg_body pg" using Some id by (simp_all add: pg1_def applyPreset_def Let_def)
  have n: "pg_cb (clearPreset pg1) = None" "currentPreset (pg_ls (clearPreset pg1)) = None"
    by (simp_all add: clearPreset_def currentPreset_def obj_get_del)
  have f: "pg_cb (initFromStorage fits fresh) = Some i \<and>
      list_all (\<lambda>v. obj_get (pg_root (initFromStorage fits fresh)) v = obj_get (pg_root pg1) v) cleared_vars"
    if s: "\<not> skip" "fits (obj_set (pg_ls pg) CB_KEY i)" "pg_ls fresh = pg_ls pg1"
  proof -
    have "pg_ls pg1 = save_preset (Some i) (pg_ls pg)" using s Some id by (simp add: pg1_def applyPreset_def Let_def save_preset_def)
    then have "currentPreset (pg_ls fresh) = Some i" using s(3) stored_preset.load_save [of "Some i"] Some by simp
    then have i: "initFromStorage fits fresh = snd (applyPreset fits i True fresh)" by (simp add: initFromStorage_def)
    have "pg_cb (initFromStorage fits fresh) = Some i" unfolding i using Some id by (simp add: applyPreset_def Let_def)
    moreover have "obj_get (pg_root (initFromStorage fits fresh)) v = obj_get (pg_root pg1) v" if "v \<in> set cleared_vars" for v
      unfolding i apply_root [OF Some] r1 using that writes_dom [OF Some, of v] by (cases "obj_get (preset_writes p) v") auto
    ultimately show ?thesis by (simp add: list_all_iff)
  qed
  show ?thesis unfolding a Some using r1 r2 c n f by (simp only: Let_def prod.case option.case) blast
qed

theorem preset_apply_clear_witness:
  "pg_cb (initFromStorage (\<lambda>_. True) \<lparr>pg_ls = [(CB_KEY, ''deut'')], pg_cb = None, pg_root = [], pg_body = []\<rparr>) = Some ''deut''"
proof -
  let ?pg = "\<lparr>pg_ls = [], pg_cb = None, pg_root = [], pg_body = []\<rparr>"
  have b: "byId ''deut'' = Some cb_deut" unfolding byId_Some by (simp add: CB_PRESETS_def cb_deut_def)
  have "cb_id cb_deut = ''deut''" by (simp add: cb_deut_def)
  then obtain pg1 where a: "applyPreset (\<lambda>_. True) ''deut'' False ?pg = (True, pg1)" "pg_ls pg1 = [(CB_KEY, ''deut'')]"
    by (simp add: applyPreset_def b Let_def)
  show ?thesis
    using preset_apply_clear [of "\<lambda>_. True" "''deut''" False ?pg "\<lparr>pg_ls = [(CB_KEY, ''deut'')], pg_cb = None, pg_root = [], pg_body = []\<rparr>"]
    by (simp only: a(1) b Let_def prod.case option.case) (simp add: a(2))
qed

end
