(* ===== verification/Role_Colors.thy ===== *)
theory Role_Colors
  imports Cb_Presets
begin

text \<open>
  The live role colours of \<^verbatim>\<open>src/public/roles.js\<close>: reading a colour through the custom properties of the root element, and
  the overrides that a user picks, which remember the property values from before.  \<open>sheet\<close> gives what the style
  sheets set on the root element (empty when nothing).
\<close>

section \<open>Reading\<close>

definition WONG_ROLE_DEFAULTS :: "string obj" where
  "WONG_ROLE_DEFAULTS = [(''repeater'', ''#D55E00''), (''companion'', ''#56B4E9''), (''room'', ''#009E73''), (''sensor'', ''#F0E442''),
     (''observer'', ''#CC79A7''), (''unknown'', ''#6b7280'')]"

definition readCssVar :: "(string \<Rightarrow> string) \<Rightarrow> string obj \<Rightarrow> string \<Rightarrow> string \<Rightarrow> string" where
  "readCssVar sheet inline name fallback =
     (let v = trim (case obj_get inline name of Some t \<Rightarrow> t | None \<Rightarrow> sheet name) in if v = [] then fallback else v)"

record role_state =
  ro_over :: "string obj"
  ro_snap :: "(string \<times> string) obj"

definition or_str :: "string option \<Rightarrow> string \<Rightarrow> string" where
  "or_str a b = (case a of Some t \<Rightarrow> if t \<noteq> [] then t else b | None \<Rightarrow> b)"

definition role_default :: "string \<Rightarrow> string" where
  "role_default k = or_str (obj_get WONG_ROLE_DEFAULTS k) []"

definition liveRoleColors :: "(string \<Rightarrow> string) \<Rightarrow> role_state \<Rightarrow> page \<Rightarrow> string obj" where
  "liveRoleColors sheet ro pg =
     map (\<lambda>k. (k, or_str (obj_get (ro_over ro) k) (readCssVar sheet (pg_root pg) (role_var k) (role_default k)))) CB_ROLES @
     [(''unknown'', or_str (obj_get (ro_over ro) ''unknown'') (role_default ''unknown''))]"

section \<open>Overrides\<close>

definition style_text :: "string obj \<Rightarrow> string \<Rightarrow> string" where
  "style_text st name = trim (case obj_get st name of Some t \<Rightarrow> t | None \<Rightarrow> [])"

text \<open>No colour, or the empty one, clears the override and puts the values from before its first pick back.
  The priority \<^verbatim>\<open>important\<close> of the body's property is left out, as no other rule of the model competes with it.\<close>

definition setRoleColorOverride :: "string \<Rightarrow> string option \<Rightarrow> role_state \<times> page \<Rightarrow> role_state \<times> page" where
  "setRoleColorOverride role hex st =
     (case st of (ro, pg) \<Rightarrow>
       (let name = role_var role in
        if role = [] then (ro, pg)
        else if or_str hex [] = [] then
          (case obj_get (ro_snap ro) role of
             Some (a, b) \<Rightarrow>
               (ro\<lparr>ro_over := obj_del (ro_over ro) role, ro_snap := obj_del (ro_snap ro) role\<rparr>,
                pg\<lparr>pg_root := css_put (pg_root pg) name a, pg_body := css_put (pg_body pg) name b\<rparr>)
           | None \<Rightarrow>
               (ro\<lparr>ro_over := obj_del (ro_over ro) role\<rparr>,
                pg\<lparr>pg_root := obj_del (pg_root pg) name, pg_body := obj_del (pg_body pg) name\<rparr>))
        else
          (let h = or_str hex [];
               snap = (if obj_get (ro_snap ro) role = None
                       then obj_set (ro_snap ro) role (style_text (pg_root pg) name, style_text (pg_body pg) name) else ro_snap ro)
           in (ro\<lparr>ro_over := obj_set (ro_over ro) role h, ro_snap := snap\<rparr>,
               pg\<lparr>pg_root := css_put (pg_root pg) name h, pg_body := css_put (pg_body pg) name h\<rparr>))))"

section \<open>Properties\<close>

text \<open>The picks of a user on one role.\<close>

definition picks :: "string \<Rightarrow> string list \<Rightarrow> role_state \<times> page \<Rightarrow> role_state \<times> page" where
  "picks role hs st = foldl (\<lambda>s h. setRoleColorOverride role (Some h) s) st hs"

definition trimmed :: "string obj \<Rightarrow> string \<Rightarrow> bool" where
  "trimmed st name = (case obj_get st name of Some t \<Rightarrow> t \<noteq> [] \<and> trim t = t | None \<Rightarrow> True)"

lemma css_put_get: "obj_get (css_put st n t) m = (if m = n then (if t = [] then None else Some t) else obj_get st m)"
  by (simp add: css_put_def obj_get_set obj_get_del)

lemma trim_Nil [simp]: "trim [] = []" by (simp add: trim_def)

lemma style_text_restores: "trimmed st n \<Longrightarrow> obj_get (css_put st' n (style_text st n)) n = obj_get st n"
  by (auto simp: css_put_get style_text_def trimmed_def split: option.splits)

lemma role_var_inj [simp]: "role_var a = role_var b \<longleftrightarrow> a = b" by (simp add: role_var_def)

text \<open>What holds after at least one pick.\<close>

definition picked :: "string \<Rightarrow> role_state \<Rightarrow> page \<Rightarrow> role_state \<times> page \<Rightarrow> bool" where
  "picked role ro pg st =
     (case st of (ro', pg') \<Rightarrow>
        obj_get (ro_snap ro') role = Some (style_text (pg_root pg) (role_var role), style_text (pg_body pg) (role_var role)) \<and>
        (\<forall>k. k \<noteq> role \<longrightarrow> obj_get (ro_over ro') k = obj_get (ro_over ro) k) \<and>
        (\<forall>n. n \<noteq> role_var role \<longrightarrow> obj_get (pg_root pg') n = obj_get (pg_root pg) n \<and> obj_get (pg_body pg') n = obj_get (pg_body pg) n))"

lemma pick_picked:
  assumes "role \<noteq> []" "h \<noteq> []" "picked role ro pg st"
  shows "picked role ro pg (setRoleColorOverride role (Some h) st)"
  using assms by (cases st) (simp add: picked_def setRoleColorOverride_def or_str_def Let_def obj_get_set css_put_get)

lemma first_picked:
  assumes "role \<noteq> []" "h \<noteq> []" "obj_get (ro_snap ro) role = None"
  shows "picked role ro pg (setRoleColorOverride role (Some h) (ro, pg))"
  using assms by (simp add: picked_def setRoleColorOverride_def or_str_def Let_def obj_get_set css_put_get)

lemma picks_picked:
  assumes "role \<noteq> []" "\<forall>h\<in>set hs. h \<noteq> []" "picked role ro pg st"
  shows "picked role ro pg (picks role hs st)"
  using assms unfolding picks_def by (induction hs arbitrary: st) (simp_all add: pick_picked)

text \<open>
  C32: Clearing a role colour undoes every pick.  After any number of colours picked for a role, clearing the override
  gives the role's custom property on the root element and on the body the values from before the first pick,
  touches no other property, keeps the overrides of the other roles and forgets the values it had remembered;
  while a colour is picked, the live colour is the last one picked.
\<close>

theorem picks_undone:
  assumes "role \<noteq> []" "h \<noteq> []" "\<forall>x\<in>set hs. x \<noteq> []" "obj_get (ro_snap ro) role = None"
    and "trimmed (pg_root pg) (role_var role)" "trimmed (pg_body pg) (role_var role)"
  shows "let (ro1, pg1) = picks role (hs @ [h]) (ro, pg); (ro2, pg2) = setRoleColorOverride role None (ro1, pg1) in
     (role \<in> set CB_ROLES \<longrightarrow> obj_get (liveRoleColors sheet ro1 pg1) role = Some h) \<and>
     (\<forall>n. obj_get (pg_root pg2) n = obj_get (pg_root pg) n \<and> obj_get (pg_body pg2) n = obj_get (pg_body pg) n) \<and>
     (\<forall>k. obj_get (ro_over ro2) k = (if k = role then None else obj_get (ro_over ro) k)) \<and>
     obj_get (ro_snap ro2) role = None"
proof -
  obtain ro0 pg0 where st0: "picks role hs (ro, pg) = (ro0, pg0)" by (cases "picks role hs (ro, pg)")
  obtain ro1 pg1 where st1: "setRoleColorOverride role (Some h) (ro0, pg0) = (ro1, pg1)"
    by (cases "setRoleColorOverride role (Some h) (ro0, pg0)")
  have p1: "picks role (hs @ [h]) (ro, pg) = (ro1, pg1)" using st0 st1 by (simp add: picks_def)
  have pk: "picked role ro pg (ro1, pg1)"
  proof (cases hs)
    case Nil
    with st0 st1 first_picked [OF assms(1,2,4), of pg] show ?thesis by (simp add: picks_def)
  next
    case (Cons x xs)
    then have "picked role ro pg (picks role hs (ro, pg))"
      using picks_picked [OF assms(1) _ first_picked [OF assms(1) _ assms(4), of x pg], of xs] assms(3) by (simp add: picks_def)
    from pick_picked [OF assms(1,2) this] st0 st1 show ?thesis by simp
  qed
  have over: "obj_get (ro_over ro1) role = Some h" using st1 assms(1,2)
    by (auto simp: setRoleColorOverride_def or_str_def Let_def obj_get_set)
  have live: "obj_get (liveRoleColors sheet ro1 pg1) role = Some h" if "role \<in> set CB_ROLES"
  proof -
    have m: "map_of (map (\<lambda>k. (k, f k)) ks) role = Some (f role)" if "role \<in> set ks" for f :: "string \<Rightarrow> string" and ks
      using that by (induction ks) auto
    show ?thesis by (simp add: liveRoleColors_def map_add_def m [OF that] or_str_def over assms(2))
  qed
  obtain ro2 pg2 where st2: "setRoleColorOverride role None (ro1, pg1) = (ro2, pg2)" by (cases "setRoleColorOverride role None (ro1, pg1)")
  then have e: "ro_over ro2 = obj_del (ro_over ro1) role" "ro_snap ro2 = obj_del (ro_snap ro1) role"
    "pg_root pg2 = css_put (pg_root pg1) (role_var role) (style_text (pg_root pg) (role_var role))"
    "pg_body pg2 = css_put (pg_body pg1) (role_var role) (style_text (pg_body pg) (role_var role))"
    using pk assms(1) by (auto simp: setRoleColorOverride_def or_str_def picked_def Let_def)
  have r: "obj_get (pg_root pg2) n = obj_get (pg_root pg) n" "obj_get (pg_body pg2) n = obj_get (pg_body pg) n" for n
    using pk style_text_restores [OF assms(5), of "pg_root pg1"] style_text_restores [OF assms(6), of "pg_body pg1"]
    by (cases "n = role_var role"; simp add: e picked_def css_put_get)+
  show ?thesis unfolding p1 Let_def prod.case st2
    using live r pk by (simp add: e obj_get_del picked_def)
qed


theorem picks_undone_witness:
  "obj_get (pg_root (snd (setRoleColorOverride ''room'' None
     (picks ''room'' [''#111111'', ''#222222''] (\<lparr>ro_over = [], ro_snap = []\<rparr>,
        \<lparr>pg_ls = [], pg_cb = None, pg_root = [(role_var ''room'', ''#333333'')], pg_body = []\<rparr>))))) (role_var ''room'') = Some ''#333333''"
proof -
  have "trim ''#333333'' = ''#333333''" by code_simp
  then have "trimmed [(role_var ''room'', ''#333333'')] (role_var ''room'')" by (simp add: trimmed_def)
  from picks_undone [of "''room''" "''#222222''" "[''#111111'']" "\<lparr>ro_over = [], ro_snap = []\<rparr>"
    "\<lparr>pg_ls = [], pg_cb = None, pg_root = [(role_var ''room'', ''#333333'')], pg_body = []\<rparr>"] this
  show ?thesis by (simp add: trimmed_def Let_def case_prod_beta)
qed

end
