(* ===== verification/Js_Number.thy ===== *)
theory Js_Number
  imports Js_Json
begin

text \<open>
  \<^verbatim>\<open>Number(v)\<close> and \<^verbatim>\<open>isFinite(v)\<close>: a text is a number only as a whole, so trailing characters make it \<^verbatim>\<open>NaN\<close>, where
  \<^verbatim>\<open>parseFloat\<close> would read the leading part.
\<close>

definition decimal_shape :: "string \<Rightarrow> bool" where
  "decimal_shape r =
     (let ip = takeWhile is_digit r; q = dropWhile is_digit r in
      case q of
        [] \<Rightarrow> ip \<noteq> []
      | c # f \<Rightarrow>
          if c = CHR ''.'' then (ip \<noteq> [] \<or> takeWhile is_digit f \<noteq> []) \<and> json_exp_part (dropWhile is_digit f)
          else ip \<noteq> [] \<and> json_exp_part q)"

text \<open>The digits after \<^verbatim>\<open>0x\<close>, \<^verbatim>\<open>0o\<close> or \<^verbatim>\<open>0b\<close>.\<close>

definition radix_value :: "nat \<Rightarrow> string \<Rightarrow> jsnum" where
  "radix_value b s =
     (if s \<noteq> [] \<and> list_all (\<lambda>c. is_hex c \<and> hex_val c < b) s
      then Fin (of_nat (foldl (\<lambda>n c. b * n + hex_val c) 0 s)) else NaN)"

definition number_of_string :: "string \<Rightarrow> jsnum" where
  "number_of_string s =
     (let t = trim s; p = toLowerCase (take 2 t) in
      if t = [] then Fin 0
      else if p = ''0x'' then radix_value 16 (drop 2 t)
      else if p = ''0o'' then radix_value 8 (drop 2 t)
      else if p = ''0b'' then radix_value 2 (drop 2 t)
      else let (neg, r) = parse_sign t in
           if r = ''Infinity'' then (if neg then NInf else PInf)
           else if decimal_shape r then parseFloat t
           else NaN)"

fun js_Number :: "jsval \<Rightarrow> jsnum" where
  "js_Number JUndef = NaN"
| "js_Number JNull = Fin 0"
| "js_Number (JBool b) = Fin (if b then 1 else 0)"
| "js_Number (JNum n) = n"
| "js_Number (JStr s) = number_of_string s"
| "js_Number (JArr vs) = number_of_string (js_String (JArr vs))"
| "js_Number (JObj _) = NaN"
| "js_Number (JFun _) = NaN"

definition js_isFinite :: "jsval \<Rightarrow> bool" where
  "js_isFinite v = (case js_Number v of Fin _ \<Rightarrow> True | _ \<Rightarrow> False)"

end
