(* ===== verification/Customizer_Css.thy ===== *)
theory Customizer_Css
  imports Customizer Role_Colors Js_Number
begin

text \<open>
  What the theme customizer does to the page: \<^verbatim>\<open>applyCSS\<close>, the early application while the script loads, the full reset
  and the start of a page, in \<^verbatim>\<open>src/public/customize-v2.js\<close>, together with the colour-blind presets, whose
  change event runs the pipeline again.  The elements of the page that are written (logo, navigation bar, icon) are taken to exist.
\<close>

section \<open>The page\<close>

datatype logo = Svg_Logo (logo_label: string) | Img_Logo (logo_src: string) (logo_alt: string)

record look =
  lk_page :: page
  lk_types :: "jsval obj"
  lk_nav :: string
  lk_title :: string
  lk_text :: string
  lk_logo :: logo
  lk_label :: string
  lk_link :: string
  lk_icon :: string
  lk_favicon :: string

text \<open>\<^verbatim>\<open>style.setProperty(name, v)\<close> for any value: \<^verbatim>\<open>null\<close> is the empty text.\<close>

definition css_set :: "string obj \<Rightarrow> string \<Rightarrow> jsval \<Rightarrow> string obj" where
  "css_set st name v = css_put st name (if v = JNull then [] else js_String v)"

definition css_if :: "string \<Rightarrow> jsval \<Rightarrow> string obj \<Rightarrow> string obj" where
  "css_if name v st = (if truthy v then css_set st name v else st)"

definition js_assign :: "jsval \<Rightarrow> jsval \<Rightarrow> jsval" where
  "js_assign a b = JObj (foldl (\<lambda>s (k, v). set_param s k v) [] (obj_entries a @ obj_entries b))"

section \<open>Applying a configuration\<close>

definition node_var :: "string \<Rightarrow> string" where "node_var role = ''--node-'' @ role"
definition type_var :: "string \<Rightarrow> string" where "type_var t = ''--type-'' @ t"

definition themed :: "bool \<Rightarrow> jsval obj \<Rightarrow> jsval" where
  "themed dark cfg =
     (if dark then js_assign (section_or_empty cfg ''theme'') (section_or_empty cfg ''themeDark'') else section_or_empty cfg ''theme'')"

definition css_theme :: "jsval \<Rightarrow> jsval \<Rightarrow> string obj \<Rightarrow> string obj" where
  "css_theme ts ov rs =
     (let r1 = foldl (\<lambda>r (k, name). css_if name (js_prop ts k) r) rs THEME_CSS_MAP;
          r2 = css_if ''--logo-accent'' (js_prop ov ''accent'') r1;
          r3 = css_if ''--logo-accent-hi'' (js_prop ov ''accentHover'') r2;
          r4 = (if truthy (js_prop ts ''background'')
                then css_set r3 ''--content-bg'' (js_or (js_prop ts ''contentBg'') (js_prop ts ''background'')) else r3)
      in if truthy (js_prop ts ''surface1'')
         then css_set r4 ''--card-bg'' (js_or (js_prop ts ''cardBg'') (js_or (js_prop ts ''surface2'') (js_prop ts ''surface1'')))
         else r4)"

definition preset_active :: "page \<Rightarrow> bool" where
  "preset_active pg = (case pg_cb pg of Some a \<Rightarrow> a \<noteq> [] \<and> a \<noteq> ''none'' | None \<Rightarrow> False)"

definition css_role :: "bool \<Rightarrow> jsval obj \<Rightarrow> page \<Rightarrow> string \<times> jsval \<Rightarrow> page" where
  "css_role active userNc pg kv =
     (case kv of (role, v) \<Rightarrow>
        (let rs = css_set (pg_root pg) (node_var role) v in
         if obj_get userNc role \<noteq> None then
           pg\<lparr>pg_root := css_set rs (role_var role) v,
              pg_body := (if active then css_set (pg_body pg) (role_var role) v else pg_body pg)\<rparr>
         else if \<not> active then pg\<lparr>pg_root := css_set rs (role_var role) v\<rparr>
         else pg\<lparr>pg_root := obj_del rs (role_var role), pg_body := obj_del (pg_body pg) (role_var role)\<rparr>))"

definition css_nodes :: "jsval obj \<Rightarrow> jsval obj \<Rightarrow> page \<Rightarrow> page" where
  "css_nodes eff ov pg =
     (let nc = oprop eff ''nodeColors'' in
      if truthy nc then foldl (css_role (preset_active pg) (obj_entries (section_or_empty ov ''nodeColors''))) pg (obj_entries nc) else pg)"

definition canon_type :: "string \<Rightarrow> string" where
  "canon_type t = (if t = ''REQUEST'' then ''REQ'' else t)"

definition set_type :: "jsval obj \<Rightarrow> string \<Rightarrow> jsval \<Rightarrow> jsval obj" where
  "set_type types canon v = (if obj_get types canon \<noteq> None \<or> canon \<in> set object_proto then set_param types canon v else types)"

definition css_type :: "string obj \<times> jsval obj \<Rightarrow> string \<times> jsval \<Rightarrow> string obj \<times> jsval obj" where
  "css_type st kv =
     (case kv of (t, v) \<Rightarrow>
        (css_set (fst st) (type_var (toLowerCase (canon_type t))) v, set_type (snd st) (canon_type t) v))"

definition css_types :: "jsval obj \<Rightarrow> string obj \<times> jsval obj \<Rightarrow> string obj \<times> jsval obj" where
  "css_types eff st = (let tc = oprop eff ''typeColors'' in if truthy tc then foldl css_type st (obj_entries tc) else st)"

text \<open>A write to the storage that is not guarded; \<open>None\<close> is the exception of a full storage.\<close>

definition store :: "(string obj \<Rightarrow> bool) \<Rightarrow> string \<Rightarrow> string \<Rightarrow> string obj \<Rightarrow> string obj option" where
  "store fits k t ls = (if fits (obj_set ls k t) then Some (obj_set ls k t) else None)"

definition store_number :: "(string obj \<Rightarrow> bool) \<Rightarrow> jsval obj \<Rightarrow> string \<Rightarrow> string \<Rightarrow> string obj \<Rightarrow> string obj option" where
  "store_number fits eff name k ls = (if is_num (oprop eff name) then store fits k (js_String (oprop eff name)) ls else Some ls)"

definition css_stroke :: "jsval obj \<Rightarrow> string obj \<Rightarrow> string obj" where
  "css_stroke eff rs =
     (let ms = oprop eff ''markerStroke'' in
      if truthy ms \<and> is_object ms then
        (let c = js_prop ms ''color''; w = js_prop ms ''width''; op = js_prop ms ''opacity'';
             r1 = (if is_str c \<and> truthy c then css_set rs ''--mc-marker-stroke-color'' c else rs);
             r2 = (if \<not> nullish w \<and> js_isFinite w then css_set r1 ''--mc-marker-stroke-width'' (JStr (js_String w)) else r1)
         in if \<not> nullish op \<and> js_isFinite op then css_set r2 ''--mc-marker-stroke-opacity'' (JStr (js_String op)) else r2)
      else rs)"

definition store_unit :: "(string obj \<Rightarrow> bool) \<Rightarrow> jsval obj \<Rightarrow> string obj \<Rightarrow> string obj option" where
  "store_unit fits eff ls =
     (case oprop eff ''distanceUnit'' of
        JStr u \<Rightarrow> if u \<in> set DISTANCE_UNIT_VALUES then store fits ''meshcore-distance-unit'' u ls else Some ls
      | _ \<Rightarrow> Some ls)"

definition nav_gradient :: "jsval \<Rightarrow> string" where
  "nav_gradient ts =
     (let b = js_String (js_prop ts ''navBg'') in
      ''linear-gradient(135deg, '' @ b @ '' 0%, '' @ js_String (js_or (js_prop ts ''navBg2'') (js_prop ts ''navBg'')) @ '' 50%, '' @ b @ '' 100%)'')"

definition setBrandAlt :: "string \<Rightarrow> look \<Rightarrow> look" where
  "setBrandAlt alt lk =
     lk\<lparr>lk_logo := (case lk_logo lk of Img_Logo s _ \<Rightarrow> Img_Logo s alt | Svg_Logo _ \<Rightarrow> Svg_Logo alt), lk_label := alt @ '' home''\<rparr>"

text \<open>The arguments are the link (empty for none) and the text, if there is one.\<close>

definition setBrandLogoUrl :: "string \<Rightarrow> string option \<Rightarrow> logo \<Rightarrow> logo" where
  "setBrandLogoUrl url alt node =
     (if url \<noteq> [] then
        (case node of
           Img_Logo s a \<Rightarrow> Img_Logo url (case alt of Some t \<Rightarrow> t | None \<Rightarrow> a)
         | Svg_Logo l \<Rightarrow> Img_Logo url (case alt of Some t \<Rightarrow> if t \<noteq> [] then t else if l \<noteq> [] then l else ''Brand''
                                             | None \<Rightarrow> if l \<noteq> [] then l else ''Brand''))
      else
        (case node of
           Svg_Logo l \<Rightarrow> Svg_Logo (case alt of Some t \<Rightarrow> t | None \<Rightarrow> l)
         | Img_Logo s a \<Rightarrow> Img_Logo ''img/corescope-logo.svg'' (case alt of Some t \<Rightarrow> t | None \<Rightarrow> a)))"

definition icon_html :: "string \<Rightarrow> string" where
  "icon_html url = ''<img src='' @ quote_str url @ '' style='' @ quote_str ''height:24px'' @ '' onerror='' @
     quote_str (''this.style.display='' @ [CHR 0x27] @ ''none'' @ [CHR 0x27]) @ ''>''"

definition brand :: "jsval obj \<Rightarrow> look \<Rightarrow> look" where
  "brand cfg lk =
     (let br = oprop cfg ''branding''; nm = js_prop br ''siteName''; url = js_prop br ''logoUrl''; fav = js_prop br ''faviconUrl'';
          lk1 = (if truthy nm then (setBrandAlt (js_String nm) lk)\<lparr>lk_title := js_String nm, lk_text := js_String nm\<rparr> else lk);
          lk2 = (if truthy url then
                   lk1\<lparr>lk_logo := setBrandLogoUrl (js_String url) (if truthy nm then Some (js_String nm) else None) (lk_logo lk1),
                       lk_icon := icon_html (js_String url)\<rparr>
                 else lk1)
      in if truthy fav then lk2\<lparr>lk_favicon := js_String fav\<rparr> else lk2)"

definition map_root :: "(string obj \<Rightarrow> string obj) \<Rightarrow> look \<Rightarrow> look" where
  "map_root f lk = lk\<lparr>lk_page := (lk_page lk)\<lparr>pg_root := f (pg_root (lk_page lk))\<rparr>\<rparr>"

definition set_ls :: "string obj \<Rightarrow> look \<Rightarrow> look" where
  "set_ls ls lk = lk\<lparr>lk_page := (lk_page lk)\<lparr>pg_ls := ls\<rparr>\<rparr>"

definition look_ls :: "look \<Rightarrow> string obj" where "look_ls lk = pg_ls (lk_page lk)"

text \<open>
  The whole of \<^verbatim>\<open>applyCSS\<close>; the flag tells whether it ran to its end or was left by an exception of the
  storage.  The time stamp settings are copied to the configuration object they come from, which changes nothing.
\<close>

definition css_colors :: "bool \<Rightarrow> jsval obj \<Rightarrow> jsval obj \<Rightarrow> look \<Rightarrow> look" where
  "css_colors dark eff ov lk =
     (let lk1 = map_root (css_theme (themed dark eff) (themed dark ov)) lk;
          lk2 = lk1\<lparr>lk_page := css_nodes eff ov (lk_page lk1)\<rparr>;
          (rs, types) = css_types eff (pg_root (lk_page lk2), lk_types lk2)
      in (map_root (\<lambda>_. rs) lk2)\<lparr>lk_types := types\<rparr>)"

definition css_rest :: "bool \<Rightarrow> jsval obj \<Rightarrow> look \<Rightarrow> look" where
  "css_rest dark eff lk =
     (let ts = themed dark eff;
          lk1 = (if truthy (js_prop ts ''navBg'') then lk\<lparr>lk_nav := nav_gradient ts\<rparr> else lk)
      in if truthy (oprop eff ''branding'')
         then (brand eff lk1)\<lparr>lk_link := setBrandHomeUrl (js_prop (oprop eff ''branding'') ''homeUrl'')\<rparr> else lk1)"

definition applyCSS :: "(string obj \<Rightarrow> bool) \<Rightarrow> bool \<Rightarrow> jsval obj \<Rightarrow> jsval obj \<Rightarrow> look \<Rightarrow> look \<times> bool" where
  "applyCSS fits dark eff ov lk =
     (let lk1 = css_colors dark eff ov lk in
      case store_number fits eff ''heatmapOpacity'' ''meshcore-heatmap-opacity'' (look_ls lk1) of
        None \<Rightarrow> (lk1, False)
      | Some ls1 \<Rightarrow>
          (case store_number fits eff ''liveHeatmapOpacity'' ''meshcore-live-heatmap-opacity'' ls1 of
             None \<Rightarrow> (set_ls ls1 lk1, False)
           | Some ls2 \<Rightarrow>
               (let lk2 = map_root (css_stroke eff) (set_ls ls2 lk1) in
                case store_unit fits eff ls2 of
                  None \<Rightarrow> (lk2, False)
                | Some ls3 \<Rightarrow> (css_rest dark eff (set_ls ls3 lk2), True))))"

section \<open>The page as a whole\<close>

record site =
  s_cust :: customizer
  s_look :: look
  s_init :: bool

text \<open>\<open>fits\<close> is the quota, \<open>home0\<close> the built-in home page, \<open>dark\<close> the colour scheme of the page.\<close>

definition pipeline :: "(string obj \<Rightarrow> bool) \<Rightarrow> jsval \<Rightarrow> bool \<Rightarrow> site \<Rightarrow> site" where
  "pipeline fits home0 dark s =
     (let cu = runPipeline home0 (s_cust s);
          (lk, done) = applyCSS fits dark (c_site cu) (readOverrides (c_ls cu)) (set_ls (c_ls cu) (s_look s))
      in s\<lparr>s_cust := cu\<lparr>c_ls := look_ls lk\<rparr>, s_look := lk\<rparr>)"

text \<open>Whether the pipeline ran to its end; an exception of the storage leaves it early.\<close>

definition pipeline_done :: "(string obj \<Rightarrow> bool) \<Rightarrow> jsval \<Rightarrow> bool \<Rightarrow> site \<Rightarrow> bool" where
  "pipeline_done fits home0 dark s =
     (let cu = runPipeline home0 (s_cust s)
      in snd (applyCSS fits dark (c_site cu) (readOverrides (c_ls cu)) (set_ls (c_ls cu) (s_look s))))"

text \<open>The early application while the script loads: \<open>site0\<close> is \<^verbatim>\<open>window.SITE_CONFIG\<close> at that time.\<close>

definition early_apply :: "jsval \<Rightarrow> bool \<Rightarrow> jsval obj option \<Rightarrow> jsval obj \<Rightarrow> look \<Rightarrow> look" where
  "early_apply home0 dark site0 ov lk =
     (if length ov = 0 then lk
      else let eff = computeEffective home0 site0 ov;
               lk1 = map_root (css_theme (themed dark eff) (themed dark ov)) lk;
               nc = oprop ov ''nodeColors''; tc = oprop ov ''typeColors'';
               lk2 = (if truthy nc then map_root (\<lambda>r. foldl (\<lambda>r (role, v). css_set r (node_var role) v) r (obj_entries nc)) lk1 else lk1)
           in if truthy tc then lk2\<lparr>lk_types := foldl (\<lambda>t (k, v). set_type t (canon_type k) v) (lk_types lk2) (obj_entries tc)\<rparr> else lk2)"

definition early_brand :: "jsval obj \<Rightarrow> look \<Rightarrow> look" where
  "early_brand ov lk =
     (if truthy (oprop ov ''branding'') then
        (let lk1 = brand ov lk; url = js_prop (oprop ov ''branding'') ''homeUrl''
         in if truthy url then lk1\<lparr>lk_link := setBrandHomeUrl url\<rparr> else lk1)
      else lk)"

text \<open>Loading the script, then \<^verbatim>\<open>init\<close> with the server configuration.\<close>

definition load_script :: "(string obj \<Rightarrow> bool) \<Rightarrow> jsval \<Rightarrow> bool \<Rightarrow> site \<Rightarrow> site" where
  "load_script fits home0 dark s =
     (let (cu, _) = migrateOldKeys fits (s_cust s); ov = readOverrides (c_ls cu)
      in s\<lparr>s_cust := cu, s_look := early_brand ov (early_apply home0 dark None ov (set_ls (c_ls cu) (s_look s)))\<rparr>)"

definition init_site :: "(string obj \<Rightarrow> bool) \<Rightarrow> jsval \<Rightarrow> bool \<Rightarrow> jsval obj \<Rightarrow> site \<Rightarrow> site" where
  "init_site fits home0 dark server s =
     (let s1 = s\<lparr>s_cust := cleanPhantomOverrides fits ((s_cust s)\<lparr>c_server := Some server\<rparr>)\<rparr>
      in (pipeline fits home0 dark s1)\<lparr>s_init := s_init s \<or> pipeline_done fits home0 dark s1\<rparr>)"

text \<open>The listener of \<^verbatim>\<open>cb-preset-changed\<close>, and a preset chosen or cleared by the user.\<close>

definition cb_changed :: "(string obj \<Rightarrow> bool) \<Rightarrow> jsval \<Rightarrow> bool \<Rightarrow> site \<Rightarrow> site" where
  "cb_changed fits home0 dark s = (if s_init s then pipeline fits home0 dark s else s)"

definition with_page :: "(page \<Rightarrow> page) \<Rightarrow> site \<Rightarrow> site" where
  "with_page f s =
     (let pg = f ((lk_page (s_look s))\<lparr>pg_ls := c_ls (s_cust s)\<rparr>)
      in s\<lparr>s_look := (s_look s)\<lparr>lk_page := pg\<rparr>, s_cust := (s_cust s)\<lparr>c_ls := pg_ls pg\<rparr>\<rparr>)"

definition choose_cb :: "(string obj \<Rightarrow> bool) \<Rightarrow> jsval \<Rightarrow> bool \<Rightarrow> string \<Rightarrow> site \<Rightarrow> site" where
  "choose_cb fits home0 dark i s =
     (if byId i = None then s else cb_changed fits home0 dark (with_page (\<lambda>pg. snd (applyPreset fits i False pg)) s))"

definition clear_cb :: "(string obj \<Rightarrow> bool) \<Rightarrow> jsval \<Rightarrow> bool \<Rightarrow> site \<Rightarrow> site" where
  "clear_cb fits home0 dark s = cb_changed fits home0 dark (with_page clearPreset s)"

definition RESET_KEYS :: "string list" where
  "RESET_KEYS = [OVERRIDES_KEY, ''meshcore-cb-preset'', ''channels-show-encrypted'', ''meshcore-hide-1byte-hops'', ''mc-dark-tile-provider'']"

definition reset_root_vars :: "string list" where
  "reset_root_vars =
     concat (map (\<lambda>role. [role_var role, text_var role, node_var role]) CB_ROLES) @
     [''--mc-marker-stroke-color'', ''--mc-marker-stroke-width'', ''--mc-marker-stroke-opacity''] @
     map mb_var CB_MB @ map ramp_var [0..<5] @ [''--logo-accent'', ''--logo-accent-hi''] @ map snd THEME_CSS_MAP"

text \<open>
  \<^verbatim>\<open>_resetAll\<close>; the tile provider and the channel list, which it notifies at its end, keep no state here.
\<close>

definition resetAll :: "(string obj \<Rightarrow> bool) \<Rightarrow> jsval \<Rightarrow> bool \<Rightarrow> site \<Rightarrow> site" where
  "resetAll fits home0 dark s =
     (let s1 = s\<lparr>s_cust := (s_cust s)\<lparr>c_ls := foldl obj_del (c_ls (s_cust s)) RESET_KEYS\<rparr>\<rparr>;
          s2 = clear_cb fits home0 dark s1
      in with_page (\<lambda>pg. pg\<lparr>pg_body := foldl obj_del (pg_body pg) (concat (map (\<lambda>role. [role_var role, text_var role]) CB_ROLES)),
                            pg_root := foldl obj_del (pg_root pg) reset_root_vars\<rparr>) s2)"

definition reset_button :: "(string obj \<Rightarrow> bool) \<Rightarrow> jsval \<Rightarrow> bool \<Rightarrow> site \<Rightarrow> site" where
  "reset_button fits home0 dark s = pipeline fits home0 dark (resetAll fits home0 dark s)"

section \<open>Writes and what they leave alone\<close>

text \<open>What a style holds after \<^verbatim>\<open>setProperty\<close> with the value.\<close>

definition css_cell :: "jsval \<Rightarrow> string option" where
  "css_cell v = (let t = (if v = JNull then [] else js_String v) in if t = [] then None else Some t)"

lemma css_set_get: "obj_get (css_set st n v) m = (if m = n then css_cell v else obj_get st m)"
  by (simp add: css_set_def css_put_def css_cell_def obj_get_set obj_get_del Let_def)

lemma css_if_other: "m \<noteq> n \<Longrightarrow> obj_get (css_if n v st) m = obj_get st m"
  by (simp add: css_if_def css_set_get)

lemma role_names [simp]:
  "role_var r = role_var r' \<longleftrightarrow> r = r'" "node_var r = node_var r' \<longleftrightarrow> r = r'" "node_var r \<noteq> role_var r'" "role_var r' \<noteq> node_var r"
  "type_var t \<noteq> role_var r" "role_var r \<noteq> type_var t"
  by (simp_all add: role_var_def node_var_def type_var_def)

lemma css_role_other:
  "n \<noteq> role_var (fst kv) \<Longrightarrow> n \<noteq> node_var (fst kv) \<Longrightarrow> obj_get (pg_root (css_role act un pg kv)) n = obj_get (pg_root pg) n"
  "n \<noteq> role_var (fst kv) \<Longrightarrow> obj_get (pg_body (css_role act un pg kv)) n = obj_get (pg_body pg) n"
  "pg_ls (css_role act un pg kv) = pg_ls pg" "pg_cb (css_role act un pg kv) = pg_cb pg"
  by (auto simp: css_role_def Let_def css_set_get obj_get_del split: prod.split)

lemma css_role_own:
  "obj_get (pg_root (css_role act un pg (r, v))) (node_var r) = css_cell v"
  "obj_get (pg_root (css_role act un pg (r, v))) (role_var r) = (if obj_get un r \<noteq> None \<or> \<not> act then css_cell v else None)"
  "obj_get (pg_body (css_role act un pg (r, v))) (role_var r) =
     (if act then (if obj_get un r \<noteq> None then css_cell v else None) else obj_get (pg_body pg) (role_var r))"
  by (simp_all add: css_role_def Let_def css_set_get obj_get_del)

lemma css_roles_other:
  "(\<And>r. r \<in> fst ` set kvs \<Longrightarrow> n \<noteq> role_var r \<and> n \<noteq> node_var r) \<Longrightarrow>
     obj_get (pg_root (foldl (css_role act un) pg kvs)) n = obj_get (pg_root pg) n"
  "(\<And>r. r \<in> fst ` set kvs \<Longrightarrow> n \<noteq> role_var r) \<Longrightarrow>
     obj_get (pg_body (foldl (css_role act un) pg kvs)) n = obj_get (pg_body pg) n"
  "pg_ls (foldl (css_role act un) pg kvs) = pg_ls pg" "pg_cb (foldl (css_role act un) pg kvs) = pg_cb pg"
  by (induction kvs arbitrary: pg) (simp_all add: css_role_other)

lemma css_roles_own:
  assumes "distinct (map fst kvs)" "obj_get kvs r = Some v"
  shows "obj_get (pg_root (foldl (css_role act un) pg kvs)) (node_var r) = css_cell v"
    and "obj_get (pg_root (foldl (css_role act un) pg kvs)) (role_var r) = (if obj_get un r \<noteq> None \<or> \<not> act then css_cell v else None)"
    and "obj_get (pg_body (foldl (css_role act un) pg kvs)) (role_var r) =
      (if act then (if obj_get un r \<noteq> None then css_cell v else None) else obj_get (pg_body pg) (role_var r))"
proof -
  from assms(2) have "(r, v) \<in> set kvs" by (rule map_of_SomeD)
  then obtain as bs where s: "kvs = as @ (r, v) # bs" by (meson split_list)
  with assms(1) have a: "r \<notin> fst ` set as" "r \<notin> fst ` set bs" by auto
  let ?p = "foldl (css_role act un) pg as"
  have t: "obj_get (pg_root (foldl (css_role act un) q bs)) (node_var r) = obj_get (pg_root q) (node_var r)"
    "obj_get (pg_root (foldl (css_role act un) q bs)) (role_var r) = obj_get (pg_root q) (role_var r)"
    "obj_get (pg_body (foldl (css_role act un) q bs)) (role_var r) = obj_get (pg_body q) (role_var r)" for q
    by (intro css_roles_other; metis a(2) role_names)+
  have "obj_get (pg_body ?p) (role_var r) = obj_get (pg_body pg) (role_var r)"
    by (intro css_roles_other) (metis a(1) role_names)
  then show "obj_get (pg_root (foldl (css_role act un) pg kvs)) (node_var r) = css_cell v"
    "obj_get (pg_root (foldl (css_role act un) pg kvs)) (role_var r) = (if obj_get un r \<noteq> None \<or> \<not> act then css_cell v else None)"
    "obj_get (pg_body (foldl (css_role act un) pg kvs)) (role_var r) =
      (if act then (if obj_get un r \<noteq> None then css_cell v else None) else obj_get (pg_body pg) (role_var r))"
    by (simp_all add: s t css_role_own) (cases act; simp)
qed

lemma css_types_other:
  assumes "\<And>t. n \<noteq> type_var t"
  shows "obj_get (fst (css_types eff st)) n = obj_get (fst st) n"
proof -
  have "obj_get (fst (foldl css_type st kvs)) n = obj_get (fst st) n" for kvs
    by (induction kvs arbitrary: st) (simp_all add: css_type_def css_set_get assms split: prod.split)
  then show ?thesis by (simp add: css_types_def Let_def)
qed

lemma css_theme_other:
  assumes "n \<notin> set (map snd THEME_CSS_MAP)" "n \<noteq> ''--logo-accent''" "n \<noteq> ''--logo-accent-hi''"
  shows "obj_get (css_theme ts ov rs) n = obj_get rs n"
proof -
  have "n \<notin> snd ` set kvs \<Longrightarrow> obj_get (foldl (\<lambda>r (k, name). css_if name (js_prop ts k) r) rs kvs) n = obj_get rs n" for kvs rs
    by (induction kvs arbitrary: rs) (auto simp: css_if_other)
  moreover have "''--content-bg'' \<in> set (map snd THEME_CSS_MAP)" "''--card-bg'' \<in> set (map snd THEME_CSS_MAP)" by (simp_all add: THEME_CSS_MAP_def)
  then have "n \<noteq> ''--content-bg''" "n \<noteq> ''--card-bg''" using assms(1) by metis+
  ultimately show ?thesis using assms by (simp add: css_theme_def Let_def css_set_get css_if_other)
qed

lemma css_stroke_other:
  "n \<notin> {''--mc-marker-stroke-color'', ''--mc-marker-stroke-width'', ''--mc-marker-stroke-opacity''} \<Longrightarrow>
   obj_get (css_stroke eff rs) n = obj_get rs n"
  by (simp add: css_stroke_def Let_def css_set_get)


definition marker_vars :: "string list" where
  "marker_vars = [''--mc-marker-stroke-color'', ''--mc-marker-stroke-width'', ''--mc-marker-stroke-opacity'']"

lemma look_frame [simp]:
  "pg_body (lk_page (map_root f lk)) = pg_body (lk_page lk)" "pg_cb (lk_page (map_root f lk)) = pg_cb (lk_page lk)"
  "pg_root (lk_page (map_root f lk)) = f (pg_root (lk_page lk))" "pg_ls (lk_page (map_root f lk)) = pg_ls (lk_page lk)"
  "pg_root (lk_page (set_ls ls lk)) = pg_root (lk_page lk)" "pg_body (lk_page (set_ls ls lk)) = pg_body (lk_page lk)"
  "pg_cb (lk_page (set_ls ls lk)) = pg_cb (lk_page lk)" "look_ls (set_ls ls lk) = ls" "look_ls (map_root f lk) = look_ls lk"
  "lk_types (map_root f lk) = lk_types lk" "lk_types (set_ls ls lk) = lk_types lk"
  by (simp_all add: map_root_def set_ls_def look_ls_def)

lemma css_rest_frame [simp]:
  "lk_page (css_rest dark eff lk) = lk_page lk" "lk_types (css_rest dark eff lk) = lk_types lk"
  "look_ls (css_rest dark eff lk) = look_ls lk"
  by (simp_all add: css_rest_def brand_def setBrandAlt_def Let_def look_ls_def)

text \<open>After the colours only the properties of the marker stroke are written.\<close>

lemma applyCSS_root:
  "n \<notin> set marker_vars \<Longrightarrow>
   obj_get (pg_root (lk_page (fst (applyCSS fits dark eff ov lk)))) n = obj_get (pg_root (lk_page (css_colors dark eff ov lk))) n"
  "pg_body (lk_page (fst (applyCSS fits dark eff ov lk))) = pg_body (lk_page (css_colors dark eff ov lk))"
  "pg_cb (lk_page (fst (applyCSS fits dark eff ov lk))) = pg_cb (lk_page lk)"
  "lk_types (fst (applyCSS fits dark eff ov lk)) = lk_types (css_colors dark eff ov lk)"
proof -
  have c: "pg_cb (lk_page (css_colors dark eff ov lk)) = pg_cb (lk_page lk)"
    by (simp add: css_colors_def Let_def css_nodes_def css_roles_other split: prod.split)
  show "n \<notin> set marker_vars \<Longrightarrow>
     obj_get (pg_root (lk_page (fst (applyCSS fits dark eff ov lk)))) n = obj_get (pg_root (lk_page (css_colors dark eff ov lk))) n"
    by (simp add: applyCSS_def Let_def css_stroke_other marker_vars_def split: option.split)
  show "pg_body (lk_page (fst (applyCSS fits dark eff ov lk))) = pg_body (lk_page (css_colors dark eff ov lk))"
    "pg_cb (lk_page (fst (applyCSS fits dark eff ov lk))) = pg_cb (lk_page lk)"
    "lk_types (fst (applyCSS fits dark eff ov lk)) = lk_types (css_colors dark eff ov lk)"
    by (simp_all add: applyCSS_def Let_def c split: option.split)
qed

lemma lk_page_map_root: "lk_page (map_root f lk) = (lk_page lk)\<lparr>pg_root := f (pg_root (lk_page lk))\<rparr>"
  by (simp add: map_root_def)

lemma colors_role:
  "(\<And>t. n \<noteq> type_var t) \<Longrightarrow> obj_get (pg_root (lk_page (css_colors dark eff ov lk))) n =
     obj_get (pg_root (css_nodes eff ov ((lk_page lk)\<lparr>pg_root := css_theme (themed dark eff) (themed dark ov) (pg_root (lk_page lk))\<rparr>))) n"
  "pg_body (lk_page (css_colors dark eff ov lk)) =
     pg_body (css_nodes eff ov ((lk_page lk)\<lparr>pg_root := css_theme (themed dark eff) (themed dark ov) (pg_root (lk_page lk))\<rparr>))"
  by (simp_all add: css_colors_def Let_def lk_page_map_root case_prod_beta css_types_other)

lemma css_cb_eq: "pg_cb (lk_page lk) = pg_cb (lk_page lk') \<Longrightarrow> preset_active (lk_page lk) = preset_active (lk_page lk')"
  by (simp add: preset_active_def)

text \<open>The role colours after the whole of \<^verbatim>\<open>applyCSS\<close>.\<close>

lemma applyCSS_role:
  assumes "oprop eff ''nodeColors'' = JObj nc" "obj_wf nc" "obj_get nc r = Some v"
  shows "obj_get (pg_root (lk_page (fst (applyCSS fits dark eff ov lk)))) (node_var r) = css_cell v"
    and "obj_get (pg_root (lk_page (fst (applyCSS fits dark eff ov lk)))) (role_var r) =
      (if obj_get (obj_entries (section_or_empty ov ''nodeColors'')) r \<noteq> None \<or> \<not> preset_active (lk_page lk) then css_cell v else None)"
    and "obj_get (pg_body (lk_page (fst (applyCSS fits dark eff ov lk)))) (role_var r) =
      (if preset_active (lk_page lk)
       then (if obj_get (obj_entries (section_or_empty ov ''nodeColors'')) r \<noteq> None then css_cell v else None)
       else obj_get (pg_body (lk_page lk)) (role_var r))"
proof -
  let ?pg = "(lk_page lk)\<lparr>pg_root := css_theme (themed dark eff) (themed dark ov) (pg_root (lk_page lk))\<rparr>"
  have d: "distinct (map fst nc)" using assms(2) by (simp add: obj_wf_def)
  have n: "css_nodes eff ov ?pg = foldl (css_role (preset_active (lk_page lk)) (obj_entries (section_or_empty ov ''nodeColors''))) ?pg nc"
    by (simp add: css_nodes_def assms(1) preset_active_def)
  note own = css_roles_own [OF d assms(3), of "preset_active (lk_page lk)" "obj_entries (section_or_empty ov ''nodeColors'')" ?pg]
  have notin: "node_var r \<notin> set marker_vars" "role_var r \<notin> set marker_vars" "node_var r \<noteq> type_var t" "role_var r \<noteq> type_var t" for t
    by (simp_all add: node_var_def role_var_def marker_vars_def type_var_def)
  show "obj_get (pg_root (lk_page (fst (applyCSS fits dark eff ov lk)))) (node_var r) = css_cell v"
    "obj_get (pg_root (lk_page (fst (applyCSS fits dark eff ov lk)))) (role_var r) =
      (if obj_get (obj_entries (section_or_empty ov ''nodeColors'')) r \<noteq> None \<or> \<not> preset_active (lk_page lk) then css_cell v else None)"
    using own by (simp_all add: applyCSS_root notin colors_role n)
  show "obj_get (pg_body (lk_page (fst (applyCSS fits dark eff ov lk)))) (role_var r) =
      (if preset_active (lk_page lk)
       then (if obj_get (obj_entries (section_or_empty ov ''nodeColors'')) r \<noteq> None then css_cell v else None)
       else obj_get (pg_body (lk_page lk)) (role_var r))"
    using own by (simp add: applyCSS_root colors_role n)
qed

section \<open>Storage\<close>

lemma readOverrides_cong:
  assumes "\<forall>k\<in>{OVERRIDES_KEY, ''meshcore-favorites'', ''meshcore-my-nodes''}. obj_get ls k = obj_get ls' k"
  shows "readOverrides ls = readOverrides ls'"
proof -
  have "stored_list ls k = stored_list ls' k" if "k = ''meshcore-favorites'' \<or> k = ''meshcore-my-nodes''" for k
    using assms that by (intro stored_list_cong) auto
  then have w: "with_list ls ''meshcore-favorites'' = with_list ls' ''meshcore-favorites''"
    "with_list ls ''meshcore-my-nodes'' = with_list ls' ''meshcore-my-nodes''" by (simp_all add: with_list_def fun_eq_iff)
  have g: "obj_get ls OVERRIDES_KEY = obj_get ls' OVERRIDES_KEY" using assms by simp
  show ?thesis unfolding readOverrides_def w g ..
qed

definition css_keys :: "string list" where
  "css_keys = [''meshcore-heatmap-opacity'', ''meshcore-live-heatmap-opacity'', ''meshcore-distance-unit'']"

lemma css_colors_ls: "look_ls (css_colors dark eff ov lk) = look_ls lk"
  by (simp add: css_colors_def look_ls_def Let_def case_prod_beta css_nodes_def css_roles_other)

lemma store_other: "store fits k t ls = Some ls' \<Longrightarrow> n \<noteq> k \<Longrightarrow> obj_get ls' n = obj_get ls n"
  by (auto simp: store_def obj_get_set split: if_splits)

lemma store_number_other: "store_number fits eff name k ls = Some ls' \<Longrightarrow> n \<noteq> k \<Longrightarrow> obj_get ls' n = obj_get ls n"
  by (auto simp: store_number_def store_other split: if_splits)

lemma store_unit_other: "store_unit fits eff ls = Some ls' \<Longrightarrow> n \<noteq> ''meshcore-distance-unit'' \<Longrightarrow> obj_get ls' n = obj_get ls n"
  by (auto simp: store_unit_def store_other split: if_splits jsval.splits)

lemma applyCSS_storage:
  "look_ls (fst (applyCSS fits dark eff ov lk)) =
     (case store_number fits eff ''heatmapOpacity'' ''meshcore-heatmap-opacity'' (look_ls lk) of
        None \<Rightarrow> look_ls lk
      | Some ls1 \<Rightarrow>
          (case store_number fits eff ''liveHeatmapOpacity'' ''meshcore-live-heatmap-opacity'' ls1 of
             None \<Rightarrow> ls1
           | Some ls2 \<Rightarrow> (case store_unit fits eff ls2 of None \<Rightarrow> ls2 | Some ls3 \<Rightarrow> ls3)))"
  by (simp add: applyCSS_def Let_def css_colors_ls split: option.split)

lemma store_rest_other:
  "n \<noteq> ''meshcore-live-heatmap-opacity'' \<Longrightarrow> n \<noteq> ''meshcore-distance-unit'' \<Longrightarrow>
   obj_get (case store_number fits eff ''liveHeatmapOpacity'' ''meshcore-live-heatmap-opacity'' ls of
             None \<Rightarrow> ls | Some ls2 \<Rightarrow> (case store_unit fits eff ls2 of None \<Rightarrow> ls2 | Some ls3 \<Rightarrow> ls3)) n = obj_get ls n"
  by (cases "store_number fits eff ''liveHeatmapOpacity'' ''meshcore-live-heatmap-opacity'' ls")
    (auto simp: store_number_other store_unit_other split: option.split)

lemma applyCSS_ls:
  assumes "n \<notin> set css_keys"
  shows "obj_get (look_ls (fst (applyCSS fits dark eff ov lk))) n = obj_get (look_ls lk) n"
proof -
  have "n \<noteq> ''meshcore-heatmap-opacity''" "n \<noteq> ''meshcore-live-heatmap-opacity''" "n \<noteq> ''meshcore-distance-unit''"
    using assms by (simp_all add: css_keys_def)
  then show ?thesis unfolding applyCSS_storage
    by (cases "store_number fits eff ''heatmapOpacity'' ''meshcore-heatmap-opacity'' (look_ls lk)")
      (simp_all only: option.case store_rest_other store_number_other not_False_eq_True)
qed

lemma applyCSS_heat:
  "\<not> is_num (oprop eff ''heatmapOpacity'') \<Longrightarrow>
     obj_get (look_ls (fst (applyCSS fits dark eff ov lk))) ''meshcore-heatmap-opacity'' = obj_get (look_ls lk) ''meshcore-heatmap-opacity''"
  "is_num (oprop eff ''heatmapOpacity'') \<Longrightarrow> \<forall>ls. fits ls \<Longrightarrow>
     obj_get (look_ls (fst (applyCSS fits dark eff ov lk))) ''meshcore-heatmap-opacity'' = Some (js_String (oprop eff ''heatmapOpacity''))"
proof -
  note o = store_rest_other [of "''meshcore-heatmap-opacity''", simplified]
  have s: "store_number fits eff ''heatmapOpacity'' ''meshcore-heatmap-opacity'' (look_ls lk) =
      Some (if is_num (oprop eff ''heatmapOpacity'')
            then obj_set (look_ls lk) ''meshcore-heatmap-opacity'' (js_String (oprop eff ''heatmapOpacity'')) else look_ls lk)"
    if "is_num (oprop eff ''heatmapOpacity'') \<longrightarrow> (\<forall>ls. fits ls)"
    using that by (auto simp: store_number_def store_def)
  show "\<not> is_num (oprop eff ''heatmapOpacity'') \<Longrightarrow>
      obj_get (look_ls (fst (applyCSS fits dark eff ov lk))) ''meshcore-heatmap-opacity'' = obj_get (look_ls lk) ''meshcore-heatmap-opacity''"
    "is_num (oprop eff ''heatmapOpacity'') \<Longrightarrow> \<forall>ls. fits ls \<Longrightarrow>
      obj_get (look_ls (fst (applyCSS fits dark eff ov lk))) ''meshcore-heatmap-opacity'' = Some (js_String (oprop eff ''heatmapOpacity''))"
    unfolding applyCSS_storage using s by (simp_all add: o obj_get_set)
qed

section \<open>The pipeline\<close>

lemma css_keys_distinct: "OVERRIDES_KEY \<notin> set css_keys" "''meshcore-favorites'' \<notin> set css_keys" "''meshcore-my-nodes'' \<notin> set css_keys"
  "CB_KEY \<notin> set css_keys"
  by (simp_all add: css_keys_def OVERRIDES_KEY_def CB_KEY_def)

lemma pipeline_ls: "n \<notin> set css_keys \<Longrightarrow> obj_get (c_ls (s_cust (pipeline fits home0 dark s))) n = obj_get (c_ls (s_cust s)) n"
  by (simp add: pipeline_def Let_def case_prod_beta runPipeline_def applyCSS_ls)

lemma pipeline_overrides: "readOverrides (c_ls (s_cust (pipeline fits home0 dark s))) = readOverrides (c_ls (s_cust s))"
  by (rule readOverrides_cong) (simp add: pipeline_ls css_keys_distinct)

lemma pipeline_frame [simp]:
  "c_server (s_cust (pipeline fits home0 dark s)) = c_server (s_cust s)" "s_init (pipeline fits home0 dark s) = s_init s"
  "pg_cb (lk_page (s_look (pipeline fits home0 dark s))) = pg_cb (lk_page (s_look s))"
  by (simp_all add: pipeline_def Let_def case_prod_beta runPipeline_def applyCSS_root)

text \<open>A section without override comes from the server.\<close>

lemma effective_server:
  assumes "json_ok (JObj srv)" "json_ok home0" "proto_free ov" "obj_get ov k = None" "k \<noteq> ''home''"
  shows "oprop (computeEffective home0 (Some srv) ov) k = oprop srv k"
proof -
  have "json_ok (JObj (case Some srv of Some s \<Rightarrow> s | None \<Rightarrow> []))" using assms(1) by simp
  from computeEffective_merge [OF this assms(2), of ov] foldl_merge_get [OF assms(3)] assms(4)
  have "obj_get (computeEffective home0 (Some srv) ov) k = obj_get (server_base home0 srv) k" by simp
  then show ?thesis using server_base_get [OF assms(5), of home0 srv] by (intro oprop_cong) simp
qed

lemma with_page_simps [simp]:
  "c_ls (s_cust (with_page f s)) = pg_ls (f ((lk_page (s_look s))\<lparr>pg_ls := c_ls (s_cust s)\<rparr>))"
  "c_server (s_cust (with_page f s)) = c_server (s_cust s)" "s_init (with_page f s) = s_init s"
  "lk_page (s_look (with_page f s)) = f ((lk_page (s_look s))\<lparr>pg_ls := c_ls (s_cust s)\<rparr>)"
  by (simp_all add: with_page_def Let_def)

text \<open>
  C33: Role colours.  The pipeline writes the colour of every role of the effective configuration to the
  property of the node; the property of the role gets it when the user has picked it (then also on the body, above the rule
  of an active preset) or when no preset is active, and is cleared when a preset is active and the user has picked nothing.
\<close>

theorem role_color_cascade:
  assumes "oprop (c_site (s_cust (pipeline fits home0 dark s))) ''nodeColors'' = JObj nc" "obj_wf nc" "obj_get nc r = Some v"
  shows "let pg = lk_page (s_look (pipeline fits home0 dark s));
             picked = obj_get (obj_entries (section_or_empty (readOverrides (c_ls (s_cust s))) ''nodeColors'')) r \<noteq> None;
             active = preset_active (lk_page (s_look s)) in
     obj_get (pg_root pg) (node_var r) = css_cell v \<and>
     obj_get (pg_root pg) (role_var r) = (if picked \<or> \<not> active then css_cell v else None) \<and>
     obj_get (pg_body pg) (role_var r) =
       (if active then (if picked then css_cell v else None) else obj_get (pg_body (lk_page (s_look s))) (role_var r))"
proof -
  let ?cu = "runPipeline home0 (s_cust s)"
  have site: "c_site (s_cust (pipeline fits home0 dark s)) = c_site ?cu" and ls: "c_ls ?cu = c_ls (s_cust s)"
    and look: "s_look (pipeline fits home0 dark s) =
      fst (applyCSS fits dark (c_site ?cu) (readOverrides (c_ls (s_cust s))) (set_ls (c_ls (s_cust s)) (s_look s)))"
    by (simp_all add: pipeline_def Let_def case_prod_beta runPipeline_def)
  have act: "preset_active (lk_page (set_ls ls lk)) = preset_active (lk_page lk)" for ls lk by (rule css_cb_eq) simp
  from applyCSS_role [OF assms(1) [unfolded site] assms(2,3), of fits dark "readOverrides (c_ls (s_cust s))" "set_ls (c_ls (s_cust s)) (s_look s)"]
  show ?thesis unfolding Let_def look act by simp
qed

text \<open>
  The pipeline with a server that colours a role and a user who has picked no colour for it.
\<close>

lemma pipeline_role:
  assumes "c_server (s_cust s) = Some srv" "json_ok (JObj srv)" "json_ok home0" "proto_free (readOverrides (c_ls (s_cust s)))"
    and "obj_get (readOverrides (c_ls (s_cust s))) ''nodeColors'' = None" "obj_get srv ''nodeColors'' = Some (JObj nc)" "obj_get nc r = Some v"
  shows "obj_get (pg_root (lk_page (s_look (pipeline fits home0 dark s)))) (node_var r) = css_cell v"
    and "obj_get (pg_root (lk_page (s_look (pipeline fits home0 dark s)))) (role_var r) =
      (if preset_active (lk_page (s_look s)) then None else css_cell v)"
    and "obj_get (pg_body (lk_page (s_look (pipeline fits home0 dark s)))) (role_var r) =
      (if preset_active (lk_page (s_look s)) then None else obj_get (pg_body (lk_page (s_look s))) (role_var r))"
proof -
  let ?ov = "readOverrides (c_ls (s_cust s))" and ?cu = "runPipeline home0 (s_cust s)"
  have look: "s_look (pipeline fits home0 dark s) =
      fst (applyCSS fits dark (c_site ?cu) ?ov (set_ls (c_ls (s_cust s)) (s_look s)))"
    by (simp add: pipeline_def Let_def case_prod_beta runPipeline_def)
  have "oprop (c_site ?cu) ''nodeColors'' = JObj nc"
    using effective_server [OF assms(2-5)] assms(1,6) by (simp add: runPipeline_def) (simp add: oprop_def table_get_def)
  moreover have "(''nodeColors'', JObj nc) \<in> set srv" using assms(6) by (rule map_of_SomeD)
  with assms(2) have "obj_wf nc" by (auto simp: obj_wf_def)
  moreover have "''nodeColors'' \<notin> set object_proto" by (simp add: object_proto_def)
  with assms(5) have "oprop ?ov ''nodeColors'' = JUndef" by (simp add: oprop_def table_get_def)
  then have "obj_entries (section_or_empty ?ov ''nodeColors'') = []" by (simp add: section_or_empty_def js_or_def)
  moreover have "preset_active (lk_page (set_ls ls lk)) = preset_active (lk_page lk)" for ls lk by (rule css_cb_eq) simp
  ultimately show "obj_get (pg_root (lk_page (s_look (pipeline fits home0 dark s)))) (node_var r) = css_cell v"
    "obj_get (pg_root (lk_page (s_look (pipeline fits home0 dark s)))) (role_var r) =
      (if preset_active (lk_page (s_look s)) then None else css_cell v)"
    "obj_get (pg_body (lk_page (s_look (pipeline fits home0 dark s)))) (role_var r) =
      (if preset_active (lk_page (s_look s)) then None else obj_get (pg_body (lk_page (s_look s))) (role_var r))"
    unfolding look using applyCSS_role [of "c_site ?cu" nc r v, OF _ _ assms(7)] by simp_all
qed

lemma apply_cb_facts:
  assumes "byId i = Some p"
  shows "pg_cb (snd (applyPreset fits i skip pg)) = Some i" "pg_body (snd (applyPreset fits i skip pg)) = pg_body pg"
    and "k \<noteq> CB_KEY \<Longrightarrow> obj_get (pg_ls (snd (applyPreset fits i skip pg))) k = obj_get (pg_ls pg) k"
proof -
  have "cb_id p = i" using assms byId_Some by blast
  with assms show "pg_cb (snd (applyPreset fits i skip pg)) = Some i" "pg_body (snd (applyPreset fits i skip pg)) = pg_body pg"
    "k \<noteq> CB_KEY \<Longrightarrow> obj_get (pg_ls (snd (applyPreset fits i skip pg))) k = obj_get (pg_ls pg) k"
    by (simp_all add: applyPreset_def Let_def obj_get_set)
qed

lemma cb_overrides: "(\<And>k. k \<noteq> CB_KEY \<Longrightarrow> obj_get ls k = obj_get ls' k) \<Longrightarrow> readOverrides ls = readOverrides ls'"
  by (rule readOverrides_cong) (auto simp: CB_KEY_def OVERRIDES_KEY_def)

text \<open>
  C34: Presets and server colours.  On an initialised page whose server colours a role that the user has not coloured, choosing
  a colour-blind preset removes the role's own property from the root element again, so the live colour that the scripts
  read there is the one of the style sheet for the root and not the colour of the preset; clearing the preset
  gives the role the colour of the server.
\<close>

theorem cb_and_server_colors:
  assumes "s_init s" "c_server (s_cust s) = Some srv" "json_ok (JObj srv)" "json_ok home0"
    and "proto_free (readOverrides (c_ls (s_cust s)))" "obj_get (readOverrides (c_ls (s_cust s))) ''nodeColors'' = None"
    and "obj_get srv ''nodeColors'' = Some (JObj nc)" "obj_get nc r = Some v" "byId i = Some p"
  shows "let s1 = choose_cb fits home0 dark i s; s2 = clear_cb fits home0 dark s1 in
     pg_cb (lk_page (s_look s1)) = Some i \<and> obj_get (pg_root (lk_page (s_look s1))) (role_var r) = None \<and>
     readCssVar sheet (pg_root (lk_page (s_look s1))) (role_var r) d = (if trim (sheet (role_var r)) = [] then d else trim (sheet (role_var r))) \<and>
     pg_cb (lk_page (s_look s2)) = None \<and> obj_get (pg_root (lk_page (s_look s2))) (role_var r) = css_cell v"
proof -
  define t where "t = with_page (\<lambda>pg. snd (applyPreset fits i False pg)) s"
  define s1 where "s1 = choose_cb fits home0 dark i s"
  define u where "u = with_page clearPreset s1"
  have t: "s_init t" "c_server (s_cust t) = Some srv" "pg_cb (lk_page (s_look t)) = Some i"
    using assms(1,2) by (simp_all add: t_def apply_cb_facts [OF assms(9)])
  have ov: "readOverrides (c_ls (s_cust t)) = readOverrides (c_ls (s_cust s))"
    by (rule cb_overrides) (simp add: t_def apply_cb_facts [OF assms(9)])
  have s1: "s1 = pipeline fits home0 dark t" using t(1) assms(9) by (simp add: s1_def choose_cb_def cb_changed_def t_def)
  have "i \<in> set (map cb_id CB_PRESETS)" using assms(9) byId_Some by auto
  then have "i \<noteq> [] \<and> i \<noteq> ''none''" unfolding preset_ids by auto
  then have act: "preset_active (lk_page (s_look t))" unfolding preset_active_def t(3) by simp
  have r1: "obj_get (pg_root (lk_page (s_look s1))) (role_var r) = None"
    unfolding s1 using pipeline_role(2) [OF t(2) assms(3,4) _ _ assms(7,8)] assms(5,6) act by (simp only: ov if_True)
  have u: "s_init u" "c_server (s_cust u) = Some srv" "pg_cb (lk_page (s_look u)) = None"
    using t by (simp_all add: u_def s1 clearPreset_def)
  have "readOverrides (c_ls (s_cust u)) = readOverrides (c_ls (s_cust s1))"
    by (rule cb_overrides) (simp add: u_def clearPreset_def obj_get_del)
  then have ov2: "readOverrides (c_ls (s_cust u)) = readOverrides (c_ls (s_cust s))" using ov by (simp add: s1 pipeline_overrides)
  have s2: "clear_cb fits home0 dark s1 = pipeline fits home0 dark u" using u(1) by (simp add: clear_cb_def cb_changed_def u_def)
  have inact: "\<not> preset_active (lk_page (s_look u))" by (simp add: preset_active_def u(3))
  have r2: "obj_get (pg_root (lk_page (s_look (pipeline fits home0 dark u)))) (role_var r) = css_cell v"
    using pipeline_role(2) [OF u(2) assms(3,4) _ _ assms(7,8)] assms(5,6) inact by (simp only: ov2 if_False)
  have c1: "pg_cb (lk_page (s_look s1)) = Some i" using t(3) by (simp add: s1)
  have c2: "pg_cb (lk_page (s_look (pipeline fits home0 dark u))) = None" using u(3) by simp
  show ?thesis unfolding Let_def s1_def [symmetric] s2 using r1 r2 c1 c2 by (simp add: readCssVar_def Let_def)
qed

text \<open>A page with an empty storage and a server that colours one role.\<close>

definition sample_site :: site where
  "sample_site = \<lparr>s_cust = \<lparr>c_ls = [], c_server = Some [(''nodeColors'', JObj [(''room'', JStr ''#111111'')])], c_site = [],
       c_status = ''saved'', c_pending = [], c_timer = False\<rparr>,
     s_look = \<lparr>lk_page = \<lparr>pg_ls = [], pg_cb = None, pg_root = [], pg_body = []\<rparr>, lk_types = [], lk_nav = [], lk_title = [], lk_text = [],
       lk_logo = Svg_Logo [], lk_label = [], lk_link = [], lk_icon = [], lk_favicon = []\<rparr>, s_init = True\<rparr>"

lemma readOverrides_Nil: "readOverrides [] = []"
proof -
  have "json_parse ''[]'' = Some (JArr [])" using json_parse_text [of "JArr []"] by simp
  then show ?thesis by (simp add: readOverrides_def with_list_def stored_list_def obj_of_def)
qed

lemma sample_facts:
  "s_init sample_site" "c_server (s_cust sample_site) = Some [(''nodeColors'', JObj [(''room'', JStr ''#111111'')])]"
  "readOverrides (c_ls (s_cust sample_site)) = []" "preset_active (lk_page (s_look sample_site)) = False"
  by (simp_all add: sample_site_def readOverrides_Nil preset_active_def)

theorem role_color_cascade_witness:
  "obj_get (pg_root (lk_page (s_look (pipeline (\<lambda>_. True) JNull False sample_site)))) (role_var ''room'') = Some ''#111111''"
proof -
  have "oprop (c_site (s_cust (pipeline (\<lambda>_. True) JNull False sample_site))) ''nodeColors'' = JObj [(''room'', JStr ''#111111'')]"
    using effective_server [of "[(''nodeColors'', JObj [(''room'', JStr ''#111111'')])]" JNull "[]" "''nodeColors''"]
    by (simp add: pipeline_def Let_def case_prod_beta runPipeline_def sample_facts) (simp add: oprop_def table_get_def)
  from role_color_cascade [OF this, of "''room''" "JStr ''#111111''"] show ?thesis
    by (simp add: Let_def sample_facts css_cell_def obj_wf_def)
qed

theorem cb_and_server_colors_witness:
  "obj_get (pg_root (lk_page (s_look (choose_cb (\<lambda>_. True) JNull False ''deut'' sample_site)))) (role_var ''room'') = None"
proof -
  have b: "byId ''deut'' = Some cb_deut" unfolding byId_Some by (simp add: CB_PRESETS_def cb_deut_def)
  show ?thesis
    using cb_and_server_colors [OF sample_facts(1,2) _ _ _ _ _ _ b, of JNull "[(''room'', JStr ''#111111'')]" "''room''" "JStr ''#111111''"
      "\<lambda>_. True" False]
    by (simp add: Let_def sample_facts)
qed

section \<open>The opacity after a reset\<close>

lemma applyCSS_live:
  assumes "\<not> is_num (oprop eff ''liveHeatmapOpacity'')"
  shows "obj_get (look_ls (fst (applyCSS fits dark eff ov lk))) ''meshcore-live-heatmap-opacity'' = obj_get (look_ls lk) ''meshcore-live-heatmap-opacity''"
proof -
  have l: "store_number fits eff ''liveHeatmapOpacity'' ''meshcore-live-heatmap-opacity'' ls = Some ls" for ls
    using assms by (simp add: store_number_def)
  show ?thesis unfolding applyCSS_storage l
    by (cases "store_number fits eff ''heatmapOpacity'' ''meshcore-heatmap-opacity'' (look_ls lk)")
      (auto simp: store_number_other store_unit_other split: option.split)
qed

text \<open>The configuration a page computes, and its effect on the stored opacities.\<close>

definition eff_of :: "jsval \<Rightarrow> customizer \<Rightarrow> jsval obj" where
  "eff_of home0 cu = computeEffective home0 (c_server cu) (readOverrides (c_ls cu))"

lemma pipeline_opacity:
  "\<not> is_num (oprop (eff_of home0 (s_cust s)) ''heatmapOpacity'') \<Longrightarrow>
     obj_get (c_ls (s_cust (pipeline fits home0 dark s))) ''meshcore-heatmap-opacity'' = obj_get (c_ls (s_cust s)) ''meshcore-heatmap-opacity''"
  "is_num (oprop (eff_of home0 (s_cust s)) ''heatmapOpacity'') \<Longrightarrow> \<forall>ls. fits ls \<Longrightarrow>
     obj_get (c_ls (s_cust (pipeline fits home0 dark s))) ''meshcore-heatmap-opacity'' =
       Some (js_String (oprop (eff_of home0 (s_cust s)) ''heatmapOpacity''))"
  "\<not> is_num (oprop (eff_of home0 (s_cust s)) ''liveHeatmapOpacity'') \<Longrightarrow>
     obj_get (c_ls (s_cust (pipeline fits home0 dark s))) ''meshcore-live-heatmap-opacity'' = obj_get (c_ls (s_cust s)) ''meshcore-live-heatmap-opacity''"
  by (simp_all add: pipeline_def Let_def case_prod_beta runPipeline_def eff_of_def applyCSS_heat applyCSS_live)

text \<open>A full reset leaves every storage key alone that is not its own or one of the pipeline.\<close>

lemma reset_ls:
  "n \<notin> set RESET_KEYS \<Longrightarrow> n \<notin> set css_keys \<Longrightarrow> obj_get (c_ls (s_cust (reset_button fits home0 dark s))) n = obj_get (c_ls (s_cust s)) n"
  "n \<in> set RESET_KEYS \<Longrightarrow> obj_get (c_ls (s_cust (reset_button fits home0 dark s))) n = None"
proof -
  have cbk: "CB_KEY \<in> set RESET_KEYS" by (simp add: CB_KEY_def RESET_KEYS_def)
  have d: "set RESET_KEYS \<inter> set css_keys = {}" by (simp add: RESET_KEYS_def css_keys_def OVERRIDES_KEY_def)
  have c: "n \<notin> set css_keys \<Longrightarrow> obj_get (c_ls (s_cust (cb_changed fits home0 dark s))) n = obj_get (c_ls (s_cust s)) n" for n s
    by (simp add: cb_changed_def pipeline_ls)
  have r: "n \<notin> set css_keys \<Longrightarrow> obj_get (c_ls (s_cust (reset_button fits home0 dark s))) n =
      (if n \<in> set RESET_KEYS then None else obj_get (c_ls (s_cust s)) n)" for n
    using cbk by (auto simp: reset_button_def resetAll_def Let_def pipeline_ls clear_cb_def c clearPreset_def obj_get_del foldl_del)
  show "n \<notin> set RESET_KEYS \<Longrightarrow> n \<notin> set css_keys \<Longrightarrow> obj_get (c_ls (s_cust (reset_button fits home0 dark s))) n = obj_get (c_ls (s_cust s)) n"
    "n \<in> set RESET_KEYS \<Longrightarrow> obj_get (c_ls (s_cust (reset_button fits home0 dark s))) n = None"
  proof -
    show "n \<notin> set RESET_KEYS \<Longrightarrow> n \<notin> set css_keys \<Longrightarrow> obj_get (c_ls (s_cust (reset_button fits home0 dark s))) n = obj_get (c_ls (s_cust s)) n"
      using r by simp
    assume n: "n \<in> set RESET_KEYS"
    with d have "n \<notin> set css_keys" by blast
    with r n show "obj_get (c_ls (s_cust (reset_button fits home0 dark s))) n = None" by simp
  qed
qed

lemma eff_clean:
  assumes "c_server cu = Some srv" "json_ok (JObj srv)" "json_ok home0" "obj_get (c_ls cu) OVERRIDES_KEY = None"
    and "k = ''heatmapOpacity'' \<or> k = ''liveHeatmapOpacity''"
  shows "oprop (eff_of home0 cu) k = oprop srv k"
proof -
  have st: "stored_theme (c_ls cu) = []" using assms(4) by (rule stored_empty)
  then have "proto_free (readOverrides (c_ls cu))" by (intro proto_free_readOverrides) simp
  moreover have "k \<noteq> ''favorites''" "k \<noteq> ''myNodes''" "k \<noteq> ''home''" using assms(5) by auto
  then have "obj_get (readOverrides (c_ls cu)) k = None" by (simp add: readOverrides_get st)
  ultimately show ?thesis using effective_server [OF assms(2,3)] assms(1) \<open>k \<noteq> ''home''\<close> by (simp add: eff_of_def)
qed

text \<open>The stored opacities survive a full reset when the server has none.\<close>

lemma reset_opacity:
  assumes srv: "c_server (s_cust s) = Some srv" "json_ok (JObj srv)" "json_ok home0"
    and nn: "\<not> is_num (oprop srv ''heatmapOpacity'')" "\<not> is_num (oprop srv ''liveHeatmapOpacity'')"
    and n: "n = ''meshcore-heatmap-opacity'' \<or> n = ''meshcore-live-heatmap-opacity''"
  shows "obj_get (c_ls (s_cust (reset_button fits home0 dark s))) n = obj_get (c_ls (s_cust s)) n"
proof -
  have pl: "obj_get (c_ls (s_cust (pipeline fits home0 dark t))) n = obj_get (c_ls (s_cust t)) n"
    if "c_server (s_cust t) = Some srv" "obj_get (c_ls (s_cust t)) OVERRIDES_KEY = None" for t
    using n pipeline_opacity(1,3) [of home0 t fits dark] eff_clean [OF that(1) srv(2,3) that(2)] nn by auto
  have nk: "n \<notin> set RESET_KEYS" "n \<noteq> CB_KEY" using n by (auto simp: RESET_KEYS_def OVERRIDES_KEY_def CB_KEY_def)
  define s0 where "s0 = s\<lparr>s_cust := (s_cust s)\<lparr>c_ls := foldl obj_del (c_ls (s_cust s)) RESET_KEYS\<rparr>\<rparr>"
  define s1 where "s1 = with_page clearPreset s0"
  have ok: "OVERRIDES_KEY \<in> set RESET_KEYS" by (simp add: RESET_KEYS_def)
  have s1: "c_server (s_cust s1) = Some srv" "obj_get (c_ls (s_cust s1)) OVERRIDES_KEY = None"
    "obj_get (c_ls (s_cust s1)) n = obj_get (c_ls (s_cust s)) n"
    using srv(1) nk ok by (simp_all add: s1_def s0_def clearPreset_def obj_get_del foldl_del)
  define s2 where "s2 = cb_changed fits home0 dark s1"
  have s2: "c_server (s_cust s2) = Some srv" "obj_get (c_ls (s_cust s2)) OVERRIDES_KEY = None"
    "obj_get (c_ls (s_cust s2)) n = obj_get (c_ls (s_cust s)) n"
    using s1 pl [OF s1(1,2)] by (simp_all add: s2_def cb_changed_def pipeline_ls css_keys_distinct)
  have r: "resetAll fits home0 dark s = with_page (\<lambda>pg. pg\<lparr>pg_body := foldl obj_del (pg_body pg) (concat (map (\<lambda>role. [role_var role, text_var role]) CB_ROLES)),
      pg_root := foldl obj_del (pg_root pg) reset_root_vars\<rparr>) s2"
    by (simp add: resetAll_def Let_def s2_def s1_def s0_def clear_cb_def)
  have s3: "c_server (s_cust (resetAll fits home0 dark s)) = Some srv" "obj_get (c_ls (s_cust (resetAll fits home0 dark s))) OVERRIDES_KEY = None"
    "obj_get (c_ls (s_cust (resetAll fits home0 dark s))) n = obj_get (c_ls (s_cust s)) n"
    unfolding r using s2 by simp_all
  show ?thesis unfolding reset_button_def using pl [OF s3(1,2)] s3(3) by simp
qed

text \<open>The migration of a storage that has nothing old but an opacity.\<close>

lemma migrate_opacity:
  assumes "\<forall>ls. fits ls" "obj_get (c_ls cu) OVERRIDES_KEY = None"
    and "\<forall>k\<in>set LEGACY_KEYS. k \<noteq> ''meshcore-heatmap-opacity'' \<longrightarrow> obj_get (c_ls cu) k = None"
    and "obj_get (c_ls cu) ''meshcore-heatmap-opacity'' = Some (rat_to_string q)" "dec_num q" "0 \<le> q" "q \<le> 1"
  shows "stored_theme (c_ls (fst (migrateOldKeys fits cu))) = [(''heatmapOpacity'', JNum (Fin q))]"
    and "\<not> Option.is_none (json_parse (case obj_get (c_ls (fst (migrateOldKeys fits cu))) OVERRIDES_KEY of Some raw \<Rightarrow> raw | None \<Rightarrow> ''{}''))"
proof -
  let ?d = "[(''heatmapOpacity'', JNum (Fin q))]"
  obtain c r where cr: "rat_to_string q = c # r" by (rule rat_to_string_hd)
  have no: "obj_get (c_ls cu) k = None" if "k \<in> set [''meshcore-user-theme'', ''meshcore-timestamp-mode'', ''meshcore-timestamp-timezone'',
      ''meshcore-timestamp-format'', ''meshcore-timestamp-custom-format'', ''meshcore-live-heatmap-opacity'']" for k
    using assms(3) that by (auto simp: LEGACY_KEYS_def)
  have lt: "legacy_theme (c_ls cu) = []" using no [of "''meshcore-user-theme''"] by (simp add: legacy_theme_def)
  have ts: "legacy_timestamps (c_ls cu) = []"
    using no [of "''meshcore-timestamp-mode''"] no [of "''meshcore-timestamp-timezone''"] no [of "''meshcore-timestamp-format''"]
      no [of "''meshcore-timestamp-custom-format''"]
    by (simp add: legacy_timestamps_def legacy_text_def)
  have lv: "legacy_opacity (c_ls cu) ''meshcore-live-heatmap-opacity'' nm = []" for nm
    using no [of "''meshcore-live-heatmap-opacity''"] by (simp add: legacy_opacity_def legacy_text_def)
  have ht: "legacy_opacity (c_ls cu) ''meshcore-heatmap-opacity'' ''heatmapOpacity'' = ?d"
    using parseFloat_text [OF assms(5)] assms(4,6,7) by (simp add: legacy_opacity_def legacy_text_def cr)
  have ex: "list_ex (\<lambda>k. obj_get (c_ls cu) k \<noteq> None) LEGACY_KEYS" using assms(4) by (simp add: LEGACY_KEYS_def)
  have m: "c_ls (fst (migrateOldKeys fits cu)) = foldl obj_del (c_ls (writeOverrides fits ?d cu)) LEGACY_KEYS"
    by (simp only: migrateOldKeys_def Let_def assms(2) ex lt ts lv ht) simp
  have "OVERRIDES_KEY \<notin> set LEGACY_KEYS" by (simp add: OVERRIDES_KEY_def LEGACY_KEYS_def)
  then have g: "obj_get (c_ls (fst (migrateOldKeys fits cu))) OVERRIDES_KEY = obj_get (c_ls (writeOverrides fits ?d cu)) OVERRIDES_KEY"
    by (simp add: m foldl_del)
  have td: "theme_delta ?d = ?d" by (simp add: theme_delta_def)
  have vd: "validateDelta ?d = ?d"
    using assms(6,7) color_sections_simps
    by (intro validateDelta_id) (simp_all add: proto_free_def obj_wf_def clean_entry_def as_number_def isValidOpacity_def)
  have jok: "json_ok (JObj (validateDelta (theme_delta ?d)))" unfolding td vd using assms(5) by simp
  have ne: "c_status (writeOverrides fits ?d cu) \<noteq> ''error''" using assms(1) by (simp add: writeOverrides_def Let_def)
  from stored_after_write [OF ne jok]
  show "stored_theme (c_ls (fst (migrateOldKeys fits cu))) = ?d"
    "\<not> Option.is_none (json_parse (case obj_get (c_ls (fst (migrateOldKeys fits cu))) OVERRIDES_KEY of Some raw \<Rightarrow> raw | None \<Rightarrow> ''{}''))"
    unfolding theme_store.load_cong [OF g] td vd g by simp_all
qed

lemma effective_scalar:
  assumes "json_ok (JObj srv)" "json_ok home0" "proto_free ov" "obj_get ov k = Some (JNum n)"
  shows "oprop (computeEffective home0 (Some srv) ov) k = JNum n"
proof -
  have "json_ok (JObj (case Some srv of Some s \<Rightarrow> s | None \<Rightarrow> []))" using assms(1) by simp
  from computeEffective_merge [OF this assms(2), of ov] foldl_merge_get [OF assms(3)] assms(4)
  have "obj_get (computeEffective home0 (Some srv) ov) k = Some (JNum n)"
    by (simp add: merged_def real_object_def clone_arr_def)
  then show ?thesis by (simp add: oprop_def table_get_def)
qed

text \<open>The clean-up at the start removes no override whose value the server does not have.\<close>

lemma clean_sections_absent:
  "\<forall>sec\<in>set secs. obj_get delta sec = None \<and> sec \<notin> set object_proto \<Longrightarrow> foldl (clean_section server) delta secs = delta"
  by (induction secs) (simp_all add: clean_section_def oprop_def table_get_def Let_def)

lemma sections_not_proto: "sec \<in> set OBJECT_SECTIONS \<Longrightarrow> sec \<notin> set object_proto \<and> sec \<noteq> ''favorites'' \<and> sec \<noteq> ''myNodes'' \<and> sec \<noteq> ''heatmapOpacity''"
  by (auto simp: OBJECT_SECTIONS_def object_proto_def)

lemma cleanPhantom_keeps:
  assumes "c_server cu = Some srv" "stored_theme (c_ls cu) = [(''heatmapOpacity'', JNum (Fin q))]" "\<not> is_num (oprop srv ''heatmapOpacity'')"
  shows "cleanPhantomOverrides fits cu = cu"
proof -
  let ?d = "readOverrides (c_ls cu)"
  have g: "obj_get ?d k = None" if "k \<noteq> ''favorites''" "k \<noteq> ''myNodes''" "k \<noteq> ''heatmapOpacity''" for k
    using that assms(2) by (simp add: readOverrides_get)
  have secs: "foldl (clean_section (c_server cu)) ?d OBJECT_SECTIONS = ?d"
    using g sections_not_proto by (intro clean_sections_absent) blast
  have "\<not> strict_eq (JNum (Fin q)) (oprop srv ''heatmapOpacity'')" using assms(3) by (cases "oprop srv ''heatmapOpacity''") simp_all
  then have h: "clean_scalar (c_server cu) ?d ''heatmapOpacity'' = ?d"
    using assms(1,2) by (auto simp: clean_scalar_def readOverrides_get split: option.splits)
  have l: "clean_scalar (c_server cu) ?d ''liveHeatmapOpacity'' = ?d" using g by (simp add: clean_scalar_def)
  show ?thesis by (simp add: cleanPhantomOverrides_def Let_def secs SCALAR_SECTIONS_def h l)
qed

text \<open>
  A reset opacity comes back.  The user has set the opacity of the heat map, which the server does not configure.
  After the reset of all customisations the override is gone; but the pipeline has copied it to a key that
  the migration at the next page load takes for one of an old version, so after the load the override is
  there again with the same value, and the start with the server configuration keeps it.
\<close>

theorem reset_opacity_returns:
  assumes "\<forall>ls. fits ls" "c_server (s_cust s) = Some srv" "json_ok (JObj srv)" "json_ok home0"
    and nn: "\<not> is_num (oprop srv ''heatmapOpacity'')" "\<not> is_num (oprop srv ''liveHeatmapOpacity'')"
    and "proto_free (readOverrides (c_ls (s_cust s)))"
    and "obj_get (readOverrides (c_ls (s_cust s))) ''heatmapOpacity'' = Some (JNum (Fin q))" "dec_num q" "0 \<le> q" "q \<le> 1"
    and "obj_get (readOverrides (c_ls (s_cust s))) ''liveHeatmapOpacity'' = None"
    and legacy: "\<forall>k\<in>set LEGACY_KEYS. k \<noteq> ''meshcore-heatmap-opacity'' \<longrightarrow> obj_get (c_ls (s_cust s)) k = None"
    and "c_ls (s_cust fresh) = c_ls (s_cust (reset_button fits home0 dark (pipeline fits home0 dark s)))"
  shows "let s1 = reset_button fits home0 dark (pipeline fits home0 dark s); s2 = init_site fits home0 dark srv (load_script fits home0 dark fresh) in
     obj_get (readOverrides (c_ls (s_cust s1))) ''heatmapOpacity'' = None \<and>
     obj_get (readOverrides (c_ls (s_cust s2))) ''heatmapOpacity'' = Some (JNum (Fin q))"
proof -
  define p where "p = pipeline fits home0 dark s"
  define s1 where "s1 = reset_button fits home0 dark p"
  have ps: "c_server (s_cust p) = Some srv" using assms(2) by (simp add: p_def)
  have eff: "oprop (eff_of home0 (s_cust s)) ''heatmapOpacity'' = JNum (Fin q)"
    "oprop (eff_of home0 (s_cust s)) ''liveHeatmapOpacity'' = oprop srv ''liveHeatmapOpacity''"
    using effective_scalar [OF assms(3,4,7,8)] effective_server [OF assms(3,4,7,12)] by (simp_all add: eff_of_def assms(2))
  have heat: "obj_get (c_ls (s_cust p)) ''meshcore-heatmap-opacity'' = Some (rat_to_string q)"
    using pipeline_opacity(2) [of home0 s fits dark] assms(1) eff(1) by (simp add: p_def)
  have live: "obj_get (c_ls (s_cust p)) ''meshcore-live-heatmap-opacity'' = None"
    using pipeline_opacity(3) [of home0 s fits dark] nn(2) eff(2) legacy by (simp add: p_def LEGACY_KEYS_def)
  note ro = reset_opacity [OF ps assms(3,4) nn, where fits = fits and dark = dark]
  have k1: "obj_get (c_ls (s_cust s1)) ''meshcore-heatmap-opacity'' = Some (rat_to_string q)"
    "obj_get (c_ls (s_cust s1)) ''meshcore-live-heatmap-opacity'' = None"
    using ro heat live by (simp_all add: s1_def)
  have ok: "obj_get (c_ls (s_cust s1)) OVERRIDES_KEY = None"
    unfolding s1_def by (rule reset_ls(2)) (simp add: RESET_KEYS_def)
  have k2: "obj_get (c_ls (s_cust s1)) k = None" if k: "k \<in> set LEGACY_KEYS" "k \<noteq> ''meshcore-heatmap-opacity''" for k
  proof (cases "k = ''meshcore-live-heatmap-opacity''")
    case False
    then have "k \<notin> set css_keys" "k \<notin> set RESET_KEYS" using k by (auto simp: css_keys_def RESET_KEYS_def LEGACY_KEYS_def OVERRIDES_KEY_def)
    then show ?thesis using legacy k by (simp add: s1_def p_def reset_ls(1) pipeline_ls)
  qed (simp add: k1)
  have gone: "obj_get (readOverrides (c_ls (s_cust s1))) ''heatmapOpacity'' = None"
    using stored_empty [OF ok] by (simp add: readOverrides_get)
  define cu where "cu = fst (migrateOldKeys fits (s_cust fresh))"
  have fr: "c_ls (s_cust fresh) = c_ls (s_cust s1)" using assms(14) by (simp add: s1_def p_def)
  have "\<forall>k\<in>set LEGACY_KEYS. k \<noteq> ''meshcore-heatmap-opacity'' \<longrightarrow> obj_get (c_ls (s_cust fresh)) k = None" using k2 by (simp add: fr)
  note mig = migrate_opacity [OF assms(1) ok [folded fr] this k1(1) [folded fr] assms(9-11), folded cu_def]
  have returns: "obj_get (readOverrides (c_ls cu)) ''heatmapOpacity'' = Some (JNum (Fin q))" using mig by (simp add: readOverrides_get)
  have ld: "s_cust (load_script fits home0 dark fresh) = cu" by (simp add: load_script_def Let_def case_prod_beta cu_def)
  have "cleanPhantomOverrides fits (cu\<lparr>c_server := Some srv\<rparr>) = cu\<lparr>c_server := Some srv\<rparr>"
    by (rule cleanPhantom_keeps [of _ srv q]) (simp_all add: mig(1) nn(1))
  then have "readOverrides (c_ls (s_cust (init_site fits home0 dark srv (load_script fits home0 dark fresh)))) = readOverrides (c_ls cu)"
    by (simp add: init_site_def Let_def ld pipeline_overrides)
  with gone returns show ?thesis by (simp add: Let_def s1_def p_def)
qed

definition opacity_site :: site where
  "opacity_site = sample_site\<lparr>s_cust := (s_cust sample_site)\<lparr>c_ls := save_theme [(''heatmapOpacity'', JNum (Fin (1 / 2)))] [], c_server := Some []\<rparr>\<rparr>"

definition reloaded :: site where
  "reloaded = sample_site\<lparr>s_cust := (s_cust sample_site)\<lparr>c_ls :=
     c_ls (s_cust (reset_button (\<lambda>_. True) JNull False (pipeline (\<lambda>_. True) JNull False opacity_site)))\<rparr>\<rparr>"

theorem reset_opacity_returns_witness:
  "obj_get (readOverrides (c_ls (s_cust (init_site (\<lambda>_. True) JNull False [] (load_script (\<lambda>_. True) JNull False reloaded))))) ''heatmapOpacity''
     = Some (JNum (Fin (1 / 2)))"
proof -
  let ?d = "[(''heatmapOpacity'', JNum (Fin (1 / 2 :: rat)))]"
  have q: "dec_num (1 / 2)" unfolding dec_num_def using Ints_of_int [of 50000000000000000] by simp
  then have j: "json_ok (JObj ?d)" by simp
  have ls: "c_ls (s_cust opacity_site) = save_theme ?d []" by (simp add: opacity_site_def)
  have st: "stored_theme (save_theme ?d []) = ?d" by (rule theme_store.load_save [OF j])
  have lists: "stored_list (save_theme ?d []) k = None" if "k \<noteq> OVERRIDES_KEY" for k
  proof -
    have "json_parse ''[]'' = Some (JArr [])" using json_parse_text [of "JArr []"] by simp
    then show ?thesis using that by (simp add: stored_list_def save_theme_def obj_get_set)
  qed
  have "json_parse (json_text (JObj ?d)) = Some (JObj ?d)" using j by (rule json_parse_text)
  then have n: "\<not> Option.is_none (json_parse (case obj_get (save_theme ?d []) OVERRIDES_KEY of Some raw \<Rightarrow> raw | None \<Rightarrow> ''{}''))"
    by (simp add: save_theme_def obj_get_set del: json_text.simps)
  note kd = keys_distinct
  have ro: "obj_get (readOverrides (save_theme ?d [])) k = obj_get ?d k" for k
    using n lists kd by (simp add: readOverrides_get st)
  have pf: "proto_free (readOverrides (save_theme ?d []))"
    by (rule proto_free_readOverrides) (simp add: st proto_free_def obj_wf_def)
  have leg: "\<forall>k\<in>set LEGACY_KEYS. k \<noteq> ''meshcore-heatmap-opacity'' \<longrightarrow> obj_get (c_ls (s_cust opacity_site)) k = None"
    by (simp add: ls save_theme_def OVERRIDES_KEY_def LEGACY_KEYS_def)
  have un: "\<not> is_num (oprop [] ''heatmapOpacity'')" "\<not> is_num (oprop [] ''liveHeatmapOpacity'')"
    by (simp_all add: oprop_def table_get_def object_proto_def)
  have srv: "c_server (s_cust opacity_site) = Some []" by (simp add: opacity_site_def)
  have fr: "c_ls (s_cust reloaded) = c_ls (s_cust (reset_button (\<lambda>_. True) JNull False (pipeline (\<lambda>_. True) JNull False opacity_site)))"
    by (simp add: reloaded_def)
  from reset_opacity_returns [OF _ srv _ _ un _ _ q _ _ _ leg fr]
  show ?thesis unfolding ls ro using pf by (simp add: Let_def)
qed

end
