(* ===== verification/Js_Sort.thy ===== *)
theory Js_Sort
  imports Js_Number "HOL-Library.Multiset"
begin

text \<open>
  \<^verbatim>\<open>Array.prototype.sort\<close> with a comparator that returns a number.  The sort is stable; a result of
  \<^verbatim>\<open>NaN\<close> counts as 0.  The standard leaves the order open for comparators that contradict themselves;
  \<open>js_sort\<close> is an insertion sort, and \<open>js_sort_unique\<close> shows that for a consistent comparator every stable
  algorithm gives the same list.  The numbers are ordered here as the comparators of the front end order
  them, with \<^verbatim>\<open>NaN\<close> after all others; this is the order \<open>\<le>\<close> of the type, while \<^const>\<open>num_less\<close>
  is the operator of the language.
\<close>

section \<open>Arithmetic on comparator results\<close>

fun num_minus :: "jsnum \<Rightarrow> jsnum" where
  "num_minus NaN = NaN"
| "num_minus PInf = NInf"
| "num_minus NInf = PInf"
| "num_minus (Fin a) = Fin (- a)"

fun num_diff :: "jsnum \<Rightarrow> jsnum \<Rightarrow> jsnum" where
  "num_diff (Fin a) (Fin b) = Fin (a - b)"
| "num_diff NaN _ = NaN"
| "num_diff _ NaN = NaN"
| "num_diff PInf PInf = NaN"
| "num_diff PInf _ = PInf"
| "num_diff NInf NInf = NaN"
| "num_diff NInf _ = NInf"
| "num_diff (Fin _) PInf = NInf"
| "num_diff (Fin _) NInf = PInf"

abbreviation positive :: "jsnum \<Rightarrow> bool" where
  "positive n \<equiv> num_less (Fin 0) n"

abbreviation negative :: "jsnum \<Rightarrow> bool" where
  "negative n \<equiv> num_less n (Fin 0)"

text \<open>The product with a direction, 1 for ascending and -1 for descending.\<close>

definition times_dir :: "bool \<Rightarrow> jsnum \<Rightarrow> jsnum" where
  "times_dir ascending n = (if ascending then n else num_minus n)"

lemma positive_minus [simp]: "positive (num_minus n) = negative n" "negative (num_minus n) = positive n"
  by (cases n; simp)+

lemma minus_eq_0 [simp]: "num_minus n = Fin 0 \<longleftrightarrow> n = Fin 0"
  by (cases n) auto

lemma times_dir_simps [simp]:
  "positive (times_dir d n) = (if d then positive n else negative n)"
  "negative (times_dir d n) = (if d then negative n else positive n)"
  by (simp_all add: times_dir_def)

lemma positive_not_negative: "positive n \<Longrightarrow> \<not> negative n"
  by (cases n) auto

section \<open>The order of the sort keys\<close>

instantiation jsnum :: linorder
begin

fun less_eq_jsnum :: "jsnum \<Rightarrow> jsnum \<Rightarrow> bool" where
  "less_eq_jsnum _ NaN = True"
| "less_eq_jsnum NaN _ = False"
| "less_eq_jsnum NInf _ = True"
| "less_eq_jsnum _ NInf = False"
| "less_eq_jsnum _ PInf = True"
| "less_eq_jsnum PInf _ = False"
| "less_eq_jsnum (Fin a) (Fin b) = (a \<le> b)"

fun less_jsnum :: "jsnum \<Rightarrow> jsnum \<Rightarrow> bool" where
  "less_jsnum NaN _ = False"
| "less_jsnum _ NaN = True"
| "less_jsnum _ NInf = False"
| "less_jsnum NInf _ = True"
| "less_jsnum PInf _ = False"
| "less_jsnum _ PInf = True"
| "less_jsnum (Fin a) (Fin b) = (a < b)"

instance
proof
  fix x y z :: jsnum
  show "x < y \<longleftrightarrow> x \<le> y \<and> \<not> y \<le> x" by (cases x; cases y) auto
  show "x \<le> x" by (cases x) auto
  show "x \<le> y \<Longrightarrow> y \<le> z \<Longrightarrow> x \<le> z" by (cases x; cases y; cases z) auto
  show "x \<le> y \<Longrightarrow> y \<le> x \<Longrightarrow> x = y" by (cases x; cases y) auto
  show "x \<le> y \<or> y \<le> x" by (cases x; cases y) auto
qed

end

text \<open>The comparison the built-in comparators share: \<^verbatim>\<open>NaN\<close> last, otherwise the difference.\<close>

definition nan_last :: "jsnum \<Rightarrow> jsnum \<Rightarrow> jsnum" where
  "nan_last na nb =
     (if num_is_nan na \<and> num_is_nan nb then Fin 0
      else if num_is_nan na then Fin 1
      else if num_is_nan nb then Fin (-1)
      else num_diff na nb)"

lemma nan_last_sign [simp]: "positive (nan_last a b) \<longleftrightarrow> b < a" "negative (nan_last a b) \<longleftrightarrow> a < b"
  by (cases a; cases b; simp add: nan_last_def)+

lemma nan_last_zero: "nan_last a b = Fin 0 \<longleftrightarrow> a = b \<and> a \<noteq> PInf \<and> a \<noteq> NInf"
  by (cases a; cases b) (auto simp: nan_last_def)

lemma num_diff_sign:
  assumes "\<not> num_is_nan a" "\<not> num_is_nan b"
  shows "positive (num_diff a b) \<longleftrightarrow> b < a" "negative (num_diff a b) \<longleftrightarrow> a < b"
  using assms by (cases a; cases b; simp)+

section \<open>Sorting\<close>

fun insert_by :: "('a \<Rightarrow> 'a \<Rightarrow> jsnum) \<Rightarrow> 'a \<Rightarrow> 'a list \<Rightarrow> 'a list" where
  "insert_by cmp x [] = [x]"
| "insert_by cmp x (y # ys) = (if positive (cmp x y) then y # insert_by cmp x ys else x # y # ys)"

definition js_sort :: "('a \<Rightarrow> 'a \<Rightarrow> jsnum) \<Rightarrow> 'a list \<Rightarrow> 'a list" where
  "js_sort cmp xs = foldr (insert_by cmp) xs []"

lemma js_sort_simps [simp]: "js_sort cmp [] = []" "js_sort cmp (x # xs) = insert_by cmp x (js_sort cmp xs)"
  by (simp_all add: js_sort_def)

lemma mset_insert_by [simp]: "mset (insert_by cmp x xs) = add_mset x (mset xs)"
  by (induction xs) auto

lemma mset_js_sort [simp]: "mset (js_sort cmp xs) = mset xs"
  by (induction xs) auto

lemma set_insert_by [simp]: "set (insert_by cmp x xs) = insert x (set xs)"
  by (induction xs) auto

lemma set_js_sort [simp]: "set (js_sort cmp xs) = set xs"
  by (induction xs) auto

lemma length_js_sort [simp]: "length (js_sort cmp xs) = length xs"
  using mset_js_sort [of cmp xs] by (rule mset_eq_length)

lemma insert_by_cong:
  "(\<And>y. y \<in> set ys \<Longrightarrow> positive (cmp x y) = positive (cmp' x y)) \<Longrightarrow> insert_by cmp x ys = insert_by cmp' x ys"
  by (induction ys) auto

lemma js_sort_cong:
  "(\<And>x y. x \<in> set xs \<Longrightarrow> y \<in> set xs \<Longrightarrow> positive (cmp x y) = positive (cmp' x y)) \<Longrightarrow> js_sort cmp xs = js_sort cmp' xs"
proof (induction xs)
  case (Cons x xs)
  then have "js_sort cmp xs = js_sort cmp' xs" by simp
  then show ?case using Cons.prems by (auto intro: insert_by_cong)
qed simp

text \<open>Two values the comparator does not separate.\<close>

definition tied :: "('a \<Rightarrow> 'a \<Rightarrow> jsnum) \<Rightarrow> 'a \<Rightarrow> 'a \<Rightarrow> bool" where
  "tied cmp a b \<longleftrightarrow> \<not> positive (cmp a b) \<and> \<not> negative (cmp a b)"

definition in_order :: "('a \<Rightarrow> 'a \<Rightarrow> jsnum) \<Rightarrow> 'a list \<Rightarrow> bool" where
  "in_order cmp xs = sorted_wrt (\<lambda>a b. \<not> positive (cmp a b)) xs"

text \<open>What a comparator has to promise on the values it is used for.\<close>

locale consistent =
  fixes cmp :: "'a \<Rightarrow> 'a \<Rightarrow> jsnum" and A :: "'a set"
  assumes mirror: "a \<in> A \<Longrightarrow> b \<in> A \<Longrightarrow> negative (cmp a b) = positive (cmp b a)"
    and trans: "a \<in> A \<Longrightarrow> b \<in> A \<Longrightarrow> c \<in> A \<Longrightarrow> \<not> positive (cmp a b) \<Longrightarrow> \<not> positive (cmp b c) \<Longrightarrow> \<not> positive (cmp a c)"
begin

lemma total: "a \<in> A \<Longrightarrow> b \<in> A \<Longrightarrow> positive (cmp a b) \<Longrightarrow> \<not> positive (cmp b a)"
  using mirror [of b a] positive_not_negative by blast

lemma self: "a \<in> A \<Longrightarrow> \<not> positive (cmp a a)"
  using total by blast

lemma tied_iff: "a \<in> A \<Longrightarrow> b \<in> A \<Longrightarrow> tied cmp a b \<longleftrightarrow> \<not> positive (cmp a b) \<and> \<not> positive (cmp b a)"
  by (simp add: tied_def mirror)

lemma insert_in_order:
  "in_order cmp xs \<Longrightarrow> set xs \<subseteq> A \<Longrightarrow> x \<in> A \<Longrightarrow> in_order cmp (insert_by cmp x xs)"
proof (induction xs)
  case (Cons y ys)
  show ?case
  proof (cases "positive (cmp x y)")
    case True
    with Cons show ?thesis by (auto simp: in_order_def total)
  next
    case False
    have "\<not> positive (cmp x z)" if "z \<in> set ys" for z
      using False that Cons.prems trans [of x y z] by (auto simp: in_order_def)
    with False Cons show ?thesis by (auto simp: in_order_def)
  qed
qed (simp add: in_order_def)

lemma sorts: "set xs \<subseteq> A \<Longrightarrow> in_order cmp (js_sort cmp xs)"
  by (induction xs) (simp_all add: in_order_def insert_in_order [unfolded in_order_def])

lemma insert_stable:
  assumes "set xs \<subseteq> A" "x \<in> A" "a \<in> A"
  shows "filter (tied cmp a) (insert_by cmp x xs) = (if tied cmp a x then x # filter (tied cmp a) xs else filter (tied cmp a) xs)"
  using assms
proof (induction xs)
  case (Cons y ys)
  have "\<not> (tied cmp a x \<and> tied cmp a y)" if "positive (cmp x y)"
    using that Cons.prems trans [of x a y] by (auto simp: tied_iff)
  then show ?case using Cons by auto
qed simp

lemma stable: "set xs \<subseteq> A \<Longrightarrow> a \<in> A \<Longrightarrow> filter (tied cmp a) (js_sort cmp xs) = filter (tied cmp a) xs"
  by (induction xs) (simp_all add: insert_stable)

lemma sorted_unique:
  assumes "in_order cmp xs" "in_order cmp ys" "set xs \<subseteq> A" "mset xs = mset ys"
    and "\<And>a. a \<in> A \<Longrightarrow> filter (tied cmp a) xs = filter (tied cmp a) ys"
  shows "xs = ys"
  using assms
proof (induction xs arbitrary: ys)
  case (Cons x xs)
  obtain y ys' where ys: "ys = y # ys'" using Cons.prems(4) by (cases ys) auto
  have sub: "set ys \<subseteq> A" using Cons.prems(3) by (simp only: mset_eq_setD [OF Cons.prems(4)])
  have xA: "x \<in> A" and yA: "y \<in> A" using Cons.prems(3) sub ys by auto
  have "x \<in> set ys" "y \<in> set (x # xs)" using mset_eq_setD [OF Cons.prems(4)] ys by auto
  then have "\<not> positive (cmp x y)" "\<not> positive (cmp y x)"
    using Cons.prems(1,2) xA self by (auto simp: in_order_def ys)
  then have "tied cmp x y" "tied cmp x x" using xA yA self by (auto simp: tied_iff)
  with Cons.prems(5) [OF xA] have eq: "x = y" by (simp add: ys)
  have "filter (tied cmp a) xs = filter (tied cmp a) ys'" if "a \<in> A" for a
    using Cons.prems(5) [OF that] by (simp add: ys eq split: if_splits)
  then have "xs = ys'" using Cons.prems by (intro Cons.IH) (simp_all add: in_order_def ys eq)
  then show ?case by (simp add: ys eq)
qed simp

lemma js_sort_unique:
  assumes "set xs \<subseteq> A" "in_order cmp ys" "mset ys = mset xs"
    and "\<And>a. a \<in> A \<Longrightarrow> filter (tied cmp a) ys = filter (tied cmp a) xs"
  shows "ys = js_sort cmp xs"
proof (rule sorted_unique)
  show "set ys \<subseteq> A" using assms(1) by (simp only: mset_eq_setD [OF assms(3)])
  show "in_order cmp (js_sort cmp xs)" by (rule sorts [OF assms(1)])
  show "filter (tied cmp a) ys = filter (tied cmp a) (js_sort cmp xs)" if "a \<in> A" for a
    using assms(4) [OF that] stable [OF assms(1) that] by simp
qed (simp_all only: assms(2,3) mset_js_sort)

end

lemma consistent_mono: "consistent cmp A \<Longrightarrow> B \<subseteq> A \<Longrightarrow> consistent cmp B"
  unfolding consistent_def by blast

lemma consistent_reverse: "consistent cmp A \<Longrightarrow> consistent (\<lambda>a b. times_dir d (cmp a b)) A"
proof (cases d)
  case False
  assume c: "consistent cmp A"
  note m = consistent.mirror [OF c] and t = consistent.trans [OF c]
  show ?thesis
  proof
    show "negative (times_dir d (cmp a b)) = positive (times_dir d (cmp b a))" if "a \<in> A" "b \<in> A" for a b
      using False m [OF that(2,1)] by simp
    show "\<not> positive (times_dir d (cmp a x))"
      if "a \<in> A" "b \<in> A" "x \<in> A" "\<not> positive (times_dir d (cmp a b))" "\<not> positive (times_dir d (cmp b x))" for a b x
      using that False m [OF that(1,2)] m [OF that(2,3)] m [OF that(1,3)] t [OF that(3,2,1)] by simp
  qed
qed (simp add: times_dir_def)

lemma consistent_key:
  fixes key :: "'a \<Rightarrow> 'k::linorder"
  assumes "\<And>a b. a \<in> A \<Longrightarrow> b \<in> A \<Longrightarrow> positive (cmp a b) \<longleftrightarrow> key b < key a"
    and "\<And>a b. a \<in> A \<Longrightarrow> b \<in> A \<Longrightarrow> negative (cmp a b) \<longleftrightarrow> key a < key b"
  shows "consistent cmp A"
  using assms by unfold_locales (auto simp: not_less)

text \<open>
  A comparator with a tie-break: the second one decides where the first returns exactly 0.  A first
  comparator that returns \<^verbatim>\<open>NaN\<close> (infinite keys) leaves a whole class without a tie-break.
\<close>

definition then_by :: "('a \<Rightarrow> 'a \<Rightarrow> jsnum) \<Rightarrow> ('a \<Rightarrow> 'a \<Rightarrow> jsnum) \<Rightarrow> 'a \<Rightarrow> 'a \<Rightarrow> jsnum" where
  "then_by c d a b = (if c a b = Fin 0 then d a b else c a b)"

definition uniform_ties :: "('a \<Rightarrow> 'a \<Rightarrow> jsnum) \<Rightarrow> 'a set \<Rightarrow> bool" where
  "uniform_ties c A \<longleftrightarrow>
     (\<forall>a\<in>A. \<forall>b\<in>A. \<forall>x\<in>A. tied c a b \<longrightarrow> tied c b x \<longrightarrow>
        (c a b = Fin 0 \<longleftrightarrow> c a x = Fin 0) \<and> (c a b = Fin 0 \<longleftrightarrow> c b a = Fin 0) \<and> (c a b = Fin 0 \<longleftrightarrow> c b x = Fin 0))"

lemma consistent_then_by:
  assumes c: "consistent c A" and d: "consistent d A" and u: "uniform_ties c A"
  shows "consistent (then_by c d) A"
proof
  note c_mirror = consistent.mirror [OF c] and c_trans = consistent.trans [OF c] and c_tied = consistent.tied_iff [OF c]
  fix a b assume ab: "a \<in> A" "b \<in> A"
  have "c a b = Fin 0 \<longleftrightarrow> c b a = Fin 0"
  proof (cases "c a b = Fin 0 \<or> c b a = Fin 0")
    case True
    then have "tied c a b" "tied c b a" using ab c_mirror [OF ab] c_mirror [OF ab(2,1)] by (auto simp: tied_def)
    with u ab show ?thesis unfolding uniform_ties_def by blast
  qed simp
  then show "negative (then_by c d a b) = positive (then_by c d b a)"
    using c_mirror [OF ab] consistent.mirror [OF d ab] by (simp add: then_by_def)
  fix x assume x: "x \<in> A" and le: "\<not> positive (then_by c d a b)" "\<not> positive (then_by c d b x)"
  have c_le: "\<not> positive (c a b)" "\<not> positive (c b x)" using le by (auto simp: then_by_def split: if_splits)
  have ax: "\<not> positive (c a x)" using c_trans [OF ab x c_le] .
  show "\<not> positive (then_by c d a x)"
  proof (cases "c a x = Fin 0")
    case True
    then have xa: "\<not> positive (c x a)" using c_mirror [OF ab(1) x] by simp
    have "tied c a b" "tied c b x"
      using c_le c_trans [OF ab(2) x ab(1) c_le(2) xa] c_trans [OF x ab(1) ab(2) xa c_le(1)] ab x by (auto simp: c_tied)
    then have "c a b = Fin 0" "c b x = Fin 0" using u ab x True by (auto simp: uniform_ties_def)
    then show ?thesis using le True consistent.trans [OF d ab x] by (simp add: then_by_def)
  qed (simp add: then_by_def ax)
qed

end
