(* ===== verification/Table_Sort.thy ===== *)
theory Table_Sort
  imports Js_Sort
begin

text \<open>
  The sortable tables of \<^verbatim>\<open>src/public/table-sort.js\<close>: the comparators, the state of a controller (column
  and direction, restored from and written to \<^verbatim>\<open>localStorage\<close>), the header clicks, the marks of the headers
  and the reordering of the rows.  \<open>host\<close> holds what the browser supplies: \<^verbatim>\<open>localeCompare\<close> and the
  parser of dates.  A header or a cell is what its attributes say; a row is the list of its cells.
  A column named after a member of \<^verbatim>\<open>Object.prototype\<close> is not modelled.
\<close>

section \<open>Comparators\<close>

record sort_host =
  localeCompare :: "string \<Rightarrow> string \<Rightarrow> jsnum"
  parseDate :: "string \<Rightarrow> jsnum"

type_synonym comparator = "jsval \<Rightarrow> jsval \<Rightarrow> jsnum"

definition cmp_text :: "sort_host \<Rightarrow> comparator" where
  "cmp_text h a b =
     localeCompare h (js_String (if nullish a then JStr [] else a)) (js_String (if nullish b then JStr [] else b))"

definition cmp_numeric :: comparator where
  "cmp_numeric a b = nan_last (js_Number a) (js_Number b)"

text \<open>\<^verbatim>\<open>new Date(v).getTime()\<close>; a number is cut to whole milliseconds within the range of dates.\<close>

definition date_time :: "sort_host \<Rightarrow> jsval \<Rightarrow> jsnum" where
  "date_time h v =
     (case v of
        JStr s \<Rightarrow> parseDate h s
      | JArr _ \<Rightarrow> parseDate h (js_String v)
      | JObj _ \<Rightarrow> parseDate h (js_String v)
      | JFun _ \<Rightarrow> parseDate h (js_String v)
      | _ \<Rightarrow> (case js_Number v of
               Fin q \<Rightarrow> if \<bar>q\<bar> \<le> 8640000000000000 then Fin (of_int (if 0 \<le> q then \<lfloor>q\<rfloor> else \<lceil>q\<rceil>)) else NaN
             | _ \<Rightarrow> NaN))"

definition date_key :: "sort_host \<Rightarrow> jsval \<Rightarrow> jsnum" where
  "date_key h a = (if truthy a then date_time h a else NaN)"

definition cmp_date :: "sort_host \<Rightarrow> comparator" where
  "cmp_date h a b = nan_last (date_key h a) (date_key h b)"

text \<open>\<^verbatim>\<open>replace(/\s*dBm\s*/i, '')\<close>: the first match goes, with the white space around it.\<close>

fun strip_dbm :: "string \<Rightarrow> string" where
  "strip_dbm [] = []"
| "strip_dbm (c # s) =
     (let r = dropWhile is_ws (c # s) in
      if toLowerCase (take 3 r) = ''dbm'' then dropWhile is_ws (drop 3 r) else c # strip_dbm s)"

definition dbm_key :: "jsval \<Rightarrow> jsnum" where
  "dbm_key a = parseFloat (strip_dbm (js_String a))"

definition cmp_dbm :: comparator where
  "cmp_dbm a b = nan_last (dbm_key a) (dbm_key b)"

definition builtin :: "sort_host \<Rightarrow> string \<Rightarrow> comparator option" where
  "builtin h type =
     (if type = ''text'' then Some (cmp_text h)
      else if type = ''numeric'' then Some cmp_numeric
      else if type = ''date'' then Some (cmp_date h)
      else if type = ''dbm'' then Some cmp_dbm
      else None)"

section \<open>The table and its controller\<close>

record th =
  th_key :: "string option"
  th_type :: "string option"

record td =
  td_value :: "string option"
  td_text :: string

record sort_options =
  o_column :: "string option"
  o_direction :: "string option"
  o_storageKey :: "string option"
  o_comparators :: "comparator obj"
  o_reorder :: bool
  o_onSort :: bool

record sort_table =
  t_ths :: "th list"
  t_rows :: "td list list"
  t_aria :: "string option list"
  t_column :: jsval
  t_direction :: jsval
  t_attached :: bool
  t_ls :: "string obj"
  t_calls :: "(jsval \<times> jsval) list"

definition resolveComparator :: "sort_host \<Rightarrow> string \<Rightarrow> th \<Rightarrow> comparator obj \<Rightarrow> comparator" where
  "resolveComparator h key th custom =
     (case obj_get custom key of
        Some c \<Rightarrow> c
      | None \<Rightarrow> (case th_type th of
                  None \<Rightarrow> cmp_text h
                | Some type \<Rightarrow> (case builtin h type of Some c \<Rightarrow> c | None \<Rightarrow> cmp_text h)))"

definition getCellValue :: "td option \<Rightarrow> string" where
  "getCellValue td = (case td of None \<Rightarrow> [] | Some c \<Rightarrow> (case td_value c of Some dv \<Rightarrow> dv | None \<Rightarrow> trim (td_text c)))"

text \<open>\<^verbatim>\<open>thMap[key]\<close>: a later header with the same key replaces an earlier one.\<close>

definition th_index :: "th list \<Rightarrow> string \<Rightarrow> nat option" where
  "th_index ths key = find (\<lambda>i. th_key (ths ! i) = Some key) (rev [0..<length ths])"

definition cell_at :: "nat \<Rightarrow> td list \<Rightarrow> string" where
  "cell_at i row = getCellValue (if i < length row then Some (row ! i) else None)"

definition ascending :: "sort_table \<Rightarrow> bool" where
  "ascending t = (t_direction t = JStr ''asc'')"

definition row_cmp :: "comparator \<Rightarrow> bool \<Rightarrow> nat \<Rightarrow> td list \<Rightarrow> td list \<Rightarrow> jsnum" where
  "row_cmp cmp asc i rowA rowB = times_dir asc (cmp (JStr (cell_at i rowA)) (JStr (cell_at i rowB)))"

definition sortDOM :: "sort_host \<Rightarrow> sort_options \<Rightarrow> sort_table \<Rightarrow> sort_table" where
  "sortDOM h opts t =
     (let key = js_String (t_column t) in
      case th_index (t_ths t) key of
        None \<Rightarrow> t
      | Some colIndex \<Rightarrow>
          (let cmp = resolveComparator h key (t_ths t ! colIndex) (o_comparators opts)
           in t\<lparr>t_rows := js_sort (row_cmp cmp (ascending t) colIndex) (t_rows t)\<rparr>))"

definition updateArrows :: "sort_table \<Rightarrow> sort_table" where
  "updateArrows t =
     t\<lparr>t_aria := map (\<lambda>i. case th_key (t_ths t ! i) of
          None \<Rightarrow> t_aria t ! i
        | Some k \<Rightarrow>
            if th_index (t_ths t) k \<noteq> Some i then t_aria t ! i
            else if t_column t = JStr k then Some (if ascending t then ''ascending'' else ''descending'')
            else Some ''none'') [0..<length (t_ths t)]\<rparr>"

definition state_text :: "sort_table \<Rightarrow> string" where
  "state_text t = json_text (JObj [(''column'', t_column t), (''direction'', t_direction t)])"

definition doSort :: "(string obj \<Rightarrow> bool) \<Rightarrow> sort_host \<Rightarrow> sort_options \<Rightarrow> sort_table \<Rightarrow> sort_table" where
  "doSort fits h opts t =
     (let t1 = updateArrows t;
          t2 = (case o_storageKey opts of
                  None \<Rightarrow> t1
                | Some key \<Rightarrow>
                    (let ls = obj_set (t_ls t1) key (state_text t1) in if fits ls then t1\<lparr>t_ls := ls\<rparr> else t1));
          t3 = (if o_reorder opts then sortDOM h opts t2 else t2)
      in if o_onSort opts then t3\<lparr>t_calls := t_calls t3 @ [(t_column t3, t_direction t3)]\<rparr> else t3)"

definition opt_str :: "string option \<Rightarrow> jsval \<Rightarrow> jsval" where
  "opt_str s d = (case s of Some t \<Rightarrow> js_or (JStr t) d | None \<Rightarrow> d)"

text \<open>The column and direction a new controller starts with.\<close>

definition restored_state :: "sort_options \<Rightarrow> string obj \<Rightarrow> jsval \<times> jsval" where
  "restored_state opts ls =
     (let s0 = (opt_str (o_column opts) JNull, opt_str (o_direction opts) (JStr ''asc'')) in
      case o_storageKey opts of
        None \<Rightarrow> s0
      | Some key \<Rightarrow>
          (case obj_get ls key of
             None \<Rightarrow> s0
           | Some text \<Rightarrow>
               (case json_parse text of
                  None \<Rightarrow> s0
                | Some saved \<Rightarrow>
                    if truthy saved \<and> truthy (js_prop saved ''column'')
                    then (js_prop saved ''column'', js_or (js_prop saved ''direction'') (JStr ''asc''))
                    else s0)))"

definition sort_init :: "sort_host \<Rightarrow> sort_options \<Rightarrow> th list \<Rightarrow> td list list \<Rightarrow> string obj \<Rightarrow> sort_table" where
  "sort_init h opts ths rows ls =
     (let (col, dir) = restored_state opts ls;
          t = \<lparr>t_ths = ths, t_rows = rows, t_aria = map (\<lambda>th. if th_key th = None then None else Some ''none'') ths,
               t_column = col, t_direction = dir, t_attached = True, t_ls = ls, t_calls = []\<rparr>
      in if truthy col \<and> th_index ths (js_String col) \<noteq> None
         then (let t1 = updateArrows t in if o_reorder opts then sortDOM h opts t1 else t1)
         else t)"

datatype header_event = Click | Keydown string

text \<open>The handler of the header with index \<open>i\<close>.\<close>

definition header_handler ::
  "(string obj \<Rightarrow> bool) \<Rightarrow> sort_host \<Rightarrow> sort_options \<Rightarrow> nat \<Rightarrow> header_event \<Rightarrow> sort_table \<Rightarrow> sort_table" where
  "header_handler fits h opts i e t =
     (case th_key (t_ths t ! i) of
        None \<Rightarrow> t
      | Some key \<Rightarrow>
          if \<not> t_attached t \<or> (case e of Click \<Rightarrow> False | Keydown k \<Rightarrow> k \<noteq> ''Enter'' \<and> k \<noteq> '' '') then t
          else let t1 =
                 (if t_column t = JStr key
                  then t\<lparr>t_direction := JStr (if ascending t then ''desc'' else ''asc'')\<rparr>
                  else t\<lparr>t_column := JStr key,
                         t_direction := JStr (case th_type (t_ths t ! i) of
                             None \<Rightarrow> ''asc''
                           | Some ty \<Rightarrow> if ty = [] \<or> ty = ''text'' then ''asc'' else ''desc'')\<rparr>)
               in doSort fits h opts t1)"

definition sort_to :: "(string obj \<Rightarrow> bool) \<Rightarrow> sort_host \<Rightarrow> sort_options \<Rightarrow> jsval \<Rightarrow> jsval \<Rightarrow> sort_table \<Rightarrow> sort_table" where
  "sort_to fits h opts column direction t =
     (let t1 = (if truthy column then t\<lparr>t_column := column\<rparr> else t)
      in doSort fits h opts (if truthy direction then t1\<lparr>t_direction := direction\<rparr> else t1))"

definition getState :: "sort_table \<Rightarrow> jsval \<times> jsval" where
  "getState t = (t_column t, t_direction t)"

definition sort_destroy :: "sort_table \<Rightarrow> sort_table" where
  "sort_destroy t =
     (if t_attached t
      then t\<lparr>t_attached := False, t_aria := map (\<lambda>(th, a). if th_key th = None then a else None) (zip (t_ths t) (t_aria t))\<rparr>
      else t)"

section \<open>The comparators are consistent\<close>

interpretation numeric_cells: consistent cmp_numeric UNIV
  by (rule consistent_key [of _ _ js_Number]) (simp_all add: cmp_numeric_def)

interpretation date_cells: consistent "cmp_date h" UNIV for h
  by (rule consistent_key [of _ _ "date_key h"]) (simp_all add: cmp_date_def)

interpretation dbm_cells: consistent cmp_dbm UNIV
  by (rule consistent_key [of _ _ dbm_key]) (simp_all add: cmp_dbm_def)

text \<open>What the sort relies on of \<^verbatim>\<open>localeCompare\<close>: a finite number, signs that mirror, transitivity.\<close>

definition collates :: "sort_host \<Rightarrow> bool" where
  "collates h \<longleftrightarrow> consistent (localeCompare h) UNIV \<and> (\<forall>a b. \<exists>q. localeCompare h a b = Fin q)"

lemma consistent_image: "consistent cmp UNIV \<Longrightarrow> consistent (\<lambda>a b. cmp (f a) (f b)) A"
  unfolding consistent_def by blast

lemma text_consistent: "collates h \<Longrightarrow> consistent (cmp_text h) UNIV"
  unfolding cmp_text_def collates_def by (rule consistent_image [where f = "\<lambda>a. js_String (if nullish a then JStr [] else a)"]) simp

lemma builtin_consistent: "collates h \<Longrightarrow> builtin h type = Some c \<Longrightarrow> consistent c UNIV"
  by (auto simp: builtin_def text_consistent numeric_cells.consistent_axioms date_cells.consistent_axioms
      dbm_cells.consistent_axioms split: if_splits)

lemma resolved_consistent:
  "collates h \<Longrightarrow> obj_get custom key = None \<Longrightarrow> consistent (resolveComparator h key th custom) UNIV"
  by (auto simp: resolveComparator_def text_consistent builtin_consistent split: option.splits)

lemma row_cmp_consistent: "consistent cmp UNIV \<Longrightarrow> consistent (row_cmp cmp asc i) UNIV"
  unfolding row_cmp_def by (rule consistent_reverse, rule consistent_image)

lemma js_sort_again:
  assumes "consistent cmp A" "set xs \<subseteq> A"
  shows "js_sort cmp (js_sort cmp xs) = js_sort cmp xs"
  using consistent.js_sort_unique [OF assms(1), of "js_sort cmp xs" "js_sort cmp xs"] consistent.sorts [OF assms] assms(2)
  by simp

lemma in_order_key:
  fixes key :: "'a \<Rightarrow> 'k::linorder"
  assumes "\<And>a b. positive (cmp a b) \<longleftrightarrow> (if asc then key b < key a else key a < key b)"
  shows "in_order cmp xs \<longleftrightarrow> sorted (if asc then map key xs else rev (map key xs))"
  by (cases asc) (simp_all add: in_order_def assms sorted_wrt_map sorted_wrt_rev rev_map [symmetric] not_less)

section \<open>Sorted rows\<close>

text \<open>
  C35: after sorting, the table holds the same rows, ordered by the comparator of the column in the chosen
  direction; rows the comparator does not separate keep their order, and sorting again changes nothing.  In
  a numeric column the keys ascend, cells that are not numbers last, or descend, such cells first.
\<close>

theorem table_sorted:
  assumes "collates h" "th_index (t_ths t) (js_String (t_column t)) = Some i"
    and "obj_get (o_comparators opts) (js_String (t_column t)) = None"
  shows "let t' = sortDOM h opts t; th = t_ths t ! i;
             cmp = row_cmp (resolveComparator h (js_String (t_column t)) th []) (ascending t) i;
             keys = map (\<lambda>row. js_Number (JStr (cell_at i row))) (t_rows t') in
     mset (t_rows t') = mset (t_rows t) \<and> in_order cmp (t_rows t') \<and>
     (\<forall>row. filter (tied cmp row) (t_rows t') = filter (tied cmp row) (t_rows t)) \<and>
     sortDOM h opts t' = t' \<and>
     (th_type th = Some ''numeric'' \<longrightarrow> sorted (if ascending t then keys else rev keys))"
proof -
  let ?key = "js_String (t_column t)" and ?th = "t_ths t ! i"
  define cmp where "cmp = row_cmp (resolveComparator h ?key ?th []) (ascending t) i"
  have custom: "resolveComparator h ?key ?th (o_comparators opts) = resolveComparator h ?key ?th []"
    using assms(3) by (simp add: resolveComparator_def)
  have c: "consistent cmp UNIV" unfolding cmp_def by (intro row_cmp_consistent resolved_consistent assms(1)) simp
  have t': "sortDOM h opts t = t\<lparr>t_rows := js_sort cmp (t_rows t)\<rparr>"
    using assms(2) by (simp add: sortDOM_def custom cmp_def)
  have again: "sortDOM h opts (t\<lparr>t_rows := rows\<rparr>) = t\<lparr>t_rows := js_sort cmp rows\<rparr>" for rows
    using assms(2) by (simp add: sortDOM_def custom cmp_def ascending_def)
  have num: "in_order cmp rows \<longleftrightarrow>
      sorted (if ascending t then map (\<lambda>row. js_Number (JStr (cell_at i row))) rows else rev (map (\<lambda>row. js_Number (JStr (cell_at i row))) rows))"
    if "th_type ?th = Some ''numeric''" for rows
    by (rule in_order_key) (simp add: cmp_def row_cmp_def resolveComparator_def that builtin_def cmp_numeric_def)
  show ?thesis
    using consistent.sorts [OF c, of "t_rows t"] consistent.stable [OF c, of "t_rows t"] num [of "js_sort cmp (t_rows t)"]
    by (simp add: t' again js_sort_again [OF c] Let_def del: js_Number.simps split del: if_split cong: if_cong flip: cmp_def)
qed

definition sample_host :: sort_host where
  "sample_host = \<lparr>localeCompare = (\<lambda>a b. Fin (of_nat (length a) - of_nat (length b))), parseDate = (\<lambda>_. NaN)\<rparr>"

lemma sample_collates: "collates sample_host"
  unfolding collates_def sample_host_def by (auto intro!: consistent_key [of _ _ length])

definition sample_cell :: "string \<Rightarrow> td" where
  "sample_cell v = \<lparr>td_value = Some v, td_text = ''shown''\<rparr>"

definition sample_table :: sort_table where
  "sample_table = \<lparr>t_ths = [\<lparr>th_key = Some ''name'', th_type = None\<rparr>, \<lparr>th_key = Some ''count'', th_type = Some ''numeric''\<rparr>],
     t_rows = [[sample_cell ''a'', sample_cell ''7''], [sample_cell ''b'', sample_cell ''x''], [sample_cell ''c'', sample_cell ''12'']],
     t_aria = [None, None], t_column = JStr ''count'', t_direction = JStr ''desc'', t_attached = True, t_ls = [], t_calls = []\<rparr>"

definition sample_options :: sort_options where
  "sample_options = \<lparr>o_column = Some ''count'', o_direction = Some ''desc'', o_storageKey = Some ''meshcore-observers-sort'',
     o_comparators = [], o_reorder = True, o_onSort = True\<rparr>"

lemma sample_index: "th_index (t_ths sample_table) ''count'' = Some 1" "th_index (t_ths sample_table) ''name'' = Some 0"
  by (simp_all add: sample_table_def th_index_def upt_rec)

theorem table_sorted_witness:
  "let keys = map (\<lambda>row. js_Number (JStr (cell_at 1 row))) (t_rows (sortDOM sample_host sample_options sample_table)) in
   sorted (rev keys) \<and> mset keys = {#Fin 7, NaN, Fin 12#}"
proof -
  have col: "js_String (t_column sample_table) = ''count''" "\<not> ascending sample_table"
    "th_type (t_ths sample_table ! 1) = Some ''numeric''"
    by (simp_all add: sample_table_def ascending_def)
  have n: "js_Number (JStr ''7'') = Fin 7" "js_Number (JStr ''12'') = Fin 12" "js_Number (JStr ''x'') = NaN"
    by code_simp+
  note s = table_sorted [OF sample_collates, of sample_table 1 sample_options, unfolded col(1)]
  have "mset (t_rows (sortDOM sample_host sample_options sample_table)) = mset (t_rows sample_table)"
    and "sorted (rev (map (\<lambda>row. js_Number (JStr (cell_at 1 row))) (t_rows (sortDOM sample_host sample_options sample_table))))"
    using s sample_index col by (simp_all add: Let_def sample_options_def)
  moreover have "image_mset (\<lambda>row. js_Number (JStr (cell_at 1 row))) (mset (t_rows sample_table)) = {#Fin 7, NaN, Fin 12#}"
    by (simp add: sample_table_def cell_at_def getCellValue_def sample_cell_def n del: js_Number.simps)
  ultimately show ?thesis by (simp add: Let_def del: js_Number.simps)
qed

section \<open>The remembered column\<close>

lemma find_SomeD: "find P xs = Some x \<Longrightarrow> x \<in> set xs \<and> P x"
  by (induction xs) (auto split: if_splits)

lemma th_index_key: "th_index ths k = Some i \<Longrightarrow> i < length ths \<and> th_key (ths ! i) = Some k"
  using find_SomeD [of "\<lambda>i. th_key (ths ! i) = Some k" "rev [0..<length ths]" i] by (simp add: th_index_def)

lemma th_index_exists:
  assumes "i < length ths" "th_key (ths ! i) = Some k"
  shows "th_index ths k \<noteq> None"
  using assms by (auto simp: th_index_def find_None_iff)

lemma sortDOM_keeps [simp]:
  "t_ths (sortDOM h opts t) = t_ths t" "t_aria (sortDOM h opts t) = t_aria t" "t_column (sortDOM h opts t) = t_column t"
  "t_direction (sortDOM h opts t) = t_direction t" "t_attached (sortDOM h opts t) = t_attached t" "t_ls (sortDOM h opts t) = t_ls t"
  "mset (t_rows (sortDOM h opts t)) = mset (t_rows t)"
  by (simp_all add: sortDOM_def Let_def split: option.split)

lemma updateArrows_keeps [simp]:
  "t_ths (updateArrows t) = t_ths t" "t_rows (updateArrows t) = t_rows t" "t_column (updateArrows t) = t_column t"
  "t_direction (updateArrows t) = t_direction t" "t_attached (updateArrows t) = t_attached t" "t_ls (updateArrows t) = t_ls t"
  by (simp_all add: updateArrows_def)

lemma doSort_keeps [simp]:
  "t_ths (doSort fits h opts t) = t_ths t" "t_column (doSort fits h opts t) = t_column t"
  "t_direction (doSort fits h opts t) = t_direction t" "t_attached (doSort fits h opts t) = t_attached t"
  "t_aria (doSort fits h opts t) = t_aria (updateArrows t)"
  "mset (t_rows (doSort fits h opts t)) = mset (t_rows t)"
  by (simp_all add: doSort_def Let_def split: option.split)

lemma doSort_ls:
  "o_storageKey opts = Some key \<Longrightarrow> t_ls (doSort fits h opts t) =
     (if fits (obj_set (t_ls t) key (state_text t)) then obj_set (t_ls t) key (state_text t) else t_ls t)"
  by (simp add: doSort_def state_text_def Let_def)

definition load_sort :: "string \<Rightarrow> string obj \<Rightarrow> (jsval \<times> jsval) option" where
  "load_sort key ls =
     (case restored_state \<lparr>o_column = None, o_direction = None, o_storageKey = Some key, o_comparators = [], o_reorder = False, o_onSort = False\<rparr> ls
      of (c, d) \<Rightarrow> if truthy c then Some (c, d) else None)"

definition save_sort :: "string \<Rightarrow> (jsval \<times> jsval) option \<Rightarrow> string obj \<Rightarrow> string obj" where
  "save_sort key s ls =
     (case s of None \<Rightarrow> obj_del ls key
      | Some (c, d) \<Rightarrow> obj_set ls key (json_text (JObj [(''column'', c), (''direction'', d)])))"

lemma saved_text: "json_ok c \<Longrightarrow> json_ok d \<Longrightarrow> truthy c \<Longrightarrow> truthy d \<Longrightarrow> o_storageKey opts = Some key \<Longrightarrow>
  restored_state opts (obj_set ls key (json_text (JObj [(''column'', c), (''direction'', d)]))) = (c, d)"
  using json_parse_text [of "JObj [(''column'', c), (''direction'', d)]"]
  by (simp add: restored_state_def obj_get_set js_prop_def table_get_def js_or_def del: json_text.simps)

lemma restored_cong: "obj_get ls k = obj_get ls' k \<Longrightarrow> o_storageKey opts = Some k \<Longrightarrow> restored_state opts ls = restored_state opts ls'"
  by (simp add: restored_state_def)

lemma load_sort_none: "obj_get ls key = None \<Longrightarrow> load_sort key ls = None"
  by (simp add: load_sort_def restored_state_def opt_str_def)

interpretation sort_memory: persisted "''meshcore-observers-sort''" "load_sort ''meshcore-observers-sort''"
    "save_sort ''meshcore-observers-sort''"
    "\<lambda>s. case s of None \<Rightarrow> True | Some (c, d) \<Rightarrow> json_ok c \<and> json_ok d \<and> truthy c \<and> truthy d"
proof unfold_locales
  fix v ls
  assume ok: "case v of None \<Rightarrow> True | Some (c, d) \<Rightarrow> json_ok c \<and> json_ok d \<and> truthy c \<and> truthy d"
  show "load_sort ''meshcore-observers-sort'' (save_sort ''meshcore-observers-sort'' v ls) = v"
  proof (cases v)
    case None
    then show ?thesis by (simp add: save_sort_def load_sort_none obj_get_del)
  next
    case (Some cd)
    then show ?thesis using ok by (cases cd) (simp add: save_sort_def load_sort_def saved_text del: json_text.simps)
  qed
next
  show "obj_get (save_sort ''meshcore-observers-sort'' v ls) k = obj_get ls k" if "k \<noteq> ''meshcore-observers-sort''" for k v ls
    using that by (simp add: save_sort_def obj_get_del obj_get_set split: option.split)
  show "load_sort ''meshcore-observers-sort'' ls = load_sort ''meshcore-observers-sort'' ls'"
    if "obj_get ls ''meshcore-observers-sort'' = obj_get ls' ''meshcore-observers-sort''" for ls ls'
    unfolding load_sort_def by (simp only: restored_cong [OF that] sort_options.simps)
qed

lemma getState_init [simp]: "getState (sort_init h opts ths rows ls) = restored_state opts ls"
  by (cases "restored_state opts ls") (simp add: getState_def sort_init_def Let_def)

definition default_direction :: "th \<Rightarrow> string" where
  "default_direction th = (if th_type th \<in> {None, Some [], Some ''text''} then ''asc'' else ''desc'')"

lemma header_handler_click:
  assumes "t_attached t" "th_key (t_ths t ! i) = Some k"
  shows "header_handler fits h opts i Click t =
    doSort fits h opts (t\<lparr>t_column := JStr k, t_direction := JStr
      (if t_column t = JStr k then (if ascending t then ''desc'' else ''asc'') else default_direction (t_ths t ! i))\<rparr>)"
  using assms by (cases t; cases "th_type (t_ths t ! i)") (simp_all add: header_handler_def default_direction_def ascending_def)

text \<open>
  a click on a header sorts by its column: a new column starts ascending if it holds text and descending
  otherwise, the same column turns around.  A later controller with the same storage key, whatever its table
  and its defaults, starts with that column and direction; no other entry of the storage is touched, and of
  the headers with a key exactly that one carries the mark of its direction.
\<close>

theorem sort_remembered:
  assumes "t_attached t" "i < length (t_ths t)" "th_key (t_ths t ! i) = Some k" "k \<noteq> []"
    and "o_storageKey opts = Some key" "o_storageKey opts' = Some key" "\<forall>ls. fits ls"
  shows "let t1 = header_handler fits h opts i Click t; t2 = header_handler fits h opts i Click t1;
             flip = (\<lambda>d. if d = ''asc'' then ''desc'' else ''asc'') in
     (\<exists>d \<in> {''asc'', ''desc''}.
        getState t1 = (JStr k, JStr d) \<and> getState t2 = (JStr k, JStr (flip d)) \<and>
        (t_column t \<noteq> JStr k \<longrightarrow> d = default_direction (t_ths t ! i)) \<and>
        getState (sort_init h' opts' ths' rows' (t_ls t1)) = getState t1 \<and>
        getState (sort_init h' opts' ths' rows' (t_ls t2)) = getState t2 \<and>
        (\<forall>k'. k' \<noteq> key \<longrightarrow> obj_get (t_ls t2) k' = obj_get (t_ls t) k') \<and>
        (\<forall>k' j. th_index (t_ths t) k' = Some j \<longrightarrow>
           t_aria t1 ! j = Some (if k' \<noteq> k then ''none'' else if d = ''asc'' then ''ascending'' else ''descending'')) \<and>
        mset (t_rows t2) = mset (t_rows t))"
proof -
  define d where "d = (if t_column t = JStr k then (if ascending t then ''desc'' else ''asc'') else default_direction (t_ths t ! i))"
  define t1 where "t1 = header_handler fits h opts i Click t"
  define t2 where "t2 = header_handler fits h opts i Click t1"
  have d: "d \<in> {''asc'', ''desc''}" by (simp add: d_def default_direction_def)
  then have d0: "d \<noteq> []" by auto
  note c1 = header_handler_click [OF assms(1,3), of fits h opts, folded d_def t1_def]
  have a1: "t_attached t1" "t_ths t1 = t_ths t" "t_column t1 = JStr k" "t_direction t1 = JStr d" using assms(1) by (simp_all add: c1)
  have c2: "t2 = doSort fits h opts (t1\<lparr>t_column := JStr k, t_direction := JStr (if d = ''asc'' then ''desc'' else ''asc'')\<rparr>)"
    using header_handler_click [OF a1(1), of i k fits h opts] assms(3) by (simp add: a1 ascending_def t2_def)
  have ls1: "t_ls t1 = obj_set (t_ls t) key (json_text (JObj [(''column'', JStr k), (''direction'', JStr d)]))"
    and ls2: "t_ls t2 = obj_set (t_ls t1) key (json_text (JObj [(''column'', JStr k), (''direction'', JStr (if d = ''asc'' then ''desc'' else ''asc''))]))"
    unfolding c1 c2 using assms(7) by (simp_all add: doSort_ls [OF assms(5)] state_text_def del: json_text.simps)
  have r: "restored_state opts' (t_ls t1) = (JStr k, JStr d)"
    "restored_state opts' (t_ls t2) = (JStr k, JStr (if d = ''asc'' then ''desc'' else ''asc''))"
    unfolding ls1 ls2 using d0 assms(4) by (simp_all add: saved_text [OF _ _ _ _ assms(6)] del: json_text.simps)
  have aria: "t_aria t1 ! j = Some (if k' \<noteq> k then ''none'' else if d = ''asc'' then ''ascending'' else ''descending'')"
    if "th_index (t_ths t) k' = Some j" for k' j
    using that th_index_key [OF that] by (auto simp: c1 updateArrows_def ascending_def)
  have rest: "mset (t_rows t2) = mset (t_rows t)" "\<forall>k'. k' \<noteq> key \<longrightarrow> obj_get (t_ls t2) k' = obj_get (t_ls t) k'"
    by (simp add: c2, simp add: c1) (simp add: ls2 ls1 obj_get_set)
  show ?thesis
    unfolding Let_def t1_def [symmetric] t2_def [symmetric] getState_init r
    by (rule bexI [OF _ d]) (use rest aria in \<open>simp add: getState_def a1 c2 d_def\<close>)
qed

theorem sort_remembered_witness:
  "getState (sort_init sample_host sample_options [] [] (t_ls (header_handler (\<lambda>_. True) sample_host sample_options 0 Click sample_table)))
     = (JStr ''name'', JStr ''asc'')"
proof -
  have "t_attached sample_table" "0 < length (t_ths sample_table)" "th_key (t_ths sample_table ! 0) = Some ''name''"
    "t_column sample_table \<noteq> JStr ''name''" "default_direction (t_ths sample_table ! 0) = ''asc''"
    by (simp_all add: sample_table_def default_direction_def)
  moreover have "o_storageKey sample_options = Some ''meshcore-observers-sort''" by (simp add: sample_options_def)
  ultimately show ?thesis
    using sort_remembered [of sample_table 0 "''name''" sample_options "''meshcore-observers-sort''" sample_options "\<lambda>_. True"
        sample_host sample_host "[]" "[]"]
    by (auto simp: Let_def)
qed

end
