(* ===== verification/Row_Order.thy ===== *)
theory Row_Order
  imports Table_Sort Packet_Filter_Eval "HOL-Library.List_Lexorder" "HOL-Library.Char_ord"
begin

text \<open>
  The order of the rows in the two large tables: \<^verbatim>\<open>sortPacketsArray\<close> of \<^verbatim>\<open>src/public/packets.js\<close> and
  \<^verbatim>\<open>sortNodes\<close> with the pinned rows of \<^verbatim>\<open>renderRows\<close> of \<^verbatim>\<open>src/public/nodes.js\<close>.  Both follow the column and
  direction of a controller of \<^verbatim>\<open>Table_Sort\<close> but sort their data themselves.  Packets and nodes are objects as
  the server sends them.  The texts are lists of bytes, so the long dash stands here as its UTF-8 bytes.
\<close>

section \<open>Packets\<close>

record packet_env =
  pe_observers :: "(jsval \<times> jsval) list"
  pe_regions :: "jsval obj"

definition typeName :: "jsval \<Rightarrow> jsval" where
  "typeName t =
     (let n = table_get (str_table SHORT_BY_ID) (js_String t) in if nullish n then JStr (''Type '' @ js_String t) else n)"

definition long_dash :: string where
  "long_dash = [CHR 0xE2, CHR 0x80, CHR 0x94]"

definition obsName :: "packet_env \<Rightarrow> jsval \<Rightarrow> jsval" where
  "obsName env i =
     (if \<not> truthy i then JStr long_dash
      else case find (\<lambda>e. strict_eq (fst e) i) (pe_observers env) of
             None \<Rightarrow> i
           | Some (_, ob) \<Rightarrow>
               if \<not> truthy ob then i
               else if truthy (js_prop ob ''iata'')
               then JStr (js_String (js_prop ob ''name'') @ '' ('' @ js_String (js_prop ob ''iata'') @ '')'')
               else js_prop ob ''name'')"

definition path_of :: "jsval \<Rightarrow> jsval list option" where
  "path_of p =
     (case (case js_prop p ''path_json'' of JStr s \<Rightarrow> json_parse s | v \<Rightarrow> Some v) of
        Some (JArr pj) \<Rightarrow> Some pj
      | _ \<Rightarrow> None)"

text \<open>The sort value of a packet; \<open>None\<close> for a column that cannot be sorted.\<close>

definition accessor :: "packet_env \<Rightarrow> string \<Rightarrow> (jsval \<Rightarrow> jsval) option" where
  "accessor env col =
     (if col = ''time'' then Some (\<lambda>p. js_or (js_or (js_prop p ''latest'') (js_prop p ''timestamp'')) (JStr []))
      else if col = ''type'' then Some (\<lambda>p. typeName (js_prop p ''payload_type''))
      else if col = ''hash'' then Some (\<lambda>p. js_or (js_prop p ''hash'') (JStr []))
      else if col = ''observer'' then Some (\<lambda>p. obsName env (js_prop p ''observer_id''))
      else if col = ''size'' then Some (\<lambda>p. js_or (js_prop p ''packet_size'') (JNum (Fin 0)))
      else if col = ''hb'' then
        Some (\<lambda>p. if nullish (js_prop p ''hash_byte_count'') then js_or (js_prop p ''hash_size'') (JNum (Fin 0))
                  else js_prop p ''hash_byte_count'')
      else if col = ''rpt'' then
        Some (\<lambda>p. JNum (Fin (case path_of p of Some pj \<Rightarrow> of_nat (length pj) | None \<Rightarrow> 0)))
      else if col = ''scope'' then Some (\<lambda>p. js_or (js_prop p ''scope_name'') (JStr []))
      else if col = ''region'' then
        Some (\<lambda>p. js_or (table_get (pe_regions env) (js_String (js_prop p ''observer_id''))) (JStr []))
      else if col = ''path'' then
        Some (\<lambda>p. JStr (case path_of p of Some pj \<Rightarrow> js_String (JArr pj) | None \<Rightarrow> []))
      else None)"

definition has_scope :: "jsval \<Rightarrow> bool" where
  "has_scope p = truthy (js_prop p ''scope_name'')"

definition tie_time :: "jsval \<Rightarrow> jsval" where
  "tie_time p = js_or (js_or (js_prop p ''timestamp'') (js_prop p ''first_seen'')) (JStr [])"

definition primary_cmp :: "sort_host \<Rightarrow> string \<Rightarrow> comparator" where
  "primary_cmp h col =
     (if col = ''time'' then cmp_date h
      else if col = ''size'' \<or> col = ''hb'' \<or> col = ''rpt'' then cmp_numeric
      else cmp_text h)"

definition packet_cmp :: "sort_host \<Rightarrow> string \<Rightarrow> bool \<Rightarrow> (jsval \<Rightarrow> jsval) \<Rightarrow> jsval \<Rightarrow> jsval \<Rightarrow> jsnum" where
  "packet_cmp h col asc acc a b =
     (if col = ''scope'' \<and> has_scope a \<noteq> has_scope b then Fin (of_bool (has_scope b) - of_bool (has_scope a))
      else let r = primary_cmp h col (acc a) (acc b);
               r' = (if r = Fin 0 \<and> col \<noteq> ''time'' then num_minus (cmp_date h (tie_time a) (tie_time b)) else r)
           in times_dir asc r')"

definition sortPacketsArray :: "sort_host \<Rightarrow> packet_env \<Rightarrow> jsval \<Rightarrow> jsval \<Rightarrow> jsval list \<Rightarrow> jsval list" where
  "sortPacketsArray h env column direction packets =
     (if \<not> truthy column \<or> packets = [] then packets
      else case column of
             JStr col \<Rightarrow>
               (case accessor env col of
                  None \<Rightarrow> packets
                | Some acc \<Rightarrow> js_sort (packet_cmp h col (direction = JStr ''asc'') acc) packets)
           | _ \<Rightarrow> packets)"

section \<open>Nodes\<close>

definition cmp_string :: "bool \<Rightarrow> string \<Rightarrow> string \<Rightarrow> jsnum" where
  "cmp_string asc va vb = (if va < vb then times_dir asc (Fin (-1)) else if vb < va then times_dir asc (Fin 1) else Fin 0)"

definition lower_prop :: "jsval \<Rightarrow> string \<Rightarrow> string" where
  "lower_prop n k = toLowerCase (js_String (js_or (js_prop n k) (JStr [])))"

definition last_seen_ms :: "sort_host \<Rightarrow> jsval \<Rightarrow> jsnum" where
  "last_seen_ms h n =
     (if truthy (js_prop n ''last_heard'') then date_time h (js_prop n ''last_heard'')
      else if truthy (js_prop n ''last_seen'') then date_time h (js_prop n ''last_seen'')
      else Fin 0)"

text \<open>Text columns whose empty values come last in both directions.\<close>

definition empty_last :: "string \<Rightarrow> bool \<Rightarrow> jsval \<Rightarrow> jsval \<Rightarrow> jsnum" where
  "empty_last k asc a b =
     (if \<not> truthy (js_prop a k) \<and> truthy (js_prop b k) then Fin 1
      else if truthy (js_prop a k) \<and> \<not> truthy (js_prop b k) then Fin (-1)
      else cmp_string asc (lower_prop a k) (lower_prop b k))"

text \<open>A date column whose empty values come last in both directions.\<close>

definition first_seen_cmp :: "sort_host \<Rightarrow> bool \<Rightarrow> jsval \<Rightarrow> jsval \<Rightarrow> jsnum" where
  "first_seen_cmp h asc a b =
     (let aHas = truthy (js_prop a ''first_seen''); bHas = truthy (js_prop b ''first_seen'') in
      if aHas \<noteq> bHas then Fin (of_bool bHas - of_bool aHas)
      else if \<not> aHas then Fin 0
      else times_dir asc (num_diff (date_time h (js_prop a ''first_seen'')) (date_time h (js_prop b ''first_seen''))))"

definition node_cmp :: "sort_host \<Rightarrow> jsval \<Rightarrow> bool \<Rightarrow> jsval \<Rightarrow> jsval \<Rightarrow> jsnum" where
  "node_cmp h col asc a b =
     (if col = JStr ''name'' then empty_last ''name'' asc a b
      else if col = JStr ''public_key'' then
        cmp_string asc (js_String (js_or (js_prop a ''public_key'') (JStr []))) (js_String (js_or (js_prop b ''public_key'') (JStr [])))
      else if col = JStr ''role'' then cmp_string asc (lower_prop a ''role'') (lower_prop b ''role'')
      else if col = JStr ''default_scope'' then empty_last ''default_scope'' asc a b
      else if col = JStr ''last_seen'' then times_dir asc (num_diff (last_seen_ms h a) (last_seen_ms h b))
      else if col = JStr ''advert_count'' then
        times_dir asc (num_diff (js_Number (js_or (js_prop a ''advert_count'') (JNum (Fin 0))))
                                (js_Number (js_or (js_prop b ''advert_count'') (JNum (Fin 0)))))
      else if col = JStr ''first_seen'' then first_seen_cmp h asc a b
      else Fin 0)"

text \<open>The state of the controller, else the stored one, else the newest first.\<close>

definition getSortState :: "(jsval \<times> jsval) option \<Rightarrow> string obj \<Rightarrow> jsval \<times> jsval" where
  "getSortState ctrl ls =
     (case ctrl of
        Some s \<Rightarrow> s
      | None \<Rightarrow>
          (let d = (JStr ''last_seen'', JStr ''desc'') in
           case obj_get ls ''meshcore-nodes-sort'' of
             None \<Rightarrow> d
           | Some text \<Rightarrow>
               (case json_parse text of
                  None \<Rightarrow> d
                | Some saved \<Rightarrow>
                    if truthy saved \<and> truthy (js_prop saved ''column'') \<and> truthy (js_prop saved ''direction'')
                    then (js_prop saved ''column'', js_prop saved ''direction'') else d)))"

definition sortNodes :: "sort_host \<Rightarrow> jsval \<times> jsval \<Rightarrow> jsval list \<Rightarrow> jsval list" where
  "sortNodes h st arr = js_sort (node_cmp h (fst st) (snd st = JStr ''asc'')) arr"

definition getFavorites :: "string obj \<Rightarrow> jsval" where
  "getFavorites ls =
     (case json_parse (case obj_get ls ''meshcore-favorites'' of Some t \<Rightarrow> if t = [] then ''[]'' else t | None \<Rightarrow> ''[]'') of
        Some v \<Rightarrow> v | None \<Rightarrow> JArr [])"

text \<open>\<^verbatim>\<open>myNodes.map(n => n.pubkey)\<close>; \<open>None\<close> is the exception when it is no list of values with properties.\<close>

definition my_keys :: "string obj \<Rightarrow> jsval list option" where
  "my_keys ls =
     (case json_parse (case obj_get ls ''meshcore-my-nodes'' of Some t \<Rightarrow> if t = [] then ''[]'' else t | None \<Rightarrow> ''[]'') of
        Some (JArr ns) \<Rightarrow> those (map (\<lambda>n. js_get n ''pubkey'') ns)
      | _ \<Rightarrow> None)"

definition includes_value :: "jsval list \<Rightarrow> jsval \<Rightarrow> bool" where
  "includes_value vs v = list_ex (\<lambda>w. strict_eq w v) vs"

text \<open>\<^verbatim>\<open>favs.includes\<close>: of a list or of a text, otherwise there is no such method.\<close>

definition fav_test :: "jsval \<Rightarrow> (jsval \<Rightarrow> bool) option" where
  "fav_test favs =
     (case favs of
        JArr vs \<Rightarrow> Some (includes_value vs)
      | JStr s \<Rightarrow> Some (\<lambda>v. sublist (js_String v) s)
      | _ \<Rightarrow> None)"

definition pin_cmp :: "(jsval \<Rightarrow> bool) \<Rightarrow> (jsval \<Rightarrow> bool) \<Rightarrow> jsval \<Rightarrow> jsval \<Rightarrow> jsnum" where
  "pin_cmp mine fav a b =
     (let aMy = (if mine (js_prop a ''public_key'') then 0 else 1); bMy = (if mine (js_prop b ''public_key'') then 0 else 1);
          aFav = (if fav (js_prop a ''public_key'') then 0 else 1); bFav = (if fav (js_prop b ''public_key'') then 0 else 1)
      in if aMy \<noteq> bMy then Fin (aMy - bMy) else Fin (aFav - bFav))"

text \<open>
  The nodes in the order of their rows.  \<open>None\<close> is the exception that leaves the table as it was: the stored
  lists are not lists (the stars of the rows need the favourites as well).
\<close>

definition rendered_nodes :: "sort_host \<Rightarrow> jsval \<times> jsval \<Rightarrow> string obj \<Rightarrow> jsval list \<Rightarrow> jsval list option" where
  "rendered_nodes h st ls nodes =
     (if nodes = [] then Some []
      else case my_keys ls of
             None \<Rightarrow> None
           | Some mine \<Rightarrow>
               (case fav_test (getFavorites ls) of
                  None \<Rightarrow> None
                | Some fav \<Rightarrow> Some (js_sort (pin_cmp (includes_value mine) fav) (sortNodes h st nodes))))"

section \<open>Consistency of the comparators\<close>

text \<open>Rows with a property before the others, whatever the direction.\<close>

definition pinned :: "('a \<Rightarrow> bool) \<Rightarrow> 'a \<Rightarrow> 'a \<Rightarrow> jsnum" where
  "pinned P a b = Fin (of_bool (P b) - of_bool (P a))"

lemma pinned_sign [simp]:
  "positive (pinned P a b) \<longleftrightarrow> \<not> P a \<and> P b" "negative (pinned P a b) \<longleftrightarrow> P a \<and> \<not> P b" "pinned P a b = Fin 0 \<longleftrightarrow> P a = P b"
  by (auto simp: pinned_def)

lemma pinned_consistent: "consistent (pinned P) A" "uniform_ties (pinned P) A"
  by (rule consistent_key [of _ _ "\<lambda>a. \<not> P a"]; auto) (auto simp: uniform_ties_def tied_def)

lemma constant_consistent: "consistent (\<lambda>_ _. Fin 0) A" "uniform_ties (\<lambda>_ _. Fin 0) A"
  by (simp_all add: consistent_def uniform_ties_def)

lemma nan_last_uniform: "uniform_ties (\<lambda>a b. nan_last (f a) (f b)) A"
  by (auto simp: uniform_ties_def tied_def nan_last_zero)

lemma zero_uniform:
  assumes "\<And>a b. a \<in> A \<Longrightarrow> b \<in> A \<Longrightarrow> \<exists>q. c a b = Fin q" "consistent c A"
  shows "uniform_ties c A"
proof -
  have zero: "c a b = Fin 0 \<longleftrightarrow> tied c a b" if "a \<in> A" "b \<in> A" for a b
    using assms(1) [OF that] by (auto simp: tied_def)
  note t = consistent.tied_iff [OF assms(2)] and tr = consistent.trans [OF assms(2)]
  show ?thesis unfolding uniform_ties_def by (simp add: zero t) (use tr in blast)
qed

lemma primary_consistent: "collates h \<Longrightarrow> consistent (primary_cmp h col) UNIV"
  by (simp add: primary_cmp_def text_consistent numeric_cells.consistent_axioms date_cells.consistent_axioms)

lemma primary_uniform:
  assumes "collates h"
  shows "uniform_ties (\<lambda>a b. primary_cmp h col (acc a) (acc b)) A"
proof -
  have "uniform_ties (\<lambda>a b. cmp_text h (acc a) (acc b)) A"
    using assms consistent_image [OF text_consistent [OF assms]]
    by (intro zero_uniform) (auto simp: collates_def cmp_text_def)
  then show ?thesis by (simp add: primary_cmp_def cmp_date_def cmp_numeric_def nan_last_uniform)
qed

definition date_tie :: "sort_host \<Rightarrow> string \<Rightarrow> jsval \<Rightarrow> jsval \<Rightarrow> jsnum" where
  "date_tie h col a b = (if col = ''time'' then Fin 0 else num_minus (cmp_date h (tie_time a) (tie_time b)))"

lemma date_tie_consistent: "consistent (date_tie h col) A"
proof (cases "col = ''time''")
  case False
  then have "date_tie h col = (\<lambda>a b. times_dir False (cmp_date h (tie_time a) (tie_time b)))"
    by (simp add: date_tie_def times_dir_def fun_eq_iff)
  then show ?thesis using consistent_reverse [OF consistent_image [OF date_cells.consistent_axioms]] by metis
qed (simp add: date_tie_def [abs_def] consistent_def)

lemma packet_cmp_eq:
  "packet_cmp h col asc acc =
     then_by (if col = ''scope'' then pinned has_scope else (\<lambda>_ _. Fin 0))
       (\<lambda>a b. times_dir asc (then_by (\<lambda>a b. primary_cmp h col (acc a) (acc b)) (date_tie h col) a b))"
  by (auto simp: fun_eq_iff packet_cmp_def then_by_def Let_def date_tie_def) (simp_all add: pinned_def)

lemma packet_consistent:
  assumes "collates h"
  shows "consistent (packet_cmp h col asc acc) A"
proof -
  have "consistent (\<lambda>a b. primary_cmp h col (acc a) (acc b)) A" by (rule consistent_image [OF primary_consistent [OF assms]])
  from consistent_reverse [OF consistent_then_by [OF this date_tie_consistent primary_uniform [OF assms]]]
  show ?thesis
    unfolding packet_cmp_eq by (rule consistent_then_by [rotated]) (simp_all add: pinned_consistent constant_consistent)
qed

lemma cmp_string_consistent: "consistent (\<lambda>a b. cmp_string asc (f a) (f b)) A"
proof -
  have "consistent (cmp_string True) UNIV"
    by (rule consistent_key [of _ _ "\<lambda>s. s"]) (auto simp: cmp_string_def times_dir_def)
  moreover have "cmp_string asc = (\<lambda>a b. times_dir asc (cmp_string True a b))" by (cases asc) (auto simp: fun_eq_iff cmp_string_def times_dir_def)
  ultimately show ?thesis by (simp only:) (rule consistent_image [OF consistent_reverse])
qed

lemma empty_last_eq:
  "empty_last k asc = then_by (pinned (\<lambda>n. truthy (js_prop n k))) (\<lambda>a b. cmp_string asc (lower_prop a k) (lower_prop b k))"
  by (auto simp: fun_eq_iff empty_last_def then_by_def) (simp_all add: pinned_def)

lemma empty_last_consistent: "consistent (empty_last k asc) A"
  unfolding empty_last_eq by (intro consistent_then_by pinned_consistent cmp_string_consistent)

text \<open>The times and counters of a node are readable; an unreadable one would make the comparator contradict itself.\<close>

definition node_ok :: "sort_host \<Rightarrow> jsval \<Rightarrow> bool" where
  "node_ok h n \<longleftrightarrow> \<not> num_is_nan (last_seen_ms h n) \<and> \<not> num_is_nan (js_Number (js_or (js_prop n ''advert_count'') (JNum (Fin 0)))) \<and>
     (truthy (js_prop n ''first_seen'') \<longrightarrow> \<not> num_is_nan (date_time h (js_prop n ''first_seen'')))"

lemma diff_consistent:
  assumes "\<And>a. a \<in> A \<Longrightarrow> \<not> num_is_nan (f a)"
  shows "consistent (\<lambda>a b. num_diff (f a) (f b)) A"
  by (rule consistent_key [of _ _ f]) (simp_all add: num_diff_sign assms)

lemma first_consistent: "consistent (first_seen_cmp h asc) {n. node_ok h n}"
proof -
  let ?has = "\<lambda>n. truthy (js_prop n ''first_seen'')"
  have d: "consistent (\<lambda>a b. times_dir asc (num_diff (date_time h (js_prop a ''first_seen'')) (date_time h (js_prop b ''first_seen'')))) {n. node_ok h n \<and> ?has n}"
    by (intro consistent_reverse diff_consistent) (auto simp: node_ok_def)
  note m = consistent.mirror [OF d] and t = consistent.trans [OF d]
  show ?thesis
  proof
    show "negative (first_seen_cmp h asc a b) = positive (first_seen_cmp h asc b a)"
      if "a \<in> {n. node_ok h n}" "b \<in> {n. node_ok h n}" for a b
      using that m [of a b] by (auto simp: first_seen_cmp_def Let_def)
    show "\<not> positive (first_seen_cmp h asc a c)"
      if "a \<in> {n. node_ok h n}" "b \<in> {n. node_ok h n}" "c \<in> {n. node_ok h n}"
        "\<not> positive (first_seen_cmp h asc a b)" "\<not> positive (first_seen_cmp h asc b c)" for a b c
      using that t [of a b c] by (auto simp: first_seen_cmp_def Let_def split: if_splits)
  qed
qed

lemma consistent_if:
  "(b \<Longrightarrow> consistent c A) \<Longrightarrow> (\<not> b \<Longrightarrow> consistent d A) \<Longrightarrow> consistent (\<lambda>x y. if b then c x y else d x y) A"
  by (cases b) simp_all

lemma node_consistent: "consistent (node_cmp h col asc) {n. node_ok h n}"
  unfolding node_cmp_def [abs_def]
  by (intro consistent_if empty_last_consistent cmp_string_consistent consistent_reverse diff_consistent
      first_consistent)
    (simp_all add: node_ok_def consistent_def)

section \<open>Rows in order\<close>

lemma front_split:
  "sorted_wrt (\<lambda>a b. P b \<longrightarrow> P a) xs \<Longrightarrow> xs = filter P xs @ filter (\<lambda>x. \<not> P x) xs"
proof (induction xs)
  case (Cons x xs)
  show ?case
  proof (cases "P x")
    case False
    with Cons.prems have "filter P xs = []" by (auto simp: filter_empty_conv)
    then show ?thesis using Cons False by simp
  qed (use Cons in simp)
qed simp

lemma in_order_front: "in_order cmp xs \<Longrightarrow> (\<And>a b. P b \<Longrightarrow> \<not> P a \<Longrightarrow> positive (cmp a b)) \<Longrightarrow> xs = filter P xs @ filter (\<lambda>x. \<not> P x) xs"
  unfolding in_order_def by (rule front_split) (auto elim!: sorted_wrt_mono_rel [rotated])

text \<open>
  C36: the packets after sorting are the same packets, ordered by the comparator of the column, ties in their
  old order; in the scope column the packets with a scope come first in both directions.  Packets with equal
  values (of a column other than the time) are ordered by their own time: newest first when the column
  ascends, but oldest first when it descends.
\<close>

theorem packet_rows:
  assumes "collates h" "accessor env col = Some acc"
  shows "let ps' = sortPacketsArray h env (JStr col) dir ps; asc = (dir = JStr ''asc''); cmp = packet_cmp h col asc acc;
             time = (\<lambda>p. date_key h (tie_time p)) in
     mset ps' = mset ps \<and> in_order cmp ps' \<and> (\<forall>p. filter (tied cmp p) ps' = filter (tied cmp p) ps) \<and>
     (col = ''scope'' \<longrightarrow> ps' = filter has_scope ps' @ filter (\<lambda>p. \<not> has_scope p) ps') \<and>
     (col \<noteq> ''time'' \<longrightarrow> sorted_wrt (\<lambda>p q. primary_cmp h col (acc p) (acc q) = Fin 0 \<longrightarrow> has_scope p = has_scope q \<longrightarrow>
        (if asc then time q \<le> time p else time p \<le> time q)) ps')"
proof -
  define asc where "asc = (dir = JStr ''asc'')"
  define cmp where "cmp = packet_cmp h col asc acc"
  have "col \<noteq> []" using assms(2) by (auto simp: accessor_def)
  then have ps': "sortPacketsArray h env (JStr col) dir ps = js_sort cmp ps"
    by (simp add: sortPacketsArray_def assms(2) cmp_def asc_def)
  have c: "consistent cmp UNIV" unfolding cmp_def by (rule packet_consistent [OF assms(1)])
  have ord: "in_order cmp (js_sort cmp ps)" using consistent.sorts [OF c] by simp
  have scope: "js_sort cmp ps = filter has_scope (js_sort cmp ps) @ filter (\<lambda>p. \<not> has_scope p) (js_sort cmp ps)" if "col = ''scope''"
    by (rule in_order_front [OF ord]) (simp add: cmp_def packet_cmp_def that)
  have "\<not> positive (cmp p q) \<Longrightarrow> (if asc then date_key h (tie_time q) \<le> date_key h (tie_time p) else date_key h (tie_time p) \<le> date_key h (tie_time q))"
    if "col \<noteq> ''time''" "primary_cmp h col (acc p) (acc q) = Fin 0" "has_scope p = has_scope q" for p q
    using that by (auto simp: cmp_def packet_cmp_def cmp_date_def not_less)
  then have "sorted_wrt (\<lambda>p q. primary_cmp h col (acc p) (acc q) = Fin 0 \<longrightarrow> has_scope p = has_scope q \<longrightarrow>
        (if asc then date_key h (tie_time q) \<le> date_key h (tie_time p) else date_key h (tie_time p) \<le> date_key h (tie_time q))) (js_sort cmp ps)"
    if "col \<noteq> ''time''" using ord that unfolding in_order_def by (elim sorted_wrt_mono_rel [rotated]) blast
  then show ?thesis
    using ord scope consistent.stable [OF c, of ps] unfolding asc_def [symmetric] Let_def cmp_def [symmetric] ps' by simp
qed

definition sample_packet :: "string \<Rightarrow> rat \<Rightarrow> jsval" where
  "sample_packet hash t = JObj [(''hash'', JStr hash), (''timestamp'', JNum (Fin t))]"

theorem packet_rows_witness:
  "let ps = [sample_packet ''a1'' 5, sample_packet ''a1'' 9];
       ps' = sortPacketsArray sample_host \<lparr>pe_observers = [], pe_regions = []\<rparr> (JStr ''hash'') (JStr ''desc'') ps in
   mset ps' = mset ps \<and>
   sorted_wrt (\<lambda>p q. primary_cmp sample_host ''hash'' (js_or (js_prop p ''hash'') (JStr [])) (js_or (js_prop q ''hash'') (JStr [])) = Fin 0 \<longrightarrow>
      has_scope p = has_scope q \<longrightarrow> date_key sample_host (tie_time p) \<le> date_key sample_host (tie_time q)) ps'"
proof -
  have a: "accessor \<lparr>pe_observers = [], pe_regions = []\<rparr> ''hash'' = Some (\<lambda>p. js_or (js_prop p ''hash'') (JStr []))"
    by (simp add: accessor_def)
  show ?thesis
    using packet_rows [OF sample_collates a, of "JStr ''desc''" "[sample_packet ''a1'' 5, sample_packet ''a1'' 9]"] by (simp add: Let_def)
qed

section \<open>Claimed nodes and favourites\<close>

definition my_node :: "jsval list \<Rightarrow> jsval \<Rightarrow> bool" where
  "my_node mine n = includes_value mine (js_prop n ''public_key'')"

definition fav_node :: "(jsval \<Rightarrow> bool) \<Rightarrow> jsval \<Rightarrow> bool" where
  "fav_node fav n = fav (js_prop n ''public_key'')"

lemma pin_cmp_eq: "pin_cmp mine fav = then_by (pinned (\<lambda>n. mine (js_prop n ''public_key''))) (pinned (\<lambda>n. fav (js_prop n ''public_key'')))"
  by (auto simp: fun_eq_iff pin_cmp_def then_by_def Let_def) (simp_all add: pinned_def)

text \<open>Sorting by two yes-or-no keys is grouping.\<close>

lemma four_groups:
  "js_sort (then_by (pinned P) (pinned Q)) xs =
     filter (\<lambda>x. P x \<and> Q x) xs @ filter (\<lambda>x. P x \<and> \<not> Q x) xs @ filter (\<lambda>x. \<not> P x \<and> Q x) xs @ filter (\<lambda>x. \<not> P x \<and> \<not> Q x) xs"
  (is "_ = ?groups")
proof -
  let ?c = "then_by (pinned P) (pinned Q)"
  have c: "consistent ?c UNIV" by (intro consistent_then_by pinned_consistent)
  have tied: "tied ?c a = (\<lambda>b. P a = P b \<and> Q a = Q b)" for a
    by (auto simp: fun_eq_iff tied_def then_by_def)
  have same: "sorted_wrt (\<lambda>a b. \<not> positive (?c a b)) (filter (\<lambda>x. P x = p \<and> Q x = q) ys)" for p q ys
    by (induction ys) (auto simp: then_by_def)
  have "?groups = js_sort ?c xs"
  proof (rule consistent.js_sort_unique [OF c])
    show "in_order ?c ?groups"
      using same [of True True xs] same [of True False xs] same [of False True xs] same [of False False xs]
      by (auto simp: in_order_def sorted_wrt_append then_by_def)
    show "mset ?groups = mset xs" by (induction xs) auto
    show "filter (tied ?c a) ?groups = filter (tied ?c a) xs" for a
      by (cases "P a"; cases "Q a") (auto simp: tied filter_empty_conv intro!: filter_cong)
  qed simp
  then show ?thesis by simp
qed

text \<open>The values of a column that are shown as empty.\<close>

definition has_value :: "jsval \<Rightarrow> jsval \<Rightarrow> bool" where
  "has_value col n = truthy (js_prop n (js_String col))"

text \<open>
  C37: the rows of the node table are the sorted nodes in four groups: claimed favourites, other claimed nodes,
  other favourites, the rest.  Within a group they keep the order of the column: a permutation of the nodes,
  ordered by its comparator, ties as the server sent them; nodes without a name, scope or first date come
  after the others in both directions.
\<close>

theorem node_rows:
  assumes "nodes \<noteq> []" "my_keys ls = Some mine" "fav_test (getFavorites ls) = Some fav" "\<forall>n\<in>set nodes. node_ok h n"
  shows "let S = sortNodes h st nodes; my = my_node mine; fv = fav_node fav; cmp = node_cmp h (fst st) (snd st = JStr ''asc'') in
     rendered_nodes h st ls nodes =
       Some (filter (\<lambda>n. my n \<and> fv n) S @ filter (\<lambda>n. my n \<and> \<not> fv n) S @ filter (\<lambda>n. \<not> my n \<and> fv n) S @ filter (\<lambda>n. \<not> my n \<and> \<not> fv n) S) \<and>
     mset S = mset nodes \<and> in_order cmp S \<and> (\<forall>n\<in>set nodes. filter (tied cmp n) S = filter (tied cmp n) nodes) \<and>
     (fst st \<in> {JStr ''name'', JStr ''default_scope'', JStr ''first_seen''} \<longrightarrow>
        S = filter (has_value (fst st)) S @ filter (\<lambda>n. \<not> has_value (fst st) n) S)"
proof -
  define cmp where "cmp = node_cmp h (fst st) (snd st = JStr ''asc'')"
  have S: "sortNodes h st nodes = js_sort cmp nodes" by (simp add: sortNodes_def cmp_def)
  have c: "consistent cmp {n. node_ok h n}" unfolding cmp_def by (rule node_consistent)
  have sub: "set nodes \<subseteq> {n. node_ok h n}" using assms(4) by auto
  have ord: "in_order cmp (js_sort cmp nodes)" by (rule consistent.sorts [OF c sub])
  have stable: "filter (tied cmp n) (js_sort cmp nodes) = filter (tied cmp n) nodes" if "n \<in> set nodes" for n
    using consistent.stable [OF c sub] that sub by blast
  have front: "js_sort cmp nodes = filter (has_value (fst st)) (js_sort cmp nodes) @ filter (\<lambda>n. \<not> has_value (fst st) n) (js_sort cmp nodes)"
    if "fst st \<in> {JStr ''name'', JStr ''default_scope'', JStr ''first_seen''}"
  proof (rule in_order_front [OF ord])
    show "positive (cmp a b)" if "has_value (fst st) b" "\<not> has_value (fst st) a" for a b
      using that \<open>fst st \<in> _\<close> by (elim insertE emptyE; simp only: cmp_def node_cmp_def jsval.inject list.inject char.inject simp_thms if_True if_False)
        (simp_all add: has_value_def empty_last_def first_seen_cmp_def)
  qed
  have rows: "rendered_nodes h st ls nodes = Some (js_sort (then_by (pinned (my_node mine)) (pinned (fav_node fav))) (js_sort cmp nodes))"
    using assms(1-3) by (simp add: rendered_nodes_def S pin_cmp_eq my_node_def [abs_def] fav_node_def [abs_def])
  show ?thesis
    unfolding Let_def S cmp_def [symmetric] rows four_groups using ord stable front by simp
qed

definition sample_node :: "string \<Rightarrow> string \<Rightarrow> jsval" where
  "sample_node key name = JObj [(''public_key'', JStr key), (''name'', JStr name)]"

theorem node_rows_witness:
  "let nodes = [sample_node ''k1'' [], sample_node ''k2'' ''relay'', sample_node ''k3'' ''base''];
       ls = [(''meshcore-my-nodes'', ''[]''), (''meshcore-favorites'', ''[\"k2\"]'')];
       rows = rendered_nodes sample_host (JStr ''name'', JStr ''desc'') ls nodes in
   (\<exists>rs. rows = Some rs \<and> mset rs = mset nodes \<and> hd rs = sample_node ''k2'' ''relay'')"
proof -
  let ?nodes = "[sample_node ''k1'' [], sample_node ''k2'' ''relay'', sample_node ''k3'' ''base'']"
  let ?ls = "[(''meshcore-my-nodes'', ''[]''), (''meshcore-favorites'', ''[\"k2\"]'')]"
  have p: "json_parse ''[]'' = Some (JArr [])" "json_parse ''[\"k2\"]'' = Some (JArr [JStr ''k2''])"
    using json_parse_text [of "JArr []"] json_parse_text [of "JArr [JStr ''k2'']"] by (simp_all add: json_quote_def)
  have m: "my_keys ?ls = Some []" "fav_test (getFavorites ?ls) = Some (includes_value [JStr ''k2''])"
    by (simp_all add: my_keys_def getFavorites_def fav_test_def p)
  have ok: "\<forall>n\<in>set ?nodes. node_ok sample_host n"
    by (simp add: node_ok_def sample_node_def last_seen_ms_def js_prop_def table_get_def object_proto_def js_or_def)
  have no: "\<not> my_node [] n" for n by (simp add: my_node_def includes_value_def)
  note r = node_rows [OF _ m ok, of "(JStr ''name'', JStr ''desc'')"]
  define S where "S = sortNodes sample_host (JStr ''name'', JStr ''desc'') ?nodes"
  have "mset S = mset ?nodes" using r by (simp add: Let_def S_def)
  then have "mset (filter (fav_node (includes_value [JStr ''k2''])) S) = filter_mset (fav_node (includes_value [JStr ''k2''])) (mset ?nodes)"
    by (simp only: mset_filter)
  also have "\<dots> = {#sample_node ''k2'' ''relay''#}"
    by (simp add: fav_node_def includes_value_def sample_node_def js_prop_def table_get_def)
  finally have "filter (fav_node (includes_value [JStr ''k2''])) S = [sample_node ''k2'' ''relay'']"
    by (simp only: mset_single_iff)
  then have rows: "rendered_nodes sample_host (JStr ''name'', JStr ''desc'') ?ls ?nodes =
      Some (sample_node ''k2'' ''relay'' # filter (\<lambda>n. \<not> fav_node (includes_value [JStr ''k2'']) n) S)"
    using r by (simp add: Let_def S_def [symmetric] no)
  moreover have "mset (sample_node ''k2'' ''relay'' # filter (\<lambda>n. \<not> fav_node (includes_value [JStr ''k2'']) n) S) = mset ?nodes"
    using \<open>mset S = mset ?nodes\<close>
    by (simp add: fav_node_def includes_value_def sample_node_def js_prop_def table_get_def)
  ultimately show ?thesis by (simp add: Let_def)
qed

end
