(* ===== verification/Live_Panels.thy ===== *)
theory Live_Panels
  imports Js_Number
begin

text \<open>
  The panels of the live map: their corners (\<^verbatim>\<open>src/public/live.js\<close>) and free dragging
  (\<^verbatim>\<open>src/public/drag-manager.js\<close>).  The inline styles \<^verbatim>\<open>position\<close>, \<^verbatim>\<open>top\<close>, \<^verbatim>\<open>left\<close>,
  \<^verbatim>\<open>right\<close>, \<^verbatim>\<open>bottom\<close> are written and cleared together, so one optional point stands for them.  What
  the style sheet and the browser decide, the size of a panel and its place without inline styles, is a record
  of functions.
\<close>

section \<open>Corners\<close>

definition PANEL_DEFAULTS :: "string obj" where
  "PANEL_DEFAULTS = [(''liveFeed'', ''bl''), (''liveLegend'', ''br''), (''liveNodeDetail'', ''tr'')]"

definition CORNER_CYCLE :: "string list" where
  "CORNER_CYCLE = [''tl'', ''tr'', ''br'', ''bl'']"

definition corner_key :: "string \<Rightarrow> string" where
  "corner_key i = ''panel-corner-'' @ i"

definition drag_key :: "string \<Rightarrow> string" where
  "drag_key i = ''panel-drag-'' @ i"

definition position_of :: "string obj \<Rightarrow> string \<Rightarrow> string \<Rightarrow> string" where
  "position_of ls i dflt = (case obj_get ls (corner_key i) of Some c \<Rightarrow> if c = [] then dflt else c | None \<Rightarrow> dflt)"

definition getPanelPositions :: "string obj \<Rightarrow> string obj" where
  "getPanelPositions ls = map (\<lambda>(i, d). (i, position_of ls i d)) PANEL_DEFAULTS"

text \<open>\<^verbatim>\<open>CORNER_CYCLE.indexOf\<close>, and an index into the cycle; \<open>None\<close> is undefined.\<close>

definition corner_index :: "string \<Rightarrow> int" where
  "corner_index c = (case find (\<lambda>i. CORNER_CYCLE ! i = c) [0..<4] of Some i \<Rightarrow> int i | None \<Rightarrow> -1)"

definition cycle_at :: "int \<Rightarrow> string option" where
  "cycle_at i = (if i < 0 then None else Some (CORNER_CYCLE ! (nat i mod 4)))"

definition occupied :: "string \<Rightarrow> string option \<Rightarrow> string obj \<Rightarrow> bool" where
  "occupied panelId candidate allPositions = list_ex (\<lambda>(otherId, c). otherId \<noteq> panelId \<and> Some c = candidate) allPositions"

definition nextAvailableCorner :: "string \<Rightarrow> string \<Rightarrow> string obj \<Rightarrow> string option" where
  "nextAvailableCorner panelId desired allPositions =
     (let idx = corner_index desired in
      case find (\<lambda>i. \<not> occupied panelId (cycle_at (idx + int i)) allPositions) [0..<4] of
        Some i \<Rightarrow> cycle_at (idx + int i)
      | None \<Rightarrow> Some desired)"

section \<open>The page\<close>

datatype transform = Unset | TNone | Translate rat rat

record panel =
  p_corner :: "string option"
  p_dragged :: bool
  p_dragging :: bool
  p_place :: "(rat \<times> rat) option"
  p_transform :: transform
  p_z :: "nat option"

datatype drag_state = IDLE | PENDING | DRAGGING

record drag_manager =
  d_state :: drag_state
  d_active :: "string option"
  d_start :: "rat \<times> rat"
  d_panelStart :: "rat \<times> rat"
  d_pre :: transform
  d_enabled :: bool
  d_z :: nat
  d_panels :: "string list"
  d_listening :: bool

record browser =
  panel_size :: "string \<Rightarrow> rat \<times> rat"
  css_place :: "string \<Rightarrow> string option \<Rightarrow> rat \<times> rat"

record live_page =
  l_panels :: "panel obj"
  l_drag :: drag_manager
  l_ls :: "string obj"
  l_view :: "rat \<times> rat"
  l_wired :: nat

definition new_manager :: drag_manager where
  "new_manager = \<lparr>d_state = IDLE, d_active = None, d_start = (0, 0), d_panelStart = (0, 0), d_pre = Unset, d_enabled = True,
     d_z = 1000, d_panels = [], d_listening = False\<rparr>"

definition on_panel :: "string \<Rightarrow> (panel \<Rightarrow> panel) \<Rightarrow> live_page \<Rightarrow> live_page" where
  "on_panel i f w = (case obj_get (l_panels w) i of None \<Rightarrow> w | Some p \<Rightarrow> w\<lparr>l_panels := obj_set (l_panels w) i (f p)\<rparr>)"

definition on_drag :: "(drag_manager \<Rightarrow> drag_manager) \<Rightarrow> live_page \<Rightarrow> live_page" where
  "on_drag f w = w\<lparr>l_drag := f (l_drag w)\<rparr>"

text \<open>The top left corner of \<^verbatim>\<open>getBoundingClientRect()\<close>.\<close>

definition rect_at :: "browser \<Rightarrow> string \<Rightarrow> panel \<Rightarrow> rat \<times> rat" where
  "rect_at b i p =
     (let (x, y) = (case p_place p of Some q \<Rightarrow> q | None \<Rightarrow> css_place b i (p_corner p))
      in case p_transform p of Translate dx dy \<Rightarrow> (x + dx, y + dy) | _ \<Rightarrow> (x, y))"

definition clear_styles :: "panel \<Rightarrow> panel" where
  "clear_styles p = p\<lparr>p_dragged := False, p_dragging := False, p_place := None, p_transform := Unset, p_z := None\<rparr>"

definition clearPanel :: "bool \<Rightarrow> string \<Rightarrow> live_page \<Rightarrow> live_page" where
  "clearPanel clearStorage i w =
     (if obj_get (l_panels w) i = None then w
      else let w1 = on_panel i clear_styles w
           in if clearStorage then w1\<lparr>l_ls := obj_del (l_ls w1) (drag_key i)\<rparr> else w1)"

definition applyPanelPosition :: "string \<Rightarrow> string option \<Rightarrow> live_page \<Rightarrow> live_page" where
  "applyPanelPosition i corner w =
     on_panel i (\<lambda>p. p\<lparr>p_corner := Some (case corner of Some c \<Rightarrow> c | None \<Rightarrow> ''undefined'')\<rparr>) w"

text \<open>Each call adds another listener to every corner button.\<close>

definition initPanelPositions :: "live_page \<Rightarrow> live_page" where
  "initPanelPositions w =
     (let w1 = foldl (\<lambda>w (i, c). applyPanelPosition i (Some c) w) w (getPanelPositions (l_ls w))
      in w1\<lparr>l_wired := l_wired w1 + 1\<rparr>)"

definition onCornerClick :: "(string obj \<Rightarrow> bool) \<Rightarrow> string \<Rightarrow> live_page \<Rightarrow> live_page" where
  "onCornerClick fits i w =
     (let positions = getPanelPositions (l_ls w);
          current = (case obj_get positions i of Some c \<Rightarrow> c | None \<Rightarrow> ''undefined'');
          nextIdx = (corner_index current + 1) mod 4;
          nxt = nextAvailableCorner i (CORNER_CYCLE ! nat nextIdx) positions;
          ls = obj_set (l_ls w) (corner_key i) (case nxt of Some c \<Rightarrow> c | None \<Rightarrow> ''undefined'');
          w1 = (if fits ls then w\<lparr>l_ls := ls\<rparr> else w)
      in applyPanelPosition i nxt (clearPanel True i w1))"

text \<open>A click on the button reaches every listener.\<close>

definition press_corner :: "(string obj \<Rightarrow> bool) \<Rightarrow> string \<Rightarrow> live_page \<Rightarrow> live_page" where
  "press_corner fits i w = (onCornerClick fits i ^^ l_wired w) w"

definition reset_panel :: "live_page \<Rightarrow> string \<times> string \<Rightarrow> live_page" where
  "reset_panel w e =
     (case e of (i, d) \<Rightarrow> applyPanelPosition i (Some d) (clearPanel True i (w\<lparr>l_ls := obj_del (l_ls w) (corner_key i)\<rparr>)))"

definition resetPanelPositions :: "live_page \<Rightarrow> live_page" where
  "resetPanelPositions w = foldl reset_panel w PANEL_DEFAULTS"

section \<open>Dragging\<close>

definition DEAD_ZONE :: rat where "DEAD_ZONE = 5"
definition SNAP_THRESHOLD :: rat where "SNAP_THRESHOLD = 20"
definition SNAP_MARGIN :: rat where "SNAP_MARGIN = 12"

text \<open>The three panels register at the start; the popup card of the map, which also does, is not modelled.\<close>

definition register :: "string \<Rightarrow> live_page \<Rightarrow> live_page" where
  "register i w =
     (if obj_get (l_panels w) i = None then w else on_drag (\<lambda>d. d\<lparr>d_panels := d_panels d @ [i]\<rparr>) w)"

definition drag_reset :: "live_page \<Rightarrow> live_page" where
  "drag_reset = on_drag (\<lambda>d. d\<lparr>d_listening := False, d_state := IDLE, d_active := None\<rparr>)"

definition detachFromCorner :: "browser \<Rightarrow> string \<Rightarrow> live_page \<Rightarrow> live_page" where
  "detachFromCorner b i =
     on_panel i (\<lambda>p. p\<lparr>p_corner := None, p_dragged := True, p_place := Some (rect_at b i p), p_transform := TNone\<rparr>)"

text \<open>\<^verbatim>\<open>x / vw\<close> with the infinities and \<^verbatim>\<open>NaN\<close> of a window without extent.\<close>

definition ratio :: "rat \<Rightarrow> rat \<Rightarrow> jsnum" where
  "ratio x v = (if v \<noteq> 0 then Fin (x / v) else if x = 0 then NaN else if 0 < x then PInf else NInf)"

definition persist :: "(string obj \<Rightarrow> bool) \<Rightarrow> string \<Rightarrow> jsnum \<Rightarrow> jsnum \<Rightarrow> live_page \<Rightarrow> live_page" where
  "persist fits i xPct yPct w =
     (let ls = obj_set (l_ls w) (drag_key i) (json_text (JObj [(''xPct'', JNum xPct), (''yPct'', JNum yPct)]))
      in if fits ls then w\<lparr>l_ls := ls\<rparr> else w)"

text \<open>One coordinate: kept on the screen, then snapped to the near and to the far edge.\<close>

definition snap :: "rat \<Rightarrow> rat \<Rightarrow> rat \<Rightarrow> rat" where
  "snap pos extent view =
     (let x = max 0 (min pos (view - 40));
          x1 = (if x < SNAP_THRESHOLD then SNAP_MARGIN else x)
      in if view - SNAP_THRESHOLD < x1 + extent then view - extent - SNAP_MARGIN else x1)"

definition finalizePosition :: "browser \<Rightarrow> (string obj \<Rightarrow> bool) \<Rightarrow> string \<Rightarrow> live_page \<Rightarrow> live_page" where
  "finalizePosition b fits i w =
     (case obj_get (l_panels w) i of
        None \<Rightarrow> w
      | Some p \<Rightarrow>
          (let r = rect_at b i p; vw = fst (l_view w); vh = snd (l_view w);
               x = snap (fst r) (fst (panel_size b i)) vw; y = snap (snd r) (snd (panel_size b i)) vh
           in persist fits i (ratio x vw) (ratio y vh)
                (on_panel i (\<lambda>p. p\<lparr>p_place := Some (x, y), p_transform := TNone\<rparr>) w)))"

definition pointerdown :: "browser \<Rightarrow> string \<Rightarrow> nat \<Rightarrow> bool \<Rightarrow> rat \<times> rat \<Rightarrow> live_page \<Rightarrow> live_page" where
  "pointerdown b i button onButton at_xy w =
     (case obj_get (l_panels w) i of
        None \<Rightarrow> w
      | Some p \<Rightarrow>
          if i \<notin> set (d_panels (l_drag w)) \<or> \<not> d_enabled (l_drag w) \<or> button \<noteq> 0 \<or> onButton then w
          else on_drag (\<lambda>d. d\<lparr>d_state := PENDING, d_active := Some i, d_start := at_xy, d_panelStart := rect_at b i p,
                              d_pre := p_transform p, d_listening := True\<rparr>) w)"

definition pointermove :: "browser \<Rightarrow> string \<Rightarrow> rat \<times> rat \<Rightarrow> live_page \<Rightarrow> live_page" where
  "pointermove b i at_xy w =
     (let d = l_drag w; dx = fst at_xy - fst (d_start d); dy = snd at_xy - snd (d_start d) in
      if d_state d = IDLE \<or> d_active d \<noteq> Some i then w
      else if d_state d = PENDING \<and> dx * dx + dy * dy < DEAD_ZONE * DEAD_ZONE then w
      else let w1 = (if d_state d = PENDING
                     then detachFromCorner b i
                            (on_panel i (\<lambda>p. p\<lparr>p_dragging := True, p_z := Some (d_z d + 1)\<rparr>)
                               (on_drag (\<lambda>d. d\<lparr>d_state := DRAGGING, d_z := d_z d + 1\<rparr>) w))
                     else w)
           in on_panel i (\<lambda>p. p\<lparr>p_transform := Translate dx dy\<rparr>) w1)"

definition undrag :: "string \<Rightarrow> live_page \<Rightarrow> live_page" where
  "undrag i = on_panel i (\<lambda>p. p\<lparr>p_dragging := False\<rparr>)"

definition pointerup :: "browser \<Rightarrow> (string obj \<Rightarrow> bool) \<Rightarrow> string \<Rightarrow> live_page \<Rightarrow> live_page" where
  "pointerup b fits i w =
     (if d_active (l_drag w) \<noteq> Some i then w
      else drag_reset (if d_state (l_drag w) = DRAGGING then finalizePosition b fits i (undrag i w) else w))"

definition pointercancel :: "browser \<Rightarrow> (string obj \<Rightarrow> bool) \<Rightarrow> string \<Rightarrow> live_page \<Rightarrow> live_page" where
  "pointercancel b fits i w =
     (if d_active (l_drag w) \<noteq> Some i then w
      else let w1 = undrag i w
           in drag_reset (if d_state (l_drag w) = DRAGGING then finalizePosition b fits i w1 else w1))"

definition handleKeyDown :: "string \<Rightarrow> live_page \<Rightarrow> live_page" where
  "handleKeyDown key w =
     (case d_active (l_drag w) of
        None \<Rightarrow> w
      | Some i \<Rightarrow>
          if \<not> d_listening (l_drag w) \<or> key \<noteq> ''Escape'' \<or> d_state (l_drag w) \<noteq> DRAGGING then w
          else let w1 = on_panel i (\<lambda>p. p\<lparr>p_transform := d_pre (l_drag w)\<rparr>) w;
                   saved = (case obj_get (l_ls w1) (drag_key i) of Some t \<Rightarrow> t | None \<Rightarrow> [])
               in drag_reset
                    (if saved = []
                     then (let w2 = clearPanel True i w1 in
                           case obj_get (l_ls w2) (corner_key i) of
                             Some c \<Rightarrow> if c = [] then w2 else on_panel i (\<lambda>p. p\<lparr>p_corner := Some c\<rparr>) w2
                           | None \<Rightarrow> w2)
                     else on_panel i (\<lambda>p. p\<lparr>p_dragging := False, p_transform := TNone\<rparr>) w1))"

definition drag_enable :: "live_page \<Rightarrow> live_page" where
  "drag_enable = on_drag (\<lambda>d. d\<lparr>d_enabled := True\<rparr>)"

definition drag_disable :: "live_page \<Rightarrow> live_page" where
  "drag_disable w =
     (let w1 = on_drag (\<lambda>d. d\<lparr>d_enabled := False\<rparr>) w in
      case d_active (l_drag w1) of
        Some i \<Rightarrow> if d_state (l_drag w1) \<noteq> IDLE then drag_reset (undrag i w1) else w1
      | None \<Rightarrow> w1)"

text \<open>A stored coordinate; one that is no finite number is refused by the style, which keeps the old one.\<close>

definition coordinate :: "jsval \<Rightarrow> rat \<Rightarrow> rat \<Rightarrow> rat" where
  "coordinate pct view old = (case js_Number pct of Fin q \<Rightarrow> q * view | _ \<Rightarrow> old)"

definition restore_panel :: "browser \<Rightarrow> live_page \<Rightarrow> string \<Rightarrow> live_page" where
  "restore_panel b w i =
     (let raw = (case obj_get (l_ls w) (drag_key i) of Some t \<Rightarrow> t | None \<Rightarrow> []) in
      if raw = [] then w
      else case json_parse raw of
             None \<Rightarrow> w\<lparr>l_ls := obj_del (l_ls w) (drag_key i)\<rparr>
           | Some pos \<Rightarrow>
               (case (js_get pos ''xPct'', js_get pos ''yPct'') of
                  (Some px, Some py) \<Rightarrow>
                    on_panel i (\<lambda>p. let old = (case p_place p of Some q \<Rightarrow> q | None \<Rightarrow> css_place b i None) in
                      p\<lparr>p_corner := None, p_dragged := True, p_transform := TNone,
                        p_place := Some (coordinate px (fst (l_view w)) (fst old), coordinate py (snd (l_view w)) (snd old))\<rparr>) w
                | _ \<Rightarrow> w\<lparr>l_ls := obj_del (l_ls w) (drag_key i)\<rparr>))"

definition restorePositions :: "browser \<Rightarrow> live_page \<Rightarrow> live_page" where
  "restorePositions b w = foldl (restore_panel b) w (d_panels (l_drag w))"

text \<open>One coordinate of a panel after the window has changed; \<open>None\<close> when it fits.\<close>

definition refit :: "rat \<Rightarrow> rat \<Rightarrow> rat \<Rightarrow> rat option" where
  "refit pos extent view =
     (let x = (if view < pos + extent then view - extent - SNAP_MARGIN else pos);
          x1 = (if x < 0 then SNAP_MARGIN else x)
      in if view < pos + extent \<or> x < 0 then Some x1 else None)"

definition resize_panel :: "browser \<Rightarrow> (string obj \<Rightarrow> bool) \<Rightarrow> live_page \<Rightarrow> string \<Rightarrow> live_page" where
  "resize_panel b fits w i =
     (case obj_get (l_panels w) i of
        None \<Rightarrow> w
      | Some p \<Rightarrow>
          if \<not> p_dragged p then w
          else let r = rect_at b i p;
                   mx = refit (fst r) (fst (panel_size b i)) (fst (l_view w));
                   my = refit (snd r) (snd (panel_size b i)) (snd (l_view w));
                   x = (case mx of Some x \<Rightarrow> x | None \<Rightarrow> fst r); y = (case my of Some y \<Rightarrow> y | None \<Rightarrow> snd r)
               in if mx = None \<and> my = None then w
                  else persist fits i (ratio x (fst (l_view w))) (ratio y (snd (l_view w)))
                         (on_panel i (\<lambda>p. p\<lparr>p_place := Some (x, y)\<rparr>) w))"

definition handleResize :: "browser \<Rightarrow> (string obj \<Rightarrow> bool) \<Rightarrow> rat \<times> rat \<Rightarrow> live_page \<Rightarrow> live_page" where
  "handleResize b fits view w = foldl (resize_panel b fits) (w\<lparr>l_view := view\<rparr>) (obj_keys (l_panels w))"

section \<open>The page as a whole\<close>

text \<open>\<^verbatim>\<open>onDragMediaChange\<close>: the window became too narrow for dragging, or wide enough again.\<close>

definition onDragMediaChange :: "browser \<Rightarrow> bool \<Rightarrow> live_page \<Rightarrow> live_page" where
  "onDragMediaChange b wide w =
     (if \<not> wide
      then drag_disable (initPanelPositions
             (foldl (\<lambda>w i. clearPanel False i w) w (map fst (filter (p_dragged \<circ> snd) (l_panels w)))))
      else restorePositions b (drag_enable w))"

definition fresh_panel :: panel where
  "fresh_panel = \<lparr>p_corner = None, p_dragged = False, p_dragging = False, p_place = None, p_transform = Unset, p_z = None\<rparr>"

definition live_init :: "browser \<Rightarrow> bool \<Rightarrow> rat \<times> rat \<Rightarrow> string obj \<Rightarrow> live_page" where
  "live_init b wide view ls =
     (let w0 = \<lparr>l_panels = map (\<lambda>(i, _). (i, fresh_panel)) PANEL_DEFAULTS, l_drag = new_manager, l_ls = ls, l_view = view, l_wired = 0\<rparr>;
          w1 = restorePositions b (foldl (\<lambda>w i. register i w) (initPanelPositions w0) (obj_keys PANEL_DEFAULTS))
      in if wide then w1 else drag_disable w1)"

datatype page_event =
    Down string nat bool "rat \<times> rat"
  | Move string "rat \<times> rat"
  | Up string
  | Cancel string
  | Key string
  | Corner string
  | ResetPanels
  | Media bool
  | Resize "rat \<times> rat"

fun page_step :: "browser \<Rightarrow> (string obj \<Rightarrow> bool) \<Rightarrow> page_event \<Rightarrow> live_page \<Rightarrow> live_page" where
  "page_step b fits (Down i button onButton xy) w = pointerdown b i button onButton xy w"
| "page_step b fits (Move i xy) w = pointermove b i xy w"
| "page_step b fits (Up i) w = pointerup b fits i w"
| "page_step b fits (Cancel i) w = pointercancel b fits i w"
| "page_step b fits (Key k) w = handleKeyDown k w"
| "page_step b fits (Corner i) w = press_corner fits i w"
| "page_step b fits ResetPanels w = resetPanelPositions w"
| "page_step b fits (Media wide) w = onDragMediaChange b wide w"
| "page_step b fits (Resize view) w = handleResize b fits view w"

text \<open>
  The pages of any number of visits.  The first one finds no stored corner but otherwise any storage, stored drag
  places, readable or not, included; a later one finds the corners that the visit before left, and again anything
  else.  \<open>fits\<close> is the quota of the storage, which may refuse any write.
\<close>

inductive panels_reachable :: "browser \<Rightarrow> (string obj \<Rightarrow> bool) \<Rightarrow> live_page \<Rightarrow> bool" for b fits where
  first_visit: "(\<And>i. obj_get ls (corner_key i) = None) \<Longrightarrow> panels_reachable b fits (live_init b wide view ls)"
| next_visit: "panels_reachable b fits w \<Longrightarrow> (\<And>i. obj_get ls (corner_key i) = obj_get (l_ls w) (corner_key i)) \<Longrightarrow>
    panels_reachable b fits (live_init b wide view ls)"
| step: "panels_reachable b fits w \<Longrightarrow> panels_reachable b fits (page_step b fits e w)"

section \<open>What the operations leave alone\<close>

lemma on_panel_simps [simp]:
  "l_drag (on_panel i f w) = l_drag w" "l_ls (on_panel i f w) = l_ls w" "l_view (on_panel i f w) = l_view w"
  "l_wired (on_panel i f w) = l_wired w"
  "obj_get (l_panels (on_panel i f w)) j = (if j = i then map_option f (obj_get (l_panels w) i) else obj_get (l_panels w) j)"
  by (auto simp: on_panel_def obj_get_set split: option.split)

lemma on_drag_simps [simp]:
  "l_drag (on_drag f w) = f (l_drag w)" "l_ls (on_drag f w) = l_ls w" "l_view (on_drag f w) = l_view w"
  "l_wired (on_drag f w) = l_wired w" "l_panels (on_drag f w) = l_panels w"
  by (simp_all add: on_drag_def)

lemma clearPanel_simps [simp]:
  "l_drag (clearPanel c i w) = l_drag w" "l_view (clearPanel c i w) = l_view w" "l_wired (clearPanel c i w) = l_wired w"
  "obj_get (l_panels (clearPanel c i w)) j = (if j = i then map_option clear_styles (obj_get (l_panels w) i) else obj_get (l_panels w) j)"
  by (auto simp: clearPanel_def Let_def)

lemma keys_apart [simp]: "corner_key i \<noteq> drag_key j" "drag_key i \<noteq> corner_key j" "corner_key i = corner_key j \<longleftrightarrow> i = j" "drag_key i = drag_key j \<longleftrightarrow> i = j"
  by (simp_all add: corner_key_def drag_key_def)

lemma clearPanel_corner [simp]: "obj_get (l_ls (clearPanel c i w)) (corner_key j) = obj_get (l_ls w) (corner_key j)"
  by (simp add: clearPanel_def Let_def obj_get_del)

lemma applyPanelPosition_simps [simp]:
  "l_drag (applyPanelPosition i c w) = l_drag w" "l_ls (applyPanelPosition i c w) = l_ls w" "l_view (applyPanelPosition i c w) = l_view w"
  "l_wired (applyPanelPosition i c w) = l_wired w"
  by (simp_all add: applyPanelPosition_def)

lemma persist_simps [simp]:
  "l_drag (persist fits i x y w) = l_drag w" "l_panels (persist fits i x y w) = l_panels w" "l_view (persist fits i x y w) = l_view w"
  "l_wired (persist fits i x y w) = l_wired w"
  "obj_get (l_ls (persist fits i x y w)) (corner_key j) = obj_get (l_ls w) (corner_key j)"
  by (simp_all add: persist_def Let_def obj_get_set)

section \<open>Three panels, four corners\<close>

definition shown_at :: "string obj \<Rightarrow> string \<Rightarrow> string" where
  "shown_at ls i = position_of ls i (case obj_get PANEL_DEFAULTS i of Some d \<Rightarrow> d | None \<Rightarrow> [])"

definition free_corner :: "string \<Rightarrow> string \<Rightarrow> string \<Rightarrow> string" where
  "free_corner a b c = hd (filter (\<lambda>x. x \<noteq> a \<and> x \<noteq> b \<and> x \<noteq> c) CORNER_CYCLE)"

definition apart :: "string \<Rightarrow> string \<Rightarrow> string \<Rightarrow> bool" where
  "apart a b c \<longleftrightarrow> distinct [a, b, c] \<and> {a, b, c} \<subseteq> set CORNER_CYCLE"

definition corners_ok :: "string obj \<Rightarrow> bool" where
  "corners_ok ls \<longleftrightarrow> apart (shown_at ls ''liveFeed'') (shown_at ls ''liveLegend'') (shown_at ls ''liveNodeDetail'')"

lemma positions_eq:
  "getPanelPositions ls = [(''liveFeed'', shown_at ls ''liveFeed''), (''liveLegend'', shown_at ls ''liveLegend''),
     (''liveNodeDetail'', shown_at ls ''liveNodeDetail'')]"
  by (simp add: getPanelPositions_def PANEL_DEFAULTS_def shown_at_def)

lemma corner_index_simps [simp]:
  "corner_index ''tl'' = 0" "corner_index ''tr'' = 1" "corner_index ''br'' = 2" "corner_index ''bl'' = 3"
  by (simp_all add: corner_index_def CORNER_CYCLE_def upt_rec)

lemma cycle_cases: "c \<in> set CORNER_CYCLE \<longleftrightarrow> c = ''tl'' \<or> c = ''tr'' \<or> c = ''br'' \<or> c = ''bl''"
  by (auto simp: CORNER_CYCLE_def)

lemma cycle_at_simps:
  "cycle_at 0 = Some ''tl''" "cycle_at 1 = Some ''tr''" "cycle_at 2 = Some ''br''" "cycle_at 3 = Some ''bl''"
  "cycle_at 4 = Some ''tl''" "cycle_at 5 = Some ''tr''" "cycle_at 6 = Some ''br''"
  by (simp_all add: cycle_at_def CORNER_CYCLE_def)

text \<open>The next available corner is the free one, whichever panel moves.\<close>

definition next_corner :: "string \<Rightarrow> string \<Rightarrow> string obj \<Rightarrow> string option" where
  "next_corner i c positions = nextAvailableCorner i (CORNER_CYCLE ! nat ((corner_index c + 1) mod 4)) positions"

lemma find_four: "find P [0..<4] = (if P 0 then Some 0 else if P 1 then Some 1 else if P 2 then Some 2 else if P 3 then Some (3::nat) else None)"
  by (simp add: upt_rec numeral_2_eq_2 numeral_3_eq_3)

lemma cycle_abstract:
  obtains T R B L where "CORNER_CYCLE = [T, R, B, L]" "T \<noteq> R" "T \<noteq> B" "T \<noteq> L" "R \<noteq> B" "R \<noteq> L" "B \<noteq> L"
    "corner_index T = 0" "corner_index R = 1" "corner_index B = 2" "corner_index L = 3"
    "cycle_at 0 = Some T" "cycle_at 1 = Some R" "cycle_at 2 = Some B" "cycle_at 3 = Some L" "cycle_at 4 = Some T" "cycle_at 5 = Some R"
    "cycle_at 6 = Some B"
  by (rule that [of "''tl''" "''tr''" "''br''" "''bl''"]) (simp_all add: CORNER_CYCLE_def cycle_at_simps)

lemma next_free:
  assumes "apart a l n"
  shows "next_corner ''liveFeed'' a [(''liveFeed'', a), (''liveLegend'', l), (''liveNodeDetail'', n)] = Some (free_corner a l n)"
    "next_corner ''liveLegend'' l [(''liveFeed'', a), (''liveLegend'', l), (''liveNodeDetail'', n)] = Some (free_corner a l n)"
    "next_corner ''liveNodeDetail'' n [(''liveFeed'', a), (''liveLegend'', l), (''liveNodeDetail'', n)] = Some (free_corner a l n)"
proof -
  obtain T R B L where c: "CORNER_CYCLE = [T, R, B, L]" "T \<noteq> R" "T \<noteq> B" "T \<noteq> L" "R \<noteq> B" "R \<noteq> L" "B \<noteq> L"
    "corner_index T = 0" "corner_index R = 1" "corner_index B = 2" "corner_index L = 3"
    "cycle_at 0 = Some T" "cycle_at 1 = Some R" "cycle_at 2 = Some B" "cycle_at 3 = Some L" "cycle_at 4 = Some T" "cycle_at 5 = Some R"
    "cycle_at 6 = Some B"
    by (rule cycle_abstract)
  have m: "a = T \<or> a = R \<or> a = B \<or> a = L" "l = T \<or> l = R \<or> l = B \<or> l = L" "n = T \<or> n = R \<or> n = B \<or> n = L"
    and d: "a \<noteq> l" "a \<noteq> n" "l \<noteq> n"
    using assms by (auto simp: apart_def c(1))
  have occ: "occupied ''liveFeed'' x [(''liveFeed'', a), (''liveLegend'', l), (''liveNodeDetail'', n)] = (Some l = x \<or> Some n = x)"
    "occupied ''liveLegend'' x [(''liveFeed'', a), (''liveLegend'', l), (''liveNodeDetail'', n)] = (Some a = x \<or> Some n = x)"
    "occupied ''liveNodeDetail'' x [(''liveFeed'', a), (''liveLegend'', l), (''liveNodeDetail'', n)] = (Some a = x \<or> Some l = x)" for x a l n
    by (auto simp: occupied_def)
  have search: "nextAvailableCorner i y ps = (if \<not> occupied i (cycle_at (corner_index y)) ps then cycle_at (corner_index y)
      else if \<not> occupied i (cycle_at (corner_index y + 1)) ps then cycle_at (corner_index y + 1)
      else if \<not> occupied i (cycle_at (corner_index y + 2)) ps then cycle_at (corner_index y + 2)
      else if \<not> occupied i (cycle_at (corner_index y + 3)) ps then cycle_at (corner_index y + 3) else Some y)" for i y ps
    unfolding nextAvailableCorner_def Let_def find_four by simp
  have free: "free_corner a l n = (if T \<noteq> a \<and> T \<noteq> l \<and> T \<noteq> n then T else if R \<noteq> a \<and> R \<noteq> l \<and> R \<noteq> n then R
      else if B \<noteq> a \<and> B \<noteq> l \<and> B \<noteq> n then B else if L \<noteq> a \<and> L \<noteq> l \<and> L \<noteq> n then L else hd [])" for a l n
    by (simp add: free_corner_def c(1))
  define pick where "pick own p q = (let y = CORNER_CYCLE ! nat ((corner_index own + 1) mod 4); k = corner_index y in
      if \<not> (Some p = cycle_at k \<or> Some q = cycle_at k) then cycle_at k
      else if \<not> (Some p = cycle_at (k + 1) \<or> Some q = cycle_at (k + 1)) then cycle_at (k + 1)
      else if \<not> (Some p = cycle_at (k + 2) \<or> Some q = cycle_at (k + 2)) then cycle_at (k + 2)
      else if \<not> (Some p = cycle_at (k + 3) \<or> Some q = cycle_at (k + 3)) then cycle_at (k + 3) else Some y)" for own p q
  have pick: "next_corner ''liveFeed'' a [(''liveFeed'', a), (''liveLegend'', l), (''liveNodeDetail'', n)] = pick a l n"
    "next_corner ''liveLegend'' l [(''liveFeed'', a), (''liveLegend'', l), (''liveNodeDetail'', n)] = pick l a n"
    "next_corner ''liveNodeDetail'' n [(''liveFeed'', a), (''liveLegend'', l), (''liveNodeDetail'', n)] = pick n a l"
    by (simp_all only: next_corner_def search occ pick_def Let_def)
  have step: "pick T p q = (if p \<noteq> R \<and> q \<noteq> R then Some R else if p \<noteq> B \<and> q \<noteq> B then Some B else if p \<noteq> L \<and> q \<noteq> L then Some L
        else if p \<noteq> T \<and> q \<noteq> T then Some T else Some R)"
    "pick R p q = (if p \<noteq> B \<and> q \<noteq> B then Some B else if p \<noteq> L \<and> q \<noteq> L then Some L else if p \<noteq> T \<and> q \<noteq> T then Some T
        else if p \<noteq> R \<and> q \<noteq> R then Some R else Some B)"
    "pick B p q = (if p \<noteq> L \<and> q \<noteq> L then Some L else if p \<noteq> T \<and> q \<noteq> T then Some T else if p \<noteq> R \<and> q \<noteq> R then Some R
        else if p \<noteq> B \<and> q \<noteq> B then Some B else Some L)"
    "pick L p q = (if p \<noteq> T \<and> q \<noteq> T then Some T else if p \<noteq> R \<and> q \<noteq> R then Some R else if p \<noteq> B \<and> q \<noteq> B then Some B
        else if p \<noteq> L \<and> q \<noteq> L then Some L else Some T)" for p q
    by (simp_all add: pick_def Let_def c split del: if_split cong: if_cong)
  have "pick a l n = Some (free_corner a l n) \<and> pick l a n = Some (free_corner a l n) \<and> pick n a l = Some (free_corner a l n)"
    using m d by (elim disjE; simp add: step free c(2-7) c(2-7) [symmetric])
  then show "next_corner ''liveFeed'' a [(''liveFeed'', a), (''liveLegend'', l), (''liveNodeDetail'', n)] = Some (free_corner a l n)"
    "next_corner ''liveLegend'' l [(''liveFeed'', a), (''liveLegend'', l), (''liveNodeDetail'', n)] = Some (free_corner a l n)"
    "next_corner ''liveNodeDetail'' n [(''liveFeed'', a), (''liveLegend'', l), (''liveNodeDetail'', n)] = Some (free_corner a l n)"
    unfolding pick by blast+
qed

text \<open>Moving a panel to the free corner frees the one it left.\<close>

lemma free_corner_facts:
  assumes "apart a b c"
  shows "free_corner a b c \<in> set CORNER_CYCLE - {a, b, c}"
    "apart (free_corner a b c) b c" "apart a (free_corner a b c) c" "apart a b (free_corner a b c)"
    "free_corner (free_corner a b c) b c = a" "free_corner a (free_corner a b c) c = b" "free_corner a b (free_corner a b c) = c"
proof -
  obtain T R B L where q: "CORNER_CYCLE = [T, R, B, L]" "T \<noteq> R" "T \<noteq> B" "T \<noteq> L" "R \<noteq> B" "R \<noteq> L" "B \<noteq> L"
    by (rule cycle_abstract)
  have m: "a = T \<or> a = R \<or> a = B \<or> a = L" "b = T \<or> b = R \<or> b = B \<or> b = L" "c = T \<or> c = R \<or> c = B \<or> c = L"
    and d: "a \<noteq> b" "a \<noteq> c" "b \<noteq> c"
    using assms by (auto simp: apart_def q(1))
  have "free_corner a b c \<in> set CORNER_CYCLE - {a, b, c} \<and>
    free_corner (free_corner a b c) b c = a \<and> free_corner a (free_corner a b c) c = b \<and> free_corner a b (free_corner a b c) = c"
    using m d by (elim disjE; simp add: free_corner_def q q(2-7) [symmetric])
  then show "free_corner a b c \<in> set CORNER_CYCLE - {a, b, c}"
    "apart (free_corner a b c) b c" "apart a (free_corner a b c) c" "apart a b (free_corner a b c)"
    "free_corner (free_corner a b c) b c = a" "free_corner a (free_corner a b c) c = b" "free_corner a b (free_corner a b c) = c"
    using assms by (auto simp: apart_def)
qed

lemma onCornerClick_shown:
  assumes "corners_ok (l_ls w)" "i \<in> set (obj_keys PANEL_DEFAULTS)"
  defines "f \<equiv> free_corner (shown_at (l_ls w) ''liveFeed'') (shown_at (l_ls w) ''liveLegend'') (shown_at (l_ls w) ''liveNodeDetail'')"
  shows "onCornerClick fits i w = applyPanelPosition i (Some f) (clearPanel True i
      (if fits (obj_set (l_ls w) (corner_key i) f) then w\<lparr>l_ls := obj_set (l_ls w) (corner_key i) f\<rparr> else w))"
    "shown_at (l_ls (onCornerClick fits i w)) j =
      (if j = i \<and> fits (obj_set (l_ls w) (corner_key i) f) then f else shown_at (l_ls w) j)"
    "corners_ok (l_ls (onCornerClick fits i w))"
proof -
  let ?c = "\<lambda>i. shown_at (l_ls w) i"
  have ap: "apart (?c ''liveFeed'') (?c ''liveLegend'') (?c ''liveNodeDetail'')" using assms(1) by (simp add: corners_ok_def)
  have i: "i = ''liveFeed'' \<or> i = ''liveLegend'' \<or> i = ''liveNodeDetail''" using assms(2) by (auto simp: PANEL_DEFAULTS_def)
  have nx: "next_corner i (?c i) (getPanelPositions (l_ls w)) = Some f"
    using i next_free [OF ap] by (auto simp: positions_eq f_def)
  have cur: "obj_get (getPanelPositions (l_ls w)) i = Some (?c i)" using i by (auto simp: positions_eq)
  show eq: "onCornerClick fits i w = applyPanelPosition i (Some f) (clearPanel True i
      (if fits (obj_set (l_ls w) (corner_key i) f) then w\<lparr>l_ls := obj_set (l_ls w) (corner_key i) f\<rparr> else w))"
    using nx by (simp add: onCornerClick_def Let_def cur next_corner_def)
  have ne: "f \<noteq> []" using free_corner_facts(1) [OF ap] by (auto simp: f_def cycle_cases)
  show sh: "shown_at (l_ls (onCornerClick fits i w)) j = (if j = i \<and> fits (obj_set (l_ls w) (corner_key i) f) then f else ?c j)" for j
    using ne by (simp add: eq shown_at_def position_of_def obj_get_set)
  show "corners_ok (l_ls (onCornerClick fits i w))"
    unfolding corners_ok_def sh using ap i free_corner_facts(2-4) [OF ap] by (auto simp: f_def)
qed

section \<open>Reachable pages\<close>

text \<open>
  The invariant of the page.  That a panel in a corner is in its stored corner (\<open>s\<close>) needs writes that do not fail; the rest does not.
\<close>

definition page_inv :: "bool \<Rightarrow> live_page \<Rightarrow> bool" where
  "page_inv s w \<longleftrightarrow> corners_ok (l_ls w) \<and>
     (\<forall>i p. obj_get (l_panels w) i = Some p \<longrightarrow> i \<in> set (obj_keys PANEL_DEFAULTS) \<and> (s \<longrightarrow> p_corner p = None \<or> p_corner p = Some (shown_at (l_ls w) i))) \<and>
     (d_state (l_drag w) = IDLE \<longleftrightarrow> d_active (l_drag w) = None) \<and> (d_listening (l_drag w) \<longleftrightarrow> d_state (l_drag w) \<noteq> IDLE) \<and>
     (d_enabled (l_drag w) \<or> d_state (l_drag w) = IDLE)"

text \<open>Writes that keep the stored corners and put panels nowhere but at their stored corner.\<close>

definition keeps_corners :: "live_page \<Rightarrow> live_page \<Rightarrow> bool" where
  "keeps_corners w w' \<longleftrightarrow> (\<forall>i. obj_get (l_ls w') (corner_key i) = obj_get (l_ls w) (corner_key i)) \<and>
     (\<forall>i p'. obj_get (l_panels w') i = Some p' \<longrightarrow>
        (\<exists>p. obj_get (l_panels w) i = Some p \<and> (p_corner p' = None \<or> p_corner p' = p_corner p \<or> p_corner p' = Some (shown_at (l_ls w) i))))"

lemma keeps_refl [simp]: "keeps_corners w w"
  by (auto simp: keeps_corners_def)

lemma shown_cong: "obj_get ls (corner_key i) = obj_get ls' (corner_key i) \<Longrightarrow> shown_at ls i = shown_at ls' i"
  by (simp add: shown_at_def position_of_def)

lemma keeps_trans:
  assumes a: "keeps_corners w w1" and b: "keeps_corners w1 w2"
  shows "keeps_corners w w2"
proof -
  have sh: "shown_at (l_ls w1) i = shown_at (l_ls w) i" for i using a by (auto simp: keeps_corners_def intro: shown_cong)
  show ?thesis
    unfolding keeps_corners_def
  proof (intro conjI allI impI)
    show "obj_get (l_ls w2) (corner_key i) = obj_get (l_ls w) (corner_key i)" for i using a b by (simp add: keeps_corners_def)
    fix i p2 assume "obj_get (l_panels w2) i = Some p2"
    then obtain p1 where p1: "obj_get (l_panels w1) i = Some p1"
      and c2: "p_corner p2 = None \<or> p_corner p2 = p_corner p1 \<or> p_corner p2 = Some (shown_at (l_ls w) i)"
      using b sh unfolding keeps_corners_def by metis
    from a p1 obtain p where p: "obj_get (l_panels w) i = Some p"
      and c1: "p_corner p1 = None \<or> p_corner p1 = p_corner p \<or> p_corner p1 = Some (shown_at (l_ls w) i)"
      unfolding keeps_corners_def by blast
    show "\<exists>p. obj_get (l_panels w) i = Some p \<and> (p_corner p2 = None \<or> p_corner p2 = p_corner p \<or> p_corner p2 = Some (shown_at (l_ls w) i))"
      using p c1 c2 by auto
  qed
qed

lemma keeps_panel:
  "(\<And>p. p_corner (f p) = None \<or> p_corner (f p) = p_corner p \<or> p_corner (f p) = Some (shown_at (l_ls w) i)) \<Longrightarrow> keeps_corners w (on_panel i f w)"
  by (auto simp: keeps_corners_def)

lemma keeps_simple [simp]:
  "keeps_corners w (on_drag f w)" "keeps_corners w (clearPanel c i w)" "keeps_corners w (persist fits i x y w)"
  "keeps_corners w (drag_reset w)" "keeps_corners w (undrag i w)" "keeps_corners w (w\<lparr>l_wired := n\<rparr>)" "keeps_corners w (w\<lparr>l_view := v\<rparr>)"
  "keeps_corners w (w\<lparr>l_ls := obj_del (l_ls w) (drag_key i)\<rparr>)"
  by (auto simp: keeps_corners_def drag_reset_def undrag_def clear_styles_def obj_get_del)

lemma keeps_fold: "(\<And>w x. keeps_corners w (f w x)) \<Longrightarrow> keeps_corners w (foldl f w xs)"
  by (induction xs arbitrary: w) (auto intro: keeps_trans)

lemma keeps_drag:
  "keeps_corners w (pointerdown b i n o' xy w)" "keeps_corners w (pointermove b i xy w)"
  "keeps_corners w (finalizePosition b fits i w)" "keeps_corners w (restore_panel b w i)" "keeps_corners w (resize_panel b fits w i)"
proof -
  show "keeps_corners w (pointerdown b i n o' xy w)" by (simp add: pointerdown_def split: option.split)
  have "keeps_corners w (detachFromCorner b i (on_panel i (\<lambda>p. p\<lparr>p_dragging := True, p_z := z\<rparr>) (on_drag f w)))" for z f
    unfolding detachFromCorner_def by (rule keeps_trans [OF keeps_trans [OF keeps_simple(1) keeps_panel] keeps_panel]) simp_all
  moreover have move: "keeps_corners v (on_panel i (\<lambda>p. p\<lparr>p_transform := t\<rparr>) v)" for v t by (rule keeps_panel) simp
  ultimately have "keeps_corners w (on_panel i (\<lambda>p. p\<lparr>p_transform := t\<rparr>)
      (detachFromCorner b i (on_panel i (\<lambda>p. p\<lparr>p_dragging := True, p_z := z\<rparr>) (on_drag f w))))" for t z f
    by (rule keeps_trans)
  then show "keeps_corners w (pointermove b i xy w)" by (simp add: pointermove_def Let_def move)
  have place: "keeps_corners v (persist fits i x y (on_panel i (\<lambda>p. p\<lparr>p_place := q, p_transform := t\<rparr>) v))"
    "keeps_corners v (persist fits i x y (on_panel i (\<lambda>p. p\<lparr>p_place := q\<rparr>) v))" for v q t x y
    by (rule keeps_trans [OF keeps_panel keeps_simple(3)]; simp)+
  then show "keeps_corners w (finalizePosition b fits i w)" "keeps_corners w (resize_panel b fits w i)"
    by (simp_all add: finalizePosition_def resize_panel_def Let_def split: option.split)
  show "keeps_corners w (restore_panel b w i)"
    by (auto simp: restore_panel_def Let_def intro!: keeps_panel split: option.split)
qed

lemma keeps_inv:
  assumes "page_inv s w" "keeps_corners w w'"
    and "(d_state (l_drag w') = IDLE \<longleftrightarrow> d_active (l_drag w') = None) \<and> (d_listening (l_drag w') \<longleftrightarrow> d_state (l_drag w') \<noteq> IDLE) \<and>
      (d_enabled (l_drag w') \<or> d_state (l_drag w') = IDLE)"
  shows "page_inv s w'"
proof -
  have sh: "shown_at (l_ls w') i = shown_at (l_ls w) i" for i using assms(2) by (auto simp: keeps_corners_def intro: shown_cong)
  show ?thesis
    unfolding page_inv_def sh corners_ok_def
  proof (intro conjI allI impI)
    fix i p' assume "obj_get (l_panels w') i = Some p'"
    then obtain p where p: "obj_get (l_panels w) i = Some p"
      and c: "p_corner p' = None \<or> p_corner p' = p_corner p \<or> p_corner p' = Some (shown_at (l_ls w) i)"
      using assms(2) unfolding keeps_corners_def by blast
    show "i \<in> set (obj_keys PANEL_DEFAULTS)" using assms(1) p by (auto simp: page_inv_def)
    show "p_corner p' = None \<or> p_corner p' = Some (shown_at (l_ls w) i)" if s
      using assms(1) p c that unfolding page_inv_def by (elim conjE) (metis (no_types))
  qed (use assms in \<open>auto simp: page_inv_def corners_ok_def\<close>)
qed

lemma applyPanelPosition_get [simp]:
  "obj_get (l_panels (applyPanelPosition i c w)) j =
     (if j = i then map_option (\<lambda>p. p\<lparr>p_corner := Some (case c of Some c \<Rightarrow> c | None \<Rightarrow> ''undefined'')\<rparr>) (obj_get (l_panels w) i)
      else obj_get (l_panels w) j)"
  by (simp add: applyPanelPosition_def)

lemma keeps_init: "keeps_corners w (initPanelPositions w)"
proof -
  have "keeps_corners w (foldl (\<lambda>w (i, c). applyPanelPosition i (Some c) w) w (getPanelPositions (l_ls w)))"
    by (auto simp: positions_eq keeps_corners_def)
  then show ?thesis unfolding initPanelPositions_def Let_def by (rule keeps_trans) simp
qed

lemma drag_same [simp]:
  "l_drag (initPanelPositions w) = l_drag w" "l_drag (restore_panel b w i) = l_drag w" "l_drag (resize_panel b fits w i) = l_drag w"
  "l_drag (finalizePosition b fits i w) = l_drag w" "l_drag (undrag i w) = l_drag w" "l_drag (detachFromCorner b i w) = l_drag w"
proof -
  have "l_drag (foldl (\<lambda>w (i, c). applyPanelPosition i (Some c) w) w ps) = l_drag w" for ps
    by (induction ps arbitrary: w) auto
  then show "l_drag (initPanelPositions w) = l_drag w" by (simp add: initPanelPositions_def Let_def)
qed (auto simp: restore_panel_def resize_panel_def finalizePosition_def undrag_def detachFromCorner_def Let_def split: option.splits)

lemma drag_fold: "(\<And>w x. l_drag (f w x) = l_drag w) \<Longrightarrow> l_drag (foldl f w xs) = l_drag w"
  by (induction xs arbitrary: w) auto

lemma drag_folds [simp]:
  "l_drag (restorePositions b w) = l_drag w" "l_drag (handleResize b fits v w) = l_drag w"
  "l_drag (foldl (\<lambda>w i. clearPanel False i w) w xs) = l_drag w"
  by (simp_all add: restorePositions_def handleResize_def drag_fold)

lemma keeps_folds:
  "keeps_corners w (restorePositions b w)" "keeps_corners w (handleResize b fits v w)"
  "keeps_corners w (foldl (\<lambda>w i. clearPanel False i w) w xs)"
  unfolding restorePositions_def handleResize_def
  by (rule keeps_fold, rule keeps_drag) (rule keeps_trans [OF keeps_simple(7)], rule keeps_fold, rule keeps_drag, rule keeps_fold, rule keeps_simple)

lemma inv_drag:
  "page_inv s w \<Longrightarrow> (d_state (l_drag w) = IDLE \<longleftrightarrow> d_active (l_drag w) = None) \<and>
    (d_listening (l_drag w) \<longleftrightarrow> d_state (l_drag w) \<noteq> IDLE) \<and> (d_enabled (l_drag w) \<or> d_state (l_drag w) = IDLE)"
  unfolding page_inv_def by blast

lemma media_inv: "page_inv s w \<Longrightarrow> page_inv s (onDragMediaChange b wide w)"
proof (cases wide)
  case True
  assume inv: "page_inv s w"
  have "keeps_corners w (restorePositions b (drag_enable w))"
    unfolding drag_enable_def by (rule keeps_trans [OF keeps_simple(1) keeps_folds(1)])
  then show ?thesis using True inv_drag [OF inv] by (intro keeps_inv [OF inv]) (simp_all add: onDragMediaChange_def drag_enable_def)
next
  case False
  assume inv: "page_inv s w"
  have dis: "keeps_corners v (drag_disable v)" for v
    by (cases "d_active (l_drag v)"; cases "d_state (l_drag v) = IDLE")
      (simp_all add: drag_disable_def Let_def keeps_trans [OF keeps_trans [OF keeps_simple(1) keeps_simple(5)] keeps_simple(4)])
  have "keeps_corners w (onDragMediaChange b wide w)"
    using False by (simp add: onDragMediaChange_def) (rule keeps_trans [OF keeps_trans [OF keeps_folds(3) keeps_init] dis])
  then show ?thesis using False inv_drag [OF inv]
    by (intro keeps_inv [OF inv]) (auto simp: onDragMediaChange_def drag_disable_def drag_reset_def Let_def split: option.split)
qed

lemma panel_ids:
  "''liveFeed'' \<in> set (obj_keys PANEL_DEFAULTS)" "''liveLegend'' \<in> set (obj_keys PANEL_DEFAULTS)"
  "''liveNodeDetail'' \<in> set (obj_keys PANEL_DEFAULTS)"
  by (simp_all add: PANEL_DEFAULTS_def)

lemma click_inv:
  assumes inv: "page_inv s w" and fits: "s \<longrightarrow> (\<forall>ls. fits ls)"
  shows "page_inv s (onCornerClick fits i w)"
proof (cases "i \<in> set (obj_keys PANEL_DEFAULTS)")
  case True
  have ok: "corners_ok (l_ls w)" using inv by (simp add: page_inv_def)
  note c = onCornerClick_shown [OF ok True, of fits]
  show ?thesis
    unfolding page_inv_def c(2)
    using c(3) inv inv_drag [OF inv] fits by (auto simp: c(1) page_inv_def clear_styles_def)
next
  case False
  then have none: "obj_get (l_panels w) i = None" using inv by (cases "obj_get (l_panels w) i") (auto simp: page_inv_def)
  let ?w = "onCornerClick fits i w"
  have skip: "applyPanelPosition i c (clearPanel True i (w\<lparr>l_ls := ls\<rparr>)) = w\<lparr>l_ls := ls\<rparr>" for c ls
    using none by (simp add: applyPanelPosition_def clearPanel_def on_panel_def)
  have skip0: "applyPanelPosition i c (clearPanel True i w) = w" for c using skip [of c "l_ls w"] by simp
  obtain t where "?w = w\<lparr>l_ls := obj_set (l_ls w) (corner_key i) t\<rparr> \<or> ?w = w"
    unfolding onCornerClick_def Let_def by (simp only: skip skip0 if_distrib [of "clearPanel True i"] if_distrib [of "applyPanelPosition i _"]) metis
  then have w: "l_panels ?w = l_panels w" "l_drag ?w = l_drag w" "l_ls ?w = obj_set (l_ls w) (corner_key i) t \<or> l_ls ?w = l_ls w" by auto
  have sh: "shown_at (l_ls ?w) j = shown_at (l_ls w) j" if "j \<in> set (obj_keys PANEL_DEFAULTS)" for j
  proof -
    have "j \<noteq> i" using that False by blast
    with w(3) show ?thesis by (elim disjE) (simp_all add: shown_at_def position_of_def obj_get_set)
  qed
  have "corners_ok (l_ls w)" using inv unfolding page_inv_def by blast
  then have "corners_ok (l_ls ?w)"
    by (simp only: corners_ok_def sh [OF panel_ids(1)] sh [OF panel_ids(2)] sh [OF panel_ids(3)])
  moreover have "j \<in> set (obj_keys PANEL_DEFAULTS) \<and> (s \<longrightarrow> p_corner p = None \<or> p_corner p = Some (shown_at (l_ls ?w) j))"
    if "obj_get (l_panels ?w) j = Some p" for j p
  proof -
    have "j \<in> set (obj_keys PANEL_DEFAULTS) \<and> (s \<longrightarrow> p_corner p = None \<or> p_corner p = Some (shown_at (l_ls w) j))"
      using that inv unfolding page_inv_def w(1) by blast
    then show ?thesis using sh by simp
  qed
  ultimately show ?thesis using inv_drag [OF inv] unfolding page_inv_def w(2) by blast
qed

lemma press_inv:
  assumes inv: "page_inv s w" and fits: "s \<longrightarrow> (\<forall>ls. fits ls)"
  shows "page_inv s (press_corner fits i w)"
proof -
  have "page_inv s ((onCornerClick fits i ^^ n) w)" for n
    by (induction n) (simp_all add: inv click_inv [OF _ fits])
  then show ?thesis by (simp add: press_corner_def)
qed

lemma reset_one:
  "l_drag (reset_panel w (i, d)) = l_drag w"
  "obj_get (l_ls (reset_panel w (i, d))) (corner_key j) = (if j = i then None else obj_get (l_ls w) (corner_key j))"
  "obj_get (l_panels (reset_panel w (i, d))) j =
     (if j = i then map_option (\<lambda>p. (clear_styles p)\<lparr>p_corner := Some d\<rparr>) (obj_get (l_panels w) i) else obj_get (l_panels w) j)"
  by (simp_all add: reset_panel_def obj_get_del option.map_comp comp_def)

lemma reset_all:
  "l_drag (foldl reset_panel w es) = l_drag w"
  "obj_get (l_ls (foldl reset_panel w es)) (corner_key j) = (if j \<in> set (obj_keys es) then None else obj_get (l_ls w) (corner_key j))"
  "distinct (obj_keys es) \<Longrightarrow> obj_get (l_panels (foldl reset_panel w es)) j = (case obj_get es j of None \<Rightarrow> obj_get (l_panels w) j
     | Some c \<Rightarrow> map_option (\<lambda>p. (clear_styles p)\<lparr>p_corner := Some c\<rparr>) (obj_get (l_panels w) j))"
proof (induction es arbitrary: w)
  case (Cons e es)
  obtain i d where e: "e = (i, d)" by (cases e)
  {
    case 1 show ?case by (simp add: Cons.IH(1) e reset_one)
    case 2 show ?case by (auto simp: Cons.IH(2) e reset_one)
    case 3
    then have "obj_get es i = None" by (auto simp: e map_of_eq_None_iff)
    with 3 show ?case by (simp add: Cons.IH(3) e reset_one split: option.split)
  }
qed simp_all

lemma reset_panels:
  "l_drag (resetPanelPositions w) = l_drag w" "shown_at (l_ls (resetPanelPositions w)) j = shown_at [] j \<or> j \<notin> set (obj_keys PANEL_DEFAULTS)"
  "obj_get (l_panels (resetPanelPositions w)) j = (case obj_get PANEL_DEFAULTS j of None \<Rightarrow> obj_get (l_panels w) j
     | Some c \<Rightarrow> map_option (\<lambda>p. (clear_styles p)\<lparr>p_corner := Some c\<rparr>) (obj_get (l_panels w) j))"
proof -
  have "distinct (obj_keys PANEL_DEFAULTS)" by (simp add: PANEL_DEFAULTS_def)
  then show "obj_get (l_panels (resetPanelPositions w)) j = (case obj_get PANEL_DEFAULTS j of None \<Rightarrow> obj_get (l_panels w) j
     | Some c \<Rightarrow> map_option (\<lambda>p. (clear_styles p)\<lparr>p_corner := Some c\<rparr>) (obj_get (l_panels w) j))"
    unfolding resetPanelPositions_def by (rule reset_all(3))
  show "l_drag (resetPanelPositions w) = l_drag w" by (simp add: resetPanelPositions_def reset_all(1))
  show "shown_at (l_ls (resetPanelPositions w)) j = shown_at [] j \<or> j \<notin> set (obj_keys PANEL_DEFAULTS)"
    unfolding shown_at_def position_of_def resetPanelPositions_def reset_all(2) by simp
qed

lemma start_corners: "corners_ok []" "shown_at [] ''liveFeed'' = ''bl''" "shown_at [] ''liveLegend'' = ''br''" "shown_at [] ''liveNodeDetail'' = ''tr''"
  by (simp_all add: corners_ok_def apart_def shown_at_def position_of_def PANEL_DEFAULTS_def CORNER_CYCLE_def)

lemma reset_inv:
  assumes inv: "page_inv s w"
  shows "page_inv s (resetPanelPositions w)"
proof -
  have sh: "shown_at (l_ls (resetPanelPositions w)) j = shown_at [] j" if "j \<in> set (obj_keys PANEL_DEFAULTS)" for j
    using reset_panels(2) that by blast
  have "corners_ok (l_ls (resetPanelPositions w))"
    using start_corners(1) sh by (simp add: corners_ok_def PANEL_DEFAULTS_def)
  moreover have "j \<in> set (obj_keys PANEL_DEFAULTS) \<and> (s \<longrightarrow> p_corner p = None \<or> p_corner p = Some (shown_at (l_ls (resetPanelPositions w)) j))"
    if "obj_get (l_panels (resetPanelPositions w)) j = Some p" for j p
  proof -
    have j: "j \<in> set (obj_keys PANEL_DEFAULTS)"
      using that inv by (auto simp: reset_panels(3) page_inv_def split: option.splits)
    then show ?thesis using that sh [OF j] by (auto simp: reset_panels(3) PANEL_DEFAULTS_def shown_at_def position_of_def)
  qed
  ultimately show ?thesis using inv_drag [OF inv] unfolding page_inv_def reset_panels(1) by blast
qed

lemma event_inv:
  assumes inv: "page_inv s w" and fits: "s \<longrightarrow> (\<forall>ls. fits ls)"
  shows "page_inv s (page_step b fits e w)"
proof -
  note d = inv_drag [OF inv]
  show ?thesis
  proof (cases e)
    case (Down i n o' xy)
    have "l_drag (pointerdown b i n o' xy w) = l_drag w \<or> d_enabled (l_drag w) \<and>
        d_state (l_drag (pointerdown b i n o' xy w)) = PENDING \<and> d_active (l_drag (pointerdown b i n o' xy w)) = Some i \<and>
        d_listening (l_drag (pointerdown b i n o' xy w)) \<and> d_enabled (l_drag (pointerdown b i n o' xy w))"
      by (auto simp: pointerdown_def split: option.split)
    with d show ?thesis unfolding Down page_step.simps by (intro keeps_inv [OF inv keeps_drag(1)]) auto
  next
    case (Move i xy)
    have "l_drag (pointermove b i xy w) = l_drag w \<or> d_state (l_drag w) = PENDING \<and>
        l_drag (pointermove b i xy w) = (l_drag w)\<lparr>d_state := DRAGGING, d_z := d_z (l_drag w) + 1\<rparr>"
      by (simp add: pointermove_def Let_def)
    with d show ?thesis unfolding Move page_step.simps by (intro keeps_inv [OF inv keeps_drag(2)]) auto
  next
    case (Up i)
    have "keeps_corners w (pointerup b fits i w)"
      unfolding pointerup_def by (auto intro: keeps_trans [OF keeps_trans [OF keeps_simple(5) keeps_drag(3)] keeps_simple(4)])
    moreover have "l_drag (pointerup b fits i w) = l_drag w \<or> l_drag (pointerup b fits i w) = (l_drag w)\<lparr>d_listening := False, d_state := IDLE, d_active := None\<rparr>"
      by (simp add: pointerup_def drag_reset_def)
    ultimately show ?thesis using d unfolding Up page_step.simps by (elim disjE; intro keeps_inv [OF inv]) auto
  next
    case (Cancel i)
    have "keeps_corners w (pointercancel b fits i w)"
      unfolding pointercancel_def Let_def
      by (auto intro: keeps_trans [OF keeps_trans [OF keeps_simple(5) keeps_drag(3)] keeps_simple(4)] keeps_trans [OF keeps_simple(5) keeps_simple(4)])
    moreover have "l_drag (pointercancel b fits i w) = l_drag w \<or> l_drag (pointercancel b fits i w) = (l_drag w)\<lparr>d_listening := False, d_state := IDLE, d_active := None\<rparr>"
      by (simp add: pointercancel_def drag_reset_def Let_def)
    ultimately show ?thesis using d unfolding Cancel page_step.simps by (elim disjE; intro keeps_inv [OF inv]) auto
  next
    case (Key k)
    have "keeps_corners w (handleKeyDown k w)"
    proof (cases "d_active (l_drag w)")
      case (Some i)
      have t: "keeps_corners w (on_panel i (\<lambda>p. p\<lparr>p_transform := t\<rparr>) w)" for t by (rule keeps_panel) simp
      have c: "keeps_corners v (on_panel i (\<lambda>p. p\<lparr>p_corner := Some c\<rparr>) v)" if "obj_get (l_ls v) (corner_key i) = Some c" "c \<noteq> []" for v c
        by (rule keeps_panel) (use that in \<open>simp add: shown_at_def position_of_def\<close>)
      have u: "keeps_corners v (on_panel i (\<lambda>p. p\<lparr>p_dragging := False, p_transform := TNone\<rparr>) v)" for v by (rule keeps_panel) simp
      define w1 where "w1 = on_panel i (\<lambda>p. p\<lparr>p_transform := d_pre (l_drag w)\<rparr>) w"
      have w1: "keeps_corners w w1" unfolding w1_def by (rule t)
      have w2: "keeps_corners w (drag_reset (clearPanel True i w1))" by (rule keeps_trans [OF keeps_trans [OF w1 keeps_simple(2)] keeps_simple(4)])
      have w3: "keeps_corners w (drag_reset (on_panel i (\<lambda>p. p\<lparr>p_corner := Some c\<rparr>) (clearPanel True i w1)))"
        if "obj_get (l_ls (clearPanel True i w1)) (corner_key i) = Some c" "c \<noteq> []" for c
        by (rule keeps_trans [OF keeps_trans [OF keeps_trans [OF w1 keeps_simple(2)] c [OF that]] keeps_simple(4)])
      have w4: "keeps_corners w (drag_reset (on_panel i (\<lambda>p. p\<lparr>p_dragging := False, p_transform := TNone\<rparr>) w1))"
        by (rule keeps_trans [OF keeps_trans [OF w1 u] keeps_simple(4)])
      show ?thesis
        unfolding handleKeyDown_def Some option.case Let_def w1_def [symmetric]
        using w2 w3 w4 by (cases "obj_get (l_ls (clearPanel True i w1)) (corner_key i)") simp_all
    qed (simp add: handleKeyDown_def)
    moreover have "l_drag (handleKeyDown k w) = l_drag w \<or> l_drag (handleKeyDown k w) = (l_drag w)\<lparr>d_listening := False, d_state := IDLE, d_active := None\<rparr>"
      by (simp add: handleKeyDown_def drag_reset_def Let_def split: option.split)
    ultimately show ?thesis using d unfolding Key page_step.simps by (elim disjE; intro keeps_inv [OF inv]) auto
  next
    case (Resize v)
    show ?thesis unfolding Resize page_step.simps by (rule keeps_inv [OF inv keeps_folds(2)], unfold drag_folds, rule d)
  qed (simp_all add: press_inv [OF inv fits] reset_inv [OF inv] media_inv [OF inv])
qed

lemma init_inv:
  assumes "corners_ok ls"
  shows "page_inv s (live_init b wide view ls)"
proof -
  define w0 where "w0 = \<lparr>l_panels = map (\<lambda>(i, _). (i, fresh_panel)) PANEL_DEFAULTS, l_drag = new_manager, l_ls = ls, l_view = view, l_wired = 0\<rparr>"
  define w1 where "w1 = restorePositions b (foldl (\<lambda>w i. register i w) (initPanelPositions w0) (obj_keys PANEL_DEFAULTS))"
  have i0: "page_inv s w0"
    unfolding page_inv_def using assms
    by (simp add: w0_def new_manager_def PANEL_DEFAULTS_def fresh_panel_def)
  have reg: "keeps_corners v (register i v)" for v i by (simp add: register_def)
  have k1: "keeps_corners w0 w1" unfolding w1_def
    by (rule keeps_trans [OF keeps_trans [OF keeps_init keeps_fold] keeps_folds(1)]) (rule reg)
  have regs: "d_state (l_drag (foldl (\<lambda>w i. register i w) v xs)) = d_state (l_drag v) \<and>
      d_active (l_drag (foldl (\<lambda>w i. register i w) v xs)) = d_active (l_drag v) \<and>
      d_listening (l_drag (foldl (\<lambda>w i. register i w) v xs)) = d_listening (l_drag v) \<and>
      d_enabled (l_drag (foldl (\<lambda>w i. register i w) v xs)) = d_enabled (l_drag v)" for v xs
    by (induction xs arbitrary: v) (simp_all add: register_def)
  have d1: "d_state (l_drag w1) = IDLE" "d_active (l_drag w1) = None" "\<not> d_listening (l_drag w1)" "d_enabled (l_drag w1)"
    by (simp_all add: w1_def regs del: foldl_Cons) (simp_all add: w0_def new_manager_def)
  have i1: "page_inv s w1" by (rule keeps_inv [OF i0 k1]) (simp add: d1)
  have dis: "drag_disable w1 = on_drag (\<lambda>d. d\<lparr>d_enabled := False\<rparr>) w1" by (simp add: drag_disable_def d1)
  have "page_inv s (drag_disable w1)" unfolding dis by (rule keeps_inv [OF i1 keeps_simple(1)]) (simp add: d1)
  with i1 show ?thesis unfolding live_init_def Let_def w0_def [symmetric] w1_def [symmetric] by simp
qed

lemma corners_cong: "(\<And>i. obj_get ls (corner_key i) = obj_get ls' (corner_key i)) \<Longrightarrow> corners_ok ls = corners_ok ls'"
  unfolding corners_ok_def by (simp only: shown_cong [of ls _ ls'])

lemma inv_corners: "page_inv s w \<Longrightarrow> corners_ok (l_ls w)"
  unfolding page_inv_def by blast

lemma reachable_inv:
  assumes "panels_reachable b fits w" "s \<longrightarrow> (\<forall>ls. fits ls)"
  shows "page_inv s w"
  using assms(1)
proof induction
  case (first_visit ls wide view)
  then have "corners_ok ls = corners_ok []" by (intro corners_cong) simp
  then show ?case using start_corners(1) by (intro init_inv) simp
next
  case (next_visit w ls wide view)
  then have "corners_ok ls = corners_ok (l_ls w)" by (intro corners_cong) simp
  then show ?case using inv_corners [OF next_visit.IH] by (intro init_inv) simp
qed (simp add: event_inv assms(2))

text \<open>When no write succeeds, every corner button sends its panel to the same free corner.\<close>

lemma clicks_clash:
  assumes "page_inv s w" "\<forall>ls. \<not> fits ls" "i \<noteq> j" "obj_get (l_panels w) i \<noteq> None" "obj_get (l_panels w) j \<noteq> None"
  shows "\<exists>c p q. obj_get (l_panels (onCornerClick fits j (onCornerClick fits i w))) i = Some p \<and>
    obj_get (l_panels (onCornerClick fits j (onCornerClick fits i w))) j = Some q \<and> p_corner p = Some c \<and> p_corner q = Some c"
proof -
  have ij: "i \<in> set (obj_keys PANEL_DEFAULTS)" "j \<in> set (obj_keys PANEL_DEFAULTS)"
    using assms(1,4,5) unfolding page_inv_def by blast+
  note one = onCornerClick_shown [OF inv_corners [OF assms(1)] ij(1), of fits]
  have "\<not> fits ls" for ls using assms(2) by blast
  note nf = this
  have sh: "shown_at (l_ls (onCornerClick fits i w)) k = shown_at (l_ls w) k" for k by (simp add: one(2) nf)
  note two = onCornerClick_shown [OF one(3) ij(2), of fits]
  show ?thesis unfolding two(1) sh unfolding one(1) using assms(3-5) nf by auto
qed

text \<open>Panels that are in their stored corners are in different corners.\<close>

lemma inv_shown_apart:
  assumes inv: "page_inv True w" and "i \<noteq> j" "obj_get (l_panels w) i = Some p" "obj_get (l_panels w) j = Some q" "p_corner p = Some c"
  shows "p_corner q \<noteq> Some c"
proof
  have "apart (shown_at (l_ls w) ''liveFeed'') (shown_at (l_ls w) ''liveLegend'') (shown_at (l_ls w) ''liveNodeDetail'')"
    using inv_corners [OF inv] by (simp only: corners_ok_def)
  then have diff: "shown_at (l_ls w) i \<noteq> shown_at (l_ls w) j"
    if "i \<in> set (obj_keys PANEL_DEFAULTS)" "j \<in> set (obj_keys PANEL_DEFAULTS)"
    using that assms(2) unfolding apart_def by (auto simp: PANEL_DEFAULTS_def)
  assume "p_corner q = Some c"
  moreover have "i \<in> set (obj_keys PANEL_DEFAULTS) \<and> (p_corner p = None \<or> p_corner p = Some (shown_at (l_ls w) i))"
    "j \<in> set (obj_keys PANEL_DEFAULTS) \<and> (p_corner q = None \<or> p_corner q = Some (shown_at (l_ls w) j))"
    using inv assms(3,4) unfolding page_inv_def by blast+
  ultimately show False using diff assms(5) by simp
qed

text \<open>
  C38: The corners of the panels, over any number of visits, with any stored drag places and any viewport.
  Whatever the user does and whichever writes the storage refuses, the stored corners of the three panels
  are three different corners, and the drag manager is consistent: a panel is active exactly while it is
  not idle, the keyboard is watched exactly then, and a disabled manager is idle.  As long as the storage takes
  every write, no two panels are shown in the same corner.  When it takes none, that fails: a click on one corner button and then on
  another shows both panels in the same corner.
\<close>

theorem panels_apart:
  assumes "panels_reachable b fits w"
  shows "distinct (map snd (getPanelPositions (l_ls w))) \<and> set (map snd (getPanelPositions (l_ls w))) \<subseteq> set CORNER_CYCLE \<and>
    (d_state (l_drag w) = IDLE \<longleftrightarrow> d_active (l_drag w) = None) \<and>
    (d_listening (l_drag w) \<longleftrightarrow> d_state (l_drag w) \<noteq> IDLE) \<and>
    (\<not> d_enabled (l_drag w) \<longrightarrow> d_state (l_drag w) = IDLE) \<and>
    ((\<forall>ls. fits ls) \<longrightarrow>
      (\<forall>i j p q c. i \<noteq> j \<and> obj_get (l_panels w) i = Some p \<and> obj_get (l_panels w) j = Some q \<and> p_corner p = Some c \<longrightarrow> p_corner q \<noteq> Some c)) \<and>
    ((\<forall>ls. \<not> fits ls) \<longrightarrow>
      (\<forall>i j. i \<noteq> j \<and> obj_get (l_panels w) i \<noteq> None \<and> obj_get (l_panels w) j \<noteq> None \<longrightarrow>
        (\<exists>c p q. obj_get (l_panels (onCornerClick fits j (onCornerClick fits i w))) i = Some p \<and>
           obj_get (l_panels (onCornerClick fits j (onCornerClick fits i w))) j = Some q \<and> p_corner p = Some c \<and> p_corner q = Some c)))"
proof -
  have inv: "page_inv False w" by (rule reachable_inv [OF assms]) simp
  have ok: "apart (shown_at (l_ls w) ''liveFeed'') (shown_at (l_ls w) ''liveLegend'') (shown_at (l_ls w) ''liveNodeDetail'')"
    using inv_corners [OF inv] by (simp only: corners_ok_def)
  have "p_corner q \<noteq> Some c"
    if "\<forall>ls. fits ls" "i \<noteq> j" "obj_get (l_panels w) i = Some p" "obj_get (l_panels w) j = Some q" "p_corner p = Some c" for i j p q c
    by (rule inv_shown_apart [OF reachable_inv [OF assms] that(2-5)]) (use that(1) in simp)
  then show ?thesis
    using ok inv_drag [OF inv] clicks_clash [OF inv] by (simp add: positions_eq apart_def) blast
qed

text \<open>The sample browser: every panel is 100 by 50 and stands at the origin unless a corner on the right moves it.\<close>

definition sample_browser :: browser where
  "sample_browser = \<lparr>panel_size = (\<lambda>_. (100, 50)), css_place = (\<lambda>_ c. if c = Some ''bl'' then (12, 540) else (0, 0))\<rparr>"

definition sample_page :: live_page where
  "sample_page = live_init sample_browser True (1000, 800) []"

lemma sample_reachable: "panels_reachable sample_browser fits sample_page"
  unfolding sample_page_def by (rule panels_reachable.first_visit) simp

theorem panels_apart_witness:
  "distinct (map snd (getPanelPositions (l_ls (page_step sample_browser (\<lambda>_. True) (Corner ''liveLegend'') sample_page)))) \<and>
   (\<exists>c. map_option p_corner (obj_get (l_panels (onCornerClick (\<lambda>_. False) ''liveLegend'' (onCornerClick (\<lambda>_. False) ''liveFeed'' sample_page))) ''liveFeed'') = Some (Some c) \<and>
      map_option p_corner (obj_get (l_panels (onCornerClick (\<lambda>_. False) ''liveLegend'' (onCornerClick (\<lambda>_. False) ''liveFeed'' sample_page))) ''liveLegend'') = Some (Some c))"
proof
  show "distinct (map snd (getPanelPositions (l_ls (page_step sample_browser (\<lambda>_. True) (Corner ''liveLegend'') sample_page))))"
    by (rule panels_apart [THEN conjunct1, OF panels_reachable.step [OF sample_reachable]])
  have ij: "''liveFeed'' \<noteq> ''liveLegend'' \<and> obj_get (l_panels sample_page) ''liveFeed'' \<noteq> None \<and>
      obj_get (l_panels sample_page) ''liveLegend'' \<noteq> None"
    by code_simp
  show "\<exists>c. map_option p_corner (obj_get (l_panels (onCornerClick (\<lambda>_. False) ''liveLegend'' (onCornerClick (\<lambda>_. False) ''liveFeed'' sample_page))) ''liveFeed'') = Some (Some c) \<and>
      map_option p_corner (obj_get (l_panels (onCornerClick (\<lambda>_. False) ''liveLegend'' (onCornerClick (\<lambda>_. False) ''liveFeed'' sample_page))) ''liveLegend'') = Some (Some c)"
    using panels_apart [OF sample_reachable [of "\<lambda>_. False"], THEN conjunct2, THEN conjunct2, THEN conjunct2, THEN conjunct2,
        THEN conjunct2, THEN conjunct2, rule_format, OF _ ij] by (elim meta_impE exE conjE) simp_all
qed

lemma wired_facts:
  "l_wired (foldl (\<lambda>w i. clearPanel False i w) u xs) = l_wired u" "l_wired (initPanelPositions u) = l_wired u + 1"
  "l_wired (drag_disable u) = l_wired u" "l_wired (restorePositions b u) = l_wired u" "l_wired (drag_enable u) = l_wired u"
  "l_wired (foldl (\<lambda>w i. register i w) u xs) = l_wired u"
proof -
  show "l_wired (foldl (\<lambda>w i. clearPanel False i w) u xs) = l_wired u" by (induction xs arbitrary: u) simp_all
  show "l_wired (initPanelPositions u) = l_wired u + 1" by (simp add: initPanelPositions_def positions_eq)
  show "l_wired (drag_disable u) = l_wired u"
    by (simp add: drag_disable_def drag_reset_def undrag_def Let_def split: option.split)
  have one: "l_wired (restore_panel b u x) = l_wired u" for u x by (simp add: restore_panel_def Let_def split: option.split)
  have "l_wired (foldl (restore_panel b) u xs) = l_wired u" for u xs by (induction xs arbitrary: u) (simp_all add: one)
  then show "l_wired (restorePositions b u) = l_wired u" by (simp add: restorePositions_def)
  show "l_wired (drag_enable u) = l_wired u" by (simp add: drag_enable_def)
  show "l_wired (foldl (\<lambda>w i. register i w) u xs) = l_wired u" by (induction xs arbitrary: u) (simp_all add: register_def)
qed

lemma start_wired: "l_wired (live_init b wide view ls) = 1"
  unfolding live_init_def Let_def by (simp only: wired_facts if_distrib [of l_wired] if_cancel) simp

text \<open>
  a click on a corner button moves the panel to the one free corner and no other panel; a second click
  brings it back.  A window that has become narrow and wide again has a second listener on every corner
  button, so one click moves the panel twice and leaves it where it was.
\<close>

theorem corner_button_twice:
  assumes "panels_reachable b fits w" "\<forall>ls. fits ls" "i \<in> set (map fst PANEL_DEFAULTS)" "l_wired w = 1"
  shows "let w1 = onCornerClick fits i w; w2 = onCornerClick fits i w1;
             v = onDragMediaChange b True (onDragMediaChange b False w) in
    obj_get (getPanelPositions (l_ls w1)) i \<noteq> obj_get (getPanelPositions (l_ls w)) i \<and>
    (\<forall>j. j \<noteq> i \<longrightarrow> obj_get (getPanelPositions (l_ls w1)) j = obj_get (getPanelPositions (l_ls w)) j) \<and>
    getPanelPositions (l_ls w2) = getPanelPositions (l_ls w) \<and>
    l_wired v = 2 \<and> getPanelPositions (l_ls (press_corner fits i v)) = getPanelPositions (l_ls v)"
proof -
  define v where "v = onDragMediaChange b True (onDragMediaChange b False w)"
  have inv: "page_inv True w" by (rule reachable_inv [OF assms(1)]) (use assms(2) in simp)
  have inv_v: "page_inv True v" unfolding v_def by (intro media_inv inv)
  have i: "i \<in> set (obj_keys PANEL_DEFAULTS)" using assms(3) by simp
  let ?f = "\<lambda>u. free_corner (shown_at (l_ls u) ''liveFeed'') (shown_at (l_ls u) ''liveLegend'') (shown_at (l_ls u) ''liveNodeDetail'')"
  have ok: "corners_ok (l_ls u)" if "page_inv True u" for u using that unfolding page_inv_def by blast
  have once: "shown_at (l_ls (onCornerClick fits i u)) j = (if j = i then ?f u else shown_at (l_ls u) j)" if "page_inv True u" for u j
    using onCornerClick_shown(2) [OF ok [OF that] i, of fits] assms(2) by simp
  have again: "shown_at (l_ls (onCornerClick fits i (onCornerClick fits i u))) j = shown_at (l_ls u) j" if "page_inv True u" for u j
    using free_corner_facts(5-7) [OF ok [OF that, unfolded corners_ok_def]] i once [OF that]
    by (auto simp: once [OF click_inv [OF that impI [OF assms(2)]]] PANEL_DEFAULTS_def)
  have two: "l_wired v = 2"
    by (simp add: v_def onDragMediaChange_def wired_facts assms(4))
  have pair: "getPanelPositions (l_ls (onCornerClick fits i (onCornerClick fits i u))) = getPanelPositions (l_ls u)" if "page_inv True u" for u
    by (simp only: positions_eq again [OF that])
  have press: "press_corner fits i v = onCornerClick fits i (onCornerClick fits i v)" by (simp add: press_corner_def two numeral_2_eq_2)
  have moved: "?f w \<noteq> shown_at (l_ls w) i"
    using free_corner_facts(1) [OF ok [OF inv, unfolded corners_ok_def]] i by (auto simp: PANEL_DEFAULTS_def)
  have get: "obj_get (getPanelPositions ls) j = (if j \<in> set (obj_keys PANEL_DEFAULTS) then Some (shown_at ls j) else None)" for ls j
    by (auto simp: positions_eq PANEL_DEFAULTS_def)
  show ?thesis
    unfolding Let_def v_def [symmetric] get press pair [OF inv] pair [OF inv_v] once [OF inv] using i two moved by simp
qed

theorem corner_button_twice_witness:
  "let v = onDragMediaChange sample_browser True (onDragMediaChange sample_browser False sample_page) in
   getPanelPositions (l_ls (press_corner (\<lambda>_. True) ''liveFeed'' v)) = getPanelPositions (l_ls v)"
proof -
  have "l_wired sample_page = 1" by (simp only: sample_page_def start_wired)
  moreover have "''liveFeed'' \<in> set (map fst PANEL_DEFAULTS)" using panel_ids(1) by simp
  ultimately show ?thesis
    using corner_button_twice [OF sample_reachable [of "\<lambda>_. True"], of "''liveFeed''"]
    by (simp add: Let_def)
qed

end
