(* ===== verification/Panel_Drag.thy ===== *)
theory Panel_Drag
  imports Live_Panels
begin

text \<open>
  Whole drags of a panel: press, moves, release or Escape, as the state machine of
  \<^verbatim>\<open>src/public/drag-manager.js\<close> runs them, and the place that a later page restores.
\<close>

section \<open>A whole drag\<close>

lemma snap_bounds: "extent + 24 \<le> view \<Longrightarrow> 12 \<le> snap pos extent view \<and> snap pos extent view + extent \<le> view - 12"
  by (simp add: snap_def SNAP_THRESHOLD_def SNAP_MARGIN_def Let_def max_def min_def)

definition drag_moves :: "browser \<Rightarrow> string \<Rightarrow> (rat \<times> rat) list \<Rightarrow> live_page \<Rightarrow> live_page" where
  "drag_moves b i ms w = foldl (\<lambda>w m. pointermove b i m w) w ms"

text \<open>A point within the dead zone around the start.\<close>

definition near :: "rat \<times> rat \<Rightarrow> rat \<times> rat \<Rightarrow> bool" where
  "near s m \<longleftrightarrow> (fst m - fst s) * (fst m - fst s) + (snd m - snd s) * (snd m - snd s) < 25"

definition detached :: "browser \<Rightarrow> string \<Rightarrow> nat \<Rightarrow> transform \<Rightarrow> panel \<Rightarrow> panel" where
  "detached b i z t p = p\<lparr>p_corner := None, p_dragged := True, p_dragging := True, p_place := Some (rect_at b i p), p_transform := t, p_z := Some z\<rparr>"

definition shift :: "rat \<times> rat \<Rightarrow> rat \<times> rat \<Rightarrow> transform" where
  "shift s m = Translate (fst m - fst s) (snd m - snd s)"

lemma rect_raised: "rect_at b i (p\<lparr>p_dragging := x, p_z := z\<rparr>) = rect_at b i p"
  by (cases "p_place p") (simp_all add: rect_at_def)

lemma detached_eq:
  "p\<lparr>p_dragging := True, p_z := Some z, p_corner := None, p_dragged := True, p_place := Some (rect_at b i p), p_transform := t\<rparr>
     = detached b i z t p" "detached b i z t p\<lparr>p_transform := u\<rparr> = detached b i z u p"
  by (cases p; simp add: detached_def)+

lemma move_near:
  assumes "d_state (l_drag w) = PENDING" "near (d_start (l_drag w)) m"
  shows "pointermove b i m w = w"
  using assms by (simp add: pointermove_def near_def DEAD_ZONE_def Let_def)

lemma move_far:
  assumes "d_state (l_drag w) = PENDING" "d_active (l_drag w) = Some i" "\<not> near (d_start (l_drag w)) m" "obj_get (l_panels w) i = Some p"
  shows "l_drag (pointermove b i m w) = (l_drag w)\<lparr>d_state := DRAGGING, d_z := d_z (l_drag w) + 1\<rparr>"
    "l_ls (pointermove b i m w) = l_ls w" "l_view (pointermove b i m w) = l_view w"
    "obj_get (l_panels (pointermove b i m w)) j =
       (if j = i then Some (detached b i (d_z (l_drag w) + 1) (shift (d_start (l_drag w)) m) p) else obj_get (l_panels w) j)"
  using assms
  by (simp_all add: pointermove_def near_def DEAD_ZONE_def Let_def detachFromCorner_def shift_def rect_raised detached_eq)

lemma move_on:
  assumes "d_state (l_drag w) = DRAGGING" "d_active (l_drag w) = Some i" "obj_get (l_panels w) i = Some (detached b i z t p)"
  shows "l_drag (pointermove b i m w) = l_drag w" "l_ls (pointermove b i m w) = l_ls w" "l_view (pointermove b i m w) = l_view w"
    "obj_get (l_panels (pointermove b i m w)) j =
       (if j = i then Some (detached b i z (shift (d_start (l_drag w)) m) p) else obj_get (l_panels w) j)"
  using assms by (simp_all add: pointermove_def Let_def detached_def shift_def)

lemma moves_near:
  "d_state (l_drag w) = PENDING \<Longrightarrow> \<forall>m\<in>set ms. near (d_start (l_drag w)) m \<Longrightarrow> drag_moves b i ms w = w"
  by (induction ms) (simp_all add: drag_moves_def move_near)

lemma moves_far:
  assumes "d_state (l_drag w) = PENDING" "d_active (l_drag w) = Some i" "obj_get (l_panels w) i = Some p"
    and "\<not> (\<forall>m\<in>set ms. near (d_start (l_drag w)) m)"
  shows "l_drag (drag_moves b i ms w) = (l_drag w)\<lparr>d_state := DRAGGING, d_z := d_z (l_drag w) + 1\<rparr> \<and>
    l_ls (drag_moves b i ms w) = l_ls w \<and> l_view (drag_moves b i ms w) = l_view w \<and>
    (\<forall>j. obj_get (l_panels (drag_moves b i ms w)) j =
       (if j = i then Some (detached b i (d_z (l_drag w) + 1) (shift (d_start (l_drag w)) (last ms)) p) else obj_get (l_panels w) j))"
  using assms(4)
proof (induction ms rule: rev_induct)
  case (snoc m ms)
  let ?w = "drag_moves b i ms w"
  have one: "drag_moves b i (ms @ [m]) w = pointermove b i m ?w" by (simp add: drag_moves_def)
  show ?case
  proof (cases "\<forall>m\<in>set ms. near (d_start (l_drag w)) m")
    case True
    then have "?w = w" by (rule moves_near [OF assms(1)])
    moreover have "\<not> near (d_start (l_drag w)) m" using True snoc.prems by auto
    ultimately show ?thesis using move_far [OF assms(1,2) _ assms(3)] by (simp add: one)
  next
    case False
    note ih = snoc.IH [OF False]
    have "d_state (l_drag ?w) = DRAGGING" "d_active (l_drag ?w) = Some i" "d_start (l_drag ?w) = d_start (l_drag w)"
      "obj_get (l_panels ?w) i = Some (detached b i (d_z (l_drag w) + 1) (shift (d_start (l_drag w)) (last ms)) p)"
      using ih assms(2) by simp_all
    then show ?thesis using move_on [of ?w i b] ih by (simp add: one)
  qed
qed simp

lemma rect_placed:
  "p_place p = Some q \<Longrightarrow> rect_at b i p =
     (case p_transform p of Translate dx dy \<Rightarrow> (fst q + dx, snd q + dy) | _ \<Rightarrow> q)"
  by (simp add: rect_at_def case_prod_beta split: transform.split)

lemma detached_rect: "rect_at b i (detached b i z (shift s m) p) = (fst (rect_at b i p) + fst m - fst s, snd (rect_at b i p) + snd m - snd s)"
  by (simp add: rect_placed detached_def shift_def)

text \<open>What the pointer has done before it is released: nothing, or a drag to its last place.\<close>

definition gesture :: "browser \<Rightarrow> string \<Rightarrow> rat \<times> rat \<Rightarrow> (rat \<times> rat) list \<Rightarrow> live_page \<Rightarrow> live_page" where
  "gesture b i s ms w = drag_moves b i ms (pointerdown b i 0 False s w)"

lemma down_state:
  assumes "obj_get (l_panels w) i = Some p" "i \<in> set (d_panels (l_drag w))" "d_enabled (l_drag w)"
  shows "pointerdown b i 0 False s w = on_drag (\<lambda>d. d\<lparr>d_state := PENDING, d_active := Some i, d_start := s,
    d_panelStart := rect_at b i p, d_pre := p_transform p, d_listening := True\<rparr>) w"
  using assms by (simp add: pointerdown_def)

lemma gesture_state:
  assumes "obj_get (l_panels w) i = Some p" "i \<in> set (d_panels (l_drag w))" "d_enabled (l_drag w)"
  shows "\<forall>m\<in>set ms. near s m \<Longrightarrow> d_state (l_drag (gesture b i s ms w)) = PENDING \<and> l_panels (gesture b i s ms w) = l_panels w"
    "\<not> (\<forall>m\<in>set ms. near s m) \<Longrightarrow> d_state (l_drag (gesture b i s ms w)) = DRAGGING \<and>
       (\<forall>j. obj_get (l_panels (gesture b i s ms w)) j =
         (if j = i then Some (detached b i (d_z (l_drag w) + 1) (shift s (last ms)) p) else obj_get (l_panels w) j))"
    "d_active (l_drag (gesture b i s ms w)) = Some i" "d_listening (l_drag (gesture b i s ms w))"
    "d_pre (l_drag (gesture b i s ms w)) = p_transform p"
    "l_ls (gesture b i s ms w) = l_ls w" "l_view (gesture b i s ms w) = l_view w"
proof -
  define w0 where "w0 = pointerdown b i 0 False s w"
  have w0: "d_state (l_drag w0) = PENDING" "d_active (l_drag w0) = Some i" "d_start (l_drag w0) = s" "d_listening (l_drag w0)"
    "d_pre (l_drag w0) = p_transform p" "l_panels w0 = l_panels w" "l_ls w0 = l_ls w" "l_view w0 = l_view w" "d_z (l_drag w0) = d_z (l_drag w)"
    unfolding w0_def down_state [OF assms] by simp_all
  have near: "gesture b i s ms w = w0" if "\<forall>m\<in>set ms. near s m"
    unfolding gesture_def w0_def [symmetric] using that w0 by (intro moves_near) simp_all
  have p0: "obj_get (l_panels w0) i = Some p" using assms(1) w0(6) by simp
  note far = moves_far [OF w0(1,2) p0, of ms b, unfolded w0(3), folded w0_def gesture_def]
  have g: "drag_moves b i ms w0 = gesture b i s ms w" by (simp add: gesture_def w0_def)
  show "\<forall>m\<in>set ms. near s m \<Longrightarrow> d_state (l_drag (gesture b i s ms w)) = PENDING \<and> l_panels (gesture b i s ms w) = l_panels w"
    using near w0 by simp
  show "\<not> (\<forall>m\<in>set ms. near s m) \<Longrightarrow> d_state (l_drag (gesture b i s ms w)) = DRAGGING \<and>
       (\<forall>j. obj_get (l_panels (gesture b i s ms w)) j =
         (if j = i then Some (detached b i (d_z (l_drag w) + 1) (shift s (last ms)) p) else obj_get (l_panels w) j))"
    using far w0 by (simp add: g)
  show "d_active (l_drag (gesture b i s ms w)) = Some i" "d_listening (l_drag (gesture b i s ms w))"
    "d_pre (l_drag (gesture b i s ms w)) = p_transform p" "l_ls (gesture b i s ms w) = l_ls w" "l_view (gesture b i s ms w) = l_view w"
    using far near w0 by (cases "\<forall>m\<in>set ms. near s m"; simp add: g)+
qed

lemma drag_reset_simps [simp]:
  "l_panels (drag_reset w) = l_panels w" "l_ls (drag_reset w) = l_ls w" "l_view (drag_reset w) = l_view w"
  "d_state (l_drag (drag_reset w)) = IDLE" "d_active (l_drag (drag_reset w)) = None" "\<not> d_listening (l_drag (drag_reset w))"
  by (simp_all add: drag_reset_def)

lemma restored_place:
  assumes "obj_get (l_ls w) (drag_key i) = Some (json_text (JObj [(''xPct'', JNum (ratio x vw)), (''yPct'', JNum (ratio y vh))]))"
    and "l_view w = (vw, vh)" "vw \<noteq> 0" "vh \<noteq> 0" "dec_num (x / vw)" "dec_num (y / vh)" "obj_get (l_panels w) i = Some p"
  shows "\<exists>p'. obj_get (l_panels (restore_panel b w i)) i = Some p' \<and> rect_at b i p' = (x, y) \<and> p_dragged p' \<and> p_corner p' = None"
proof -
  let ?pos = "JObj [(''xPct'', JNum (Fin (x / vw))), (''yPct'', JNum (Fin (y / vh)))]"
  have parse: "json_parse (json_text ?pos) = Some ?pos" by (rule json_parse_text) (simp add: assms(5,6))
  have ne: "json_text ?pos \<noteq> []" by simp
  have raw: "obj_get (l_ls w) (drag_key i) = Some (json_text ?pos)" using assms(1,3,4) by (simp add: ratio_def)
  have get: "js_get ?pos ''xPct'' = Some (JNum (Fin (x / vw)))" "js_get ?pos ''yPct'' = Some (JNum (Fin (y / vh)))"
    by (simp_all add: table_get_def)
  show ?thesis
    using assms(2-4,7) by (simp add: restore_panel_def raw parse ne get coordinate_def rect_placed Let_def del: json_text.simps js_get.simps)
qed

text \<open>
  C39: pressing on a registered panel, moving the pointer and releasing it leaves the manager idle.  While the
  pointer stayed within five pixels of its start this was a click: no panel and no setting changes.
  Otherwise the panel ends where the pointer took it, snapped; if the window has room for the panel and
  both margins, it keeps at least twelve pixels from every edge.  Its place is stored, and a page loaded in a window of
  the same size puts the panel there again (the exact share of the window must have a finite decimal text).
\<close>

theorem drag_release:
  assumes "obj_get (l_panels w) i = Some p" "i \<in> set (d_panels (l_drag w))" "d_enabled (l_drag w)" "\<forall>ls. fits ls"
    and "l_view w = (vw, vh)" "0 < vw" "0 < vh"
  shows "let w' = pointerup b fits i (gesture b i s ms w); (x0, y0) = rect_at b i p;
             x = snap (x0 + fst (last ms) - fst s) (fst (panel_size b i)) vw;
             y = snap (y0 + snd (last ms) - snd s) (snd (panel_size b i)) vh in
    d_state (l_drag w') = IDLE \<and> d_active (l_drag w') = None \<and>
    (if \<forall>m\<in>set ms. near s m then l_panels w' = l_panels w \<and> l_ls w' = l_ls w
     else (\<exists>p'. obj_get (l_panels w') i = Some p' \<and> rect_at b i p' = (x, y) \<and> p_dragged p' \<and> \<not> p_dragging p' \<and> p_corner p' = None) \<and>
       (fst (panel_size b i) + 24 \<le> vw \<longrightarrow> 12 \<le> x \<and> x + fst (panel_size b i) \<le> vw - 12) \<and>
       (snd (panel_size b i) + 24 \<le> vh \<longrightarrow> 12 \<le> y \<and> y + snd (panel_size b i) \<le> vh - 12) \<and>
       (\<forall>fresh. l_ls fresh = l_ls w' \<and> l_view fresh = (vw, vh) \<and> obj_get (l_panels fresh) i \<noteq> None \<and> dec_num (x / vw) \<and> dec_num (y / vh) \<longrightarrow>
          (\<exists>p'. obj_get (l_panels (restore_panel b fresh i)) i = Some p' \<and> rect_at b i p' = (x, y))))"
proof -
  define g where "g = gesture b i s ms w"
  define w' where "w' = pointerup b fits i g"
  obtain x0 y0 where r: "rect_at b i p = (x0, y0)" by (cases "rect_at b i p")
  define x where "x = snap (x0 + fst (last ms) - fst s) (fst (panel_size b i)) vw"
  define y where "y = snap (y0 + snd (last ms) - snd s) (snd (panel_size b i)) vh"
  note g = gesture_state [OF assms(1-3), where s = s and ms = ms and b = b, folded g_def]
  show ?thesis
  proof (cases "\<forall>m\<in>set ms. near s m")
    case True
    then have "w' = drag_reset g" using g(1,3) by (simp add: w'_def pointerup_def)
    then show ?thesis using True g(1,6) by (simp add: Let_def r flip: g_def w'_def)
  next
    case False
    note st = g(2) [OF False]
    have gi: "obj_get (l_panels g) i = Some (detached b i (d_z (l_drag w) + 1) (shift s (last ms)) p)" using st by simp
    have "w' = drag_reset (finalizePosition b fits i (undrag i g))" using st g(3) by (simp add: w'_def pointerup_def)
    moreover have rect: "rect_at b i (detached b i z (shift s m) p\<lparr>p_dragging := False\<rparr>) = (x0 + fst m - fst s, y0 + snd m - snd s)" for z m
      by (simp add: rect_placed detached_def shift_def r)
    ultimately have fin: "w' = drag_reset (persist fits i (ratio x vw) (ratio y vh)
        (on_panel i (\<lambda>p. p\<lparr>p_place := Some (x, y), p_transform := TNone\<rparr>) (undrag i g)))"
      using gi g(7) assms(5) by (simp add: finalizePosition_def undrag_def x_def y_def Let_def)
    have pan: "\<exists>p'. obj_get (l_panels w') i = Some p' \<and> rect_at b i p' = (x, y) \<and> p_dragged p' \<and> \<not> p_dragging p' \<and> p_corner p' = None"
      by (simp add: fin undrag_def gi rect_placed) (simp add: detached_def)
    have ls: "obj_get (l_ls w') (drag_key i) = Some (json_text (JObj [(''xPct'', JNum (ratio x vw)), (''yPct'', JNum (ratio y vh))]))"
      by (simp add: fin persist_def assms(4) Let_def obj_get_set del: json_text.simps)
    have again: "\<exists>p'. obj_get (l_panels (restore_panel b fresh i)) i = Some p' \<and> rect_at b i p' = (x, y)"
      if a: "l_ls fresh = l_ls w'" "l_view fresh = (vw, vh)" and q0: "obj_get (l_panels fresh) i \<noteq> None" and c: "dec_num (x / vw)" "dec_num (y / vh)" for fresh
    proof -
      obtain q where q: "obj_get (l_panels fresh) i = Some q" using q0 by blast
      have l: "obj_get (l_ls fresh) (drag_key i) = Some (json_text (JObj [(''xPct'', JNum (ratio x vw)), (''yPct'', JNum (ratio y vh))]))"
        using ls a(1) by (simp del: json_text.simps)
      show ?thesis using restored_place [OF l a(2) _ _ c q, of b] assms(6,7) by blast
    qed
    have idle: "d_state (l_drag w') = IDLE" "d_active (l_drag w') = None" by (simp_all add: fin)
    show ?thesis
      unfolding Let_def g_def [symmetric] w'_def [symmetric] r prod.case x_def [symmetric] y_def [symmetric] if_not_P [OF False]
      using pan again idle snap_bounds [of "fst (panel_size b i)" vw] snap_bounds [of "snd (panel_size b i)" vh]
      by (simp add: x_def y_def)
  qed
qed

text \<open>
  C40: Escape during a drag leaves the manager idle and unwatched.  A panel that has been dragged before returns
  to where it was.  Any other panel loses all its inline styles and gets its stored corner; a panel whose
  corner button was never used has none, so it is left without a corner although it was shown in one.
\<close>

theorem escape_reverts:
  assumes "obj_get (l_panels w) i = Some p" "i \<in> set (d_panels (l_drag w))" "d_enabled (l_drag w)" "\<not> (\<forall>m\<in>set ms. near s m)"
    and "obj_get (l_ls w) (corner_key i) \<noteq> Some []"
  shows "let w' = handleKeyDown ''Escape'' (gesture b i s ms w) in
    d_state (l_drag w') = IDLE \<and> \<not> d_listening (l_drag w') \<and>
    (\<exists>p'. obj_get (l_panels w') i = Some p' \<and> \<not> p_dragging p' \<and>
       (if obj_get (l_ls w) (drag_key i) \<in> {None, Some []}
        then p' = (clear_styles p)\<lparr>p_corner := obj_get (l_ls w) (corner_key i)\<rparr>
        else rect_at b i p' = rect_at b i p))"
proof -
  define g where "g = gesture b i s ms w"
  define g1 where "g1 = on_panel i (\<lambda>p. p\<lparr>p_transform := d_pre (l_drag g)\<rparr>) g"
  define d where "d = detached b i (d_z (l_drag w) + 1) (shift s (last ms)) p"
  note g = gesture_state [OF assms(1-3), where s = s and ms = ms and b = b, folded g_def]
  have gi: "obj_get (l_panels g) i = Some d" and dr: "d_state (l_drag g) = DRAGGING" using g(2) [OF assms(4)] by (simp_all add: d_def)
  have g1: "obj_get (l_panels g1) i = Some (d\<lparr>p_transform := d_pre (l_drag g)\<rparr>)" "l_ls g1 = l_ls w" by (simp_all add: g1_def gi g(6))
  have clear: "clear_styles (d\<lparr>p_transform := t\<rparr>) = (clear_styles p)\<lparr>p_corner := None\<rparr>" for t
    by (cases p) (simp add: clear_styles_def d_def detached_def)
  have corner: "(q\<lparr>p_corner := None\<rparr>)\<lparr>p_corner := c\<rparr> = q\<lparr>p_corner := c\<rparr>" for q :: panel and c by (cases q) simp
  have key: "handleKeyDown ''Escape'' g = drag_reset
      (if (case obj_get (l_ls w) (drag_key i) of Some t \<Rightarrow> t | None \<Rightarrow> []) = []
       then (case obj_get (l_ls w) (corner_key i) of
               Some c \<Rightarrow> if c = [] then clearPanel True i g1 else on_panel i (\<lambda>p. p\<lparr>p_corner := Some c\<rparr>) (clearPanel True i g1)
             | None \<Rightarrow> clearPanel True i g1)
       else on_panel i (\<lambda>p. p\<lparr>p_dragging := False, p_transform := TNone\<rparr>) g1)"
    using dr g(3,4) g1(2) by (simp add: handleKeyDown_def Let_def flip: g1_def)
  show ?thesis
  proof (cases "obj_get (l_ls w) (drag_key i) \<in> {None, Some []}")
    case True
    then have "handleKeyDown ''Escape'' g = drag_reset (case obj_get (l_ls w) (corner_key i) of
        Some c \<Rightarrow> on_panel i (\<lambda>p. p\<lparr>p_corner := Some c\<rparr>) (clearPanel True i g1) | None \<Rightarrow> clearPanel True i g1)"
      unfolding key using assms(5) by (auto split: option.split)
    then show ?thesis unfolding g_def [symmetric] Let_def using True
      by (cases "obj_get (l_ls w) (corner_key i)") (simp_all add: g1(1) clear corner, simp_all add: clear_styles_def)
  next
    case False
    then have "handleKeyDown ''Escape'' g = drag_reset (on_panel i (\<lambda>p. p\<lparr>p_dragging := False, p_transform := TNone\<rparr>) g1)"
      unfolding key by (auto split: option.split)
    moreover have "rect_at b i (d\<lparr>p_transform := t, p_dragging := False, p_transform := TNone\<rparr>) = rect_at b i p" for t
      by (simp add: rect_placed d_def detached_def)
    ultimately show ?thesis unfolding g_def [symmetric] Let_def using False by (auto simp: g1(1))
  qed
qed

section \<open>Examples\<close>

lemma sample_page_facts:
  "obj_get (l_panels sample_page) ''liveFeed'' = Some (fresh_panel\<lparr>p_corner := Some ''bl''\<rparr>)"
  "''liveFeed'' \<in> set (d_panels (l_drag sample_page))" "d_enabled (l_drag sample_page)"
  "l_view sample_page = (1000, 800)" "l_ls sample_page = []"
proof -
  define w0 where "w0 = \<lparr>l_panels = map (\<lambda>(i, _). (i, fresh_panel)) PANEL_DEFAULTS, l_drag = new_manager, l_ls = [], l_view = (1000, 800 :: rat), l_wired = 0\<rparr>"
  have w0: "l_ls (initPanelPositions w0) = []" "l_view (initPanelPositions w0) = (1000, 800)" "l_drag (initPanelPositions w0) = new_manager"
    "obj_get (l_panels (initPanelPositions w0)) j = map_option (\<lambda>c. fresh_panel\<lparr>p_corner := Some c\<rparr>) (obj_get PANEL_DEFAULTS j)" for j
    by (simp_all add: w0_def initPanelPositions_def positions_eq start_corners)
      (simp add: PANEL_DEFAULTS_def)
  have drag0: "l_drag w0 = new_manager" by (simp add: w0_def)
  have reg: "register i w = on_drag (\<lambda>d. d\<lparr>d_panels := d_panels d @ [i]\<rparr>) w" if "obj_get (l_panels w) i \<noteq> None" for i w
    using that by (auto simp: register_def)
  have rest: "restorePositions b w = w" if "l_ls w = []" for b w
  proof -
    have "foldl (restore_panel b) w xs = w" for xs by (induction xs) (simp_all add: restore_panel_def that)
    then show ?thesis by (simp add: restorePositions_def)
  qed
  have regs: "foldl (\<lambda>w i. register i w) (initPanelPositions w0) (obj_keys PANEL_DEFAULTS) =
      foldl (\<lambda>w i. on_drag (\<lambda>d. d\<lparr>d_panels := d_panels d @ [i]\<rparr>) w) (initPanelPositions w0) (obj_keys PANEL_DEFAULTS)"
    by (simp add: PANEL_DEFAULTS_def reg w0)
  have page: "sample_page = foldl (\<lambda>w i. on_drag (\<lambda>d. d\<lparr>d_panels := d_panels d @ [i]\<rparr>) w) (initPanelPositions w0) (obj_keys PANEL_DEFAULTS)"
    unfolding sample_page_def live_init_def Let_def w0_def [symmetric] regs if_True
    by (rule rest) (simp add: PANEL_DEFAULTS_def w0)
  show "obj_get (l_panels sample_page) ''liveFeed'' = Some (fresh_panel\<lparr>p_corner := Some ''bl''\<rparr>)"
    "''liveFeed'' \<in> set (d_panels (l_drag sample_page))" "d_enabled (l_drag sample_page)"
    "l_view sample_page = (1000, 800)" "l_ls sample_page = []"
    by (simp_all add: page PANEL_DEFAULTS_def w0 drag0 new_manager_def)
qed

lemma sample_rect: "rect_at sample_browser ''liveFeed'' (fresh_panel\<lparr>p_corner := Some ''bl''\<rparr>) = (12, 540)"
  by (simp add: rect_at_def fresh_panel_def sample_browser_def)

lemma sample_far: "\<not> (\<forall>m\<in>set [(150, 360)]. near (50, 560) m)"
  by (simp add: near_def)

lemma sample_snap: "snap (12 + fst (last [(150, 360)]) - fst (50 :: rat, 560 :: rat)) (fst (panel_size sample_browser ''liveFeed'')) 1000 = 112"
  "snap (540 + snd (last [(150, 360)]) - snd (50 :: rat, 560 :: rat)) (snd (panel_size sample_browser ''liveFeed'')) 800 = 340"
  by (simp_all add: sample_browser_def snap_def SNAP_THRESHOLD_def Let_def)

theorem drag_release_witness:
  "\<exists>p'. obj_get (l_panels (pointerup sample_browser (\<lambda>_. True) ''liveFeed''
      (gesture sample_browser ''liveFeed'' (50, 560) [(150, 360)] sample_page))) ''liveFeed'' = Some p' \<and> rect_at sample_browser ''liveFeed'' p' = (112, 340)"
proof -
  have "\<forall>ls. (\<lambda>_. True) ls" "(0 :: rat) < 1000" "(0 :: rat) < 800" by simp_all
  note d = drag_release [OF sample_page_facts(1-3) this(1) sample_page_facts(4) this(2,3), of sample_browser "(50, 560)" "[(150, 360)]"]
  from d [unfolded Let_def sample_rect prod.case sample_snap if_not_P [OF sample_far]] show ?thesis by blast
qed

theorem escape_reverts_witness:
  "\<exists>p'. obj_get (l_panels (handleKeyDown ''Escape'' (gesture sample_browser ''liveFeed'' (50, 560) [(150, 360)] sample_page))) ''liveFeed'' = Some p' \<and>
     p_corner p' = None"
proof -
  have "obj_get (l_ls sample_page) (corner_key ''liveFeed'') \<noteq> Some []" by (simp add: sample_page_facts(5))
  note e = escape_reverts [OF sample_page_facts(1-3) sample_far this, of sample_browser]
  then obtain p' where "obj_get (l_panels (handleKeyDown ''Escape'' (gesture sample_browser ''liveFeed'' (50, 560) [(150, 360)] sample_page))) ''liveFeed'' = Some p'"
    "p' = (clear_styles (fresh_panel\<lparr>p_corner := Some ''bl''\<rparr>))\<lparr>p_corner := obj_get (l_ls sample_page) (corner_key ''liveFeed'')\<rparr>"
    unfolding Let_def by (auto simp: sample_page_facts(5) simp del: obj_get_set)
  then show ?thesis by (simp add: sample_page_facts(5))
qed

end
