(* ===== verification/Api_Client.thy ===== *)
theory Api_Client
  imports Js_Base
begin

text \<open>
  The API client of \<^verbatim>\<open>src/public/app.js\<close>: the cache with its times to live, the requests in flight that callers
  share and the retries while the server warms up.  An asynchronous call is a
  record of its local variables; the events of the browser (a call, a reply, the end of a pause, a message of
  the web socket, the invalidation timer) are steps.  The status and the body of a reply arrive as one event,
  and the deletion from the table of requests, the first reaction of the promise, happens with its settling.
  \<open>perf\<close> and \<open>now\<close> are the two clocks.
\<close>

section \<open>Requests\<close>

datatype outcome = Data jsval | Http_error int | Failed string

datatype phase = Fetching | Sleeping rat

record request =
  q_path :: string
  q_ttl :: rat
  q_t0 :: rat
  q_attempt :: nat
  q_delay :: rat
  q_notified :: bool
  q_phase :: phase

record log_entry =
  e_path :: string
  e_ms :: int
  e_time :: rat
  e_cached :: bool

record api_state =
  a_calls :: nat
  a_totalMs :: rat
  a_log :: "log_entry list"
  a_hits :: nat
  a_cache :: "(jsval \<times> rat) obj"
  a_inflight :: "nat obj"
  a_requests :: "(nat \<times> request) list"
  a_settled :: "(nat \<times> outcome) list"
  a_next :: nat
  a_banner :: nat
  a_timer :: bool

definition api_start :: api_state where
  "api_start = \<lparr>a_calls = 0, a_totalMs = 0, a_log = [], a_hits = 0, a_cache = [], a_inflight = [], a_requests = [],
     a_settled = [], a_next = 0, a_banner = 0, a_timer = False\<rparr>"

text \<open>The log keeps its last 200 entries.\<close>

definition push_log :: "log_entry \<Rightarrow> log_entry list \<Rightarrow> log_entry list" where
  "push_log e l = (let l' = l @ [e] in if 200 < length l' then tl l' else l')"

datatype api_result = Cached jsval | Pending nat

definition new_request :: "rat \<Rightarrow> string \<Rightarrow> rat \<Rightarrow> request" where
  "new_request perf path ttl =
     \<lparr>q_path = path, q_ttl = ttl, q_t0 = perf, q_attempt = 0, q_delay = 1000, q_notified = False, q_phase = Fetching\<rparr>"

definition fresh_entry :: "rat \<Rightarrow> string \<Rightarrow> api_state \<Rightarrow> jsval option" where
  "fresh_entry now path st =
     (case obj_get (a_cache st) path of Some (d, expires) \<Rightarrow> if now < expires then Some d else None | None \<Rightarrow> None)"

definition api :: "rat \<Rightarrow> rat \<Rightarrow> string \<Rightarrow> rat \<Rightarrow> bool \<Rightarrow> api_state \<Rightarrow> api_result \<times> api_state" where
  "api perf now path ttl bust st =
     (case (if \<not> bust \<and> 0 < ttl then fresh_entry now path st else None) of
        Some d \<Rightarrow>
          (Cached d, st\<lparr>a_calls := a_calls st + 1, a_hits := a_hits st + 1,
                        a_log := push_log \<lparr>e_path = path, e_ms = 0, e_time = now, e_cached = True\<rparr> (a_log st)\<rparr>)
      | None \<Rightarrow>
          (case obj_get (a_inflight st) path of
             Some i \<Rightarrow> (Pending i, st)
           | None \<Rightarrow>
               (Pending (a_next st),
                st\<lparr>a_inflight := obj_set (a_inflight st) path (a_next st),
                   a_requests := a_requests st @ [(a_next st, new_request perf path ttl)],
                   a_next := a_next st + 1\<rparr>)))"

section \<open>Replies and retries\<close>

text \<open>A reply of the server (its status, the header \<^verbatim>\<open>Retry-After\<close>, the body unless it is no JSON), or a network error.\<close>

datatype reply = Response int "string option" "jsval option" | Network_error string

text \<open>\<^verbatim>\<open>parseInt(s, 10)\<close>.\<close>

definition parseInt10 :: "string \<Rightarrow> int option" where
  "parseInt10 s =
     (let (neg, r) = parse_sign (dropWhile is_ws s); ds = takeWhile is_digit r
      in if ds = [] then None else Some (if neg then - int (dec_value ds) else int (dec_value ds)))"

definition maxAttempts :: nat where "maxAttempts = 6"

text \<open>\<^verbatim>\<open>isFinite\<close> of an integer read as a number: from \<^verbatim>\<open>2^1024 - 2^970\<close> on it is rounded to infinity.\<close>

definition int_finite :: "int \<Rightarrow> bool" where
  "int_finite i = (\<bar>i\<bar> < 2 ^ 1024 - 2 ^ 970)"

definition retry_wait :: "string option \<Rightarrow> rat \<Rightarrow> rat" where
  "retry_wait retryAfter delay =
     min (case (case retryAfter of None \<Rightarrow> None | Some h \<Rightarrow> parseInt10 h) of
            None \<Rightarrow> delay
          | Some ra \<Rightarrow> if int_finite ra \<and> 0 < ra then of_int ra * 1000 else delay) 30000"

definition bumped :: "request \<Rightarrow> rat \<Rightarrow> request" where
  "bumped q wait = q\<lparr>q_notified := True, q_delay := min (q_delay q * 2) 30000, q_attempt := q_attempt q + 1, q_phase := Sleeping wait\<rparr>"

text \<open>What the loop does with a reply: another pause, or the end of the call.\<close>

definition on_response :: "request \<Rightarrow> reply \<Rightarrow> request + outcome" where
  "on_response q r =
     (case r of
        Network_error e \<Rightarrow> Inr (Failed e)
      | Response status retryAfter body \<Rightarrow>
          if status = 503 \<and> q_attempt q < maxAttempts then Inl (bumped q (retry_wait retryAfter (q_delay q)))
          else if \<not> (200 \<le> status \<and> status < 300) then Inr (Http_error status)
          else case body of None \<Rightarrow> Inr (Failed ''SyntaxError'') | Some d \<Rightarrow> Inr (Data d))"

definition warmupNotify :: "bool \<Rightarrow> nat \<Rightarrow> nat" where
  "warmupNotify active n = (if active then n + 1 else n - 1)"

definition round_half :: "rat \<Rightarrow> int" where
  "round_half x = \<lfloor>x + 1 / 2\<rfloor>"

text \<open>The last lines of a call: statistics and cache after data, then the \<^verbatim>\<open>finally\<close> block and the settled promise.\<close>

definition settle :: "rat \<Rightarrow> rat \<Rightarrow> nat \<Rightarrow> request \<Rightarrow> outcome \<Rightarrow> api_state \<Rightarrow> api_state" where
  "settle perf now i q out st =
     (let st1 = (case out of
            Data d \<Rightarrow>
              (let ms = perf - q_t0 q in
               st\<lparr>a_calls := a_calls st + 1, a_totalMs := a_totalMs st + ms,
                  a_log := push_log \<lparr>e_path = q_path q, e_ms = round_half ms, e_time = now, e_cached = False\<rparr> (a_log st),
                  a_cache := (if 0 < q_ttl q then obj_set (a_cache st) (q_path q) (d, now + q_ttl q) else a_cache st)\<rparr>)
          | _ \<Rightarrow> st)
      in st1\<lparr>a_banner := (if q_notified q then warmupNotify False (a_banner st1) else a_banner st1),
             a_requests := filter (\<lambda>e. fst e \<noteq> i) (a_requests st1),
             a_settled := a_settled st1 @ [(i, out)],
             a_inflight := obj_del (a_inflight st1) (q_path q)\<rparr>)"

definition set_request :: "nat \<Rightarrow> request \<Rightarrow> (nat \<times> request) list \<Rightarrow> (nat \<times> request) list" where
  "set_request i q rs = map (\<lambda>e. if fst e = i then (i, q) else e) rs"

definition on_reply :: "rat \<Rightarrow> rat \<Rightarrow> nat \<Rightarrow> reply \<Rightarrow> api_state \<Rightarrow> api_state" where
  "on_reply perf now i r st =
     (case map_of (a_requests st) i of
        None \<Rightarrow> st
      | Some q \<Rightarrow>
          if q_phase q \<noteq> Fetching then st
          else case on_response q r of
                 Inl q' \<Rightarrow> st\<lparr>a_banner := (if q_notified q then a_banner st else warmupNotify True (a_banner st)),
                              a_requests := set_request i q' (a_requests st)\<rparr>
               | Inr out \<Rightarrow> settle perf now i q out st)"

text \<open>The end of a pause: the loop fetches again.\<close>

definition pause_over :: "nat \<Rightarrow> api_state \<Rightarrow> api_state" where
  "pause_over i st =
     (case map_of (a_requests st) i of
        None \<Rightarrow> st
      | Some q \<Rightarrow> st\<lparr>a_requests := set_request i (q\<lparr>q_phase := Fetching\<rparr>) (a_requests st)\<rparr>)"

section \<open>Invalidation\<close>

definition invalidateApiCache :: "string \<Rightarrow> api_state \<Rightarrow> api_state" where
  "invalidateApiCache pre st = st\<lparr>a_cache := filter (\<lambda>e. \<not> starts_with pre (fst e)) (a_cache st)\<rparr>"

definition ws_message :: "api_state \<Rightarrow> api_state" where
  "ws_message st = (if a_timer st then st else st\<lparr>a_timer := True\<rparr>)"

definition ws_timer :: "api_state \<Rightarrow> api_state" where
  "ws_timer st = (if a_timer st then invalidateApiCache ''/nodes'' (invalidateApiCache ''/stats'' (st\<lparr>a_timer := False\<rparr>)) else st)"

section \<open>Steps\<close>

datatype api_event =
    Call rat rat string rat bool
  | Reply rat rat nat reply
  | Woken nat
  | Invalidate string
  | Ws_message
  | Ws_timer

fun api_step :: "api_state \<Rightarrow> api_event \<Rightarrow> api_state" where
  "api_step st (Call perf now path ttl bust) = snd (api perf now path ttl bust st)"
| "api_step st (Reply perf now i r) = on_reply perf now i r st"
| "api_step st (Woken i) = pause_over i st"
| "api_step st (Invalidate pre) = invalidateApiCache pre st"
| "api_step st Ws_message = ws_message st"
| "api_step st Ws_timer = ws_timer st"

definition api_run :: "api_event list \<Rightarrow> api_state" where
  "api_run es = foldl api_step api_start es"

section \<open>The invariant of the client\<close>

definition notified_count :: "(nat \<times> request) list \<Rightarrow> nat" where
  "notified_count rs = length (filter (\<lambda>e. q_notified (snd e)) rs)"

text \<open>A pending request: its number of retries, its delay and its pause fit together.\<close>

definition request_ok :: "request \<Rightarrow> bool" where
  "request_ok q =
     (q_attempt q \<le> maxAttempts \<and> q_delay q = min (1000 * 2 ^ q_attempt q) 30000 \<and> (q_notified q = (0 < q_attempt q)) \<and>
      (case q_phase q of Fetching \<Rightarrow> True | Sleeping w \<Rightarrow> 0 < w \<and> w \<le> 30000 \<and> 0 < q_attempt q))"

text \<open>One pending request for a path, which the table of requests in flight names.\<close>

definition agree :: "(string \<Rightarrow> nat option) \<Rightarrow> (nat \<Rightarrow> request option) \<Rightarrow> bool" where
  "agree f m =
     ((\<forall>i q. m i = Some q \<longrightarrow> f (q_path q) = Some i) \<and> (\<forall>p i. f p = Some i \<longrightarrow> (\<exists>q. m i = Some q \<and> q_path q = p)))"

definition shared :: "nat obj \<Rightarrow> (nat \<times> request) list \<Rightarrow> bool" where
  "shared fl rs = (distinct (map fst rs) \<and> agree (obj_get fl) (map_of rs))"

definition accounted :: "(nat \<times> request) list \<Rightarrow> (nat \<times> outcome) list \<Rightarrow> nat \<Rightarrow> bool" where
  "accounted rs done n =
     (distinct (map fst rs @ map fst done) \<and> set (map fst rs @ map fst done) = {..<n})"

definition api_ok :: "api_state \<Rightarrow> bool" where
  "api_ok st =
     (shared (a_inflight st) (a_requests st) \<and> accounted (a_requests st) (a_settled st) (a_next st) \<and>
      (\<forall>(i, q)\<in>set (a_requests st). request_ok q) \<and> a_banner st = notified_count (a_requests st) \<and>
      length (a_log st) \<le> 200 \<and> a_hits st \<le> a_calls st)"

lemma map_of_set_request: "map_of rs i = Some q0 \<Longrightarrow> map_of (set_request i q rs) = (map_of rs)(i \<mapsto> q)"
proof (rule ext)
  fix j assume i: "map_of rs i = Some q0"
  have other: "j \<noteq> i \<Longrightarrow> map_of (set_request i q rs) j = map_of rs j"
    unfolding set_request_def by (induction rs) auto
  have "i \<in> fst ` set rs \<Longrightarrow> map_of (set_request i q rs) i = Some q"
    unfolding set_request_def by (induction rs) auto
  moreover from i have "i \<in> fst ` set rs" by (force dest: map_of_SomeD)
  ultimately show "map_of (set_request i q rs) j = ((map_of rs)(i \<mapsto> q)) j"
    using other by (cases "j = i") auto
qed

lemma keys_set_request [simp]: "map fst (set_request i q rs) = map fst rs"
  by (induction rs) (auto simp: set_request_def)

lemma map_of_filter_other: "map_of (filter (\<lambda>e. fst e \<noteq> i) rs) = (map_of rs)(i := None)"
  by (induction rs) (auto simp: fun_eq_iff)

lemma set_set_request: "set (set_request i q rs) \<subseteq> insert (i, q) (set rs)"
  by (auto simp: set_request_def)

lemma notified_set_request:
  "distinct (map fst rs) \<Longrightarrow> map_of rs i = Some q \<Longrightarrow>
   notified_count (set_request i q' rs) + (if q_notified q then 1 else 0) = notified_count rs + (if q_notified q' then 1 else 0)"
proof (induction rs)
  case (Cons e rs)
  have same: "i \<notin> fst ` set rs \<Longrightarrow> set_request i q' rs = rs"
    unfolding set_request_def by (rule map_idI) (auto simp: image_iff)
  from Cons same show ?case
    by (cases "fst e = i") (auto simp: notified_count_def set_request_def split: if_splits)
qed simp

lemma notified_filter:
  "distinct (map fst rs) \<Longrightarrow> map_of rs i = Some q \<Longrightarrow>
   notified_count (filter (\<lambda>e. fst e \<noteq> i) rs) + (if q_notified q then 1 else 0) = notified_count rs"
proof (induction rs)
  case (Cons e rs)
  have same: "i \<notin> fst ` set rs \<Longrightarrow> filter (\<lambda>e. fst e \<noteq> i) rs = rs"
    by (rule filter_True) (auto simp: image_iff)
  from Cons same show ?case
    by (cases "fst e = i") (auto simp: notified_count_def split: if_splits)
qed simp

lemma push_log_length: "length l \<le> 200 \<Longrightarrow> length (push_log e l) \<le> 200"
  by (simp add: push_log_def Let_def)

text \<open>The three changes of the tables: a new request, a changed one, a settled one.\<close>

lemma agree_new: "agree f m \<Longrightarrow> m n = None \<Longrightarrow> f (q_path q) = None \<Longrightarrow> agree (f(q_path q \<mapsto> n)) (m(n \<mapsto> q))"
  unfolding agree_def by (auto split: if_splits) (metis option.distinct(1))+

lemma agree_changed: "agree f m \<Longrightarrow> m i = Some q \<Longrightarrow> q_path q' = q_path q \<Longrightarrow> agree f (m(i \<mapsto> q'))"
  unfolding agree_def by auto (metis option.inject)+

lemma agree_settled: "agree f m \<Longrightarrow> m i = Some q \<Longrightarrow> agree (f(q_path q := None)) (m(i := None))"
  unfolding agree_def by auto (metis option.inject)+

lemma agree_unique: "agree f m \<Longrightarrow> m i = Some q \<Longrightarrow> m j = Some q' \<Longrightarrow> q_path q = q_path q' \<Longrightarrow> i = j"
  unfolding agree_def by (metis option.inject)

lemma api_okD:
  assumes "api_ok st"
  shows "shared (a_inflight st) (a_requests st)" "accounted (a_requests st) (a_settled st) (a_next st)"
    "\<And>i q. (i, q) \<in> set (a_requests st) \<Longrightarrow> request_ok q" "a_banner st = notified_count (a_requests st)"
    "length (a_log st) \<le> 200" "a_hits st \<le> a_calls st"
  using assms unfolding api_ok_def by auto

lemma api_ok_request: "api_ok st \<Longrightarrow> map_of (a_requests st) i = Some q \<Longrightarrow> request_ok q"
  by (auto dest: map_of_SomeD api_okD(3))

lemma request_ok_new: "request_ok (new_request perf path ttl)"
  by (simp add: request_ok_def new_request_def)

lemma retry_wait_bounds: "0 < d \<Longrightarrow> 0 < retry_wait h d \<and> retry_wait h d \<le> 30000"
  by (simp add: retry_wait_def split: option.splits)

lemma doubled_delay: "min (min (1000 * 2 ^ n) 30000 * 2) 30000 = min (1000 * 2 ^ Suc n) (30000 :: rat)"
  by (simp add: min_def)

lemma on_response_retry:
  "on_response q r = Inl q' \<Longrightarrow>
   \<exists>h. q' = bumped q (retry_wait h (q_delay q)) \<and> q_attempt q < maxAttempts \<and> (\<exists>body. r = Response 503 h body)"
  by (auto simp: on_response_def split: reply.splits if_splits option.splits)

lemma request_ok_bumped:
  assumes "request_ok q" "q_attempt q < maxAttempts"
  shows "request_ok (bumped q (retry_wait h (q_delay q)))"
proof -
  from assms(1) have d: "q_delay q = min (1000 * 2 ^ q_attempt q) 30000" by (simp add: request_ok_def)
  then have "0 < q_delay q" by simp
  from retry_wait_bounds [OF this] d doubled_delay [of "q_attempt q"] assms(2) show ?thesis
    by (simp add: request_ok_def bumped_def)
qed

lemma api_ok_start: "api_ok api_start"
  by (simp add: api_ok_def api_start_def shared_def agree_def accounted_def notified_count_def lessThan_empty_iff)

lemma accounted_new: "accounted rs done n \<Longrightarrow> accounted (rs @ [(n, q)]) done (Suc n)"
  unfolding accounted_def by auto

lemma accounted_changed: "accounted rs done n \<Longrightarrow> accounted (set_request i q rs) done n"
  by (simp add: accounted_def)

lemma accounted_settled:
  assumes "accounted rs done n" "map_of rs i = Some q"
  shows "accounted (filter (\<lambda>e. fst e \<noteq> i) rs) (done @ [(i, out)]) n"
proof -
  from assms(2) have i: "i \<in> fst ` set rs" by (force dest: map_of_SomeD)
  from assms(1) have d: "distinct (map fst rs)" "distinct (map fst done)" "fst ` set rs \<inter> fst ` set done = {}"
      "fst ` set rs \<union> fst ` set done = {..<n}"
    unfolding accounted_def by auto
  have "fst ` {e \<in> set rs. fst e \<noteq> i} = fst ` set rs - {i}" by auto
  with d i show ?thesis
    unfolding accounted_def by (auto simp: distinct_map_filter)
qed

lemma accounted_fresh: "accounted rs done n \<Longrightarrow> map_of rs n = None"
  unfolding accounted_def map_of_eq_None_iff by auto

lemma shared_new:
  assumes "shared fl rs" "map_of rs n = None" "obj_get fl (q_path q) = None"
  shows "shared (obj_set fl (q_path q) n) (rs @ [(n, q)])"
proof -
  from assms(2) have "map_of (rs @ [(n, q)]) = (map_of rs)(n \<mapsto> q)" by (auto simp: fun_eq_iff map_add_def split: option.splits)
  moreover from assms(2) have "n \<notin> fst ` set rs" by (simp add: map_of_eq_None_iff)
  ultimately show ?thesis
    using assms agree_new [of "obj_get fl" "map_of rs" n q] unfolding shared_def obj_get_set by simp
qed

lemma shared_changed:
  "shared fl rs \<Longrightarrow> map_of rs i = Some q \<Longrightarrow> q_path q' = q_path q \<Longrightarrow> shared fl (set_request i q' rs)"
  using agree_changed by (simp add: shared_def map_of_set_request)

lemma shared_settled:
  "shared fl rs \<Longrightarrow> map_of rs i = Some q \<Longrightarrow> shared (obj_del fl (q_path q)) (filter (\<lambda>e. fst e \<noteq> i) rs)"
  unfolding shared_def map_of_filter_other obj_get_del by (intro conjI distinct_map_filter agree_settled) blast+

text \<open>Every step keeps the invariant.\<close>

lemma api_ok_changed:
  assumes ok: "api_ok st" and q: "map_of (a_requests st) i = Some q"
    and q': "request_ok q'" "q_path q' = q_path q"
    and b: "b + (if q_notified q then 1 else 0) = a_banner st + (if q_notified q' then 1 else 0)"
  shows "api_ok (st\<lparr>a_banner := b, a_requests := set_request i q' (a_requests st)\<rparr>)"
proof -
  note D = api_okD [OF ok]
  have "distinct (map fst (a_requests st))" using D(1) by (simp add: shared_def)
  from notified_set_request [OF this q, of q'] D(4) b have "b = notified_count (set_request i q' (a_requests st))"
    by (simp split: if_splits)
  moreover have "\<forall>(j, p)\<in>set (set_request i q' (a_requests st)). request_ok p"
    using set_set_request [of i q' "a_requests st"] D(3) q'(1) by auto
  ultimately show ?thesis
    using D(1,2,5,6) shared_changed [OF D(1) q q'(2)] accounted_changed [OF D(2)] by (simp add: api_ok_def)
qed

lemma api_ok_settle:
  assumes ok: "api_ok st" and q: "map_of (a_requests st) i = Some q"
  shows "api_ok (settle perf now i q out st)"
proof -
  note D = api_okD [OF ok]
  have "distinct (map fst (a_requests st))" using D(1) by (simp add: shared_def)
  from notified_filter [OF this q] D(4)
  have b: "(if q_notified q then warmupNotify False (a_banner st) else a_banner st) =
      notified_count (filter (\<lambda>e. fst e \<noteq> i) (a_requests st))"
    by (simp add: warmupNotify_def split: if_splits)
  have ok': "\<forall>(j, p)\<in>set (filter (\<lambda>e. fst e \<noteq> i) (a_requests st)). request_ok p" using D(3) by auto
  show ?thesis
    using b ok' D(5,6) shared_settled [OF D(1) q] accounted_settled [OF D(2) q, of out]
    by (cases "q_notified q"; cases out) (simp_all add: settle_def Let_def api_ok_def push_log_length)
qed

lemma api_ok_on_reply: "api_ok st \<Longrightarrow> api_ok (on_reply perf now i r st)"
proof (cases "map_of (a_requests st) i")
  case (Some q)
  assume ok: "api_ok st"
  show ?thesis
  proof (cases "q_phase q \<noteq> Fetching")
    case False
    show ?thesis
    proof (cases "on_response q r")
      case (Inl q')
      then obtain h where q': "q' = bumped q (retry_wait h (q_delay q))" "q_attempt q < maxAttempts"
        using on_response_retry by blast
      have "request_ok q'" using request_ok_bumped [OF api_ok_request [OF ok Some] q'(2)] q'(1) by simp
      moreover have "q_path q' = q_path q" "q_notified q'" by (simp_all add: q' bumped_def)
      ultimately show ?thesis
        using api_ok_changed [OF ok Some, of q'] Some False Inl by (simp add: on_reply_def warmupNotify_def)
    next
      case (Inr out)
      with Some False ok show ?thesis by (simp add: on_reply_def api_ok_settle)
    qed
  qed (use ok Some in \<open>simp add: on_reply_def\<close>)
qed (simp add: on_reply_def)

lemma api_ok_api: "api_ok st \<Longrightarrow> api_ok (snd (api perf now path ttl bust st))"
proof -
  assume ok: "api_ok st"
  note D = api_okD [OF ok]
  show ?thesis
  proof (cases "if \<not> bust \<and> 0 < ttl then fresh_entry now path st else None")
    case (Some d)
    with ok show ?thesis by (simp add: api_def api_ok_def push_log_length)
  next
    case None
    show ?thesis
    proof (cases "obj_get (a_inflight st) path")
      case (Some i)
      with None ok show ?thesis by (simp add: api_def)
    next
      case 2: None
      let ?q = "new_request perf path ttl"
      have p: "q_path ?q = path" by (simp add: new_request_def)
      from shared_new [OF D(1) accounted_fresh [OF D(2)], of ?q] 2
      have "shared (obj_set (a_inflight st) path (a_next st)) (a_requests st @ [(a_next st, ?q)])" by (simp add: p)
      moreover have "notified_count (a_requests st @ [(a_next st, ?q)]) = notified_count (a_requests st)"
        by (simp add: notified_count_def new_request_def)
      ultimately show ?thesis
        using None 2 D accounted_new [OF D(2)] request_ok_new unfolding api_ok_def by (auto simp: api_def)
    qed
  qed
qed

lemma api_ok_step: "api_ok st \<Longrightarrow> api_ok (api_step st e)"
proof (cases e)
  case (Woken i)
  assume ok: "api_ok st"
  show ?thesis
  proof (cases "map_of (a_requests st) i")
    case (Some q)
    have "request_ok (q\<lparr>q_phase := Fetching\<rparr>)" using api_ok_request [OF ok Some] by (simp add: request_ok_def)
    from api_ok_changed [OF ok Some this, of "a_banner st"] Some Woken show ?thesis by (simp add: pause_over_def)
  qed (use ok Woken in \<open>simp add: pause_over_def\<close>)
qed (auto simp: api_ok_api api_ok_on_reply, auto simp: api_ok_def invalidateApiCache_def ws_message_def ws_timer_def)

lemma api_run_snoc: "api_run (es @ [e]) = api_step (api_run es) e"
  by (simp add: api_run_def)

lemma api_run_append: "api_run (es @ es') = foldl api_step (api_run es) es'"
  by (simp add: api_run_def)

lemma api_ok_run: "api_ok (api_run es)"
proof (induction es rule: rev_induct)
  case Nil show ?case using api_ok_start by (simp add: api_run_def)
next
  case (snoc e es) then show ?case by (simp add: api_run_snoc api_ok_step)
qed

text \<open>C16: In every state that any sequence of calls, replies, pauses and invalidations leads to, the client is
  consistent: one request per path in flight, all others settled exactly once, the banner counts the requests
  that wait for the server to warm up, delays double up to half a minute, and the log keeps 200 entries.\<close>

theorem api_consistent:
  "api_ok (api_run es) \<and>
   (map_of (a_requests (api_run es)) i = Some q \<longrightarrow>
      obj_get (a_inflight (api_run es)) (q_path q) = Some i \<and>
      (\<forall>j q'. map_of (a_requests (api_run es)) j = Some q' \<and> q_path q' = q_path q \<longrightarrow> j = i) \<and>
      i \<notin> fst ` set (a_settled (api_run es)))"
proof (intro conjI impI api_ok_run)
  assume q: "map_of (a_requests (api_run es)) i = Some q"
  note D = api_okD [OF api_ok_run [of es]]
  from D(1) have A: "agree (obj_get (a_inflight (api_run es))) (map_of (a_requests (api_run es)))" by (simp add: shared_def)
  from A q show "obj_get (a_inflight (api_run es)) (q_path q) = Some i" by (simp add: agree_def)
  from agree_unique [OF A _ q] show "\<forall>j q'. map_of (a_requests (api_run es)) j = Some q' \<and> q_path q' = q_path q \<longrightarrow> j = i" by blast
  from map_of_SomeD [OF q] have "i \<in> fst ` set (a_requests (api_run es))" by force
  with D(2) show "i \<notin> fst ` set (a_settled (api_run es))" unfolding accounted_def by auto
qed

text \<open>Two views ask for the same path, a third for another one; the server is not ready yet.\<close>

definition three_calls :: "api_event list" where
  "three_calls =
     [Call 0 0 ''/nodes'' 90000 False, Call 5 5 ''/nodes'' 0 True, Call 6 6 ''/stats'' 10000 False,
      Reply 9 9 0 (Response 503 (Some ''2'') None), Woken 0, Reply 12 12 1 (Response 200 None (Some (JObj [])))]"

lemma api_consistent_witness:
  "(case map_of (a_requests (api_run three_calls)) 0 of
      Some q \<Rightarrow> q_path q = ''/nodes'' \<and> obj_get (a_inflight (api_run three_calls)) (q_path q) = Some 0 \<and>
                0 \<notin> fst ` set (a_settled (api_run three_calls))
    | None \<Rightarrow> False) \<and>
   a_banner (api_run three_calls) = 1 \<and> map fst (a_settled (api_run three_calls)) = [1]"
proof -
  have "(case map_of (a_requests (api_run three_calls)) 0 of Some q \<Rightarrow> q_path q = ''/nodes'' | None \<Rightarrow> False)"
    "a_banner (api_run three_calls) = 1" "map fst (a_settled (api_run three_calls)) = [1]" by code_simp+
  then show ?thesis using api_consistent [of three_calls 0] by (auto split: option.splits)
qed

section \<open>How long a request lasts\<close>

text \<open>A reply counts for a request that waits for one.\<close>

definition effective :: "nat \<Rightarrow> api_state \<Rightarrow> api_event \<Rightarrow> bool" where
  "effective i st e =
     (case e of Reply _ _ j _ \<Rightarrow> j = i \<and> (case map_of (a_requests st) i of Some q \<Rightarrow> q_phase q = Fetching | None \<Rightarrow> False)
      | _ \<Rightarrow> False)"

fun answers :: "nat \<Rightarrow> api_state \<Rightarrow> api_event list \<Rightarrow> nat" where
  "answers i st [] = 0"
| "answers i st (e # es) = (if effective i st e then 1 else 0) + answers i (api_step st e) es"

definition pause_of :: "nat \<Rightarrow> api_state \<Rightarrow> rat" where
  "pause_of i st =
     (case map_of (a_requests st) i of
        Some q \<Rightarrow> (case q_phase q of Sleeping w \<Rightarrow> w | Fetching \<Rightarrow> 0) | None \<Rightarrow> 0)"

text \<open>The sum of the pauses of a request.\<close>

fun paused :: "nat \<Rightarrow> api_state \<Rightarrow> api_event list \<Rightarrow> rat" where
  "paused i st [] = 0"
| "paused i st (e # es) = (if effective i st e then pause_of i (api_step st e) else 0) + paused i (api_step st e) es"

definition attempts_left :: "nat \<Rightarrow> api_state \<Rightarrow> nat" where
  "attempts_left i st =
     (case map_of (a_requests st) i of
        Some q \<Rightarrow> Suc maxAttempts - q_attempt q
      | None \<Rightarrow> if i < a_next st then 0 else Suc maxAttempts)"

lemma map_of_api:
  assumes "api_ok st"
  shows "attempts_left i (snd (api perf now path ttl bust st)) = attempts_left i st"
proof -
  have f: "map_of (a_requests st) (a_next st) = None" using accounted_fresh [OF api_okD(2) [OF assms]] .
  show ?thesis
    using f by (auto simp: api_def attempts_left_def map_add_def new_request_def split: option.splits)
qed

lemma map_of_on_reply_other: "j \<noteq> i \<Longrightarrow> map_of (a_requests (on_reply perf now j r st)) i = map_of (a_requests st) i"
  by (auto simp: on_reply_def settle_def Let_def map_of_set_request map_of_filter_other split: option.split sum.split outcome.split)

lemma next_on_reply [simp]: "a_next (on_reply perf now j r st) = a_next st"
  by (auto simp: on_reply_def settle_def Let_def split: option.split sum.split outcome.split)

lemma left_ineffective:
  assumes "api_ok st" "\<not> effective i st e"
  shows "attempts_left i (api_step st e) = attempts_left i st"
proof (cases e)
  case (Call perf now path ttl bust)
  with assms(1) show ?thesis by (simp add: map_of_api)
next
  case (Reply perf now j r)
  show ?thesis
  proof (cases "j = i")
    case True
    with assms(2) Reply have "on_reply perf now j r st = st"
      by (auto simp: effective_def on_reply_def split: option.splits)
    with Reply show ?thesis by simp
  next
    case False
    with Reply show ?thesis by (simp add: attempts_left_def map_of_on_reply_other)
  qed
next
  case (Woken j)
  show ?thesis
  proof (cases "map_of (a_requests st) j")
    case (Some q)
    with Woken show ?thesis by (simp add: pause_over_def attempts_left_def map_of_set_request)
  qed (simp add: Woken pause_over_def)
qed (simp_all add: attempts_left_def invalidateApiCache_def ws_message_def ws_timer_def)

text \<open>No reply of the server names a time to come back.\<close>

fun names_no_time :: "api_event \<Rightarrow> bool" where
  "names_no_time (Reply _ _ _ (Response _ h _)) = (h = None)"
| "names_no_time _ = True"

lemma left_effective:
  assumes ok: "api_ok st" and eff: "effective i st e"
  shows "attempts_left i (api_step st e) = 0 \<and> pause_of i (api_step st e) = 0 \<and> 0 < attempts_left i st \<or>
    (\<exists>n. attempts_left i st = Suc (Suc n) \<and> attempts_left i (api_step st e) = Suc n \<and> n < maxAttempts \<and>
       pause_of i (api_step st e) \<le> 30000 \<and>
       (names_no_time e \<longrightarrow> pause_of i (api_step st e) = min (1000 * 2 ^ (maxAttempts - Suc n)) 30000))"
proof -
  from eff obtain perf now r q where e: "e = Reply perf now i r" and q: "map_of (a_requests st) i = Some q" "q_phase q = Fetching"
    by (cases e) (auto simp: effective_def split: option.splits)
  note R = api_ok_request [OF ok q(1)]
  have i: "i < a_next st"
  proof -
    have "i \<in> set (map fst (a_requests st) @ map fst (a_settled st))" using map_of_SomeD [OF q(1)] by force
    with api_okD(2) [OF ok] show ?thesis unfolding accounted_def by auto
  qed
  show ?thesis
  proof (cases "on_response q r")
    case (Inr out)
    have "map_of (a_requests (api_step st e)) i = None"
      using e q Inr by (simp add: on_reply_def settle_def Let_def map_of_filter_other)
    moreover have "0 < attempts_left i st" using R by (simp add: attempts_left_def q request_ok_def)
    ultimately show ?thesis using i e by (simp add: attempts_left_def pause_of_def)
  next
    case (Inl q')
    obtain h body where q': "q' = bumped q (retry_wait h (q_delay q))" "q_attempt q < maxAttempts" and r: "r = Response 503 h body"
      using on_response_retry [OF Inl] by blast
    have m: "map_of (a_requests (api_step st e)) i = Some q'"
      using e q Inl by (simp add: on_reply_def map_of_set_request)
    define n where "n = maxAttempts - Suc (q_attempt q)"
    have "0 < q_delay q" using R by (simp add: request_ok_def)
    note w = retry_wait_bounds [OF this, of h]
    have "names_no_time e \<longrightarrow> retry_wait h (q_delay q) = min (1000 * 2 ^ (maxAttempts - Suc n)) 30000"
      using R q'(2) by (auto simp: e r retry_wait_def request_ok_def n_def)
    then have "names_no_time e \<longrightarrow> pause_of i (api_step st e) = min (1000 * 2 ^ (maxAttempts - Suc n)) 30000"
      by (simp add: pause_of_def m q' bumped_def)
    moreover have "pause_of i (api_step st e) \<le> 30000" using w by (simp add: pause_of_def m q' bumped_def)
    moreover have "attempts_left i st = Suc (Suc n)" "attempts_left i (api_step st e) = Suc n" "n < maxAttempts"
      using q'(2) by (simp_all add: attempts_left_def m q q'(1) bumped_def n_def Suc_diff_Suc)
    ultimately show ?thesis by blast
  qed
qed

fun own_delays :: "nat \<Rightarrow> rat" where
  "own_delays 0 = 0"
| "own_delays (Suc n) = min (1000 * 2 ^ (maxAttempts - Suc n)) 30000 + own_delays n"

lemma own_delays_nonneg: "0 \<le> own_delays n"
  by (induction n) simp_all

lemma answers_bound: "api_ok st \<Longrightarrow> answers i st es + attempts_left i (foldl api_step st es) \<le> attempts_left i st"
proof (induction es arbitrary: st)
  case (Cons e es)
  have "answers i (api_step st e) es + attempts_left i (foldl api_step st (e # es)) \<le> attempts_left i (api_step st e)"
    using Cons.IH [OF api_ok_step [OF Cons.prems]] by simp
  moreover have "(if effective i st e then 1 else 0) + attempts_left i (api_step st e) \<le> attempts_left i st"
    using left_effective [OF Cons.prems, of i e] left_ineffective [OF Cons.prems, of i e] by (auto simp del: api_step.simps)
  ultimately show ?case by (simp del: api_step.simps)
qed simp

lemma paused_bound: "api_ok st \<Longrightarrow> paused i st es \<le> 30000 * of_nat (attempts_left i st - 1)"
proof (induction es arbitrary: st)
  case (Cons e es)
  have IH: "paused i (api_step st e) es \<le> 30000 * of_nat (attempts_left i (api_step st e) - 1)"
    by (rule Cons.IH [OF api_ok_step [OF Cons.prems]])
  show ?case
  proof (cases "effective i st e")
    case True
    from left_effective [OF Cons.prems True] IH True show ?thesis by (elim disjE exE conjE) (simp_all del: api_step.simps)
  next
    case False
    with IH left_ineffective [OF Cons.prems False] show ?thesis by (simp del: api_step.simps)
  qed
qed simp

lemma paused_own: "api_ok st \<Longrightarrow> list_all names_no_time es \<Longrightarrow> paused i st es \<le> own_delays (attempts_left i st - 1)"
proof (induction es arbitrary: st)
  case (Cons e es)
  have IH: "paused i (api_step st e) es \<le> own_delays (attempts_left i (api_step st e) - 1)"
    using Cons.IH [OF api_ok_step [OF Cons.prems(1)]] Cons.prems(2) by simp
  show ?case
  proof (cases "effective i st e")
    case True
    from left_effective [OF Cons.prems(1) True] IH True Cons.prems(2) own_delays_nonneg show ?thesis
      by (auto simp del: api_step.simps intro: order_trans)
  next
    case False
    with IH left_ineffective [OF Cons.prems(1) False] show ?thesis by (simp del: api_step.simps)
  qed
qed (simp add: own_delays_nonneg)

lemma attempts_left_start: "attempts_left i api_start = Suc maxAttempts"
  by (simp add: attempts_left_def api_start_def)

lemma settled_when_none_left:
  "api_ok st \<Longrightarrow> attempts_left i st = 0 \<Longrightarrow> i \<in> fst ` set (a_settled st)"
proof -
  assume ok: "api_ok st" and z: "attempts_left i st = 0"
  have "map_of (a_requests st) i = None \<and> i < a_next st"
  proof (cases "map_of (a_requests st) i")
    case (Some q)
    with z api_ok_request [OF ok Some] show ?thesis by (simp add: attempts_left_def request_ok_def)
  qed (use z in \<open>simp add: attempts_left_def split: if_splits\<close>)
  then show ?thesis using api_okD(2) [OF ok] unfolding accounted_def map_of_eq_None_iff by (auto simp: set_eq_iff)
qed

text \<open>C17: Whatever the server answers, and however the requests interleave, a request settles with its seventh
  reply at the latest and spends at most 180 seconds in pauses; at most 61 seconds when the server names no time
  to come back.\<close>

theorem request_bounded:
  "answers i api_start es \<le> 7 \<and> (answers i api_start es = 7 \<longrightarrow> i \<in> fst ` set (a_settled (api_run es))) \<and>
   paused i api_start es \<le> 180000 \<and> (list_all names_no_time es \<longrightarrow> paused i api_start es \<le> 61000)"
proof (intro conjI impI)
  note B = answers_bound [OF api_ok_start, of i es]
  show "answers i api_start es \<le> 7" using B by (simp add: attempts_left_start maxAttempts_def)
  show "paused i api_start es \<le> 180000"
    using paused_bound [OF api_ok_start, of i es] by (simp add: attempts_left_start maxAttempts_def)
  show "i \<in> fst ` set (a_settled (api_run es))" if "answers i api_start es = 7"
    by (rule settled_when_none_left [OF api_ok_run]) (use B that in \<open>simp add: attempts_left_start maxAttempts_def api_run_def\<close>)
  show "paused i api_start es \<le> 61000" if "list_all names_no_time es"
    using paused_own [OF api_ok_start that, of i] by (simp add: attempts_left_start maxAttempts_def eval_nat_numeral)
qed

text \<open>Seven answers of status 503: after six pauses the request fails.\<close>

definition busy_events :: "api_event list" where
  "busy_events = Call 0 0 ''/stats'' 10000 False #
     concat (replicate 7 [Reply 0 0 0 (Response 503 None None), Woken 0])"

lemma request_bounded_witness:
  "list_all names_no_time busy_events \<and> answers 0 api_start busy_events = 7 \<and> paused 0 api_start busy_events = 61000 \<and>
   0 \<in> fst ` set (a_settled (api_run busy_events))"
proof -
  have a: "list_all names_no_time busy_events" "answers 0 api_start busy_events = 7" "paused 0 api_start busy_events = 61000" by code_simp+
  with request_bounded [of 0 busy_events] show ?thesis by simp
qed

section \<open>Where cached data come from\<close>

text \<open>A step that removes the entry of a path, and one that writes it.\<close>

definition drops :: "string \<Rightarrow> api_state \<Rightarrow> api_event \<Rightarrow> bool" where
  "drops path st e =
     (case e of
        Invalidate pre \<Rightarrow> starts_with pre path
      | Ws_timer \<Rightarrow> a_timer st \<and> (starts_with ''/stats'' path \<or> starts_with ''/nodes'' path)
      | _ \<Rightarrow> False)"

definition saves :: "string \<Rightarrow> api_state \<Rightarrow> api_event \<Rightarrow> (jsval \<times> rat) option" where
  "saves path st e =
     (case e of
        Reply _ now i r \<Rightarrow>
          (case map_of (a_requests st) i of
             Some q \<Rightarrow> if q_phase q = Fetching \<and> q_path q = path \<and> 0 < q_ttl q
                       then (case on_response q r of Inr (Data d) \<Rightarrow> Some (d, now + q_ttl q) | _ \<Rightarrow> None) else None
           | None \<Rightarrow> None)
      | _ \<Rightarrow> None)"

lemma map_of_filter_keys: "map_of (filter (\<lambda>e. P (fst e)) xs) k = (if P k then map_of xs k else None)"
  by (induction xs) auto

lemma cache_invalidated:
  "obj_get (a_cache (invalidateApiCache pre st)) path = (if starts_with pre path then None else obj_get (a_cache st) path)"
  using map_of_filter_keys [of "\<lambda>k. \<not> starts_with pre k" "a_cache st" path] by (simp only: invalidateApiCache_def) simp

lemma cache_step:
  "obj_get (a_cache (api_step st e)) path =
     (case saves path st e of Some x \<Rightarrow> Some x | None \<Rightarrow> if drops path st e then None else obj_get (a_cache st) path)"
proof (cases e)
  case (Call perf now p ttl bust)
  then show ?thesis by (simp add: api_def drops_def saves_def split: option.split)
next
  case (Reply perf now i r)
  then show ?thesis
    by (auto simp: on_reply_def drops_def saves_def settle_def Let_def obj_get_set split: option.split sum.split outcome.split)
next
  case (Woken i)
  then show ?thesis by (simp add: pause_over_def drops_def saves_def split: option.split)
next
  case (Invalidate pre)
  then show ?thesis by (simp add: drops_def saves_def cache_invalidated)
next
  case Ws_timer
  then show ?thesis by (simp add: drops_def saves_def ws_timer_def cache_invalidated)
qed (simp add: drops_def saves_def ws_message_def)

fun untouched :: "string \<Rightarrow> api_state \<Rightarrow> api_event list \<Rightarrow> bool" where
  "untouched path st [] = True"
| "untouched path st (e # es) = (saves path st e = None \<and> \<not> drops path st e \<and> untouched path (api_step st e) es)"

lemma untouched_snoc:
  "untouched path st (es @ [e]) =
     (untouched path st es \<and> saves path (foldl api_step st es) e = None \<and> \<not> drops path (foldl api_step st es) e)"
  by (induction es arbitrary: st) (auto simp del: api_step.simps)

lemma cached_origin:
  "obj_get (a_cache (api_run es)) path = Some x \<Longrightarrow>
   \<exists>es1 e es2. es = es1 @ e # es2 \<and> saves path (api_run es1) e = Some x \<and> untouched path (api_run (es1 @ [e])) es2"
proof (induction es rule: rev_induct)
  case Nil
  then show ?case by (simp add: api_run_def api_start_def)
next
  case (snoc e es)
  show ?case
  proof (cases "saves path (api_run es) e")
    case (Some y)
    with snoc.prems have "y = x" by (simp add: api_run_snoc cache_step)
    with Some show ?thesis by (intro exI [of _ es] exI [of _ e] exI [of _ "[]"]) simp
  next
    case None
    with snoc.prems have k: "\<not> drops path (api_run es) e" "obj_get (a_cache (api_run es)) path = Some x"
      by (auto simp: api_run_snoc cache_step split: if_splits)
    from snoc.IH [OF k(2)] obtain es1 e1 es2 where
      E: "es = es1 @ e1 # es2" "saves path (api_run es1) e1 = Some x" "untouched path (api_run (es1 @ [e1])) es2" by blast
    have "untouched path (api_run (es1 @ [e1])) (es2 @ [e])"
      using E(1,3) None k(1) by (simp add: untouched_snoc flip: api_run_append)
    with E(1,2) show ?thesis by (intro exI [of _ es1] exI [of _ e1] exI [of _ "es2 @ [e]"]) simp
  qed
qed

lemma saves_SomeD:
  assumes "saves path st e = Some (d, x)"
  obtains perf t i q status h where "e = Reply perf t i (Response status h (Some d))" "map_of (a_requests st) i = Some q"
    "q_path q = path" "q_phase q = Fetching" "200 \<le> status" "status < 300" "x = t + q_ttl q"
  using assms
  by (cases e) (auto simp: saves_def on_response_def split: option.splits if_splits sum.splits outcome.splits reply.splits)

text \<open>C18: Data served from the cache are the body of a successful reply to a request for the same path, whose time
  to live is not over, and since then no other reply for the path has arrived and nothing has invalidated it.\<close>

theorem cache_provenance:
  assumes "fst (api perf now path ttl bust (api_run es)) = Cached d"
  shows "\<not> bust \<and> 0 < ttl \<and>
    (\<exists>es1 perf' t i q status h es2.
       es = es1 @ Reply perf' t i (Response status h (Some d)) # es2 \<and>
       map_of (a_requests (api_run es1)) i = Some q \<and> q_path q = path \<and> q_phase q = Fetching \<and>
       200 \<le> status \<and> status < 300 \<and> now < t + q_ttl q \<and>
       untouched path (api_run (es1 @ [Reply perf' t i (Response status h (Some d))])) es2)"
proof -
  from assms have b: "\<not> bust" "0 < ttl" and f: "fresh_entry now path (api_run es) = Some d"
    by (auto simp: api_def split: option.splits if_splits)
  from f obtain x where x: "obj_get (a_cache (api_run es)) path = Some (d, x)" "now < x"
    by (auto simp: fresh_entry_def split: option.splits if_splits)
  from cached_origin [OF x(1)] obtain es1 e es2 where
    E: "es = es1 @ e # es2" "saves path (api_run es1) e = Some (d, x)" "untouched path (api_run (es1 @ [e])) es2" by blast
  from E(2) show ?thesis by (rule saves_SomeD) (use b x(2) E(1,3) in blast)
qed

definition stats_events :: "api_event list" where
  "stats_events = [Call 0 0 ''/stats'' 10000 False, Reply 7 7 0 (Response 200 None (Some (JNum (Fin 3)))), Ws_message, Invalidate ''/nodes'']"

lemma cache_provenance_witness:
  "\<exists>es1 perf' t i q status h es2.
     stats_events = es1 @ Reply perf' t i (Response status h (Some (JNum (Fin 3)))) # es2 \<and>
     map_of (a_requests (api_run es1)) i = Some q \<and> q_path q = ''/stats'' \<and> 9000 < t + q_ttl q"
proof -
  have "fst (api 9000 9000 ''/stats'' 5000 False (api_run stats_events)) = Cached (JNum (Fin 3))" by code_simp
  from cache_provenance [OF this] show ?thesis by metis
qed

text \<open>C19: A call that asks for fresh data while a request for the path is in flight starts no request of its own but
  gets the older one; and an invalidation does not reach a request in flight: its reply is cached afterwards for
  its whole time to live.\<close>

theorem refresh_joins_inflight:
  assumes "obj_get (a_inflight (api_run es)) path = Some i" "map_of (a_requests (api_run es)) i = Some q" "q_phase q = Fetching"
    and "200 \<le> status" "status < 300"
  shows "api perf now path ttl True (api_run es) = (Pending i, api_run es) \<and>
    (0 < q_ttl q \<and> 0 < ttl \<and> now < t + q_ttl q \<longrightarrow>
     fst (api perf now path ttl False (api_run (es @ [Invalidate pre, Reply perf' t i (Response status h (Some d))]))) = Cached d)"
proof (intro conjI impI)
  show "api perf now path ttl True (api_run es) = (Pending i, api_run es)"
    using assms(1) by (simp add: api_def)
  assume ttl: "0 < q_ttl q \<and> 0 < ttl \<and> now < t + q_ttl q"
  let ?st = "api_run (es @ [Invalidate pre])"
  let ?e = "Reply perf' t i (Response status h (Some d))"
  have "agree (obj_get (a_inflight (api_run es))) (map_of (a_requests (api_run es)))"
    using api_okD(1) [OF api_ok_run] by (simp add: shared_def)
  with assms(1,2) have p: "q_path q = path" unfolding agree_def by (metis option.inject)
  have "map_of (a_requests ?st) i = Some q" using assms(2) by (simp add: api_run_snoc invalidateApiCache_def)
  then have "saves path ?st ?e = Some (d, t + q_ttl q)"
    using p assms(3-5) ttl by (simp add: saves_def on_response_def)
  then have "obj_get (a_cache (api_run (es @ [Invalidate pre, ?e]))) path = Some (d, t + q_ttl q)"
    using api_run_snoc [of "es @ [Invalidate pre]" ?e] cache_step [of ?st ?e path] by simp
  with ttl show "fst (api perf now path ttl False (api_run (es @ [Invalidate pre, ?e]))) = Cached d"
    by (simp add: api_def fresh_entry_def)
qed

lemma refresh_joins_inflight_witness:
  "api 4 4 ''/observers'' 120000 True (api_run [Call 0 0 ''/observers'' 120000 False]) =
     (Pending 0, api_run [Call 0 0 ''/observers'' 120000 False]) \<and>
   fst (api 4 4 ''/observers'' 120000 False
     (api_run [Call 0 0 ''/observers'' 120000 False, Invalidate [], Reply 3 3 0 (Response 200 None (Some JNull))])) = Cached JNull"
proof -
  have "obj_get (a_inflight (api_run [Call 0 0 ''/observers'' 120000 False])) ''/observers'' = Some 0"
    "map_of (a_requests (api_run [Call 0 0 ''/observers'' 120000 False])) 0 = Some (new_request 0 ''/observers'' 120000)"
    by code_simp+
  from refresh_joins_inflight [OF this, of 200 4 4 120000 3 "[]" 3 None JNull] show ?thesis
    by (simp add: new_request_def)
qed

end
