(* ===== verification/All_Nodes.thy ===== *)
theory All_Nodes
  imports Js_Base
begin

text \<open>
  \<^verbatim>\<open>fetchAllNodes\<close> of \<^verbatim>\<open>src/public/app.js\<close>: the paged fetch of the node list, with the default page size.  The
  API (Api_Client) is the argument \<open>srv\<close>, which gives for an offset what the awaited call settles to.
\<close>

section \<open>All nodes\<close>

definition PAGE_SIZE :: nat where "PAGE_SIZE = 500"

text \<open>\<^verbatim>\<open>data && Array.isArray(data.nodes) ? data.nodes : Array.isArray(data) ? data : []\<close>.\<close>

definition page_nodes :: "jsval \<Rightarrow> jsval list" where
  "page_nodes data =
     (case (if truthy data then js_prop data ''nodes'' else JUndef) of
        JArr ns \<Rightarrow> ns
      | _ \<Rightarrow> (case data of JArr ns \<Rightarrow> ns | _ \<Rightarrow> []))"

text \<open>
  The loop over the offsets.  The first argument is the API at the time of each call, \<open>None\<close> an exception of
  it; the result is the number of calls and the accumulated nodes.
\<close>

function fetch_pages :: "(nat \<Rightarrow> jsval option) \<Rightarrow> nat \<Rightarrow> nat \<Rightarrow> (nat \<times> jsval list) option" where
  "fetch_pages srv safetyCap ofs =
     (if safetyCap \<le> ofs then Some (0, [])
      else case srv ofs of
             None \<Rightarrow> None
           | Some data \<Rightarrow>
               (let page = page_nodes data in
                if length page < PAGE_SIZE then Some (1, page)
                else case fetch_pages srv safetyCap (ofs + PAGE_SIZE) of
                       None \<Rightarrow> None
                     | Some (n, rest) \<Rightarrow> Some (n + 1, page @ rest)))"
  by pat_completeness auto
termination by (relation "measure (\<lambda>(_, safetyCap, ofs). safetyCap - ofs)") (auto simp: PAGE_SIZE_def)

declare fetch_pages.simps [simp del]

text \<open>\<^verbatim>\<open>(data && data.counts) || {}\<close> of the first page; \<^verbatim>\<open>{}\<close> when no page is asked for.\<close>

definition page_counts :: "jsval \<Rightarrow> jsval" where
  "page_counts data =
     (let c = (if truthy data then js_prop data ''counts'' else data) in if truthy c then c else JObj [])"

text \<open>A \<^verbatim>\<open>Map\<close> in insertion order; setting a present key keeps its place.\<close>

fun map_put :: "(jsval \<times> 'v) list \<Rightarrow> jsval \<Rightarrow> 'v \<Rightarrow> (jsval \<times> 'v) list" where
  "map_put [] k v = [(k, v)]"
| "map_put ((k', v') # m) k v = (if strict_eq k' k then (k', v) # m else (k', v') # map_put m k v)"

definition node_key :: "nat \<Rightarrow> jsval \<Rightarrow> jsval" where
  "node_key i n = (let k = (if truthy n then js_prop n ''public_key'' else n) in if truthy k then k else JStr (''__nokey'' @ nat_to_dec i))"

definition seen_nodes :: "jsval list \<Rightarrow> (jsval \<times> jsval) list" where
  "seen_nodes ns = foldl (\<lambda>m (i, n). map_put m (node_key i n) n) [] (zip [0..<length ns] ns)"

record all_nodes =
  all_list :: "jsval list"
  all_counts :: jsval
  all_total :: nat

definition fetchAllNodes :: "(nat \<Rightarrow> jsval option) \<Rightarrow> nat \<Rightarrow> all_nodes option" where
  "fetchAllNodes srv safetyCap =
     (case fetch_pages srv safetyCap 0 of
        None \<Rightarrow> None
      | Some (_, accumulated) \<Rightarrow>
          (let nodes = take safetyCap (map snd (seen_nodes accumulated)) in
           Some \<lparr>all_list = nodes,
                 all_counts = (if safetyCap = 0 then JObj [] else case srv 0 of None \<Rightarrow> JObj [] | Some data \<Rightarrow> page_counts data),
                 all_total = length nodes\<rparr>))"

section \<open>All nodes of the server\<close>

text \<open>The public key a node is identified by.\<close>

definition node_id :: "jsval \<Rightarrow> string option" where
  "node_id n =
     (if truthy n then (case js_prop n ''public_key'' of JStr k \<Rightarrow> if k = [] then None else Some k | _ \<Rightarrow> None) else None)"

definition serves :: "(nat \<Rightarrow> jsval option) \<Rightarrow> jsval list \<Rightarrow> bool" where
  "serves srv L = (\<forall>ofs. \<exists>data. srv ofs = Some data \<and> page_nodes data = take PAGE_SIZE (drop ofs L))"

lemma strict_eqD: "strict_eq a b \<Longrightarrow> a = b"
  by (cases "(a, b)" rule: strict_eq.cases) (auto elim: num_eq.elims)

lemma node_key_id: "node_id n = Some k \<Longrightarrow> node_key i n = JStr k"
  by (auto simp: node_id_def node_key_def Let_def split: if_splits jsval.splits)

lemma page_nodes_arr [simp]: "page_nodes (JArr ns) = ns"
  by (simp add: page_nodes_def js_prop_def table_get_def nat_of_index_def object_proto_def is_digit_def)

lemma map_put_new: "\<forall>e\<in>set m. \<not> strict_eq (fst e) k \<Longrightarrow> map_put m k v = m @ [(k, v)]"
  by (induction m k v rule: map_put.induct) auto

lemma map_put_values: "set (map snd (map_put m k v)) \<subseteq> insert v (set (map snd m))"
  by (induction m k v rule: map_put.induct) auto

lemma map_put_keys: "map fst (map_put m k v) = (if \<exists>e\<in>set m. strict_eq (fst e) k then map fst m else map fst m @ [k])"
  by (induction m k v rule: map_put.induct) auto

lemma map_put_entries: "e \<in> set (map_put m k v) \<Longrightarrow> e \<in> set m \<or> e = (k, v)"
  by (induction m k v rule: map_put.induct) (auto split: if_splits dest: strict_eqD)

text \<open>The nodes of a list without repeated keys are all kept, in order.\<close>

lemma seen_distinct:
  assumes "\<forall>n\<in>set ns. node_id n \<noteq> None" "distinct (map node_id ns)"
  shows "seen_nodes ns = map (\<lambda>n. (JStr (the (node_id n)), n)) ns"
proof -
  have "foldl (\<lambda>m (i, n). map_put m (node_key i n) n) (map (\<lambda>n. (JStr (the (node_id n)), n)) ms) (zip [a..<a + length ns] ns) =
      map (\<lambda>n. (JStr (the (node_id n)), n)) (ms @ ns)"
    if "\<forall>n\<in>set (ms @ ns). node_id n \<noteq> None" "distinct (map node_id (ms @ ns))" for ms a
    using that
  proof (induction ns arbitrary: ms a)
    case (Cons n ns)
    from Cons.prems(1) obtain k where k: "node_id n = Some k" by auto
    have "\<forall>e\<in>set (map (\<lambda>n. (JStr (the (node_id n)), n)) ms). \<not> strict_eq (fst e) (JStr k)"
      using Cons.prems k by (auto simp: image_iff)
    from map_put_new [OF this] have p: "map_put (map (\<lambda>n. (JStr (the (node_id n)), n)) ms) (node_key a n) n =
        map (\<lambda>n. (JStr (the (node_id n)), n)) (ms @ [n])"
      by (simp add: node_key_id [OF k] k)
    have "zip [a..<a + length (n # ns)] (n # ns) = (a, n) # zip [Suc a..<Suc a + length ns] ns"
      by (simp add: upt_conv_Cons del: upt_Suc)
    with Cons.IH [of "ms @ [n]" "Suc a"] Cons.prems p show ?case by simp
  qed simp
  from this [of "[]" 0] assms show ?thesis by (simp add: seen_nodes_def)
qed

text \<open>In any case no key occurs twice, and the nodes are among those of the pages.\<close>

definition one_each :: "jsval list \<Rightarrow> bool" where
  "one_each ns = sorted_wrt (\<lambda>a b. node_id a = None \<or> node_id a \<noteq> node_id b) ns"

lemma seen_invariant:
  assumes "m = foldl (\<lambda>m (i, n). map_put m (node_key i n) n) [] (zip is ns)"
  shows "sorted_wrt (\<lambda>a b. \<not> strict_eq a b) (map fst m) \<and> (\<forall>(k, n)\<in>set m. n \<in> set ns \<and> (\<exists>i. k = node_key i n))"
proof -
  have "sorted_wrt (\<lambda>a b. \<not> strict_eq a b) (map fst m) \<and> (\<forall>(k, n)\<in>set m. n \<in> snd ` set xs \<and> (\<exists>i. k = node_key i n))"
    if "m = foldl (\<lambda>m (i, n). map_put m (node_key i n) n) [] xs" for xs m
    using that
  proof (induction xs arbitrary: m rule: rev_induct)
    case (snoc x xs)
    obtain i n where x: "x = (i, n)" by (cases x)
    define m0 where "m0 = foldl (\<lambda>m (i, n). map_put m (node_key i n) n) [] xs"
    have m: "m = map_put m0 (node_key i n) n" using snoc.prems by (simp add: x m0_def)
    note IH = snoc.IH [OF m0_def]
    have "sorted_wrt (\<lambda>a b. \<not> strict_eq a b) (map fst m)"
      using IH by (auto simp: m map_put_keys sorted_wrt_append)
    with IH show ?case by (auto simp: m x dest!: map_put_entries)
  qed simp
  note R = this [OF assms]
  have "snd ` set (zip is ns) \<subseteq> set ns" by (auto dest: set_zip_rightD)
  with R show ?thesis by fast
qed

lemma seen_one_each: "one_each (map snd (seen_nodes ns))"
proof -
  note S = seen_invariant [OF seen_nodes_def [of ns]]
  have "sorted_wrt (\<lambda>a b. \<not> strict_eq (fst a) (fst b)) (seen_nodes ns)" using S by (simp add: sorted_wrt_map)
  then have "sorted_wrt (\<lambda>a b. node_id (snd a) = None \<or> node_id (snd a) \<noteq> node_id (snd b)) (seen_nodes ns)"
  proof (rule sorted_wrt_mono_rel [rotated])
    fix a b assume ab: "a \<in> set (seen_nodes ns)" "b \<in> set (seen_nodes ns)" "\<not> strict_eq (fst a) (fst b)"
    from S have "\<exists>i. fst e = node_key i (snd e)" if "e \<in> set (seen_nodes ns)" for e using that by (auto simp: case_prod_beta)
    from this [OF ab(1)] this [OF ab(2)] obtain i j where "fst a = node_key i (snd a)" "fst b = node_key j (snd b)" by blast
    with ab(3) show "node_id (snd a) = None \<or> node_id (snd a) \<noteq> node_id (snd b)"
      by (cases "node_id (snd a)"; cases "node_id (snd b)") (auto simp: node_key_id)
  qed
  then show ?thesis by (simp add: one_each_def sorted_wrt_map)
qed

text \<open>The pages of an unchanging list.\<close>

lemma fetch_pages_serves:
  "serves srv L \<Longrightarrow> \<exists>n m. fetch_pages srv cap ofs = Some (n, take m (drop ofs L)) \<and> (cap \<le> ofs + m \<or> length L \<le> ofs + m)"
proof (induction srv cap ofs rule: fetch_pages.induct)
  case (1 srv cap ofs)
  from "1.prems" obtain data where d: "srv ofs = Some data" "page_nodes data = take PAGE_SIZE (drop ofs L)"
    unfolding serves_def by blast
  show ?case
  proof (cases "cap \<le> ofs")
    case True
    then have "fetch_pages srv cap ofs = Some (0, take 0 (drop ofs L))" by (subst fetch_pages.simps) simp
    with True show ?thesis by fastforce
  next
    case False
    show ?thesis
    proof (cases "length (page_nodes data) < PAGE_SIZE")
      case True
      then have "length L \<le> ofs + PAGE_SIZE" by (simp add: d PAGE_SIZE_def)
      moreover have "fetch_pages srv cap ofs = Some (1, take PAGE_SIZE (drop ofs L))"
        using False True by (subst fetch_pages.simps) (simp add: Let_def d(1) flip: d(2))
      ultimately show ?thesis by blast
    next
      case 2: False
      from "1.IH" [OF False d(1) refl 2 "1.prems"] obtain n m where
        IH: "fetch_pages srv cap (ofs + PAGE_SIZE) = Some (n, take m (drop (ofs + PAGE_SIZE) L))"
          "cap \<le> ofs + PAGE_SIZE + m \<or> length L \<le> ofs + PAGE_SIZE + m" by blast
      have "take PAGE_SIZE (drop ofs L) @ take m (drop (ofs + PAGE_SIZE) L) = take (PAGE_SIZE + m) (drop ofs L)"
        by (simp add: take_add add.commute)
      then have "fetch_pages srv cap ofs = Some (n + 1, take (PAGE_SIZE + m) (drop ofs L))"
        using False 2 d IH(1) by (subst fetch_pages.simps) (simp add: Let_def)
      with IH(2) show ?thesis by (metis add.assoc)
    qed
  qed
qed

lemma fetch_pages_count: "fetch_pages srv cap ofs = Some (n, ns) \<Longrightarrow> PAGE_SIZE * n < cap - ofs + PAGE_SIZE"
proof (induction srv cap ofs arbitrary: n ns rule: fetch_pages.induct)
  case (1 srv cap ofs)
  show ?case
  proof (cases "cap \<le> ofs")
    case False
    from "1.prems" False obtain data where d: "srv ofs = Some data" by (subst (asm) fetch_pages.simps) (auto split: option.splits)
    show ?thesis
    proof (cases "length (page_nodes data) < PAGE_SIZE")
      case True
      with "1.prems" False d have "n = 1" by (subst (asm) fetch_pages.simps) simp
      with False show ?thesis by (simp add: PAGE_SIZE_def)
    next
      case 2: False
      with "1.prems" False d obtain n' rest where
        r: "fetch_pages srv cap (ofs + PAGE_SIZE) = Some (n', rest)" "n = n' + 1"
        by (subst (asm) fetch_pages.simps) (auto simp: Let_def split: option.splits)
      from "1.IH" [OF False d refl 2 r(1)] r(2) False show ?thesis
        by (cases "n' = 0") (auto simp: PAGE_SIZE_def)
    qed
  qed (use "1.prems" in \<open>subst (asm) fetch_pages.simps, simp add: PAGE_SIZE_def\<close>)
qed

text \<open>C20: When the server's list does not change while it is fetched, all its nodes come back, up to the cap and in
  its order; in any case at most one page per started page of the cap is asked for, no more nodes than the cap
  and no public key twice are returned.\<close>

theorem all_nodes_complete:
  "(serves srv L \<and> (\<forall>n\<in>set L. node_id n \<noteq> None) \<and> distinct (map node_id L) \<longrightarrow>
      (\<exists>r. fetchAllNodes srv cap = Some r \<and> all_list r = take cap L \<and> all_total r = min cap (length L))) \<and>
   (fetchAllNodes srv cap = Some r \<longrightarrow>
      length (all_list r) \<le> cap \<and> all_total r = length (all_list r) \<and> one_each (all_list r) \<and>
      (\<exists>n acc. fetch_pages srv cap 0 = Some (n, acc) \<and> n \<le> (cap + (PAGE_SIZE - 1)) div PAGE_SIZE \<and> set (all_list r) \<subseteq> set acc))"
proof (intro conjI impI; (elim conjE)?)
  assume srv: "serves srv L" and keyed: "\<forall>n\<in>set L. node_id n \<noteq> None" "distinct (map node_id L)"
  from fetch_pages_serves [OF srv, of cap 0] obtain n m where
    f: "fetch_pages srv cap 0 = Some (n, take m L)" "cap \<le> m \<or> length L \<le> m" by auto
  have "seen_nodes (take m L) = map (\<lambda>n. (JStr (the (node_id n)), n)) (take m L)"
    using keyed distinct_take [of "map node_id L" m] by (intro seen_distinct) (auto dest: in_set_takeD simp: take_map)
  then have "map snd (seen_nodes (take m L)) = take m L" by (simp add: comp_def)
  moreover have "take cap (take m L) = take cap L" using f(2) by (auto simp: min_def)
  moreover from f(1) have "fetchAllNodes srv cap = Some r \<Longrightarrow> all_list r = take cap (map snd (seen_nodes (take m L))) \<and> all_total r = length (all_list r)"
    "fetchAllNodes srv cap \<noteq> None" for r
    by (auto simp: fetchAllNodes_def Let_def)
  ultimately show "\<exists>r. fetchAllNodes srv cap = Some r \<and> all_list r = take cap L \<and> all_total r = min cap (length L)"
    by (metis length_take min.commute not_None_eq)
next
  assume r: "fetchAllNodes srv cap = Some r"
  then obtain n acc where f: "fetch_pages srv cap 0 = Some (n, acc)" and l: "all_list r = take cap (map snd (seen_nodes acc))"
    and t: "all_total r = length (all_list r)"
    by (auto simp: fetchAllNodes_def Let_def split: option.splits)
  show "length (all_list r) \<le> cap" "all_total r = length (all_list r)" by (simp_all add: l t)
  show "one_each (all_list r)" using seen_one_each [of acc] by (simp add: l one_each_def sorted_wrt_take)
  have "set (map snd (seen_nodes acc)) \<subseteq> set acc" using seen_invariant [OF seen_nodes_def [of acc]] by auto
  then have "set (all_list r) \<subseteq> set acc" using set_take_subset [of cap "map snd (seen_nodes acc)"] by (auto simp: l)
  moreover have "n \<le> (cap + (PAGE_SIZE - 1)) div PAGE_SIZE"
    using fetch_pages_count [OF f] by (simp add: PAGE_SIZE_def)
  ultimately show "\<exists>n acc. fetch_pages srv cap 0 = Some (n, acc) \<and> n \<le> (cap + (PAGE_SIZE - 1)) div PAGE_SIZE \<and> set (all_list r) \<subseteq> set acc"
    using f by blast
qed

lemma all_nodes_complete_witness:
  "\<exists>r. fetchAllNodes (\<lambda>ofs. Some (JArr (take PAGE_SIZE (drop ofs [JObj [(''public_key'', JStr ''aa'')], JObj [(''public_key'', JStr ''bb'')]])))) 1 =
     Some r \<and> all_list r = [JObj [(''public_key'', JStr ''aa'')]] \<and> all_total r = 1"
proof -
  let ?L = "[JObj [(''public_key'', JStr ''aa'')], JObj [(''public_key'', JStr ''bb'')]]"
  have "serves (\<lambda>ofs. Some (JArr (take PAGE_SIZE (drop ofs ?L)))) ?L"
    by (simp add: serves_def)
  moreover have "\<forall>n\<in>set ?L. node_id n \<noteq> None" "distinct (map node_id ?L)" by code_simp+
  ultimately show ?thesis using all_nodes_complete [of "\<lambda>ofs. Some (JArr (take PAGE_SIZE (drop ofs ?L)))" ?L 1] by simp
qed

text \<open>
  The list is not fetched at one moment: when a node that was beyond the first page is heard between the two
  requests and moves to the front, it is in neither page.
\<close>

lemma map_put_same: "\<exists>e\<in>set m. strict_eq (fst e) k \<Longrightarrow> \<forall>e\<in>set m. strict_eq (fst e) k \<longrightarrow> snd e = v \<Longrightarrow> map_put m k v = m"
  by (induction m k v rule: map_put.induct) auto

lemma seen_repeated:
  assumes "\<forall>n\<in>set A. node_id n \<noteq> None" "distinct (map node_id A)" "x \<in> set A"
  shows "map snd (seen_nodes (A @ [x])) = A"
proof -
  let ?m = "map (\<lambda>n. (JStr (the (node_id n)), n)) A"
  from assms(1,3) obtain k where k: "node_id x = Some k" by auto
  have "seen_nodes (A @ [x]) = map_put (seen_nodes A) (node_key (length A) x) x" by (simp add: seen_nodes_def)
  also have "\<dots> = map_put ?m (JStr k) x" by (simp add: seen_distinct [OF assms(1,2)] node_key_id [OF k])
  also have "\<dots> = ?m"
  proof (rule map_put_same)
    show "\<exists>e\<in>set ?m. strict_eq (fst e) (JStr k)" using assms(3) k by force
    have "n = x" if "n \<in> set A" "the (node_id n) = k" for n
    proof -
      from that assms(1) have "node_id n = node_id x" by (auto simp: k)
      with that(1) assms(2,3) show ?thesis by (simp add: distinct_map inj_on_def)
    qed
    then show "\<forall>e\<in>set ?m. strict_eq (fst e) (JStr k) \<longrightarrow> snd e = x" by auto
  qed
  finally show ?thesis by (simp add: comp_def)
qed

lemma moved_node_lost:
  assumes A: "length A = PAGE_SIZE" "\<forall>n\<in>set A. node_id n \<noteq> None" "distinct (map node_id A)"
    and srv: "srv 0 = Some (JArr (take PAGE_SIZE (A @ [x])))" "srv PAGE_SIZE = Some (JArr (drop PAGE_SIZE (x # A)))"
    and cap: "PAGE_SIZE < cap"
  shows "\<exists>r. fetchAllNodes srv cap = Some r \<and> all_list r = A"
proof -
  have ne: "A \<noteq> []" using A(1) by (auto simp: PAGE_SIZE_def)
  have "drop PAGE_SIZE (x # A) = drop (length A - 1) A" using A(1) by (simp add: PAGE_SIZE_def)
  also have "\<dots> = [last A]" using ne by (metis append_butlast_last_id append_eq_conv_conj length_butlast)
  finally have p2: "drop PAGE_SIZE (x # A) = [last A]" .
  have "fetch_pages srv cap PAGE_SIZE = Some (1, [last A])"
    using cap srv(2) p2 by (subst fetch_pages.simps) (simp add: Let_def PAGE_SIZE_def)
  then have "fetch_pages srv cap 0 = Some (2, A @ [last A])"
    using cap srv(1) A(1) by (subst fetch_pages.simps) (simp add: Let_def)
  then show ?thesis
    using seen_repeated [OF A(2,3), of "last A"] ne cap A(1) by (simp add: fetchAllNodes_def Let_def)
qed

end
