(* ===== verification/Html_Text.thy ===== *)
theory Html_Text
  imports Packet_Bytes
begin

text \<open>
  Text that \<^verbatim>\<open>src/public/app.js\<close> puts into HTML: \<^verbatim>\<open>escapeHtml\<close>, which every view uses for data from the
  network, and the hex dump of a packet, coloured by the ranges of Packet_Bytes, with its legend.
\<close>

section \<open>Escaping\<close>

text \<open>\<^verbatim>\<open>s.replace(/c/g, t)\<close> for a single character.\<close>

definition replace_char :: "char \<Rightarrow> string \<Rightarrow> string \<Rightarrow> string" where
  "replace_char c t s = concat (map (\<lambda>x. if x = c then t else [x]) s)"

definition escapeHtml :: "jsval \<Rightarrow> string" where
  "escapeHtml s =
     (if nullish s then []
      else replace_char (CHR 0x27) ''&#39;'' (replace_char (CHR 0x22) ''&quot;'' (replace_char (CHR ''>'') ''&gt;''
        (replace_char (CHR ''<'') ''&lt;'' (replace_char (CHR ''&'') ''&amp;'' (js_String s))))))"

section \<open>Hex dump\<close>

text \<open>\<^verbatim>\<open>hex.match(/.{1,2}/g)\<close>: pairs of characters; line ends match no dot.\<close>

definition line_end :: "char \<Rightarrow> bool" where
  "line_end c = (c = CHR 0x0A \<or> c = CHR 0x0D)"

fun hex_pairs :: "string \<Rightarrow> string list" where
  "hex_pairs [] = []"
| "hex_pairs [c] = (if line_end c then [] else [[c]])"
| "hex_pairs (c # d # r) =
     (if line_end c then hex_pairs (d # r) else if line_end d then [c] # hex_pairs r else [c, d] # hex_pairs r)"

text \<open>No match is \<^verbatim>\<open>null\<close>, whose \<^verbatim>\<open>join\<close> throws.\<close>

definition formatHex :: "string \<Rightarrow> string option" where
  "formatHex hex = (if hex = [] then Some [] else if hex_pairs hex = [] then None else Some (join '' '' (hex_pairs hex)))"

definition LABEL_CLASS :: "jsval obj" where
  "LABEL_CLASS =
     [(''Header'', JStr ''hex-header''), (''Path Length'', JStr ''hex-pathlen''), (''Transport Codes'', JStr ''hex-transport''),
      (''Path'', JStr ''hex-path''), (''Payload'', JStr ''hex-payload''), (''PubKey'', JStr ''hex-pubkey''),
      (''Timestamp'', JStr ''hex-timestamp''), (''Signature'', JStr ''hex-signature''), (''Flags'', JStr ''hex-flags''),
      (''Latitude'', JStr ''hex-location''), (''Longitude'', JStr ''hex-location''), (''Name'', JStr ''hex-name'')]"

definition label_class :: "string \<Rightarrow> string" where
  "label_class l = js_String (js_or (table_get LABEL_CLASS l) (JStr ''hex-payload''))"

definition paint_range :: "brange \<Rightarrow> string list \<Rightarrow> string list" where
  "paint_range r cm =
     foldl (\<lambda>cm i. cm[i := label_class (b_label r)]) cm (filter (\<lambda>i. of_nat i \<le> b_end r) [b_start r..<length cm])"

definition classMap :: "brange list \<Rightarrow> nat \<Rightarrow> string list" where
  "classMap ranges n = foldl (\<lambda>cm r. paint_range r cm) (replicate n []) ranges"

definition open_span :: "string \<Rightarrow> string" where
  "open_span cls = ''<span class='' @ [CHR 0x22] @ cls @ [CHR 0x22] @ ''>''"

text \<open>The loop over the bytes with their classes; the first argument is \<^verbatim>\<open>prevCls\<close>.\<close>

fun hex_html :: "string option \<Rightarrow> (string \<times> string) list \<Rightarrow> string" where
  "hex_html prevCls [] = (if prevCls \<noteq> None then ''</span>'' else [])"
| "hex_html prevCls ((cls, byte) # r) =
     (if prevCls \<noteq> Some cls then (if prevCls \<noteq> None then ''</span>'' else []) @ open_span (''hex-byte '' @ cls) else '' '') @
     byte @ hex_html (Some cls) r"

definition createColoredHexDump :: "string \<Rightarrow> brange list \<Rightarrow> string option" where
  "createColoredHexDump hex ranges =
     (if hex = [] \<or> ranges = [] then map_option (\<lambda>t. open_span ''hex-byte'' @ t @ ''</span>'') (formatHex hex)
      else Some (hex_html None (zip (classMap ranges (length (hex_pairs hex))) (hex_pairs hex))))"

definition BG_COLORS :: "jsval obj" where
  "BG_COLORS =
     [(''hex-header'', JStr ''#f38ba8''), (''hex-pathlen'', JStr ''#fab387''), (''hex-transport'', JStr ''#89b4fa''),
      (''hex-path'', JStr ''#a6e3a1''), (''hex-payload'', JStr ''#f9e2af''), (''hex-pubkey'', JStr ''#f9e2af''),
      (''hex-timestamp'', JStr ''#fab387''), (''hex-signature'', JStr ''#f38ba8''), (''hex-flags'', JStr ''#94e2d5''),
      (''hex-location'', JStr ''#89b4fa''), (''hex-name'', JStr ''#cba6f7'')]"

definition legend_entry :: "string \<Rightarrow> string" where
  "legend_entry l =
     ''<span><span class='' @ [CHR 0x22] @ ''swatch'' @ [CHR 0x22] @ '' style='' @ [CHR 0x22] @ ''background:'' @
     js_String (js_or (table_get BG_COLORS (label_class l)) (JStr ''#f9e2af'')) @ [CHR 0x22] @ ''></span>'' @ l @ ''</span>''"

fun legend_from :: "string list \<Rightarrow> brange list \<Rightarrow> string" where
  "legend_from seen [] = []"
| "legend_from seen (r # rs) =
     (if b_label r \<in> set seen then legend_from seen rs
      else legend_entry (b_label r) @ legend_from (b_label r # seen) rs)"

definition buildHexLegend :: "brange list \<Rightarrow> string" where
  "buildHexLegend ranges = legend_from [] ranges"

section \<open>Properties\<close>

text \<open>What a browser reads back from escaped text: \<open>None\<close> where markup or an unknown reference begins.\<close>

fun html_text :: "string \<Rightarrow> string option" where
  "html_text [] = Some []"
| "html_text (c # r) =
     (if c \<in> {CHR ''<'', CHR ''>'', CHR 0x22, CHR 0x27} then None
      else if c = CHR ''&'' then
        (case r of
           CHR ''a'' # CHR ''m'' # CHR ''p'' # CHR '';'' # r' \<Rightarrow> map_option ((#) (CHR ''&'')) (html_text r')
         | CHR ''l'' # CHR ''t'' # CHR '';'' # r' \<Rightarrow> map_option ((#) (CHR ''<'')) (html_text r')
         | CHR ''g'' # CHR ''t'' # CHR '';'' # r' \<Rightarrow> map_option ((#) (CHR ''>'')) (html_text r')
         | CHR ''q'' # CHR ''u'' # CHR ''o'' # CHR ''t'' # CHR '';'' # r' \<Rightarrow> map_option ((#) (CHR 0x22)) (html_text r')
         | CHR ''#'' # CHR ''3'' # CHR ''9'' # CHR '';'' # r' \<Rightarrow> map_option ((#) (CHR 0x27)) (html_text r')
         | _ \<Rightarrow> None)
      else map_option ((#) c) (html_text r))"

definition escape_char :: "char \<Rightarrow> string" where
  "escape_char c =
     (if c = CHR ''&'' then ''&amp;'' else if c = CHR ''<'' then ''&lt;'' else if c = CHR ''>'' then ''&gt;''
      else if c = CHR 0x22 then ''&quot;'' else if c = CHR 0x27 then ''&#39;'' else [c])"

lemma replace_char_simps [simp]:
  "replace_char c t [] = []"
  "replace_char c t (x # s) = (if x = c then t else [x]) @ replace_char c t s"
  "replace_char c t (s @ s') = replace_char c t s @ replace_char c t s'"
  by (simp_all add: replace_char_def)

lemma escapeHtml_map: "escapeHtml v = (if nullish v then [] else concat (map escape_char (js_String v)))"
proof -
  have "replace_char (CHR 0x27) ''&#39;'' (replace_char (CHR 0x22) ''&quot;'' (replace_char (CHR ''>'') ''&gt;''
        (replace_char (CHR ''<'') ''&lt;'' (replace_char (CHR ''&'') ''&amp;'' s)))) = concat (map escape_char s)" for s
    by (induction s) (simp_all add: escape_char_def)
  then show ?thesis by (simp add: escapeHtml_def)
qed

lemma html_text_escape_char: "html_text (escape_char c @ s) = map_option ((#) c) (html_text s)"
  by (auto simp: escape_char_def)

lemma html_text_escaped: "html_text (concat (map escape_char s) @ t) = map_option ((@) s) (html_text t)"
  by (induction s) (simp_all add: html_text_escape_char option.map_comp comp_def option.map_ident)

text \<open>C21: Text that has been escaped contains no character that opens a tag or closes an attribute, and the browser
  reads the original text back from it, in front of any other text; escaping in five passes is the same as replacing
  each character once.\<close>

theorem escape_roundtrip:
  "set (escapeHtml v) \<inter> {CHR ''<'', CHR ''>'', CHR 0x22, CHR 0x27} = {} \<and>
   html_text (escapeHtml v @ t) = map_option ((@) (if nullish v then [] else js_String v)) (html_text t) \<and>
   escapeHtml v = (if nullish v then [] else concat (map escape_char (js_String v)))"
proof (intro conjI escapeHtml_map)
  have "set (concat (map escape_char s)) \<inter> {CHR ''<'', CHR ''>'', CHR 0x22, CHR 0x27} = {}" for s
    by (induction s) (auto simp: escape_char_def)
  then show "set (escapeHtml v) \<inter> {CHR ''<'', CHR ''>'', CHR 0x22, CHR 0x27} = {}" by (simp add: escapeHtml_map)
  show "html_text (escapeHtml v @ t) = map_option ((@) (if nullish v then [] else js_String v)) (html_text t)"
    using html_text_escaped [of "js_String v" t] html_text_escaped [of "[]" t] by (simp add: escapeHtml_map)
qed

section \<open>What the hex dump shows\<close>

definition span_html :: "string \<times> string list \<Rightarrow> string" where
  "span_html g = open_span (''hex-byte '' @ fst g) @ join '' '' (snd g) @ ''</span>''"

fun hex_groups :: "(string \<times> string) list \<Rightarrow> (string \<times> string list) list" where
  "hex_groups [] = []"
| "hex_groups ((c, b) # r) =
     (case hex_groups r of
        [] \<Rightarrow> [(c, [b])]
      | (c', bs) # gs \<Rightarrow> if c = c' then (c, b # bs) # gs else (c, [b]) # (c', bs) # gs)"

definition byte_class :: "brange list \<Rightarrow> nat \<Rightarrow> string" where
  "byte_class ranges i =
     (case find (\<lambda>r. b_start r \<le> i \<and> of_nat i \<le> b_end r) (rev ranges) of
        Some r \<Rightarrow> label_class (b_label r) | None \<Rightarrow> [])"

lemma hex_groups_nonempty: "g \<in> set (hex_groups xs) \<Longrightarrow> snd g \<noteq> []"
  by (induction xs arbitrary: g rule: hex_groups.induct) (auto split: list.splits if_splits)

lemma hex_groups_bytes: "concat (map snd (hex_groups xs)) = map snd xs"
  by (induction xs rule: hex_groups.induct) (auto split: list.splits if_splits)

lemma hex_groups_classes: "concat (map (\<lambda>g. replicate (length (snd g)) (fst g)) (hex_groups xs)) = map fst xs"
  by (induction xs rule: hex_groups.induct) (auto split: list.splits if_splits)

lemma hex_groups_adj: "distinct_adj (map fst (hex_groups xs))"
  by (induction xs rule: hex_groups.induct) (auto split: list.splits if_splits)

lemma join_Cons: "ws \<noteq> [] \<Longrightarrow> join sep (w # ws) = w @ sep @ join sep ws"
  by (cases ws) simp_all

lemma hex_html_groups:
  "hex_html (Some c) xs =
     (case hex_groups xs of
        [] \<Rightarrow> ''</span>''
      | (c', bs) # gs \<Rightarrow>
          (if c' = c then '' '' @ join '' '' bs @ ''</span>'' else ''</span>'' @ span_html (c', bs)) @ concat (map span_html gs))"
proof (induction xs arbitrary: c rule: hex_groups.induct)
  case (2 d b r)
  show ?case
  proof (cases "hex_groups r")
    case Nil
    with 2 [of d] show ?thesis by (simp add: span_html_def)
  next
    case (Cons g gs)
    obtain e bs where g: "g = (e, bs)" by (cases g)
    have "bs \<noteq> []" using hex_groups_nonempty [of g r] Cons g by simp
    with 2 [of d] Cons g show ?thesis by (auto simp: span_html_def join_Cons)
  qed
qed simp

lemma hex_html_None: "hex_html None xs = concat (map span_html (hex_groups xs))"
proof (cases xs)
  case (Cons x r)
  obtain d b where x: "x = (d, b)" by (cases x)
  show ?thesis
  proof (cases "hex_groups r")
    case Nil
    with x Cons show ?thesis by (simp add: hex_html_groups span_html_def)
  next
    case 2: (Cons g gs)
    obtain e bs where g: "g = (e, bs)" by (cases g)
    have "bs \<noteq> []" using hex_groups_nonempty [of g r] 2 g by simp
    with x Cons 2 g show ?thesis by (auto simp: hex_html_groups span_html_def join_Cons)
  qed
qed simp

lemma nth_fold_update: "i < length cm \<Longrightarrow> foldl (\<lambda>cm i. cm[i := v]) cm is ! i = (if i \<in> set is then v else cm ! i)"
  by (induction "is" arbitrary: cm) (auto simp: nth_list_update)

lemma length_fold_update [simp]: "length (foldl (\<lambda>cm i. cm[i := v]) cm is) = length cm"
  by (induction "is" arbitrary: cm) auto

lemma length_paint_range [simp]: "length (paint_range r cm) = length cm"
  by (simp add: paint_range_def)

lemma length_classMap [simp]: "length (classMap ranges n) = n"
  by (induction ranges rule: rev_induct) (simp_all add: classMap_def)

lemma nth_classMap: "i < n \<Longrightarrow> classMap ranges n ! i = byte_class ranges i"
proof (induction ranges rule: rev_induct)
  case Nil
  then show ?case by (simp add: classMap_def byte_class_def)
next
  case (snoc r ranges)
  have "classMap (ranges @ [r]) n = paint_range r (classMap ranges n)" by (simp add: classMap_def)
  with snoc show ?case by (auto simp: paint_range_def nth_fold_update byte_class_def)
qed

lemma classMap_eq: "classMap ranges n = map (byte_class ranges) [0..<n]"
  by (rule nth_equalityI) (simp_all add: nth_classMap)

lemma find_last_unique:
  assumes "\<And>r'. r' \<in> set rs \<Longrightarrow> P r' \<Longrightarrow> r' = r" "r \<in> set rs" "P r"
  shows "find P (rev rs) = Some r"
proof (cases "find P (rev rs)")
  case None
  with assms(2,3) show ?thesis by (auto simp: find_None_iff)
next
  case (Some r')
  then obtain i where "i < length (rev rs)" "P (rev rs ! i)" "r' = rev rs ! i" by (auto simp: find_Some_iff)
  moreover from this have "r' \<in> set rs" by (metis nth_mem set_rev)
  ultimately show ?thesis using assms(1) Some by simp
qed

lemma range_unique:
  assumes "sorted_wrt (\<lambda>r r'. b_end r < of_nat (b_start r')) rs"
    and "r \<in> set rs" "b_start r \<le> i" "of_nat i \<le> b_end r" "r' \<in> set rs" "b_start r' \<le> i" "of_nat i \<le> b_end r'"
  shows "r' = r"
  using assms
proof (induction rs)
  case (Cons x rs)
  have "\<not> (y \<in> set rs \<and> of_nat i \<le> b_end x \<and> b_start y \<le> i)" for y
  proof
    assume y: "y \<in> set rs \<and> of_nat i \<le> b_end x \<and> b_start y \<le> i"
    with Cons.prems(1) have "b_end x < of_nat (b_start y)" by simp
    moreover from y have "(of_nat (b_start y) :: rat) \<le> of_nat i" by simp
    ultimately show False using y by linarith
  qed
  with Cons show ?case by auto
qed simp

lemma breakdown_class:
  assumes "list_all is_hex (strip_ws h)" "even (length (strip_ws h))"
    and "r \<in> set (computeBreakdownRanges h rt pt)" "b_start r \<le> i" "of_nat i \<le> b_end r"
  shows "byte_class (computeBreakdownRanges h rt pt) i = label_class (b_label r)"
proof -
  have "sorted_wrt (\<lambda>r r'. b_end r < of_nat (b_start r')) (computeBreakdownRanges h rt pt)"
    using breakdown_ok [OF assms(1,2), of rt pt] by (simp add: ranges_from_def)
  note U = range_unique [OF this assms(3-5)]
  have "find (\<lambda>r. b_start r \<le> i \<and> of_nat i \<le> b_end r) (rev (computeBreakdownRanges h rt pt)) = Some r"
  proof (rule find_last_unique)
    show "r' = r" if "r' \<in> set (computeBreakdownRanges h rt pt)" "b_start r' \<le> i \<and> of_nat i \<le> b_end r'" for r'
      using U that by blast
  qed (use assms(3-5) in blast)+
  then show ?thesis by (simp add: byte_class_def)
qed

text \<open>C15: The coloured hex dump shows every pair of digits exactly once and in order, in one span per run of bytes of
  the same class; the class of a byte is that of the last range that contains it, and for the ranges of a packet's
  breakdown that of the only one.\<close>

theorem hex_dump_faithful:
  assumes "hex \<noteq> []" "ranges \<noteq> []"
  shows "(\<exists>gs. createColoredHexDump hex ranges = Some (concat (map span_html gs)) \<and>
      concat (map snd gs) = hex_pairs hex \<and> (\<forall>g\<in>set gs. snd g \<noteq> []) \<and> distinct_adj (map fst gs) \<and>
      concat (map (\<lambda>g. replicate (length (snd g)) (fst g)) gs) = map (byte_class ranges) [0..<length (hex_pairs hex)]) \<and>
    (list_all is_hex (strip_ws hex) \<and> even (length (strip_ws hex)) \<and> ranges = computeBreakdownRanges hex rt pt \<longrightarrow>
      (\<forall>r\<in>set ranges. \<forall>i. b_start r \<le> i \<and> of_nat i \<le> b_end r \<longrightarrow> byte_class ranges i = label_class (b_label r)))"
proof (intro conjI impI)
  let ?xs = "zip (map (byte_class ranges) [0..<length (hex_pairs hex)]) (hex_pairs hex)"
  have "createColoredHexDump hex ranges = Some (concat (map span_html (hex_groups ?xs)))"
    using assms by (simp add: createColoredHexDump_def classMap_eq hex_html_None)
  with hex_groups_bytes [of ?xs] hex_groups_classes [of ?xs] hex_groups_adj [of ?xs] hex_groups_nonempty [of _ ?xs]
  show "\<exists>gs. createColoredHexDump hex ranges = Some (concat (map span_html gs)) \<and>
      concat (map snd gs) = hex_pairs hex \<and> (\<forall>g\<in>set gs. snd g \<noteq> []) \<and> distinct_adj (map fst gs) \<and>
      concat (map (\<lambda>g. replicate (length (snd g)) (fst g)) gs) = map (byte_class ranges) [0..<length (hex_pairs hex)]"
    by (intro exI [of _ "hex_groups ?xs"]) simp
qed (use breakdown_class in blast)

lemma hex_dump_faithful_witness:
  "\<exists>gs. createColoredHexDump ''1541AABB00'' (computeBreakdownRanges ''1541AABB00'' (Some 1) (Some 5)) =
       Some (concat (map span_html gs)) \<and> concat (map snd gs) = [''15'', ''41'', ''AA'', ''BB'', ''00''] \<and>
     concat (map (\<lambda>g. replicate (length (snd g)) (fst g)) gs) =
       [''hex-header'', ''hex-pathlen'', ''hex-path'', ''hex-path'', ''hex-payload'']"
proof -
  let ?rs = "computeBreakdownRanges ''1541AABB00'' (Some 1) (Some 5)"
  have a: "?rs \<noteq> []" by code_simp
  have h: "hex_pairs ''1541AABB00'' = [''15'', ''41'', ''AA'', ''BB'', ''00'']" by code_simp
  have m: "map (byte_class ?rs) [0..<length [''15'', ''41'', ''AA'', ''BB'', ''00'']] =
      [''hex-header'', ''hex-pathlen'', ''hex-path'', ''hex-path'', ''hex-payload'']" by code_simp
  from conjunct1 [OF hex_dump_faithful [OF _ a, of "''1541AABB00''"]] show ?thesis unfolding h m by blast
qed

end
