(* ===== verification/Channel_Chat.thy ===== *)
theory Channel_Chat
  imports Js_Sort
begin

text \<open>
  The chat of \<^verbatim>\<open>src/public/channels.js\<close>: the channel list, the messages of the selected channel, live batches
  from the web socket, and the replies of the server, which are merged with the live messages.  The fields of a
  live packet and of a message are strings (empty when absent) or values that are only passed on; an observer
  named \<^verbatim>\<open>byId\<close>, which would be taken for the other calling convention of the region filter, is excluded.
\<close>

section \<open>Data\<close>

record payload =
  p_channel :: string
  p_channelKey :: string
  p_text :: string
  p_sender :: string
  p_SNR :: jsval
  p_sender_timestamp :: jsval
  p_path_len :: jsval

text \<open>A live packet: the fields of \<^verbatim>\<open>m.data\<close> and, with \<open>pk\<close>, of \<^verbatim>\<open>m.data.packet\<close>.\<close>

record live_msg =
  l_type :: string
  l_payloadTypeName :: string
  l_payload :: "payload option"
  l_hash :: string
  l_pk_hash :: string
  l_id :: jsval
  l_snr :: jsval
  l_pk_snr :: jsval
  l_observer_id :: string
  l_pk_observer_id :: string
  l_observer_name :: string
  l_pk_observer_name :: string
  l_observer :: string

record chat_message =
  m_sender :: string
  m_text :: string
  m_timestamp :: string
  m_sender_timestamp :: jsval
  m_ident :: jsval
  m_packetId :: jsval
  m_hash :: string
  m_repeats :: nat
  m_observers :: "string list option"
  m_hops :: jsval
  m_snr :: jsval
  m_fromWS :: bool
  m_wsAt :: rat

record channel =
  ch_hash :: string
  ch_name :: string
  ch_count :: nat
  ch_last :: rat
  ch_lastSender :: string
  ch_lastMessage :: string
  ch_unread :: nat
  ch_encrypted :: bool

text \<open>\<^verbatim>\<open>a || b\<close> on strings.\<close>

definition str_or :: "string \<Rightarrow> string \<Rightarrow> string" where
  "str_or a b = (if a = [] then b else a)"

section \<open>Merging live messages into a reply\<close>

definition MAX_WS_SURVIVOR_MS :: rat where "MAX_WS_SURVIVOR_MS = 5 * 60 * 1000"

definition survivor :: "rat \<Rightarrow> string list \<Rightarrow> chat_message \<Rightarrow> bool" where
  "survivor now restHashes m =
     (m_fromWS m \<and> \<not> (m_wsAt m \<noteq> 0 \<and> MAX_WS_SURVIVOR_MS < now - m_wsAt m) \<and> \<not> (m_hash m \<noteq> [] \<and> m_hash m \<in> set restHashes))"

definition mergeWsAppendedIntoRest :: "rat \<Rightarrow> chat_message list \<Rightarrow> chat_message list \<Rightarrow> chat_message list" where
  "mergeWsAppendedIntoRest now currentMsgs restMsgs =
     (if currentMsgs = [] then restMsgs
      else restMsgs @ filter (survivor now (filter (\<lambda>h. h \<noteq> []) (map m_hash restMsgs))) currentMsgs)"

section \<open>Regions\<close>

definition normalizeObserverNameKey :: "string \<Rightarrow> string" where
  "normalizeObserverNameKey name = (if name = [] then [] else toLowerCase (trim name))"

definition shouldProcessWSMessageForRegion :: "live_msg \<Rightarrow> string list option \<Rightarrow> jsval obj \<Rightarrow> jsval obj \<Rightarrow> bool" where
  "shouldProcessWSMessageForRegion msg selectedRegions byId byName =
     (case selectedRegions of
        None \<Rightarrow> True
      | Some regions \<Rightarrow>
          if regions = [] then True
          else
            (let observerId = str_or (l_pk_observer_id msg) (l_observer_id msg);
                 r0 = (if observerId \<noteq> [] then table_get byId observerId else JNull);
                 observerName = str_or (l_pk_observer_name msg) (str_or (l_observer_name msg) (l_observer msg));
                 nameKey = normalizeObserverNameKey observerName;
                 r1 = (if truthy r0 then r0 else if observerName \<noteq> [] then table_get byName observerName else r0);
                 r2 = (if truthy r0 then r0 else if \<not> truthy r1 \<and> nameKey \<noteq> [] then table_get byName nameKey else r1)
             in truthy r2 \<and> list_ex (\<lambda>r. strict_eq (JStr r) r2) regions))"

text \<open>The region of an observer in the server's list: its id and name (alternatives joined) and its code.\<close>

record observer_row =
  o_id :: string
  o_name :: string
  o_iata :: string

definition observer_regions :: "observer_row list \<Rightarrow> jsval obj \<times> jsval obj" where
  "observer_regions rows =
     foldl (\<lambda>(byId, byName) r.
       if o_iata r = [] then (byId, byName)
       else
         (let byId' = (if o_id r \<noteq> [] then obj_set byId (o_id r) (JStr (o_iata r)) else byId);
              key = normalizeObserverNameKey (o_name r);
              n1 = (if o_name r \<noteq> [] then obj_set byName (o_name r) (JStr (o_iata r)) else byName);
              n2 = (if o_name r \<noteq> [] \<and> key \<noteq> [] then obj_set n1 key (JStr (o_iata r)) else n1)
          in (byId', n2))) ([], []) rows"

section \<open>A live batch\<close>

definition is_message :: "live_msg \<Rightarrow> bool" where
  "is_message m = (l_type m = ''message'' \<or> (l_type m = ''packet'' \<and> l_payloadTypeName m = ''GRP_TXT''))"

text \<open>Sender and text of a payload of the form \<^verbatim>\<open>sender: message\<close>.\<close>

definition sender_text :: "payload \<Rightarrow> string \<times> string" where
  "sender_text p =
     (let rawText = p_text p; sender = p_sender p;
          (s, t) = (if rawText = [] then (sender, rawText)
             else case index_of '': '' rawText of
                    None \<Rightarrow> (sender, rawText)
                  | Some k \<Rightarrow> if 0 < k \<and> k < 50
                              then (if sender = [] then take k rawText else sender, drop (k + 2) rawText)
                              else (sender, rawText))
      in (str_or s ''Unknown'', t))"

text \<open>The ellipsis is the three bytes of its UTF-8 code.\<close>

definition ellipsis :: string where "ellipsis = [CHR 0xE2, CHR 0x80, CHR 0xA6]"

definition truncate_text :: "string \<Rightarrow> nat \<Rightarrow> string" where
  "truncate_text s len = (if s = [] then [] else if len < length s then take len s @ ellipsis else s)"

fun update_first :: "('a \<Rightarrow> bool) \<Rightarrow> ('a \<Rightarrow> 'a) \<Rightarrow> 'a list \<Rightarrow> 'a list" where
  "update_first P f [] = []"
| "update_first P f (x # xs) = (if P x then f x # xs else x # update_first P f xs)"

definition touch_channel :: "rat \<Rightarrow> bool \<Rightarrow> string \<Rightarrow> string \<Rightarrow> channel \<Rightarrow> channel" where
  "touch_channel now isFirst sender displayText ch =
     ch\<lparr>ch_count := (if isFirst then ch_count ch + 1 else ch_count ch), ch_last := now, ch_lastSender := sender,
        ch_lastMessage := truncate_text displayText 100\<rparr>"

definition update_channels :: "rat \<Rightarrow> bool \<Rightarrow> string \<Rightarrow> string \<Rightarrow> string \<Rightarrow> string \<Rightarrow> channel list \<Rightarrow> channel list" where
  "update_channels now isFirst key name sender displayText chs =
     (if list_ex (\<lambda>c. ch_hash c = key) chs
      then update_first (\<lambda>c. ch_hash c = key) (touch_channel now isFirst sender displayText) chs
      else if isFirst
      then chs @ [\<lparr>ch_hash = key, ch_name = name, ch_count = 1, ch_last = now, ch_lastSender = sender,
                   ch_lastMessage = truncate_text displayText 100, ch_unread = 0, ch_encrypted = False\<rparr>]
      else chs)"

definition repeated :: "rat \<Rightarrow> string \<Rightarrow> chat_message \<Rightarrow> chat_message" where
  "repeated now observer m =
     m\<lparr>m_repeats := (if m_repeats m = 0 then 1 else m_repeats m) + 1,
       m_observers := (case m_observers m of
                         Some os \<Rightarrow> if observer \<noteq> [] \<and> observer \<notin> set os then Some (os @ [observer]) else Some os
                       | None \<Rightarrow> None),
       m_fromWS := True, m_wsAt := now\<rparr>"

definition nullish_or :: "jsval \<Rightarrow> jsval \<Rightarrow> jsval" where
  "nullish_or a b = (if nullish a then b else a)"

definition new_message :: "rat \<Rightarrow> (rat \<Rightarrow> string) \<Rightarrow> live_msg \<Rightarrow> payload \<Rightarrow> string \<Rightarrow> string \<Rightarrow> string \<Rightarrow> string \<Rightarrow> chat_message" where
  "new_message now toISO m p sender displayText pktHash observer =
     \<lparr>m_sender = sender, m_text = displayText, m_timestamp = toISO now, m_sender_timestamp = js_or (p_sender_timestamp p) JNull,
      m_ident = JUndef, m_packetId = js_or (l_id m) JNull, m_hash = pktHash, m_repeats = 1,
      m_observers = Some (if observer \<noteq> [] then [observer] else []), m_hops = js_or (p_path_len p) (JNum (Fin 0)),
      m_snr = nullish_or (nullish_or (nullish_or (l_snr m) (l_pk_snr m)) (p_SNR p)) JNull, m_fromWS = True, m_wsAt = now\<rparr>"

definition add_message :: "rat \<Rightarrow> string \<Rightarrow> string \<Rightarrow> chat_message \<Rightarrow> chat_message list \<Rightarrow> chat_message list" where
  "add_message now pktHash observer new ms =
     (if pktHash \<noteq> [] \<and> list_ex (\<lambda>m. m_hash m = pktHash) ms
      then update_first (\<lambda>m. m_hash m = pktHash) (repeated now observer) ms else ms @ [new])"

record chat =
  c_channels :: "channel list"
  c_selected :: string
  c_messages :: "chat_message list"
  c_byId :: "jsval obj"
  c_byName :: "jsval obj"
  c_requestId :: nat
  c_pending :: "(nat \<times> string \<times> string \<times> bool option) list"

definition chat_start :: chat where
  "chat_start = \<lparr>c_channels = [], c_selected = [], c_messages = [], c_byId = [], c_byName = [], c_requestId = 0, c_pending = []\<rparr>"

text \<open>The packets of a batch that are shown: a message of a known channel that passes the region filter.\<close>

definition accepted :: "chat \<Rightarrow> string list option \<Rightarrow> live_msg \<Rightarrow> bool" where
  "accepted st regions m =
     (is_message m \<and> shouldProcessWSMessageForRegion m regions (c_byId st) (c_byName st) \<and>
      (case l_payload m of None \<Rightarrow> False | Some p \<Rightarrow> p_channel p \<noteq> []))"

definition msg_key :: "live_msg \<Rightarrow> string" where
  "msg_key m = (case l_payload m of None \<Rightarrow> [] | Some p \<Rightarrow> str_or (p_channelKey p) (p_channel p))"

definition pkt_hash :: "live_msg \<Rightarrow> string" where
  "pkt_hash m = str_or (l_hash m) (l_pk_hash m)"

definition msg_observer :: "live_msg \<Rightarrow> string" where
  "msg_observer m = str_or (l_pk_observer_name m) (l_observer m)"

definition first_key :: "live_msg \<Rightarrow> string" where
  "first_key m = pkt_hash m @ '':'' @ msg_key m"

definition process_one :: "rat \<Rightarrow> (rat \<Rightarrow> string) \<Rightarrow> bool \<Rightarrow> live_msg \<Rightarrow> chat \<Rightarrow> chat" where
  "process_one now toISO isFirst m st =
     (case l_payload m of
        None \<Rightarrow> st
      | Some p \<Rightarrow>
          (let key = msg_key m; (sender, displayText) = sender_text p; h = pkt_hash m; ob = msg_observer m
           in st\<lparr>c_channels := update_channels now isFirst key (p_channel p) sender displayText (c_channels st),
                 c_messages := (if c_selected st \<noteq> [] \<and> key = c_selected st
                                then add_message now h ob (new_message now toISO m p sender displayText h ob) (c_messages st)
                                else c_messages st)\<rparr>))"

text \<open>The loop, with the keys already counted and the flag \<^verbatim>\<open>channelListDirty\<close>.\<close>

definition is_first :: "string list \<Rightarrow> live_msg \<Rightarrow> bool" where
  "is_first seen m = (pkt_hash m \<noteq> [] \<and> first_key m \<notin> set seen)"

definition mark_seen :: "string list \<Rightarrow> live_msg \<Rightarrow> string list" where
  "mark_seen seen m = (if pkt_hash m \<noteq> [] then first_key m # seen else seen)"

fun process_all :: "rat \<Rightarrow> (rat \<Rightarrow> string) \<Rightarrow> string list option \<Rightarrow> string list \<Rightarrow> bool \<Rightarrow> live_msg list \<Rightarrow> chat \<Rightarrow> bool \<times> chat" where
  "process_all now toISO regions seen dirty [] st = (dirty, st)"
| "process_all now toISO regions seen dirty (m # ms) st =
     (if accepted st regions m
      then process_all now toISO regions (mark_seen seen m)
             (dirty \<or> list_ex (\<lambda>c. ch_hash c = msg_key m) (c_channels st) \<or> is_first seen m) ms
             (process_one now toISO (is_first seen m) m st)
      else process_all now toISO regions seen dirty ms st)"

definition by_activity :: "channel \<Rightarrow> channel \<Rightarrow> jsnum" where
  "by_activity a b = Fin (ch_last b - ch_last a)"

definition processWSBatch :: "rat \<Rightarrow> (rat \<Rightarrow> string) \<Rightarrow> string list option \<Rightarrow> live_msg list \<Rightarrow> chat \<Rightarrow> chat" where
  "processWSBatch now toISO regions msgs st =
     (case process_all now toISO regions [] False msgs st of
        (dirty, st') \<Rightarrow> if dirty then st'\<lparr>c_channels := js_sort by_activity (c_channels st')\<rparr> else st')"

section \<open>Requests for messages\<close>

text \<open>
  A pending request: its number, channel and region, and for a refresh whether the region has been switched.
  Opening a channel may first wait for the hash of a key (\<^verbatim>\<open>computeChannelHash\<close>) and then show cached messages.
\<close>

definition isStaleMessageRequest :: "nat \<Rightarrow> string \<Rightarrow> string \<Rightarrow> string \<Rightarrow> chat \<Rightarrow> bool" where
  "isStaleMessageRequest i hash rp currentRegion st = (i \<noteq> c_requestId st \<or> c_selected st \<noteq> hash \<or> currentRegion \<noteq> rp)"

definition beginMessageRequest :: "string \<Rightarrow> string \<Rightarrow> bool option \<Rightarrow> chat \<Rightarrow> chat" where
  "beginMessageRequest hash rp kind st =
     st\<lparr>c_requestId := c_requestId st + 1, c_pending := c_pending st @ [(c_requestId st + 1, hash, rp, kind)]\<rparr>"

definition selectChannel :: "string \<Rightarrow> string \<Rightarrow> chat \<Rightarrow> chat" where
  "selectChannel hash rp st =
     (let st1 = beginMessageRequest hash rp None st in
      st1\<lparr>c_messages := [], c_selected := hash,
          c_channels := update_first (\<lambda>c. ch_hash c = hash) (ch_unread_update (\<lambda>_. 0)) (c_channels st1)\<rparr>)"

definition refreshMessages :: "string \<Rightarrow> bool \<Rightarrow> chat \<Rightarrow> chat" where
  "refreshMessages rp regionSwitch st =
     (if c_selected st = [] then st
      else if (case find (\<lambda>c. ch_hash c = c_selected st) (c_channels st) of Some c \<Rightarrow> ch_encrypted c | None \<Rightarrow> False) then st
      else beginMessageRequest (c_selected st) rp (Some regionSwitch) st)"

definition getLastId :: "chat_message list \<Rightarrow> jsval" where
  "getLastId arr =
     (if arr = [] then JStr [] else js_or (m_ident (last arr)) (js_or (m_packetId (last arr)) (JStr (m_timestamp (last arr)))))"

text \<open>The messages after a reply that is not stale.\<close>

definition loaded_messages :: "rat \<Rightarrow> string \<Rightarrow> bool option \<Rightarrow> chat_message list \<Rightarrow> chat_message list \<Rightarrow> chat_message list" where
  "loaded_messages now rp kind rest ms =
     (case kind of
        None \<Rightarrow> mergeWsAppendedIntoRest now ms rest
      | Some regionSwitch \<Rightarrow>
          if regionSwitch \<and> rp \<noteq> [] \<and> rest = [] then []
          else if length rest = length ms \<and> strict_eq (getLastId rest) (getLastId ms) then ms
          else mergeWsAppendedIntoRest now ms rest)"

definition on_loaded :: "nat \<Rightarrow> string \<Rightarrow> rat \<Rightarrow> chat_message list \<Rightarrow> chat \<Rightarrow> chat" where
  "on_loaded i currentRegion now rest st =
     (case map_of (c_pending st) i of
        None \<Rightarrow> st
      | Some (hash, rp, kind) \<Rightarrow>
          (let st1 = st\<lparr>c_pending := filter (\<lambda>e. fst e \<noteq> i) (c_pending st)\<rparr> in
           if isStaleMessageRequest i hash rp currentRegion st then st1
           else st1\<lparr>c_messages := loaded_messages now rp kind rest (c_messages st)\<rparr>))"

definition on_cache_hit :: "nat \<Rightarrow> rat \<Rightarrow> chat_message list \<Rightarrow> chat \<Rightarrow> chat" where
  "on_cache_hit i now cachedMsgs st =
     (case map_of (c_pending st) i of
        Some (_, _, None) \<Rightarrow> st\<lparr>c_messages := mergeWsAppendedIntoRest now (c_messages st) cachedMsgs\<rparr>
      | _ \<Rightarrow> st)"

section \<open>Lists from the server\<close>

definition reconcileSelectionAfterChannelRefresh :: "chat \<Rightarrow> chat" where
  "reconcileSelectionAfterChannelRefresh st =
     (if c_selected st = [] \<or> list_ex (\<lambda>c. ch_hash c = c_selected st) (c_channels st) then st
      else st\<lparr>c_selected := [], c_messages := []\<rparr>)"

definition on_channels :: "channel list \<Rightarrow> chat \<Rightarrow> chat" where
  "on_channels chs st = reconcileSelectionAfterChannelRefresh (st\<lparr>c_channels := js_sort by_activity chs\<rparr>)"

definition on_observers :: "observer_row list \<Rightarrow> chat \<Rightarrow> chat" where
  "on_observers rows st = st\<lparr>c_byId := fst (observer_regions rows), c_byName := snd (observer_regions rows)\<rparr>"

datatype chat_event =
    Batch rat "string list option" "live_msg list"
  | Select string string
  | Refresh string bool
  | Loaded nat string rat "chat_message list"
  | Cache_hit nat rat "chat_message list"
  | Request_failed nat
  | Channels "channel list"
  | Observers "observer_row list"

fun chat_step :: "(rat \<Rightarrow> string) \<Rightarrow> chat \<Rightarrow> chat_event \<Rightarrow> chat" where
  "chat_step toISO st (Batch now regions msgs) = processWSBatch now toISO regions msgs st"
| "chat_step toISO st (Select hash rp) = selectChannel hash rp st"
| "chat_step toISO st (Refresh rp regionSwitch) = refreshMessages rp regionSwitch st"
| "chat_step toISO st (Loaded i cur now rest) = on_loaded i cur now rest st"
| "chat_step toISO st (Cache_hit i now ms) = on_cache_hit i now ms st"
| "chat_step toISO st (Request_failed i) = st\<lparr>c_pending := filter (\<lambda>e. fst e \<noteq> i) (c_pending st)\<rparr>"
| "chat_step toISO st (Channels chs) = on_channels chs st"
| "chat_step toISO st (Observers rows) = on_observers rows st"

definition chat_run :: "(rat \<Rightarrow> string) \<Rightarrow> chat_event list \<Rightarrow> chat" where
  "chat_run toISO es = foldl (chat_step toISO) chat_start es"

section \<open>Messages\<close>

definition hashes :: "chat_message list \<Rightarrow> string list" where
  "hashes ms = filter (\<lambda>h. h \<noteq> []) (map m_hash ms)"

text \<open>How many packets a list of messages stands for.\<close>

definition packet_count :: "chat_message list \<Rightarrow> nat" where
  "packet_count ms = sum_list (map (\<lambda>m. if m_repeats m = 0 then 1 else m_repeats m) ms)"

lemma map_update_first: "(\<And>x. g (f x) = g x) \<Longrightarrow> map g (update_first P f xs) = map g xs"
  by (induction xs) auto

lemma length_update_first [simp]: "length (update_first P f xs) = length xs"
  by (induction xs) auto

lemma find_update_first:
  "(\<And>x. P (f x) = P x) \<Longrightarrow> find P (update_first P f xs) = map_option f (find P xs)"
  by (induction xs) auto

lemma find_update_other:
  "(\<And>x. Q x \<Longrightarrow> \<not> P x) \<Longrightarrow> (\<And>x. P x \<Longrightarrow> \<not> Q (f x)) \<Longrightarrow> find Q (update_first P f xs) = find Q xs"
  by (induction xs) auto

lemma hashes_simps [simp]:
  "hashes [] = []" "hashes (m # ms) = (if m_hash m \<noteq> [] then m_hash m # hashes ms else hashes ms)"
  "hashes (ms @ ms') = hashes ms @ hashes ms'"
  by (simp_all add: hashes_def)

lemma set_hashes: "set (hashes ms) = m_hash ` set ms - {[]}"
  by (auto simp: hashes_def)

lemma hashes_one: "distinct (hashes ms) \<Longrightarrow> m \<in> set ms \<Longrightarrow> m_hash m \<noteq> [] \<Longrightarrow> filter (\<lambda>x. m_hash x = m_hash m) ms = [m]"
proof (induction ms)
  case (Cons a ms)
  show ?case
  proof (cases "m_hash a = m_hash m")
    case True
    with Cons.prems have "m_hash m \<notin> m_hash ` set ms" by (auto simp: set_hashes)
    then have "filter (\<lambda>x. m_hash x = m_hash m) ms = []" by (auto simp: filter_empty_conv) (metis imageI)
    moreover from True Cons.prems have "a = m" by (auto simp: set_hashes)
    ultimately show ?thesis using True by simp
  next
    case False
    with Cons show ?thesis by (auto split: if_splits)
  qed
qed simp

lemma hash_in_hashes: "h \<noteq> [] \<Longrightarrow> h \<in> set (hashes ms) \<longleftrightarrow> list_ex (\<lambda>m. m_hash m = h) ms"
  by (auto simp: hashes_def list_ex_iff)

lemma hashes_add_message:
  assumes "m_hash new = h" "distinct (hashes ms)"
  shows "distinct (hashes (add_message now h ob new ms))"
proof (cases "h \<noteq> [] \<and> list_ex (\<lambda>m. m_hash m = h) ms")
  case True
  have "map m_hash (update_first (\<lambda>m. m_hash m = h) (repeated now ob) ms) = map m_hash ms"
    by (rule map_update_first) (simp add: repeated_def)
  with True assms show ?thesis by (simp add: add_message_def hashes_def)
next
  case False
  with assms hash_in_hashes [of h ms] show ?thesis by (auto simp: add_message_def)
qed

lemma packet_count_add:
  assumes "m_repeats new = 1"
  shows "packet_count (add_message now h ob new ms) = packet_count ms + 1"
proof -
  have "packet_count (update_first P (repeated now ob) ms) = packet_count ms + 1" if "list_ex P ms" for P
    using that by (induction ms) (auto simp: packet_count_def repeated_def)
  with assms show ?thesis by (auto simp: add_message_def packet_count_def)
qed

lemma new_message_simps [simp]:
  "m_hash (new_message now toISO m p sender t h ob) = h" "m_repeats (new_message now toISO m p sender t h ob) = 1"
  by (simp_all add: new_message_def)

text \<open>The merge.\<close>

lemma merge_eq: "mergeWsAppendedIntoRest now cur rest = rest @ filter (survivor now (hashes rest)) cur"
  by (simp add: mergeWsAppendedIntoRest_def hashes_def)

lemma hashes_filter: "distinct (hashes ms) \<Longrightarrow> distinct (hashes (filter P ms))"
  by (induction ms) (auto simp: hashes_def)

lemma hashes_merge:
  assumes "distinct (hashes cur)" "distinct (hashes rest)"
  shows "distinct (hashes (mergeWsAppendedIntoRest now cur rest))"
proof -
  have "set (hashes rest) \<inter> set (hashes (filter (survivor now (hashes rest)) cur)) = {}"
    by (simp add: set_hashes) (auto simp: survivor_def set_hashes, (metis imageI)+)
  with assms hashes_filter show ?thesis by (simp add: merge_eq)
qed

text \<open>C12: The merge keeps the reply in front, unchanged, and behind it exactly the live messages that are young enough
  and whose hash is not in the reply; merging the same reply again changes nothing; and a message of the reply that
  a live packet has updated meanwhile loses the update.\<close>

theorem merge_keeps_live:
  "(\<exists>live. mergeWsAppendedIntoRest now cur rest = rest @ live \<and>
      (\<forall>m. m \<in> set live \<longleftrightarrow> m \<in> set cur \<and> m_fromWS m \<and> (m_wsAt m = 0 \<or> now - m_wsAt m \<le> 300000) \<and>
         (m_hash m = [] \<or> m_hash m \<notin> m_hash ` set rest))) \<and>
   (list_all (\<lambda>m. \<not> m_fromWS m) rest \<longrightarrow>
      mergeWsAppendedIntoRest now (mergeWsAppendedIntoRest now cur rest) rest = mergeWsAppendedIntoRest now cur rest) \<and>
   (m_hash old \<noteq> [] \<and> old \<in> set rest \<and> distinct (hashes rest) \<longrightarrow>
      filter (\<lambda>m. m_hash m = m_hash old)
        (mergeWsAppendedIntoRest now' (add_message now (m_hash old) ob new rest) rest) = [old])"
proof (intro conjI impI; (elim conjE)?)
  show "\<exists>live. mergeWsAppendedIntoRest now cur rest = rest @ live \<and>
      (\<forall>m. m \<in> set live \<longleftrightarrow> m \<in> set cur \<and> m_fromWS m \<and> (m_wsAt m = 0 \<or> now - m_wsAt m \<le> 300000) \<and>
         (m_hash m = [] \<or> m_hash m \<notin> m_hash ` set rest))"
    by (rule exI [of _ "filter (survivor now (hashes rest)) cur"])
      (auto simp: merge_eq survivor_def hashes_def MAX_WS_SURVIVOR_MS_def)
next
  assume "list_all (\<lambda>m. \<not> m_fromWS m) rest"
  then have "filter (survivor now (hashes rest)) rest = []" by (auto simp: filter_empty_conv survivor_def list_all_iff)
  then show "mergeWsAppendedIntoRest now (mergeWsAppendedIntoRest now cur rest) rest = mergeWsAppendedIntoRest now cur rest"
    by (simp add: merge_eq)
next
  assume old: "m_hash old \<noteq> []" "old \<in> set rest" and d: "distinct (hashes rest)"
  have one: "filter (\<lambda>m. m_hash m = m_hash old) rest = [old]"
    by (rule hashes_one [OF d old(2,1)])
  have "m_hash old \<in> set (hashes rest)" using old by (auto simp: hashes_def)
  then have "filter (\<lambda>m. m_hash m = m_hash old) (filter (survivor now' (hashes rest)) xs) = []" for xs
    using old(1) by (auto simp: filter_empty_conv survivor_def)
  with one show "filter (\<lambda>m. m_hash m = m_hash old)
        (mergeWsAppendedIntoRest now' (add_message now (m_hash old) ob new rest) rest) = [old]"
    by (simp add: merge_eq)
qed

definition demo_message :: "string \<Rightarrow> string list \<Rightarrow> bool \<Rightarrow> chat_message" where
  "demo_message h os live =
     \<lparr>m_sender = ''Bob'', m_text = ''hi'', m_timestamp = [], m_sender_timestamp = JNull, m_ident = JUndef, m_packetId = JNull,
      m_hash = h, m_repeats = 1, m_observers = Some os, m_hops = JNull, m_snr = JNull, m_fromWS = live, m_wsAt = (if live then 1000 else 0)\<rparr>"

lemma merge_keeps_live_witness:
  "filter (\<lambda>m. m_hash m = ''aa'')
     (mergeWsAppendedIntoRest 3000 (add_message 2000 ''aa'' ''south'' (demo_message ''aa'' [''south''] True) [demo_message ''aa'' [''north''] False])
        [demo_message ''aa'' [''north''] False]) = [demo_message ''aa'' [''north''] False] \<and>
   mergeWsAppendedIntoRest 2000
     (mergeWsAppendedIntoRest 2000 [demo_message ''bb'' [] True] [demo_message ''aa'' [''north''] False]) [demo_message ''aa'' [''north''] False] =
   mergeWsAppendedIntoRest 2000 [demo_message ''bb'' [] True] [demo_message ''aa'' [''north''] False]"
proof -
  let ?old = "demo_message ''aa'' [''north''] False"
  have a: "m_hash ?old \<noteq> []" "m_hash ?old = ''aa''" "list_all (\<lambda>m. \<not> m_fromWS m) [?old]" "distinct (hashes [?old])"
    by (simp_all add: demo_message_def)
  show ?thesis
    using merge_keeps_live [of 2000 "[demo_message ''bb'' [] True]" "[?old]" ?old 3000 "''south''" "demo_message ''aa'' [''south''] True"]
      a by simp
qed

section \<open>Channels\<close>

definition count_of :: "string \<Rightarrow> channel list \<Rightarrow> nat" where
  "count_of k chs = (case find (\<lambda>c. ch_hash c = k) chs of Some c \<Rightarrow> ch_count c | None \<Rightarrow> 0)"

lemma find_None_ex: "find P xs = None \<longleftrightarrow> \<not> list_ex P xs"
  by (induction xs) auto

lemma count_update_channels:
  "count_of k (update_channels now f key name sender t chs) = count_of k chs + (if k = key \<and> f then 1 else 0)"
proof (cases "list_ex (\<lambda>c. ch_hash c = key) chs")
  case True
  show ?thesis
  proof (cases "k = key")
    case 2: True
    from True obtain c where "find (\<lambda>c. ch_hash c = key) chs = Some c" using find_None_ex by fastforce
    moreover have "find (\<lambda>c. ch_hash c = key) (update_first (\<lambda>c. ch_hash c = key) (touch_channel now f sender t) chs) =
        map_option (touch_channel now f sender t) (find (\<lambda>c. ch_hash c = key) chs)"
      by (rule find_update_first) (simp add: touch_channel_def)
    ultimately show ?thesis using True 2 by (simp add: update_channels_def count_of_def touch_channel_def)
  next
    case 2: False
    have "find (\<lambda>c. ch_hash c = k) (update_first (\<lambda>c. ch_hash c = key) (touch_channel now f sender t) chs) =
        find (\<lambda>c. ch_hash c = k) chs"
      by (rule find_update_other) (use 2 in \<open>auto simp: touch_channel_def\<close>)
    with True 2 show ?thesis by (simp add: update_channels_def count_of_def)
  qed
next
  case False
  have app: "find P (xs @ ys) = (case find P xs of Some x \<Rightarrow> Some x | None \<Rightarrow> find P ys)" for P :: "channel \<Rightarrow> bool" and xs ys
    by (induction xs) auto
  from False find_None_ex [of "\<lambda>c. ch_hash c = key" chs] show ?thesis
    by (auto simp: update_channels_def count_of_def app split: option.splits)
qed

lemma hashes_update_channels:
  "distinct (map ch_hash chs) \<Longrightarrow> distinct (map ch_hash (update_channels now f key name sender t chs))"
proof -
  assume d: "distinct (map ch_hash chs)"
  have "map ch_hash (update_first P (touch_channel now f sender t) chs) = map ch_hash chs" for P
    by (rule map_update_first) (simp add: touch_channel_def)
  with d show ?thesis by (auto simp: update_channels_def list_ex_iff)
qed

lemma distinct_js_sort: "distinct (map g (js_sort cmp xs)) = distinct (map g xs)"
proof -
  have "mset (map g (js_sort cmp xs)) = mset (map g xs)" by simp
  then show ?thesis by (rule mset_eq_imp_distinct_iff)
qed

lemma find_distinct: "distinct (map g xs) \<Longrightarrow> find (\<lambda>x. g x = k) xs = Some x \<longleftrightarrow> x \<in> set xs \<and> g x = k"
  by (induction xs) (auto simp: image_iff)

lemma find_js_sort: "distinct (map g xs) \<Longrightarrow> find (\<lambda>x. g x = k) (js_sort cmp xs) = find (\<lambda>x. g x = k) xs"
proof -
  assume d: "distinct (map g xs)"
  then have d': "distinct (map g (js_sort cmp xs))" by (simp add: distinct_js_sort)
  have "find (\<lambda>x. g x = k) (js_sort cmp xs) = Some x \<longleftrightarrow> find (\<lambda>x. g x = k) xs = Some x" for x
    using find_distinct [OF d, of k x] find_distinct [OF d', of k x] by simp
  then show ?thesis by (metis option.exhaust)
qed

section \<open>The loop over a batch\<close>

lemma process_one_keeps [simp]:
  "c_byId (process_one now toISO f m st) = c_byId st" "c_byName (process_one now toISO f m st) = c_byName st"
  "c_selected (process_one now toISO f m st) = c_selected st" "c_pending (process_one now toISO f m st) = c_pending st"
  "c_requestId (process_one now toISO f m st) = c_requestId st"
  by (simp_all add: process_one_def Let_def split: option.split prod.split)

lemma accepted_process_one [simp]: "accepted (process_one now toISO f m st) regions = accepted st regions"
  by (simp add: accepted_def fun_eq_iff)

lemma process_all_keeps:
  "process_all now toISO regions seen dirty ms st = (dirty', st') \<Longrightarrow>
   c_byId st' = c_byId st \<and> c_byName st' = c_byName st \<and> c_selected st' = c_selected st \<and> c_pending st' = c_pending st \<and>
   c_requestId st' = c_requestId st"
  by (induction now toISO regions seen dirty ms st rule: process_all.induct) (auto split: if_splits)

lemma batch_keeps [simp]:
  "c_byId (processWSBatch now toISO regions ms st) = c_byId st" "c_byName (processWSBatch now toISO regions ms st) = c_byName st"
  "c_selected (processWSBatch now toISO regions ms st) = c_selected st" "c_pending (processWSBatch now toISO regions ms st) = c_pending st"
  "c_requestId (processWSBatch now toISO regions ms st) = c_requestId st"
  by (cases "process_all now toISO regions [] False ms st"; auto simp: processWSBatch_def dest: process_all_keeps)+

text \<open>The batch as a fold over the accepted packets, first on the messages, then on the counts.\<close>

lemma process_one_messages:
  "l_payload m \<noteq> None \<Longrightarrow>
   packet_count (c_messages (process_one now toISO f m st)) =
     packet_count (c_messages st) + (if c_selected st \<noteq> [] \<and> msg_key m = c_selected st then 1 else 0)"
  by (auto simp: process_one_def Let_def packet_count_add split: prod.split)

lemma process_one_counts:
  "l_payload m \<noteq> None \<Longrightarrow>
   count_of k (c_channels (process_one now toISO f m st)) =
     count_of k (c_channels st) + (if k = msg_key m \<and> f then 1 else 0)"
  by (auto simp: process_one_def Let_def count_update_channels split: prod.split)

lemma accepted_payload: "accepted st regions m \<Longrightarrow> l_payload m \<noteq> None"
  by (auto simp: accepted_def split: option.splits)

lemma process_all_messages:
  "process_all now toISO regions seen dirty ms st = (dirty', st') \<Longrightarrow>
   packet_count (c_messages st') = packet_count (c_messages st) +
     length (filter (\<lambda>m. accepted st regions m \<and> c_selected st \<noteq> [] \<and> msg_key m = c_selected st) ms)"
proof (induction now toISO regions seen dirty ms st rule: process_all.induct)
  case (2 now toISO regions seen dirty m ms st)
  show ?case
  proof (cases "accepted st regions m")
    case True
    note IH = "2.IH"(1) [OF True]
    from "2.prems" True have "process_all now toISO regions (mark_seen seen m)
        (dirty \<or> list_ex (\<lambda>c. ch_hash c = msg_key m) (c_channels st) \<or> is_first seen m) ms
        (process_one now toISO (is_first seen m) m st) = (dirty', st')" by simp
    from IH [OF this] True process_one_messages [OF accepted_payload [OF True]] show ?thesis by simp
  next
    case False
    with "2.IH"(2) [OF False] "2.prems" show ?thesis by simp
  qed
qed simp

text \<open>The packets of a batch that are accepted for a channel and have a hash.\<close>

definition hashed_for :: "chat \<Rightarrow> string list option \<Rightarrow> string \<Rightarrow> live_msg list \<Rightarrow> live_msg set" where
  "hashed_for st regions k ms = {m \<in> set ms. accepted st regions m \<and> msg_key m = k \<and> pkt_hash m \<noteq> []}"

lemma hashed_for_Cons:
  "hashed_for st regions k (m # ms) =
     (if accepted st regions m \<and> msg_key m = k \<and> pkt_hash m \<noteq> [] then insert m (hashed_for st regions k ms)
      else hashed_for st regions k ms)"
  by (auto simp: hashed_for_def)

lemma hashed_for_process_one [simp]: "hashed_for (process_one now toISO f m st) = hashed_for st"
  by (simp add: hashed_for_def fun_eq_iff)

lemma finite_hashed_for [simp]: "finite (hashed_for st regions k ms)"
  by (simp add: hashed_for_def)

lemma process_all_counts:
  "process_all now toISO regions seen dirty ms st = (dirty', st') \<Longrightarrow>
   \<forall>m\<in>set ms. \<forall>m'\<in>set ms. first_key m = first_key m' \<longrightarrow> msg_key m = msg_key m' \<Longrightarrow>
   count_of k (c_channels st') = count_of k (c_channels st) + card (first_key ` hashed_for st regions k ms - set seen)"
proof (induction now toISO regions seen dirty ms st rule: process_all.induct)
  case (2 now toISO regions seen dirty m ms st)
  let ?S = "first_key ` hashed_for st regions k ms"
  show ?case
  proof (cases "accepted st regions m")
    case True
    note one = process_one_counts [OF accepted_payload [OF True], of k now toISO "is_first seen m" st]
    from "2.prems"(1) True have "process_all now toISO regions (mark_seen seen m)
        (dirty \<or> list_ex (\<lambda>c. ch_hash c = msg_key m) (c_channels st) \<or> is_first seen m) ms
        (process_one now toISO (is_first seen m) m st) = (dirty', st')" by simp
    from "2.IH"(1) [OF True this] "2.prems"(2)
    have IH: "count_of k (c_channels st') =
        count_of k (c_channels (process_one now toISO (is_first seen m) m st)) + card (?S - set (mark_seen seen m))"
      by simp
    show ?thesis
    proof (cases "msg_key m = k \<and> pkt_hash m \<noteq> []")
      case 2: True
      then have S: "first_key ` hashed_for st regions k (m # ms) = insert (first_key m) ?S"
        using True by (simp add: hashed_for_Cons)
      have "(if is_first seen m then 1 else 0) + card (?S - set (mark_seen seen m)) = card (insert (first_key m) ?S - set seen)"
      proof (cases "first_key m \<in> set seen")
        case True
        with 2 show ?thesis by (simp add: is_first_def mark_seen_def insert_absorb)
      next
        case False
        have "insert (first_key m) ?S - set seen = insert (first_key m) (?S - insert (first_key m) (set seen))" using False by auto
        with 2 False show ?thesis by (simp add: is_first_def mark_seen_def)
      qed
      with IH one 2 S show ?thesis by simp
    next
      case False
      have S: "first_key ` hashed_for st regions k (m # ms) = ?S" using False by (auto simp: hashed_for_Cons)
      have "first_key m \<notin> ?S \<or> pkt_hash m = []"
      proof (rule ccontr)
        assume "\<not> ?thesis"
        then obtain m' where "m' \<in> hashed_for st regions k ms" "first_key m = first_key m'" "pkt_hash m \<noteq> []" by auto
        then show False using "2.prems"(2) False by (auto simp: hashed_for_def)
      qed
      then have "?S - set (mark_seen seen m) = ?S - set seen" by (auto simp: mark_seen_def) (metis imageI)
      with IH one False S show ?thesis by (auto simp: is_first_def)
    qed
  next
    case False
    with "2.IH"(2) [OF False] "2.prems" show ?thesis by (simp add: hashed_for_Cons)
  qed
qed (simp add: hashed_for_def)

section \<open>The invariant of the chat\<close>

text \<open>No packet is shown twice, no channel is listed twice, and requests have their own numbers.\<close>

definition chat_ok :: "chat \<Rightarrow> bool" where
  "chat_ok st =
     (distinct (hashes (c_messages st)) \<and> distinct (map ch_hash (c_channels st)) \<and> distinct (map fst (c_pending st)) \<and>
      (\<forall>e\<in>set (c_pending st). fst e \<le> c_requestId st))"

text \<open>The server's lists name every packet and channel once.\<close>

fun event_ok :: "chat_event \<Rightarrow> bool" where
  "event_ok (Loaded i cur now rest) = distinct (hashes rest)"
| "event_ok (Cache_hit i now ms) = distinct (hashes ms)"
| "event_ok (Channels chs) = distinct (map ch_hash chs)"
| "event_ok _ = True"

lemma chat_okI:
  assumes "chat_ok st" "distinct (hashes (c_messages st'))" "distinct (map ch_hash (c_channels st'))"
    "c_pending st' = c_pending st" "c_requestId st' = c_requestId st"
  shows "chat_ok st'"
  using assms by (simp add: chat_ok_def)

lemma process_one_ok: "chat_ok st \<Longrightarrow> chat_ok (process_one now toISO f m st)"
  by (rule chat_okI, assumption)
    (auto simp: chat_ok_def process_one_def Let_def hashes_add_message hashes_update_channels split: option.split prod.split)

lemma process_all_ok: "process_all now toISO regions seen dirty ms st = (dirty', st') \<Longrightarrow> chat_ok st \<Longrightarrow> chat_ok st'"
  by (induction now toISO regions seen dirty ms st rule: process_all.induct) (auto simp: process_one_ok split: if_splits)

lemma batch_ok: "chat_ok st \<Longrightarrow> chat_ok (processWSBatch now toISO regions ms st)"
proof -
  assume ok: "chat_ok st"
  obtain dirty st' where p: "process_all now toISO regions [] False ms st = (dirty, st')" by fastforce
  from process_all_ok [OF p ok] have ok': "chat_ok st'" .
  then have "chat_ok (st'\<lparr>c_channels := js_sort by_activity (c_channels st')\<rparr>)"
    by (rule chat_okI) (use ok' in \<open>auto simp: chat_ok_def distinct_js_sort\<close>)
  with p ok' show ?thesis by (simp add: processWSBatch_def)
qed

lemma begin_ok: "chat_ok st \<Longrightarrow> chat_ok (beginMessageRequest h rp kind st)"
  by (auto simp: chat_ok_def beginMessageRequest_def)

lemma drop_pending_ok: "chat_ok st \<Longrightarrow> chat_ok (st\<lparr>c_pending := filter P (c_pending st)\<rparr>)"
  by (auto simp: chat_ok_def distinct_map_filter)

lemma loaded_hashes: "distinct (hashes ms) \<Longrightarrow> distinct (hashes rest) \<Longrightarrow> distinct (hashes (loaded_messages now rp kind rest ms))"
  by (auto simp: loaded_messages_def hashes_merge split: option.split)

lemma chat_step_ok: "chat_ok st \<Longrightarrow> event_ok e \<Longrightarrow> chat_ok (chat_step toISO st e)"
proof (cases e)
  case (Select hash rp)
  assume ok: "chat_ok st"
  have "map ch_hash (update_first P (ch_unread_update (\<lambda>_. 0)) chs) = map ch_hash chs" for P and chs :: "channel list"
    by (rule map_update_first) simp
  with begin_ok [OF ok, of hash rp None] Select show ?thesis
    by (simp add: selectChannel_def Let_def) (auto simp: chat_ok_def)
next
  case (Loaded i cur now rest)
  assume ok: "chat_ok st" and e: "event_ok e"
  from drop_pending_ok [OF ok] have d: "chat_ok (st\<lparr>c_pending := filter (\<lambda>e. fst e \<noteq> i) (c_pending st)\<rparr>)" .
  have m: "distinct (hashes (loaded_messages now rp kind rest (c_messages st)))" for rp kind
    using ok e Loaded by (intro loaded_hashes) (simp_all add: chat_ok_def)
  from d m have "chat_ok (st\<lparr>c_pending := filter (\<lambda>e. fst e \<noteq> i) (c_pending st),
      c_messages := loaded_messages now rp kind rest (c_messages st)\<rparr>)" for rp kind
    by (simp add: chat_ok_def)
  with d ok Loaded show ?thesis by (auto simp: on_loaded_def Let_def split: option.split)
next
  case (Cache_hit i now ms)
  assume ok: "chat_ok st" and e: "event_ok e"
  then have "distinct (hashes (mergeWsAppendedIntoRest now (c_messages st) ms))"
    using Cache_hit by (intro hashes_merge) (simp_all add: chat_ok_def)
  with ok Cache_hit show ?thesis by (auto simp: on_cache_hit_def chat_ok_def split: option.split)
next
  case (Channels chs)
  assume ok: "chat_ok st" and e: "event_ok e"
  with Channels show ?thesis
    by (auto simp: on_channels_def reconcileSelectionAfterChannelRefresh_def chat_ok_def distinct_js_sort)
qed (auto simp: batch_ok begin_ok refreshMessages_def drop_pending_ok on_observers_def, auto simp: chat_ok_def)

lemma chat_run_ok: "list_all event_ok es \<Longrightarrow> chat_ok (chat_run toISO es)"
proof (induction es rule: rev_induct)
  case Nil
  then show ?case by (simp add: chat_run_def chat_start_def chat_ok_def)
next
  case (snoc e es)
  then show ?case by (simp add: chat_run_def chat_step_ok)
qed

end
