(* ===== verification/Chat_Live.thy ===== *)
theory Chat_Live
  imports Channel_Chat
begin

text \<open>
  What the chat of \<^verbatim>\<open>src/public/channels.js\<close> (Channel_Chat) does after any sequence of events: nothing is lost
  or shown twice, what the message count counts, and which replies still count.
\<close>

section \<open>What a batch must do to the open chat\<close>

text \<open>
  The specification looks at the whole batch at once.  \<open>heard h ps\<close> are the packets with the hash \<open>h\<close>;
  \<open>fresh known ps\<close> are the packets that open a message of their own, because they have no hash or are the
  first with a hash not yet \<open>known\<close>, each with the later packets of the batch that repeat it.
\<close>

definition heard :: "string \<Rightarrow> live_msg list \<Rightarrow> live_msg list" where
  "heard h ps = filter (\<lambda>p. h \<noteq> [] \<and> pkt_hash p = h) ps"

fun fresh :: "string set \<Rightarrow> live_msg list \<Rightarrow> (live_msg \<times> live_msg list) list" where
  "fresh known [] = []"
| "fresh known (p # ps) =
     (if pkt_hash p \<noteq> [] \<and> pkt_hash p \<in> known then fresh known ps
      else (p, heard (pkt_hash p) ps) # fresh (insert (pkt_hash p) known) ps)"

text \<open>The observers of a message after more packets: every new name once, in the order they were heard.\<close>

definition hear :: "string list \<Rightarrow> live_msg list \<Rightarrow> string list" where
  "hear os ps = foldl (\<lambda>os p. if msg_observer p = [] \<or> msg_observer p \<in> set os then os else os @ [msg_observer p]) os ps"

text \<open>A message already shown, after the packets \<open>ps\<close> of the batch that repeat it.\<close>

definition credited :: "rat \<Rightarrow> live_msg list \<Rightarrow> chat_message \<Rightarrow> chat_message" where
  "credited now ps m =
     (if ps = [] then m
      else m\<lparr>m_repeats := max 1 (m_repeats m) + length ps, m_observers := map_option (\<lambda>os. hear os ps) (m_observers m),
             m_fromWS := True, m_wsAt := now\<rparr>)"

text \<open>
  Who says what: a text \<^verbatim>\<open>name: rest\<close> with a name of 1 to 49 characters is split at the first
  \<^verbatim>\<open>: \<close>, and the name counts where the payload names no sender.
\<close>

definition speaks :: "payload \<Rightarrow> string \<Rightarrow> string \<Rightarrow> bool" where
  "speaks q sender text =
     (case index_of '': '' (p_text q) of
        Some k \<Rightarrow>
          if 1 \<le> k \<and> k \<le> 49
          then p_text q = take k (p_text q) @ '': '' @ text \<and> sender = (if p_sender q \<noteq> [] then p_sender q else take k (p_text q))
          else text = p_text q \<and> sender = (if p_sender q \<noteq> [] then p_sender q else ''Unknown'')
      | None \<Rightarrow> text = p_text q \<and> sender = (if p_sender q \<noteq> [] then p_sender q else ''Unknown''))"

text \<open>The message a fresh packet \<open>p\<close> is shown as, after the packets \<open>ps\<close> that repeat it.\<close>

definition shown_as :: "rat \<Rightarrow> (rat \<Rightarrow> string) \<Rightarrow> live_msg \<times> live_msg list \<Rightarrow> chat_message \<Rightarrow> bool" where
  "shown_as now toISO = (\<lambda>(p, ps) m.
     (\<exists>q. l_payload p = Some q \<and> speaks q (m_sender m) (m_text m) \<and>
        m_sender_timestamp m = js_or (p_sender_timestamp q) JNull \<and> m_hops m = js_or (p_path_len q) (JNum (Fin 0)) \<and>
        m_snr m = nullish_or (nullish_or (nullish_or (l_snr p) (l_pk_snr p)) (p_SNR q)) JNull) \<and>
     m_hash m = pkt_hash p \<and> m_packetId m = js_or (l_id p) JNull \<and> m_timestamp m = toISO now \<and>
     m_repeats m = 1 + length ps \<and> m_observers m = Some (hear [] (p # ps)) \<and> m_fromWS m \<and> m_wsAt m = now)"

section \<open>The loop is that specification\<close>

text \<open>The message the loop makes of a packet.\<close>

definition made :: "rat \<Rightarrow> (rat \<Rightarrow> string) \<Rightarrow> live_msg \<Rightarrow> chat_message" where
  "made now toISO p =
     (case sender_text (the (l_payload p)) of
        (s, t) \<Rightarrow> new_message now toISO p (the (l_payload p)) s t (pkt_hash p) (msg_observer p))"

lemma made_hash [simp]: "m_hash (made now toISO p) = pkt_hash p"
  by (simp add: made_def split: prod.split)

lemma heard_simps [simp]:
  "heard h [] = []" "heard h (p # ps) = (if h \<noteq> [] \<and> pkt_hash p = h then p # heard h ps else heard h ps)" "heard [] ps = []"
  by (simp_all add: heard_def)

lemma credited_simps [simp]: "credited now [] m = m" "m_hash (credited now ps m) = m_hash m"
  by (simp_all add: credited_def)

lemma credited_Cons: "credited now (p # ps) m = credited now ps (repeated now (msg_observer p) m)"
  by (cases "m_observers m") (auto simp: credited_def repeated_def hear_def)

lemma fresh_cong: "(\<And>h. h \<noteq> [] \<Longrightarrow> h \<in> A \<longleftrightarrow> h \<in> B) \<Longrightarrow> fresh A ps = fresh B ps"
proof (induction ps arbitrary: A B)
  case (Cons p ps)
  have "fresh A ps = fresh B ps" by (rule Cons.IH) (rule Cons.prems)
  moreover have "fresh (insert (pkt_hash p) A) ps = fresh (insert (pkt_hash p) B) ps" by (rule Cons.IH) (use Cons.prems in auto)
  ultimately show ?case using Cons.prems [of "pkt_hash p"] by (cases "pkt_hash p = []") simp_all
qed simp

lemma update_first_unique:
  "distinct (hashes ms) \<Longrightarrow> h \<noteq> [] \<Longrightarrow>
   update_first (\<lambda>m. m_hash m = h) f ms = map (\<lambda>m. if m_hash m = h then f m else m) ms"
proof (induction ms)
  case (Cons m ms)
  show ?case
  proof (cases "m_hash m = h")
    case True
    with Cons.prems have "h \<notin> m_hash ` set ms" by (auto simp: set_hashes)
    then have "\<forall>x \<in> set ms. m_hash x \<noteq> h" by blast
    then have "map (\<lambda>m. if m_hash m = h then f m else m) ms = ms" by (simp add: map_idI)
    with True show ?thesis by simp
  next
    case False
    with Cons show ?thesis by (simp split: if_splits)
  qed
qed simp

text \<open>Adding the packets one by one gives the shown messages with their repeats, then the fresh ones with theirs.\<close>

lemma add_messages:
  "distinct (hashes ms) \<Longrightarrow>
   foldl (\<lambda>ms p. add_message now (pkt_hash p) (msg_observer p) (made now toISO p) ms) ms ps =
     map (\<lambda>m. credited now (heard (m_hash m) ps) m) ms @
     map (\<lambda>(p, later). credited now later (made now toISO p)) (fresh (set (hashes ms)) ps)"
proof (induction ps arbitrary: ms)
  case (Cons p ps)
  let ?h = "pkt_hash p" and ?ms = "add_message now (pkt_hash p) (msg_observer p) (made now toISO p) ms"
  have d: "distinct (hashes ?ms)" by (rule hashes_add_message) (simp_all add: Cons.prems)
  show ?case
  proof (cases "?h \<noteq> [] \<and> list_ex (\<lambda>m. m_hash m = ?h) ms")
    case True
    then have eq: "?ms = map (\<lambda>m. if m_hash m = ?h then repeated now (msg_observer p) m else m) ms"
      using update_first_unique [OF Cons.prems] by (simp add: add_message_def)
    have r: "m_hash (repeated now ob m) = m_hash m" for ob m by (simp add: repeated_def)
    have "map m_hash ?ms = map m_hash ms" unfolding eq by (simp add: r)
    then have hs: "hashes ?ms = hashes ms" by (simp only: hashes_def)
    have "map (\<lambda>m. credited now (heard (m_hash m) ps) m) ?ms = map (\<lambda>m. credited now (heard (m_hash m) (p # ps)) m) ms"
      unfolding eq using True by (auto simp: r credited_Cons)
    moreover have "fresh (set (hashes ms)) (p # ps) = fresh (set (hashes ms)) ps"
      using True hash_in_hashes by simp
    ultimately show ?thesis using Cons.IH [OF d] unfolding foldl_Cons hs by simp
  next
    case False
    then have eq: "?ms = ms @ [made now toISO p]" by (auto simp: add_message_def)
    have new: "m_hash m \<noteq> ?h" if "m \<in> set ms" "?h \<noteq> []" for m using False that by (auto simp: list_ex_iff)
    have "map (\<lambda>m. credited now (heard (m_hash m) ps) m) ms = map (\<lambda>m. credited now (heard (m_hash m) (p # ps)) m) ms"
      using new by (intro map_cong refl) (metis heard_simps(2))
    moreover have "fresh (set (hashes ms)) (p # ps) = (p, heard ?h ps) # fresh (set (hashes ?ms)) ps"
    proof -
      have "fresh (insert ?h (set (hashes ms))) ps = fresh (set (hashes ?ms)) ps" unfolding eq by (rule fresh_cong) auto
      moreover have "\<not> (?h \<noteq> [] \<and> ?h \<in> set (hashes ms))" using False hash_in_hashes by blast
      ultimately show ?thesis by auto
    qed
    ultimately show ?thesis using Cons.IH [OF d] unfolding foldl_Cons by (simp add: eq)
  qed
qed simp

lemma made_shown: "l_payload p \<noteq> None \<Longrightarrow> shown_as now toISO (p, later) (credited now later (made now toISO p))"
proof -
  assume "l_payload p \<noteq> None"
  then obtain q where q: "l_payload p = Some q" by blast
  obtain s t where st: "sender_text q = (s, t)" by fastforce
  have "speaks q s t"
  proof (cases "index_of '': '' (p_text q)")
    case None
    with st show ?thesis by (auto simp: sender_text_def speaks_def str_or_def Let_def split: if_splits)
  next
    case (Some k)
    with index_of_Some_split [OF Some] st show ?thesis
      by (auto simp: sender_text_def speaks_def str_or_def Let_def split: if_splits)
  qed
  then show ?thesis
    by (cases later) (auto simp: shown_as_def made_def q st new_message_def credited_def hear_def)
qed

lemma fresh_shown:
  "\<forall>p\<in>set ps. l_payload p \<noteq> None \<Longrightarrow>
   list_all2 (shown_as now toISO) (fresh known ps) (map (\<lambda>(p, later). credited now later (made now toISO p)) (fresh known ps))"
  by (induction ps arbitrary: known) (simp_all add: made_shown)

lemma process_all_fold:
  "process_all now toISO regions seen dirty ms st = (dirty', st') \<Longrightarrow> c_selected st \<noteq> [] \<Longrightarrow>
   c_messages st' = foldl (\<lambda>ms p. add_message now (pkt_hash p) (msg_observer p) (made now toISO p) ms) (c_messages st)
     (filter (\<lambda>m. accepted st regions m \<and> msg_key m = c_selected st) ms)"
proof (induction now toISO regions seen dirty ms st rule: process_all.induct)
  case (2 now toISO regions seen dirty m ms st)
  show ?case
  proof (cases "accepted st regions m")
    case True
    from accepted_payload [OF True] obtain q where q: "l_payload m = Some q" by blast
    have "c_messages (process_one now toISO f m st) =
        (if msg_key m = c_selected st then add_message now (pkt_hash m) (msg_observer m) (made now toISO m) (c_messages st)
         else c_messages st)" for f
      using "2.prems"(2) by (simp add: process_one_def made_def q Let_def split: prod.split)
    with "2.IH"(1) [OF True] "2.prems" True show ?thesis by simp
  next
    case False
    with "2.IH"(2) [OF False] "2.prems" show ?thesis by simp
  qed
qed simp

text \<open>
  C10: A live batch and the open chat.  In every state that calls, batches and replies in any order lead to, the open chat
  shows no packet twice and the list no channel twice, provided the server's own lists name each once.  A
  batch loses nothing and credits the right message: of the accepted packets of the open channel, those with the
  hash of a message already shown are counted as repeats of that message and add their observers to it, and it is
  otherwise unchanged; every other packet is shown below, in order, as one new message with its own sender,
  text, hash and observers, once for all packets of the batch with its hash.
\<close>

theorem live_batch_complete:
  assumes "list_all event_ok es" "st = chat_run toISO es" "c_selected st \<noteq> []"
    and "ps = filter (\<lambda>m. accepted st regions m \<and> msg_key m = c_selected st) msgs"
    and "st' = chat_step toISO st (Batch now regions msgs)"
  shows "chat_ok st \<and> chat_ok st' \<and>
    packet_count (c_messages st') = packet_count (c_messages st) + length ps \<and>
    (\<exists>new. c_messages st' = map (\<lambda>m. credited now (heard (m_hash m) ps) m) (c_messages st) @ new \<and>
       list_all2 (shown_as now toISO) (fresh (set (hashes (c_messages st))) ps) new)"
proof -
  have ok: "chat_ok st" using chat_run_ok [OF assms(1)] assms(2) by simp
  obtain dirty st1 where p: "process_all now toISO regions [] False msgs st = (dirty, st1)" by fastforce
  have m: "c_messages st' = c_messages st1" by (simp add: assms(5) processWSBatch_def p)
  have d: "distinct (hashes (c_messages st))" using ok by (simp add: chat_ok_def)
  let ?new = "map (\<lambda>(p, later). credited now later (made now toISO p)) (fresh (set (hashes (c_messages st))) ps)"
  have "c_messages st' = map (\<lambda>m. credited now (heard (m_hash m) ps) m) (c_messages st) @ ?new"
    unfolding m process_all_fold [OF p assms(3)] assms(4) by (rule add_messages [OF d])
  moreover have "list_all2 (shown_as now toISO) (fresh (set (hashes (c_messages st))) ps) ?new"
    by (rule fresh_shown) (auto simp: assms(4) dest: accepted_payload)
  moreover have "packet_count (c_messages st') = packet_count (c_messages st) + length ps"
    using process_all_messages [OF p] assms(3) unfolding m assms(4) by simp
  moreover have "chat_ok st'" using batch_ok [OF ok] by (simp add: assms(5))
  ultimately show ?thesis using ok by blast
qed

definition demo_payload :: "string \<Rightarrow> payload" where
  "demo_payload t = \<lparr>p_channel = ''#test'', p_channelKey = [], p_text = t, p_sender = [], p_SNR = JNull,
     p_sender_timestamp = JNull, p_path_len = JNull\<rparr>"

definition demo_live :: "string \<Rightarrow> string \<Rightarrow> string \<Rightarrow> live_msg" where
  "demo_live h t ob = \<lparr>l_type = ''packet'', l_payloadTypeName = ''GRP_TXT'', l_payload = Some (demo_payload t), l_hash = h,
     l_pk_hash = [], l_id = JNull, l_snr = JNull, l_pk_snr = JNull, l_observer_id = [], l_pk_observer_id = [],
     l_observer_name = [], l_pk_observer_name = ob, l_observer = []\<rparr>"

definition demo_chat :: "chat_event list" where
  "demo_chat = [Select ''#test'' [], Batch 1000 None [demo_live ''aa'' ''Bob: hi'' ''north'']]"

definition demo_batch :: "live_msg list" where
  "demo_batch = [demo_live ''aa'' ''Bob: hi'' ''south'', demo_live ''bb'' ''Al: yo'' ''north'']"

lemma live_batch_complete_witness:
  "packet_count (c_messages (chat_step (\<lambda>_. []) (chat_run (\<lambda>_. []) demo_chat) (Batch 1300 None demo_batch))) = 3 \<and>
   map m_repeats (c_messages (chat_step (\<lambda>_. []) (chat_run (\<lambda>_. []) demo_chat) (Batch 1300 None demo_batch))) = [2, 1]"
proof -
  let ?st = "chat_run (\<lambda>_. []) demo_chat"
  have a: "list_all event_ok demo_chat" "c_selected ?st \<noteq> []" by code_simp+
  have c: "filter (\<lambda>m. accepted ?st None m \<and> msg_key m = c_selected ?st) demo_batch = demo_batch" by code_simp
  have b: "packet_count (c_messages ?st) = 1" "length demo_batch = 2"
    "map (\<lambda>m. m_repeats (credited 1300 (heard (m_hash m) demo_batch) m)) (c_messages ?st) = [2]" by code_simp+
  have f: "fresh (set (hashes (c_messages ?st))) demo_batch = [(demo_live ''bb'' ''Al: yo'' ''north'', [])]" by code_simp
  from live_batch_complete [where regions = None and msgs = demo_batch and now = 1300, OF a(1) refl a(2) refl refl] b show ?thesis
    unfolding c f by (auto simp: list_all2_Cons1 shown_as_def o_def)
qed

lemma counts_after:
  assumes "chat_ok st" "\<forall>m\<in>set msgs. CHR '':'' \<notin> set (pkt_hash m)"
  shows "count_of k (c_channels (processWSBatch now toISO regions msgs st)) =
    count_of k (c_channels st) + card (pkt_hash ` hashed_for st regions k msgs)"
proof -
  obtain dirty st' where p: "process_all now toISO regions [] False msgs st = (dirty, st')" by fastforce
  have inj: "\<forall>m\<in>set msgs. \<forall>m'\<in>set msgs. first_key m = first_key m' \<longrightarrow> msg_key m = msg_key m'"
  proof (intro ballI impI)
    fix m m' assume m: "m \<in> set msgs" "m' \<in> set msgs" "first_key m = first_key m'"
    have "takeWhile (\<lambda>c. c \<noteq> CHR '':'') (pkt_hash x @ '':'' @ r) = pkt_hash x" if "x \<in> set msgs" for x r
      using assms(2) that by (subst takeWhile_append2) auto
    with m have "pkt_hash m = pkt_hash m'" unfolding first_key_def by metis
    with m(3) show "msg_key m = msg_key m'" by (simp add: first_key_def)
  qed
  from process_all_counts [OF p inj, of k]
  have c: "count_of k (c_channels st') = count_of k (c_channels st) + card (first_key ` hashed_for st regions k msgs)" by simp
  have "first_key ` hashed_for st regions k msgs = (\<lambda>h. h @ '':'' @ k) ` pkt_hash ` hashed_for st regions k msgs"
    by (force simp: hashed_for_def first_key_def)
  moreover have "inj (\<lambda>h. h @ '':'' @ k)" by (simp add: inj_def)
  ultimately have "card (first_key ` hashed_for st regions k msgs) = card (pkt_hash ` hashed_for st regions k msgs)"
    by (simp add: card_image inj_on_subset)
  moreover have "count_of k (c_channels (processWSBatch now toISO regions msgs st)) = count_of k (c_channels st')"
    using process_all_ok [OF p assms(1)]
    by (simp add: processWSBatch_def p count_of_def chat_ok_def find_js_sort)
  ultimately show ?thesis using c by simp
qed

text \<open>C13: A batch raises the count of a channel by the number of different hashes it brings for it.  Later batches do
  not remember these hashes: when the same packets arrive again, from other observers, they are counted again.\<close>

theorem channel_counts:
  assumes "list_all event_ok es" "st = chat_run toISO es" "\<forall>m\<in>set msgs. CHR '':'' \<notin> set (pkt_hash m)"
  shows "count_of k (c_channels (processWSBatch now toISO regions msgs st)) =
      count_of k (c_channels st) + card (pkt_hash ` hashed_for st regions k msgs) \<and>
    count_of k (c_channels (processWSBatch now' toISO regions msgs (processWSBatch now toISO regions msgs st))) =
      count_of k (c_channels st) + 2 * card (pkt_hash ` hashed_for st regions k msgs)"
proof -
  have ok: "chat_ok st" using chat_run_ok [OF assms(1)] assms(2) by simp
  have h: "hashed_for (processWSBatch now toISO regions msgs st) = hashed_for st"
    by (simp add: hashed_for_def accepted_def fun_eq_iff)
  from counts_after [OF ok assms(3)] counts_after [OF batch_ok [OF ok] assms(3)] h show ?thesis by simp
qed

lemma channel_counts_witness:
  "count_of ''#test'' (c_channels (processWSBatch 2000 (\<lambda>_. []) None demo_batch
     (processWSBatch 1300 (\<lambda>_. []) None demo_batch (chat_run (\<lambda>_. []) demo_chat)))) = 5"
proof -
  have a: "list_all event_ok demo_chat" "\<forall>m\<in>set demo_batch. CHR '':'' \<notin> set (pkt_hash m)" by code_simp+
  have b: "count_of ''#test'' (c_channels (chat_run (\<lambda>_. []) demo_chat)) = 1" by code_simp
  have "card (pkt_hash ` hashed_for (chat_run (\<lambda>_. []) demo_chat) None ''#test'' demo_batch) = 2"
    unfolding hashed_for_def by code_simp
  with channel_counts [OF a(1) refl a(2), of "''#test''" 1300 "\<lambda>_. []" None 2000] b show ?thesis by simp
qed



end
